(* ===== verification/Prelude.thy ===== *)
theory Prelude
  imports Main "HOL-Library.Finite_Map" "HOL-Library.Char_ord" "HOL-Library.List_Lexorder"
begin

text \<open>
  Shared vocabulary of the development: the result type of fallible Rust code, the
  iterator combinators the sources use, ASCII character classes, and the generic lemmas
  on lists, association lists and finite maps the components share.

  \<^item> A Rust \<open>Result<T, E>\<close> is \<open>'e + 'a\<close> with \<open>Inl\<close> for \<open>Err\<close>.
  \<^item> Code that may also panic returns \<open>'e fault + 'a\<close>: \<open>Panicked\<close> for a panic
    (a failed \<open>assert!\<close>, an \<open>unwrap\<close> of nothing, an arithmetic overflow under
    overflow checks), \<open>Raised\<close> for an \<open>Err\<close>.
  \<^item> A \<open>HashMap\<close> that is only looked up is a finite map. One that is iterated is an
    association list with distinct keys whose order is the (unspecified) iteration order;
    the theorems hold for every such list.
\<close>

named_theorems result_simps \<open>computation rules of the result combinators\<close>
named_theorems cache_simps \<open>lookup rules of the caches\<close>
named_theorems inv_intros \<open>preservation of component invariants\<close>

section \<open>Results and panics\<close>

datatype 'e fault = Panicked string | Raised 'e

type_synonym ('e, 'a) result = "'e + 'a"

definition bind_result :: "('e + 'a) \<Rightarrow> ('a \<Rightarrow> 'e + 'b) \<Rightarrow> 'e + 'b" where
  "bind_result r f = (case r of Inl e \<Rightarrow> Inl e | Inr x \<Rightarrow> f x)"

lemma bind_result_simps [simp, result_simps]:
  "bind_result (Inl e) f = Inl e"
  "bind_result (Inr x) f = f x"
  by (simp_all add: bind_result_def)

lemma bind_result_eq_Inr [result_simps]:
  "bind_result r f = Inr y \<longleftrightarrow> (\<exists>x. r = Inr x \<and> f x = Inr y)"
  by (cases r) simp_all

lemma bind_result_eq_Inl [result_simps]:
  "bind_result r f = Inl e \<longleftrightarrow> r = Inl e \<or> (\<exists>x. r = Inr x \<and> f x = Inl e)"
  by (cases r) simp_all

lemma bind_result_cong [fundef_cong]:
  assumes "r = r'" and "\<And>x. r' = Inr x \<Longrightarrow> f x = g x"
  shows "bind_result r f = bind_result r' g"
  using assms by (cases r') simp_all

definition map_err :: "('e \<Rightarrow> 'f) \<Rightarrow> 'e + 'a \<Rightarrow> 'f + 'a" where
  "map_err f r = (case r of Inl e \<Rightarrow> Inl (f e) | Inr x \<Rightarrow> Inr x)"

lemma map_err_simps [simp, result_simps]:
  "map_err f (Inl e) = Inl (f e)"
  "map_err f (Inr x) = Inr x"
  by (simp_all add: map_err_def)

definition is_ok :: "'e + 'a \<Rightarrow> bool" where
  "is_ok r = (case r of Inl _ \<Rightarrow> False | Inr _ \<Rightarrow> True)"

lemma is_ok_simps [simp, result_simps]:
  "is_ok (Inl e) = False"
  "is_ok (Inr x) = True"
  by (simp_all add: is_ok_def)

definition ok_or :: "'e \<Rightarrow> 'a option \<Rightarrow> 'e + 'a" where
  "ok_or e x = (case x of None \<Rightarrow> Inl e | Some y \<Rightarrow> Inr y)"

lemma ok_or_simps [simp, result_simps]:
  "ok_or e None = Inl e"
  "ok_or e (Some y) = Inr y"
  by (simp_all add: ok_or_def)

text \<open>\<open>iter().map(f).collect::<Result<Vec<_>, _>>()\<close>: stops at the first error.\<close>

fun try_map :: "('a \<Rightarrow> 'e + 'b) \<Rightarrow> 'a list \<Rightarrow> 'e + 'b list" where
  "try_map f [] = Inr []"
| "try_map f (x # xs) =
     (case f x of
        Inl e \<Rightarrow> Inl e
      | Inr y \<Rightarrow> (case try_map f xs of Inl e \<Rightarrow> Inl e | Inr ys \<Rightarrow> Inr (y # ys)))"

lemma try_map_Inr_iff:
  "try_map f xs = Inr ys \<longleftrightarrow> list_all2 (\<lambda>x y. f x = Inr y) xs ys"
proof (induction xs arbitrary: ys)
  case Nil
  then show ?case by (cases ys) auto
next
  case (Cons x xs)
  then show ?case
    by (cases ys) (auto split: sum.splits simp: Cons.IH [symmetric])
qed

lemma try_map_Inl_ex: "try_map f xs = Inl e \<Longrightarrow> \<exists>x \<in> set xs. f x = Inl e"
  by (induction xs) (auto split: sum.splits)

lemma try_map_is_ok: "is_ok (try_map f xs) \<longleftrightarrow> (\<forall>x \<in> set xs. is_ok (f x))"
  by (induction xs) (auto split: sum.splits)

lemma try_map_cong [fundef_cong]:
  "xs = ys \<Longrightarrow> (\<And>x. x \<in> set ys \<Longrightarrow> f x = g x) \<Longrightarrow> try_map f xs = try_map g ys"
  by (induction xs arbitrary: ys) (auto split: sum.splits)

text \<open>A \<open>for\<close> loop whose body may fail with \<open>?\<close>.\<close>

fun try_fold :: "('s \<Rightarrow> 'a \<Rightarrow> 'e + 's) \<Rightarrow> 's \<Rightarrow> 'a list \<Rightarrow> 'e + 's" where
  "try_fold f s [] = Inr s"
| "try_fold f s (x # xs) = (case f s x of Inl e \<Rightarrow> Inl e | Inr s' \<Rightarrow> try_fold f s' xs)"

lemma try_fold_append:
  "try_fold f s (xs @ ys) = bind_result (try_fold f s xs) (\<lambda>s'. try_fold f s' ys)"
  by (induction xs arbitrary: s) (auto split: sum.splits)

lemma try_fold_invariant:
  assumes "\<And>s x s'. P s \<Longrightarrow> x \<in> set xs \<Longrightarrow> f s x = Inr s' \<Longrightarrow> P s'"
    and "P s" and "try_fold f s xs = Inr s'"
  shows "P s'"
  using assms
proof (induction xs arbitrary: s)
  case Nil
  then show ?case by simp
next
  case (Cons x xs)
  from Cons.prems(3) obtain t where t: "f s x = Inr t" and rest: "try_fold f t xs = Inr s'"
    by (auto split: sum.splits)
  have "P t" using Cons.prems(1) [OF Cons.prems(2) _ t] by simp
  moreover have "\<And>s y s'. P s \<Longrightarrow> y \<in> set xs \<Longrightarrow> f s y = Inr s' \<Longrightarrow> P s'"
    using Cons.prems(1) by (meson list.set_intros(2))
  ultimately show ?case using rest Cons.IH by blast
qed

text \<open>A loop whose body always succeeds, and what every iteration leaves behind.\<close>

lemma try_fold_collect:
  assumes "\<And>s x. P s \<Longrightarrow> x \<in> set xs \<Longrightarrow> \<exists>s'. f s x = Inr s' \<and> P s' \<and> M s \<subseteq> M s' \<and> Q x \<subseteq> M s'"
    and "P s"
  shows "\<exists>s'. try_fold f s xs = Inr s' \<and> P s' \<and> M s \<subseteq> M s' \<and> (\<forall>x \<in> set xs. Q x \<subseteq> M s')"
  using assms
proof (induction xs arbitrary: s)
  case Nil
  then show ?case by auto
next
  case (Cons x xs)
  obtain t where t: "f s x = Inr t" "P t" "M s \<subseteq> M t" "Q x \<subseteq> M t"
    using Cons.prems(1) [OF Cons.prems(2), of x] by auto
  moreover obtain s' where "try_fold f t xs = Inr s'" "P s'" "M t \<subseteq> M s'" "\<forall>x \<in> set xs. Q x \<subseteq> M s'"
    using Cons.IH [OF _ t(2)] Cons.prems(1) by (metis list.set_intros(2))
  ultimately show ?case by auto
qed

section \<open>Characters and strings\<close>

text \<open>A Rust \<open>String\<close> is the list of its UTF-8 bytes, so \<open>length\<close> is \<open>len()\<close>. A
  test on \<open>chars()\<close> for an ASCII class is the same test on the bytes: every byte of a
  multi-byte character is at least 128 and in no ASCII class.\<close>

definition is_ascii_digit :: "char \<Rightarrow> bool" where
  "is_ascii_digit c \<longleftrightarrow> (48::nat) \<le> of_char c \<and> of_char c \<le> (57::nat)"

definition is_ascii_lowercase :: "char \<Rightarrow> bool" where
  "is_ascii_lowercase c \<longleftrightarrow> (97::nat) \<le> of_char c \<and> of_char c \<le> (122::nat)"

definition is_ascii_uppercase :: "char \<Rightarrow> bool" where
  "is_ascii_uppercase c \<longleftrightarrow> (65::nat) \<le> of_char c \<and> of_char c \<le> (90::nat)"

definition is_ascii_alphabetic :: "char \<Rightarrow> bool" where
  "is_ascii_alphabetic c \<longleftrightarrow> is_ascii_lowercase c \<or> is_ascii_uppercase c"

definition is_ascii_alphanumeric :: "char \<Rightarrow> bool" where
  "is_ascii_alphanumeric c \<longleftrightarrow> is_ascii_alphabetic c \<or> is_ascii_digit c"

lemmas ascii_defs =
  is_ascii_digit_def is_ascii_lowercase_def is_ascii_uppercase_def
  is_ascii_alphabetic_def is_ascii_alphanumeric_def

text \<open>\<open>str::split(sep)\<close>: one part more than there are separators.\<close>

fun split_on :: "char \<Rightarrow> string \<Rightarrow> string list" where
  "split_on sep [] = [[]]"
| "split_on sep (c # cs) =
     (if c = sep then [] # split_on sep cs
      else (case split_on sep cs of [] \<Rightarrow> [[c]] | p # ps \<Rightarrow> (c # p) # ps))"

lemma split_on_nonempty [simp]: "split_on sep s \<noteq> []"
  by (induction s) (auto split: list.splits)

lemma split_on_parts: "p \<in> set (split_on sep s) \<Longrightarrow> sep \<notin> set p \<and> set p \<subseteq> set s"
proof (induction s arbitrary: p)
  case Nil
  then show ?case by simp
next
  case (Cons c cs)
  obtain q qs where q: "split_on sep cs = q # qs"
    by (cases "split_on sep cs") simp_all
  show ?case
    using Cons.prems Cons.IH q by (cases "c = sep") force+
qed

text \<open>\<open>[String]::join(sep)\<close>.\<close>

fun join_with :: "string \<Rightarrow> string list \<Rightarrow> string" where
  "join_with sep [] = []"
| "join_with sep [x] = x"
| "join_with sep (x # y # ys) = x @ sep @ join_with sep (y # ys)"

lemma join_split_on: "join_with [sep] (split_on sep s) = s"
proof (induction s)
  case Nil
  then show ?case by simp
next
  case (Cons c cs)
  obtain q qs where q: "split_on sep cs = q # qs"
    by (cases "split_on sep cs") simp_all
  show ?case
    using Cons.IH q by (cases qs) auto
qed

text \<open>\<open>str::trim_start_matches(pat)\<close>: strips every leading occurrence of the pattern.\<close>

function trim_start_matches :: "string \<Rightarrow> string \<Rightarrow> string" where
  "trim_start_matches pat s =
     (if pat \<noteq> [] \<and> length pat \<le> length s \<and> take (length pat) s = pat
      then trim_start_matches pat (drop (length pat) s) else s)"
  by pat_completeness auto
termination
  by (relation "measure (\<lambda>(pat, s). length s)")
    (auto simp: diff_less dest: less_le_trans [rotated])

declare trim_start_matches.simps [simp del]

lemma trim_start_matches_id:
  "take (length pat) s \<noteq> pat \<Longrightarrow> trim_start_matches pat s = s"
  by (subst trim_start_matches.simps) simp

lemma trim_start_matches_prefix:
  "pat \<noteq> [] \<Longrightarrow> trim_start_matches pat (pat @ s) = trim_start_matches pat s"
  by (subst trim_start_matches.simps) simp

section \<open>Lists and association lists\<close>

text \<open>\<open>iter().filter_map(f)\<close> is \<open>List.map_filter\<close>, \<open>iter().find(p)\<close> is \<open>List.find\<close>,
  \<open>find_map(f)\<close> is the following.\<close>

fun find_map :: "('a \<Rightarrow> 'b option) \<Rightarrow> 'a list \<Rightarrow> 'b option" where
  "find_map f [] = None"
| "find_map f (x # xs) = (case f x of Some y \<Rightarrow> Some y | None \<Rightarrow> find_map f xs)"

lemma find_map_Some: "find_map f xs = Some y \<Longrightarrow> \<exists>x \<in> set xs. f x = Some y"
  by (induction xs) (auto split: option.splits)

lemma find_map_None: "find_map f xs = None \<longleftrightarrow> (\<forall>x \<in> set xs. f x = None)"
  by (induction xs) (auto split: option.splits)

lemma set_map_filter_iff: "y \<in> set (List.map_filter f xs) \<longleftrightarrow> (\<exists>x \<in> set xs. f x = Some y)"
  by (induction xs) (auto simp: List.map_filter_def)

lemma find_eq_None: "List.find P xs = None \<longleftrightarrow> (\<forall>x \<in> set xs. \<not> P x)"
  by (induction xs) auto

lemma find_eq_SomeD: "List.find P xs = Some x \<Longrightarrow> x \<in> set xs \<and> P x"
  by (induction xs) (auto split: if_splits)

text \<open>\<open>entry(k).or_default().push(v)\<close> and its siblings: insert or change in place.\<close>

fun al_upsert :: "'k \<Rightarrow> ('v option \<Rightarrow> 'v) \<Rightarrow> ('k \<times> 'v) list \<Rightarrow> ('k \<times> 'v) list" where
  "al_upsert k f [] = [(k, f None)]"
| "al_upsert k f ((k', v) # xs) =
     (if k' = k then (k, f (Some v)) # xs else (k', v) # al_upsert k f xs)"

lemma map_of_al_upsert [simp]:
  "map_of (al_upsert k f xs) = (map_of xs)(k \<mapsto> f (map_of xs k))"
  by (induction xs) (auto simp: fun_eq_iff)

lemma keys_al_upsert: "fst ` set (al_upsert k f xs) = insert k (fst ` set xs)"
proof (induction xs)
  case Nil
  then show ?case by simp
next
  case (Cons p xs)
  then show ?case by (cases p) (simp add: insert_commute)
qed

lemma distinct_al_upsert [simp]:
  "distinct (map fst xs) \<Longrightarrow> distinct (map fst (al_upsert k f xs))"
proof (induction xs)
  case Nil
  then show ?case by simp
next
  case (Cons p xs)
  obtain k' v where p: "p = (k', v)" by (cases p)
  have "set (map fst (al_upsert k f xs)) = insert k (set (map fst xs))"
    using keys_al_upsert [of k f xs] by simp
  with Cons p show ?case by auto
qed

text \<open>The same on a \<open>BTreeMap\<close>, an association list in strictly increasing key order.\<close>

fun bt_upsert :: "'k::linorder \<Rightarrow> ('v option \<Rightarrow> 'v) \<Rightarrow> ('k \<times> 'v) list \<Rightarrow> ('k \<times> 'v) list" where
  "bt_upsert k f [] = [(k, f None)]"
| "bt_upsert k f ((k', v) # xs) =
     (if k' = k then (k, f (Some v)) # xs
      else if k < k' then (k, f None) # (k', v) # xs
      else (k', v) # bt_upsert k f xs)"

abbreviation btree :: "('k::linorder \<times> 'v) list \<Rightarrow> bool" where
  "btree xs \<equiv> sorted_wrt (<) (map fst xs)"

lemma keys_bt_upsert: "fst ` set (bt_upsert k f xs) = insert k (fst ` set xs)"
proof (induction xs)
  case Nil
  then show ?case by simp
next
  case (Cons p xs)
  then show ?case by (cases p) (auto simp: insert_commute)
qed

lemma btree_bt_upsert: "btree xs \<Longrightarrow> btree (bt_upsert k f xs)"
proof (induction xs)
  case Nil
  then show ?case by simp
next
  case (Cons p xs)
  obtain k' v where p: "p = (k', v)" by (cases p)
  have "set (map fst (bt_upsert k f xs)) = insert k (set (map fst xs))"
    using keys_bt_upsert [of k f xs] by simp
  with Cons p show ?case by auto
qed

lemma map_of_bt_upsert:
  "btree xs \<Longrightarrow> map_of (bt_upsert k f xs) = (map_of xs)(k \<mapsto> f (map_of xs k))"
proof (induction xs)
  case Nil
  then show ?case by simp
next
  case (Cons p xs)
  obtain k' v where p: "p = (k', v)" by (cases p)
  have "k < k' \<Longrightarrow> k \<notin> fst ` set xs" using Cons.prems p by auto
  then have "k < k' \<Longrightarrow> map_of xs k = None" by (simp add: map_of_eq_None_iff)
  with Cons p show ?case by (auto simp: fun_eq_iff)
qed

lemma btree_distinct: "btree xs \<Longrightarrow> distinct (map fst xs)"
  by (simp add: strict_sorted_iff)

section \<open>Finite maps\<close>

lemma fmlookup_fold_upd_notin:
  "k \<notin> fst ` set xs \<Longrightarrow> fmlookup (fold (\<lambda>(k, v) m. fmupd k v m) xs m) k = fmlookup m k"
  by (induction xs arbitrary: m) auto

lemma sorted_distinct_sorted_list_of_fset [simp]:
  "sorted (sorted_list_of_fset A)" "distinct (sorted_list_of_fset A)"
  by (simp_all add: sorted_list_of_fset.rep_eq)

lemma distinct_sorted_list_of_fmap [simp]: "distinct (map fst (sorted_list_of_fmap m))"
  unfolding sorted_list_of_fmap_def by (simp add: comp_def)

lemma sorted_sorted_list_of_fmap [simp]: "sorted (map fst (sorted_list_of_fmap m))"
  unfolding sorted_list_of_fmap_def by (simp add: comp_def)

end
