(* ===== verification/Scalar.thy ===== *)
theory Scalar
  imports Prelude "HOL-Library.Word"
begin

text \<open>
  Custom scalars of the entity store, after \<open>massbit/src/data/store/scalar.rs\<close>.

  A \<open>num_bigint::BigInt\<close> is an \<open>int\<close>, a \<open>bigdecimal::BigDecimal\<close> the pair of its
  \<open>int_val\<close> and \<open>scale\<close> (standing for \<open>int_val * 10 ^ (-scale)\<close>), a \<open>U256\<close> a
  256-bit word. The crates' own conversions (\<open>to_bytes_le\<close>, \<open>to_radix_be\<close>,
  \<open>with_prec\<close>, \<open>hex::encode\<close>, ...) are fields of the record \<open>num_ops\<close>, an argument
  of every definition that calls them; the locale \<open>num_crate\<close> states what their
  documentation promises. A scale is an \<open>i64\<close>: an \<open>int\<close>, with the range checked where the code or
  the crate computes on it, and \<open>None\<close> where it overflows (a panic in a build with overflow checks).
\<close>

unbundle bit_operations_syntax

type_synonym u8 = "8 word"
type_synonym i32 = "32 word"
type_synonym u64 = "64 word"
type_synonym U256 = "256 word"

datatype big_int_sign = Minus | NoSign | Plus

datatype big_int_out_of_range_error = Negative | Overflow

record big_decimal =
  int_val :: int
  bd_scale :: int

text \<open>The conversions of the number and hex crates the scalars call.\<close>

record num_ops =
  to_bytes_le :: "int \<Rightarrow> big_int_sign \<times> u8 list"
  from_bytes_le :: "big_int_sign \<Rightarrow> u8 list \<Rightarrow> int"
  to_signed_bytes_le :: "int \<Rightarrow> u8 list"
  from_signed_bytes_le :: "u8 list \<Rightarrow> int"
  u256_to_little_endian :: "U256 \<Rightarrow> u8 list"
  u256_from_little_endian :: "u8 list \<Rightarrow> U256 option"
  to_radix_be :: "int \<Rightarrow> big_int_sign \<times> nat list"
  from_radix_be :: "big_int_sign \<Rightarrow> nat list \<Rightarrow> int option"
  with_prec :: "big_decimal \<Rightarrow> nat \<Rightarrow> big_decimal option"
  hex_encode :: "u8 list \<Rightarrow> string"
  hex_decode :: "string \<Rightarrow> string + u8 list"

section \<open>BigDecimal\<close>

definition MAX_SIGNFICANT_DIGITS :: nat where
  "MAX_SIGNFICANT_DIGITS = 34"

definition bd_zero :: big_decimal where
  "bd_zero = \<lparr>int_val = 0, bd_scale = 0\<rparr>"

text \<open>The number a decimal stands for; equality of decimals in the crate is equality of it.\<close>

definition bd_value :: "big_decimal \<Rightarrow> rat" where
  "bd_value d = of_int (int_val d) * 10 powi (- bd_scale d)"

definition i64_range :: "int \<Rightarrow> bool" where
  "i64_range n \<longleftrightarrow> - (2 ^ 63) \<le> n \<and> n < 2 ^ 63"

definition i64_checked :: "int \<Rightarrow> int option" where
  "i64_checked n = (if i64_range n then Some n else None)"

definition bd_normalized :: "num_ops \<Rightarrow> big_decimal \<Rightarrow> big_decimal option" where
  "bd_normalized N d =
     (if int_val d = 0 then Some bd_zero
      else
        Option.bind (with_prec N d MAX_SIGNFICANT_DIGITS) (\<lambda>b.
        let (sign, digits) = to_radix_be N (int_val b);
            trailing_count = length (takeWhile (\<lambda>i. i = 0) (rev digits));
            digits' = take (length digits - trailing_count) digits
        in Option.bind (from_radix_be N sign digits') (\<lambda>n.
           map_option (\<lambda>scale. \<lparr>int_val = n, bd_scale = scale\<rparr>)
             (i64_checked (bd_scale b - int trailing_count)))))"

definition bd_from :: "num_ops \<Rightarrow> big_decimal \<Rightarrow> big_decimal option" where
  "bd_from N d = bd_normalized N d"

definition bd_new :: "num_ops \<Rightarrow> int \<Rightarrow> int \<Rightarrow> big_decimal option" where
  "bd_new N digits exp =
     Option.bind (i64_checked (- exp)) (\<lambda>scale. bd_from N \<lparr>int_val = digits, bd_scale = scale\<rparr>)"

section \<open>BigInt\<close>

fun le_accumulate :: "u64 \<Rightarrow> nat \<Rightarrow> u8 list \<Rightarrow> u64" where
  "le_accumulate n shift_dist [] = n"
| "le_accumulate n shift_dist (b # bs) =
     le_accumulate ((push_bit shift_dist (ucast b)) OR n) (shift_dist + 8) bs"

definition big_int_try_into_u64 ::
  "num_ops \<Rightarrow> int \<Rightarrow> big_int_out_of_range_error + u64" where
  "big_int_try_into_u64 N value =
     (let (sign, bytes) = to_bytes_le N value
      in if sign = Minus then Inl Negative
         else if length bytes > 8 then Inl Overflow
         else Inr (le_accumulate 0 0 bytes))"

definition from_unsigned_bytes_le :: "num_ops \<Rightarrow> u8 list \<Rightarrow> int" where
  "from_unsigned_bytes_le N bytes = from_bytes_le N Plus bytes"

definition from_unsigned_u256 :: "num_ops \<Rightarrow> U256 \<Rightarrow> int" where
  "from_unsigned_u256 N n = from_unsigned_bytes_le N (u256_to_little_endian N n)"

definition from_signed_u256 :: "num_ops \<Rightarrow> U256 \<Rightarrow> int" where
  "from_signed_u256 N n = from_signed_bytes_le N (u256_to_little_endian N n)"

text \<open>\<open>None\<close> is the panic of the \<open>assert!\<close> or of \<open>U256::from_little_endian\<close>.\<close>

definition to_signed_u256 :: "num_ops \<Rightarrow> int \<Rightarrow> U256 option" where
  "to_signed_u256 N n =
     (let bytes = to_signed_bytes_le N n
      in if n < 0
         then (if length bytes \<le> 32
               then u256_from_little_endian N (bytes @ replicate (32 - length bytes) 255)
               else None)
         else u256_from_little_endian N bytes)"

definition to_unsigned_u256 :: "num_ops \<Rightarrow> int \<Rightarrow> U256 option" where
  "to_unsigned_u256 N n =
     (let (sign, bytes) = to_bytes_le N n
      in if sign = NoSign \<or> sign = Plus then u256_from_little_endian N bytes else None)"

text \<open>\<open>None\<close> is the panic on a zero divisor; \<open>num_bigint\<close> truncates towards zero.\<close>

definition big_int_div :: "int \<Rightarrow> int \<Rightarrow> int option" where
  "big_int_div a b =
     (if b = 0 then None else Some (sgn a * sgn b * (\<bar>a\<bar> div \<bar>b\<bar>)))"

section \<open>Bytes\<close>

definition bytes_to_string :: "num_ops \<Rightarrow> u8 list \<Rightarrow> string" where
  "bytes_to_string N bytes = ''0x'' @ hex_encode N bytes"

definition bytes_from_str :: "num_ops \<Rightarrow> string \<Rightarrow> string + u8 list" where
  "bytes_from_str N s = hex_decode N (trim_start_matches ''0x'' s)"

section \<open>What the crates promise\<close>

text \<open>The number a little-endian byte string or a big-endian digit string stands for.\<close>

fun le_value :: "u8 list \<Rightarrow> nat" where
  "le_value [] = 0"
| "le_value (b # bs) = unat b + 256 * le_value bs"

definition signed_le_value :: "u8 list \<Rightarrow> int" where
  "signed_le_value bs =
     int (le_value bs) - (if bs \<noteq> [] \<and> 128 \<le> unat (last bs) then 256 ^ length bs else 0)"

definition be_value :: "nat list \<Rightarrow> nat" where
  "be_value ds = foldl (\<lambda>n d. 10 * n + d) 0 ds"

definition sign_of :: "int \<Rightarrow> big_int_sign" where
  "sign_of n = (if n < 0 then Minus else if n = 0 then NoSign else Plus)"

definition with_sign :: "big_int_sign \<Rightarrow> nat \<Rightarrow> int" where
  "with_sign s n = (case s of Minus \<Rightarrow> - int n | NoSign \<Rightarrow> 0 | Plus \<Rightarrow> int n)"

definition is_hex_char :: "char \<Rightarrow> bool" where
  "is_hex_char c \<longleftrightarrow> c \<in> set ''0123456789abcdef''"

text \<open>The number of decimal digits of a number.\<close>

fun digit_count :: "nat \<Rightarrow> nat" where
  "digit_count n = (if n < 10 then 1 else Suc (digit_count (n div 10)))"

declare digit_count.simps [simp del]

definition bd_digits :: "big_decimal \<Rightarrow> nat" where
  "bd_digits d = digit_count (nat \<bar>int_val d\<bar>)"

text \<open>The decimals that can be rounded and stripped of zeros without leaving the range of the
  scale.\<close>

definition bd_in_range :: "big_decimal \<Rightarrow> bool" where
  "bd_in_range d \<longleftrightarrow> int_val d = 0 \<or>
     - (2 ^ 63) \<le> bd_scale d - int (bd_digits d) \<and>
     bd_scale d + int MAX_SIGNFICANT_DIGITS - int (bd_digits d) < 2 ^ 63"

text \<open>What a decimal is worth after the rounding that \<open>normalized\<close> starts with.\<close>

definition bd_round :: "num_ops \<Rightarrow> big_decimal \<Rightarrow> rat" where
  "bd_round N d = (if int_val d = 0 then 0
     else case with_prec N d MAX_SIGNFICANT_DIGITS of Some b \<Rightarrow> bd_value b | None \<Rightarrow> 0)"

definition bd_canonical :: "big_decimal \<Rightarrow> bool" where
  "bd_canonical d \<longleftrightarrow> d = bd_zero \<or> int_val d mod 10 \<noteq> 0"

locale num_crate =
  fixes N :: num_ops
  assumes to_bytes_le: "snd (to_bytes_le N n) \<noteq> [] \<and> fst (to_bytes_le N n) = sign_of n \<and>
      le_value (snd (to_bytes_le N n)) = nat \<bar>n\<bar>"
    and to_bytes_le_minimal:
      "length (snd (to_bytes_le N n)) > 1 \<Longrightarrow> last (snd (to_bytes_le N n)) \<noteq> 0"
    and from_bytes_le: "from_bytes_le N s bs = with_sign s (le_value bs)"
    and to_signed_bytes_le: "signed_le_value (to_signed_bytes_le N n) = n"
    and to_signed_bytes_le_fits:
      "- (2 ^ 255) \<le> n \<Longrightarrow> n < 2 ^ 255 \<Longrightarrow> length (to_signed_bytes_le N n) \<le> 32"
    and from_signed_bytes_le: "from_signed_bytes_le N bs = signed_le_value bs"
    and u256_to_le: "length (u256_to_little_endian N w) = 32 \<and>
      le_value (u256_to_little_endian N w) = unat w"
    and u256_from_le: "u256_from_little_endian N bs =
      (if length bs \<le> 32 then Some (of_nat (le_value bs)) else None)"
    and to_radix_be: "fst (to_radix_be N n) = sign_of n \<and>
      be_value (snd (to_radix_be N n)) = nat \<bar>n\<bar> \<and> (\<forall>d \<in> set (snd (to_radix_be N n)). d < 10)"
    and from_radix_be: "(\<forall>d \<in> set ds. d < 10) \<Longrightarrow>
      from_radix_be N s ds = Some (with_sign s (be_value ds))"
    and with_prec: "0 < p \<Longrightarrow> int_val d \<noteq> 0 \<Longrightarrow> i64_range (bd_scale d + int p - int (bd_digits d)) \<Longrightarrow>
      \<exists>b. with_prec N d p = Some b \<and> bd_scale b = bd_scale d + int p - int (bd_digits d) \<and>
        int_val b \<noteq> 0 \<and> \<bar>int_val b\<bar> \<le> 10 ^ p \<and> \<bar>bd_value b - bd_value d\<bar> < 10 powi (- bd_scale b) \<and>
        (bd_digits d \<le> p \<longrightarrow> bd_value b = bd_value d)"
    and hex_encode: "list_all is_hex_char (hex_encode N bs)"
    and hex_decode: "hex_decode N (hex_encode N bs) = Inr bs"

section \<open>Byte strings as numbers\<close>

lemma push_bit_or_nat:
  fixes m n :: nat
  assumes "n < 2 ^ sh"
  shows "push_bit sh m OR n = m * 2 ^ sh + n"
proof -
  have "take_bit sh n = n" using assms by (simp add: take_bit_nat_eq_self)
  then have "bit n k \<Longrightarrow> k < sh" for k
    by (metis bit_take_bit_iff)
  then have "push_bit sh m + n = push_bit sh m OR n"
    by (intro disjunctive_add) (force simp: bit_push_bit_iff)
  then show ?thesis by (simp add: push_bit_nat_def)
qed

lemma le_value_less: "le_value bs < 256 ^ length bs"
proof (induction bs)
  case Nil
  then show ?case by simp
next
  case (Cons b bs)
  have "unat b < 256" using unsigned_less [of b, where ?'a = nat] by simp
  with Cons show ?case by simp
qed

lemma le_value_append: "le_value (xs @ ys) = le_value xs + 256 ^ length xs * le_value ys"
  by (induction xs) (simp_all add: algebra_simps)

lemma le_value_last:
  assumes "bs \<noteq> []" and "last bs \<noteq> 0"
  shows "256 ^ (length bs - 1) \<le> le_value bs"
proof -
  obtain xs b where bs: "bs = xs @ [b]" using assms(1) by (metis rev_exhaust)
  then have "unat b \<ge> 1" using assms(2) by (simp add: Suc_leI unat_gt_0)
  then have "256 ^ length xs * 1 \<le> 256 ^ length xs * unat b" by (rule mult_le_mono2)
  then show ?thesis by (simp add: bs le_value_append trans_le_add2)
qed

lemma unat_le_accumulate_step:
  fixes n :: u64
  assumes "unat n < 2 ^ sh" and "sh + 8 \<le> 64"
  shows "unat (push_bit sh (ucast (b :: u8)) OR n) = unat b * 2 ^ sh + unat n"
proof -
  have b: "unat b < 256" using unsigned_less [of b, where ?'a = nat] by simp
  have "unat b * 2 ^ sh < 256 * 2 ^ sh" using b by simp
  also have "\<dots> = 2 ^ (sh + 8)" by (simp add: power_add)
  also have "\<dots> \<le> 2 ^ 64" using assms(2) by (intro power_increasing) simp_all
  finally have fits: "push_bit sh (unat b) < 2 ^ 64" by (simp add: push_bit_nat_def)
  have "unat (ucast b :: u64) = unat b"
    using b by (simp add: unsigned_ucast_eq take_bit_nat_eq_self)
  then have "unat (push_bit sh (ucast b :: u64)) = push_bit sh (unat b)"
    using fits by (simp add: unsigned_push_bit_eq take_bit_nat_eq_self)
  then show ?thesis using assms(1) by (simp add: unsigned_or_eq push_bit_or_nat)
qed

lemma unat_le_accumulate:
  assumes "unat n < 2 ^ sh" and "sh + 8 * length bs \<le> 64"
  shows "unat (le_accumulate n sh bs) = unat n + 2 ^ sh * le_value bs"
  using assms
proof (induction bs arbitrary: n sh)
  case Nil
  then show ?case by simp
next
  case (Cons b bs)
  let ?n = "push_bit sh (ucast b) OR n"
  have step: "unat ?n = unat b * 2 ^ sh + unat n"
    using Cons.prems by (intro unat_le_accumulate_step) simp_all
  have "unat b < 256" using unsigned_less [of b, where ?'a = nat] by simp
  then have "unat b * 2 ^ sh + unat n < (unat b + 1) * 2 ^ sh" and "unat b + 1 \<le> 256"
    using Cons.prems(1) by simp_all
  then have "unat ?n < 256 * 2 ^ sh"
    using step mult_le_mono1 [of "unat b + 1" 256 "2 ^ sh"] by linarith
  then have "unat ?n < 2 ^ (sh + 8)" by (simp add: power_add)
  moreover have "(sh + 8) + 8 * length bs \<le> 64" using Cons.prems(2) by simp
  ultimately have "unat (le_accumulate ?n (sh + 8) bs) = unat ?n + 2 ^ (sh + 8) * le_value bs"
    by (rule Cons.IH)
  also have "\<dots> = unat n + 2 ^ sh * (unat b + 256 * le_value bs)"
    unfolding step power_add by (simp only: distrib_left mult.assoc mult.left_commute) simp
  finally show ?case by simp
qed

lemma le_value_replicate_255:
  "le_value (replicate k 255) + 1 = 256 ^ k"
  by (induction k) (simp_all)

lemma le_value_top_bit:
  assumes "bs \<noteq> []"
  shows "128 \<le> unat (last bs) \<longleftrightarrow> 256 ^ length bs \<le> 2 * le_value bs"
proof -
  obtain xs b where bs: "bs = xs @ [b]" using assms by (metis rev_exhaust)
  have x: "le_value xs < 256 ^ length xs" by (rule le_value_less)
  have v: "2 * le_value bs = 2 * le_value xs + 256 ^ length xs * (2 * unat b)"
    by (simp add: bs le_value_append)
  have len: "256 ^ length bs = 256 ^ length xs * (256 :: nat)" by (simp add: bs)
  show ?thesis
  proof (cases "128 \<le> unat b")
    case True
    then have "256 ^ length xs * 256 \<le> 256 ^ length xs * (2 * unat b)" by simp
    then have "256 ^ length bs \<le> 2 * le_value bs" using v len by linarith
    then show ?thesis using True by (simp add: bs)
  next
    case False
    then have "256 ^ length xs * (2 * unat b + 2) \<le> 256 ^ length xs * (256 :: nat)" by simp
    then have "256 ^ length xs * (2 * unat b) + 256 ^ length xs * 2 \<le> 256 ^ length xs * (256 :: nat)"
      by (simp only: distrib_left)
    then have "2 * le_value bs < 256 ^ length bs" using v len x by linarith
    then show ?thesis using False by (simp add: bs)
  qed
qed

lemma signed_le_value_alt:
  assumes "bs \<noteq> []"
  shows "signed_le_value bs =
    int (le_value bs) - (if 256 ^ length bs \<le> 2 * le_value bs then 256 ^ length bs else 0)"
  using assms le_value_top_bit [OF assms] by (simp add: signed_le_value_def)

lemma mod_signed:
  fixes n M :: int
  assumes "- M \<le> 2 * n" and "2 * n < M"
  shows "n mod M = (if n < 0 then n + M else n)"
proof (cases "n < 0")
  case True
  have "n mod M = (n + M) mod M" by (simp only: mod_add_self2)
  also have "\<dots> = n + M" using True assms(1) by (intro mod_pos_pos_trivial) simp_all
  finally show ?thesis using True by simp
next
  case False
  then show ?thesis using assms(2) by (simp add: mod_pos_pos_trivial)
qed

lemma signed_le_value_of_mod:
  assumes ne: "bs \<noteq> []" and lo: "- (256 ^ length bs) \<le> 2 * n" and hi: "2 * n < 256 ^ length bs"
    and val: "int (le_value bs) = n mod 256 ^ length bs"
  shows "signed_le_value bs = n"
proof -
  define M :: nat where "M = 256 ^ length bs"
  have M: "256 ^ length bs = int M" by (simp add: M_def)
  have v: "int (le_value bs) = (if n < 0 then n + int M else n)"
    using val mod_signed [OF lo hi] unfolding M by (simp only:)
  have "int M \<le> 2 * int (le_value bs) \<longleftrightarrow> n < 0"
    using v lo hi unfolding M by (cases "n < 0") simp_all
  then have "M \<le> 2 * le_value bs \<longleftrightarrow> n < 0" by linarith
  then show ?thesis unfolding signed_le_value_alt [OF ne] M_def [symmetric] M using v by simp
qed

lemma sign_extend_negative:
  assumes "signed_le_value bs < 0"
  shows "int (le_value (bs @ replicate k 255)) = signed_le_value bs + 256 ^ (length bs + k)"
proof -
  define B :: int where "B = 256 ^ length bs"
  have neg: "int (le_value bs) = signed_le_value bs + B"
    using assms by (simp add: signed_le_value_def B_def split: if_splits)
  have "int (le_value (replicate k 255)) + 1 = 256 ^ k"
    using le_value_replicate_255 [of k] by (metis of_nat_1 of_nat_add of_nat_numeral of_nat_power)
  then have rep: "int (le_value (replicate k 255)) = 256 ^ k - 1" by simp
  have "int (le_value (bs @ replicate k 255)) = int (le_value bs) + B * int (le_value (replicate k 255))"
    by (simp add: le_value_append B_def)
  also have "\<dots> = signed_le_value bs + B * 256 ^ k"
    unfolding neg rep by (simp add: right_diff_distrib)
  finally show ?thesis by (simp add: B_def power_add)
qed

lemma signed_le_value_nonneg:
  assumes "0 \<le> signed_le_value bs"
  shows "int (le_value bs) = signed_le_value bs"
proof -
  have "int (le_value bs) < 256 ^ length bs"
    using le_value_less [of bs] by (metis of_nat_less_iff of_nat_numeral of_nat_power)
  then show ?thesis using assms by (simp add: signed_le_value_def split: if_splits)
qed

section \<open>The conversions\<close>

context num_crate
begin

lemma try_into_u64:
  "big_int_try_into_u64 N n =
     (if n < 0 then Inl Negative else if 2 ^ 64 \<le> n then Inl Overflow
      else Inr (of_nat (nat n)))"
proof (cases "n < 0")
  case True
  then show ?thesis
    using to_bytes_le [of n] by (simp add: big_int_try_into_u64_def split_beta sign_of_def Let_def)
next
  case False
  define bs where "bs = snd (to_bytes_le N n)"
  have ne: "bs \<noteq> []" and val: "le_value bs = nat n"
    using to_bytes_le [of n] False by (simp_all add: bs_def)
  have sgn: "fst (to_bytes_le N n) \<noteq> Minus"
    using to_bytes_le [of n] False by (simp add: sign_of_def)
  have short: "length bs \<le> 8 \<longleftrightarrow> n < 2 ^ 64"
  proof
    assume "length bs \<le> 8"
    then have "(256 :: nat) ^ length bs \<le> 256 ^ 8" by (intro power_increasing) simp_all
    then have "nat n < 256 ^ 8" using le_value_less [of bs] val by linarith
    then show "n < 2 ^ 64" using False by simp
  next
    assume "n < 2 ^ 64"
    show "length bs \<le> 8"
    proof (rule ccontr)
      assume long: "\<not> length bs \<le> 8"
      then have "last bs \<noteq> 0" using to_bytes_le_minimal [of n] by (simp add: bs_def)
      then have "256 ^ (length bs - 1) \<le> nat n" using le_value_last [OF ne] val by simp
      moreover have "(256 :: nat) ^ 8 \<le> 256 ^ (length bs - 1)"
        using long by (intro power_increasing) simp_all
      ultimately have "256 ^ 8 \<le> nat n" by linarith
      then show False using \<open>n < 2 ^ 64\<close> by simp
    qed
  qed
  show ?thesis
  proof (cases "2 ^ 64 \<le> n")
    case True
    then show ?thesis using False sgn short
      by (simp add: big_int_try_into_u64_def split_beta bs_def Let_def)
  next
    case small: False
    then have len: "length bs \<le> 8" using short by simp
    then have "unat (le_accumulate 0 0 bs) = nat n" by (simp add: unat_le_accumulate val)
    then have "le_accumulate 0 0 bs = of_nat (nat n)" by (metis of_nat_unat ucast_id)
    then show ?thesis using False small sgn len
      by (simp add: big_int_try_into_u64_def split_beta bs_def Let_def)
  qed
qed

lemma to_signed_u256_value:
  assumes "- (2 ^ 255) \<le> n" and "n < 2 ^ 255"
  shows "to_signed_u256 N n = Some (of_nat (nat (n mod 256 ^ 32)))"
proof -
  define bs where "bs = to_signed_bytes_le N n"
  have len: "length bs \<le> 32" using to_signed_bytes_le_fits [OF assms] by (simp add: bs_def)
  have sv: "signed_le_value bs = n" by (simp add: bs_def to_signed_bytes_le)
  have "- (256 ^ 32) \<le> 2 * n" and "2 * n < 256 ^ 32" using assms by simp_all
  note m = mod_signed [OF this]
  show ?thesis
  proof (cases "n < 0")
    case True
    have "int (le_value (bs @ replicate (32 - length bs) 255)) = n mod 256 ^ 32"
      using sign_extend_negative [of bs "32 - length bs"] sv True len m by (simp only: if_True) simp
    then have "le_value (bs @ replicate (32 - length bs) 255) = nat (n mod 256 ^ 32)" by linarith
    then show ?thesis using True len
      unfolding to_signed_u256_def Let_def bs_def [symmetric] u256_from_le by (simp only:) simp
  next
    case False
    then have "int (le_value bs) = n mod 256 ^ 32"
      using signed_le_value_nonneg [of bs] sv m by (simp only: if_False not_less) simp
    then have "le_value bs = nat (n mod 256 ^ 32)" by linarith
    then show ?thesis using False len
      unfolding to_signed_u256_def Let_def bs_def [symmetric] u256_from_le by (simp only:) simp
  qed
qed

lemma signed_u256_roundtrip:
  assumes "- (2 ^ 255) \<le> n" and "n < 2 ^ 255"
  shows "\<exists>w. to_signed_u256 N n = Some w \<and> from_signed_u256 N w = n"
proof -
  define m where "m = nat (n mod 256 ^ 32)"
  define us where "us = u256_to_little_endian N (of_nat m)"
  have m: "int m = n mod 256 ^ 32" and "m < 2 ^ 256" unfolding m_def by (simp_all add: nat_less_iff)
  then have us: "length us = 32" "le_value us = m"
    using u256_to_le [of "of_nat m"] by (auto simp: us_def unat_of_nat)
  have "signed_le_value us = n"
  proof (rule signed_le_value_of_mod)
    show "us \<noteq> []" using us(1) by force
    show "- (256 ^ length us) \<le> 2 * n" and "2 * n < 256 ^ length us"
      unfolding us(1) using assms by simp_all
    show "int (le_value us) = n mod 256 ^ length us" unfolding us by (rule m)
  qed
  then have "from_signed_u256 N (of_nat m) = n"
    by (simp only: from_signed_u256_def from_signed_bytes_le us_def)
  then show ?thesis unfolding to_signed_u256_value [OF assms] m_def [symmetric] by blast
qed

lemma bytes_roundtrip: "bytes_from_str N (bytes_to_string N bs) = Inr bs"
proof -
  let ?h = "hex_encode N bs" and ?p = "''0x''"
  have "CHR ''x'' \<notin> set ?h"
    using hex_encode [of bs] unfolding list_all_iff is_hex_char_def by fastforce
  then have "take (length ?p) ?h \<noteq> ?p"
    by (metis in_set_takeD list.set_intros(1) list.set_intros(2))
  then have "trim_start_matches ?p ?h = ?h" by (rule trim_start_matches_id)
  then have "trim_start_matches ?p (?p @ ?h) = ?h"
    by (simp only: trim_start_matches_prefix list.distinct not_False_eq_True)
  then show ?thesis unfolding bytes_from_str_def bytes_to_string_def by (simp only: hex_decode)
qed
end

section \<open>Canonical decimals\<close>

lemma be_value_snoc: "be_value (ds @ [d]) = 10 * be_value ds + d"
  by (simp add: be_value_def)

lemma be_value_append_zeros: "be_value (ds @ replicate k 0) = be_value ds * 10 ^ k"
proof (induction k)
  case 0
  then show ?case by simp
next
  case (Suc k)
  have "ds @ replicate (Suc k) 0 = (ds @ replicate k 0) @ [0]"
    by (simp add: replicate_append_same)
  then show ?case using Suc by (simp only: be_value_snoc) simp
qed

text \<open>Splitting a digit string at its trailing zeros.\<close>

lemma strip_trailing_zeros:
  fixes ds :: "nat list"
  defines "k \<equiv> length (takeWhile (\<lambda>i. i = 0) (rev ds))"
  defines "ds' \<equiv> take (length ds - k) ds"
  shows "ds = ds' @ replicate k 0" and "ds' \<noteq> [] \<Longrightarrow> last ds' \<noteq> 0"
proof -
  let ?z = "takeWhile (\<lambda>i. i = 0) (rev ds)" and ?r = "dropWhile (\<lambda>i. i = 0) (rev ds)"
  have "?z = replicate k 0"
    unfolding k_def by (rule replicate_length_same [symmetric]) (auto dest: set_takeWhileD)
  then have "rev ds = replicate k 0 @ ?r"
    using takeWhile_dropWhile_id [of "\<lambda>i. i = 0" "rev ds"] by simp
  then have "rev (rev ds) = rev (replicate k 0 @ ?r)" by (rule arg_cong)
  then obtain q where q: "ds = q @ replicate k 0" and q_rev: "q = rev ?r" by simp
  from q have "length ds - k = length q" using arg_cong [OF q, of length] by simp
  then have ds': "ds' = q" unfolding ds'_def using arg_cong [OF q, of "take (length q)"] by simp
  show "ds = ds' @ replicate k 0" using q ds' by simp
  show "ds' \<noteq> [] \<Longrightarrow> last ds' \<noteq> 0"
    unfolding ds' q_rev using hd_dropWhile [of "\<lambda>i. i = 0" "rev ds"] by (simp add: last_rev)
qed

lemma be_value_mod10: "ds \<noteq> [] \<Longrightarrow> \<forall>d \<in> set ds. d < 10 \<Longrightarrow> be_value ds mod 10 = last ds"
  by (cases ds rule: rev_cases) (simp_all add: be_value_snoc)


lemma bd_value_eq_0: "bd_value d = 0 \<longleftrightarrow> int_val d = 0"
  by (simp add: bd_value_def)

lemma bd_value_shift:
  assumes "int_val d = int_val e * 10 ^ k" and "bd_scale e = bd_scale d - int k"
  shows "bd_value d = bd_value e"
proof -
  have "(10 :: rat) powi (- bd_scale e) = 10 powi (int k + - bd_scale d)"
    by (simp add: assms(2))
  also have "\<dots> = 10 ^ k * 10 powi (- bd_scale d)"
    by (subst power_int_add) simp_all
  finally show ?thesis by (simp add: bd_value_def assms(1))
qed

lemma bd_canonical_unique_le:
  assumes "bd_value d = bd_value e" and "int_val d \<noteq> 0" and "int_val e mod 10 \<noteq> 0"
    and "bd_scale d \<le> bd_scale e"
  shows "d = e"
proof -
  define k where "k = nat (bd_scale e - bd_scale d)"
  let ?d = "\<lparr>int_val = int_val d * 10 ^ k, bd_scale = bd_scale e\<rparr>"
  have "bd_value ?d = bd_value d"
    by (rule bd_value_shift [where k = k]) (simp_all add: k_def assms(4))
  then have "bd_value ?d = bd_value e" using assms(1) by simp
  then have "of_int (int_val d * 10 ^ k) = (of_int (int_val e) :: rat)"
    by (simp add: bd_value_def)
  then have eq: "int_val e = int_val d * 10 ^ k" by (metis of_int_eq_iff)
  have "k = 0"
  proof (rule ccontr)
    assume "k \<noteq> 0"
    then obtain j where "k = Suc j" by (cases k) simp_all
    then have "int_val e mod 10 = 0" using eq by simp
    with assms(3) show False by simp
  qed
  then show ?thesis using eq assms(4) k_def by simp
qed

lemma bd_canonical_unique:
  assumes "bd_value d = bd_value e" and "bd_canonical d" and "bd_canonical e"
  shows "d = e"
proof (cases "int_val d = 0 \<or> int_val e = 0")
  case True
  then have "int_val d = 0 \<and> int_val e = 0" using assms(1) by (metis bd_value_eq_0)
  then show ?thesis using assms(2,3) by (auto simp: bd_canonical_def)
next
  case False
  then have "int_val d mod 10 \<noteq> 0" and "int_val e mod 10 \<noteq> 0"
    using assms(2,3) by (auto simp: bd_canonical_def bd_zero_def)
  then show ?thesis
    using False assms(1) bd_canonical_unique_le [of d e] bd_canonical_unique_le [of e d]
    by (metis linear)
qed

context num_crate
begin

lemma trailing_zeros_bound:
  assumes "int_val b \<noteq> 0" and "\<bar>int_val b\<bar> \<le> 10 ^ p" and "nat \<bar>int_val b\<bar> = v * 10 ^ k"
  shows "k \<le> p"
proof -
  have "v \<noteq> 0" using assms(1,3) by (intro notI) simp
  then have "10 ^ k \<le> nat \<bar>int_val b\<bar>" unfolding assms(3) by simp
  also have "\<dots> \<le> 10 ^ p" using assms(2) by (simp add: nat_le_iff)
  finally show ?thesis by simp
qed

text \<open>Stripping the trailing zeros of a non-zero decimal.\<close>

lemma strip_zeros:
  assumes "int_val b \<noteq> 0" and "\<bar>int_val b\<bar> \<le> 10 ^ p"
    and "- (2 ^ 63) \<le> bd_scale b - int p" and "bd_scale b < 2 ^ 63"
    and "with_prec N d MAX_SIGNFICANT_DIGITS = Some b" and "int_val d \<noteq> 0"
  shows "\<exists>e. bd_normalized N d = Some e \<and> bd_canonical e \<and> i64_range (bd_scale e) \<and> bd_value e = bd_value b"
proof -
  define ds where "ds = snd (to_radix_be N (int_val b))"
  define k where "k = length (takeWhile (\<lambda>i. i = 0) (rev ds))"
  define ds' where "ds' = take (length ds - k) ds"
  have ds: "ds = ds' @ replicate k 0" and last: "ds' \<noteq> [] \<Longrightarrow> last ds' \<noteq> 0"
    unfolding ds'_def k_def by (rule strip_trailing_zeros)+
  have dig: "\<forall>x \<in> set ds. x < 10" and val: "be_value ds = nat \<bar>int_val b\<bar>"
    and sign: "fst (to_radix_be N (int_val b)) = sign_of (int_val b)"
    using to_radix_be [of "int_val b"] by (simp_all add: ds_def)
  have dig': "\<forall>x \<in> set ds'. x < 10" using dig by (auto simp: ds'_def dest: in_set_takeD)
  have v: "nat \<bar>int_val b\<bar> = be_value ds' * 10 ^ k"
    using val ds be_value_append_zeros [of ds' k] by simp
  have "k \<le> p" by (rule trailing_zeros_bound [OF assms(1,2) v])
  then have range: "i64_range (bd_scale b - int k)" using assms(3,4) by (simp add: i64_range_def)
  let ?e = "\<lparr>int_val = with_sign (sign_of (int_val b)) (be_value ds'), bd_scale = bd_scale b - int k\<rparr>"
  have res: "bd_normalized N d = Some ?e"
    using assms(5,6) from_radix_be [OF dig', of "sign_of (int_val b)"] sign range
    by (simp add: bd_normalized_def ds_def [symmetric] k_def [symmetric]
        ds'_def [symmetric] split_beta Let_def i64_checked_def)
  have eq: "int_val b = int_val ?e * 10 ^ k"
    using v assms(1) by (auto simp: with_sign_def sign_of_def nat_eq_iff abs_if split: if_splits)
  have "ds' \<noteq> []" using v assms(1) by (auto simp: be_value_def)
  then have "be_value ds' mod 10 \<noteq> 0" using be_value_mod10 [OF _ dig'] last by simp
  then have "int_val ?e mod 10 \<noteq> 0"
    using assms(1) by (simp add: with_sign_def sign_of_def) presburger
  moreover have "bd_value b = bd_value ?e" by (rule bd_value_shift [OF eq]) simp
  ultimately show ?thesis using res range by (simp add: bd_canonical_def)
qed

lemma normalized_canonical:
  assumes "bd_in_range d"
  shows "\<exists>e. bd_normalized N d = Some e \<and> bd_canonical e \<and> i64_range (bd_scale e) \<and>
    bd_value e = bd_round N d \<and>
    \<bar>bd_value e - bd_value d\<bar> < 10 powi (int (bd_digits d) - int MAX_SIGNFICANT_DIGITS - bd_scale d) \<and>
    (bd_digits d \<le> MAX_SIGNFICANT_DIGITS \<longrightarrow> bd_value e = bd_value d)"
proof (cases "int_val d = 0")
  case True
  then have zero: "bd_value d = 0" "bd_value bd_zero = 0" "bd_round N d = 0"
    "bd_normalized N d = Some bd_zero"
    by (simp_all add: bd_value_def bd_zero_def bd_round_def bd_normalized_def)
  show ?thesis
    by (intro exI [of _ bd_zero]) (simp add: zero bd_canonical_def, simp add: bd_zero_def i64_range_def)
next
  case False
  let ?p = MAX_SIGNFICANT_DIGITS
  have range: "- (2 ^ 63) \<le> bd_scale d - int (bd_digits d)" "bd_scale d + int ?p - int (bd_digits d) < 2 ^ 63"
    using assms False by (simp_all add: bd_in_range_def)
  have p: "0 < ?p" by (simp add: MAX_SIGNFICANT_DIGITS_def)
  have "i64_range (bd_scale d + int ?p - int (bd_digits d))" using range by (simp add: i64_range_def)
  from with_prec [OF p False this] obtain b where b: "with_prec N d ?p = Some b"
    "bd_scale b = bd_scale d + int ?p - int (bd_digits d)" "int_val b \<noteq> 0" "\<bar>int_val b\<bar> \<le> 10 ^ ?p"
    "\<bar>bd_value b - bd_value d\<bar> < 10 powi (- bd_scale b)" "bd_digits d \<le> ?p \<longrightarrow> bd_value b = bd_value d"
    by (elim exE conjE) (intro that)
  have "- (2 ^ 63) \<le> bd_scale b - int ?p" "bd_scale b < 2 ^ 63" using range by (simp_all add: b(2))
  from strip_zeros [OF b(3,4) this b(1) False] obtain e where
    e: "bd_normalized N d = Some e" "bd_canonical e" "i64_range (bd_scale e)" "bd_value e = bd_value b"
    by (elim exE conjE) (intro that)
  have "- bd_scale b = int (bd_digits d) - int ?p - bd_scale d" by (simp add: b(2))
  then show ?thesis using b(5,6) e False b(1)
    by (intro exI [of _ e]) (simp add: bd_round_def)
qed

end

end
