(* ===== verification/Num_Reference.thy ===== *)
theory Num_Reference
  imports Scalar
begin

text \<open>
  An executable reference implementation of the number and hex conversions, and the
  interpretation of \<open>num_crate\<close> on it: the laws the scalars rely on can be met, and the
  concrete instances of the theorems compute with it.
\<close>

fun nat_to_le :: "nat \<Rightarrow> u8 list" where
  "nat_to_le n = (if n < 256 then [of_nat n] else of_nat (n mod 256) # nat_to_le (n div 256))"

declare nat_to_le.simps [simp del]

fun le_bytes :: "nat \<Rightarrow> nat \<Rightarrow> u8 list" where
  "le_bytes 0 n = []"
| "le_bytes (Suc k) n = of_nat (n mod 256) # le_bytes k (n div 256)"

definition signed_len :: "int \<Rightarrow> nat" where
  "signed_len n = length (nat_to_le (2 * (if n < 0 then nat (- n - 1) else nat n)))"

fun nat_to_digits :: "nat \<Rightarrow> nat list" where
  "nat_to_digits n = (if n < 10 then [n] else nat_to_digits (n div 10) @ [n mod 10])"

declare nat_to_digits.simps [simp del]

text \<open>Rounding to \<open>p\<close> significant digits, half away from zero.\<close>

definition ref_rounded :: "big_decimal \<Rightarrow> nat \<Rightarrow> big_decimal" where
  "ref_rounded d p =
     (let n = bd_digits d
      in if n < p
         then \<lparr>int_val = int_val d * 10 ^ (p - n), bd_scale = bd_scale d + int (p - n)\<rparr>
         else \<lparr>int_val = sgn (int_val d) * ((\<bar>int_val d\<bar> + 5 * 10 ^ (n - p) div 10) div 10 ^ (n - p)),
               bd_scale = bd_scale d - int (n - p)\<rparr>)"

definition ref_with_prec :: "big_decimal \<Rightarrow> nat \<Rightarrow> big_decimal option" where
  "ref_with_prec d p = (if i64_range (bd_scale (ref_rounded d p)) then Some (ref_rounded d p) else None)"

definition hex_digit :: "nat \<Rightarrow> char" where
  "hex_digit n = ''0123456789abcdef'' ! (n mod 16)"

definition hex_digit_value :: "char \<Rightarrow> nat option" where
  "hex_digit_value c = map_of (zip ''0123456789abcdef'' [0..<16]) c"

fun ref_hex_encode :: "u8 list \<Rightarrow> string" where
  "ref_hex_encode [] = []"
| "ref_hex_encode (b # bs) = hex_digit (unat b div 16) # hex_digit (unat b mod 16) # ref_hex_encode bs"

fun ref_hex_decode :: "string \<Rightarrow> string + u8 list" where
  "ref_hex_decode [] = Inr []"
| "ref_hex_decode [c] = Inl ''OddLength''"
| "ref_hex_decode (c # d # cs) =
     (case (hex_digit_value c, hex_digit_value d) of
        (Some x, Some y) \<Rightarrow>
          (case ref_hex_decode cs of Inl e \<Rightarrow> Inl e | Inr bs \<Rightarrow> Inr (of_nat (16 * x + y) # bs))
      | _ \<Rightarrow> Inl ''InvalidHexCharacter'')"

definition ref_num :: num_ops where
  "ref_num =
     \<lparr>to_bytes_le = (\<lambda>n. (sign_of n, nat_to_le (nat \<bar>n\<bar>))),
      from_bytes_le = (\<lambda>s bs. with_sign s (le_value bs)),
      to_signed_bytes_le = (\<lambda>n. le_bytes (signed_len n) (nat (n mod 256 ^ signed_len n))),
      from_signed_bytes_le = signed_le_value,
      u256_to_little_endian = (\<lambda>w. le_bytes 32 (unat w)),
      u256_from_little_endian =
        (\<lambda>bs. if length bs \<le> 32 then Some (of_nat (le_value bs)) else None),
      to_radix_be = (\<lambda>n. (sign_of n, nat_to_digits (nat \<bar>n\<bar>))),
      from_radix_be =
        (\<lambda>s ds. if list_all (\<lambda>d. d < 10) ds then Some (with_sign s (be_value ds)) else None),
      with_prec = ref_with_prec,
      hex_encode = ref_hex_encode,
      hex_decode = ref_hex_decode\<rparr>"

lemma unat_of_nat_u8: "n < 256 \<Longrightarrow> unat (of_nat n :: u8) = n"
  by (simp add: unat_of_nat)

lemma nat_to_le_nonempty [simp]: "nat_to_le n \<noteq> []"
  by (subst nat_to_le.simps) simp

lemma le_value_nat_to_le [simp]: "le_value (nat_to_le n) = n"
proof (induction n rule: nat_to_le.induct)
  case (1 n)
  then show ?case
    by (cases "n < 256") (simp_all add: nat_to_le.simps [of n] unat_of_nat_u8)
qed

lemma last_nat_to_le: "1 < length (nat_to_le n) \<Longrightarrow> last (nat_to_le n) \<noteq> 0"
proof (induction n rule: nat_to_le.induct)
  case (1 n)
  show ?case
  proof (cases "n < 256")
    case True
    with "1.prems" show ?thesis by (simp add: nat_to_le.simps [of n])
  next
    case big: False
    show ?thesis
    proof (cases "n div 256 < 256")
      case True
      have "unat (of_nat (n div 256) :: u8) \<noteq> 0" using big True by (simp add: unat_of_nat_u8)
      then show ?thesis using big True
        by (simp add: nat_to_le.simps [of n] nat_to_le.simps [of "n div 256"] unat_eq_0)
    next
      case False
      then have "1 < length (nat_to_le (n div 256))"
        by (simp add: nat_to_le.simps [of "n div 256"])
      then show ?thesis using "1.IH" big by (simp add: nat_to_le.simps [of n])
    qed
  qed
qed

lemma length_nat_to_le_le: "n < 256 ^ k \<Longrightarrow> 0 < k \<Longrightarrow> length (nat_to_le n) \<le> k"
proof (induction n arbitrary: k rule: nat_to_le.induct)
  case (1 n)
  show ?case
  proof (cases "n < 256")
    case True
    with "1.prems" show ?thesis by (simp add: nat_to_le.simps [of n])
  next
    case False
    then obtain j where k: "k = Suc j" and "0 < j"
      using "1.prems" by (cases k; cases "k - 1") auto
    have "n div 256 < 256 ^ j" using "1.prems" k by (simp add: less_mult_imp_div_less mult.commute)
    then have "length (nat_to_le (n div 256)) \<le> j" using "1.IH" False \<open>0 < j\<close> by simp
    then show ?thesis using False k by (simp add: nat_to_le.simps [of n])
  qed
qed

lemma length_le_bytes [simp]: "length (le_bytes k n) = k"
  by (induction k arbitrary: n) simp_all

lemma le_value_le_bytes: "n < 256 ^ k \<Longrightarrow> le_value (le_bytes k n) = n"
  by (induction k arbitrary: n)
    (simp_all add: unat_of_nat_u8 less_mult_imp_div_less mult.commute)

lemma signed_le_bytes:
  assumes "0 < k" and "- (256 ^ k) \<le> 2 * n" and "2 * n < 256 ^ k"
  shows "signed_le_value (le_bytes k (nat (n mod 256 ^ k))) = n"
proof (rule signed_le_value_of_mod)
  show "le_bytes k (nat (n mod 256 ^ k)) \<noteq> []" using assms(1) by (cases k) simp_all
  have "nat (n mod 256 ^ k) < 256 ^ k" by (simp add: nat_less_iff)
  then show "int (le_value (le_bytes k (nat (n mod 256 ^ k)))) =
      n mod 256 ^ length (le_bytes k (nat (n mod 256 ^ k)))"
    by (simp add: le_value_le_bytes)
qed (use assms in simp_all)

lemma signed_len_pos: "0 < signed_len n"
  by (simp add: signed_len_def)

lemma signed_len_fits: "- (256 ^ signed_len n) \<le> 2 * n \<and> 2 * n < 256 ^ signed_len n"
proof -
  define m where "m = (if n < 0 then nat (- n - 1) else nat n)"
  have "2 * m < 256 ^ signed_len n"
    using le_value_less [of "nat_to_le (2 * m)"] by (simp add: signed_len_def m_def)
  then have "int (2 * m) < int (256 ^ signed_len n)" by (simp only: of_nat_less_iff)
  then have lt: "2 * int m < 256 ^ signed_len n" by simp
  have ev: "even (256 ^ signed_len n :: int)" using signed_len_pos [of n] by simp
  show ?thesis
  proof (cases "n < 0")
    case True
    obtain c :: int where c: "256 ^ signed_len n = 2 * c" using ev by (rule evenE)
    then show ?thesis using True lt by (simp add: m_def)
  next
    case False
    then show ?thesis using lt by (simp add: m_def)
  qed
qed

lemma signed_len_le_32:
  assumes "- (2 ^ 255) \<le> n" and "n < 2 ^ 255"
  shows "signed_len n \<le> 32"
proof -
  have "2 * (if n < 0 then nat (- n - 1) else nat n) < 256 ^ 32"
    using assms by (simp add: nat_less_iff)
  then show ?thesis unfolding signed_len_def by (rule length_nat_to_le_le) simp
qed

lemma nat_to_digits_small: "d \<in> set (nat_to_digits n) \<Longrightarrow> d < 10"
proof (induction n rule: nat_to_digits.induct)
  case (1 n)
  then show ?case by (cases "n < 10") (auto simp: nat_to_digits.simps [of n])
qed

lemma be_value_nat_to_digits [simp]: "be_value (nat_to_digits n) = n"
proof (induction n rule: nat_to_digits.induct)
  case (1 n)
  then show ?case
    by (cases "n < 10") (simp_all add: nat_to_digits.simps [of n] be_value_snoc, simp add: be_value_def)
qed

lemma digit_count_bounds: "0 < n \<Longrightarrow> 10 ^ (digit_count n - 1) \<le> n \<and> n < 10 ^ digit_count n \<and> 0 < digit_count n"
proof (induction n rule: digit_count.induct)
  case (1 n)
  show ?case
  proof (cases "n < 10")
    case True
    then show ?thesis using "1.prems" by (simp add: digit_count.simps [of n])
  next
    case False
    then have IH: "10 ^ (digit_count (n div 10) - 1) \<le> n div 10" "n div 10 < 10 ^ digit_count (n div 10)"
      "0 < digit_count (n div 10)" using "1.IH" by simp_all
    then obtain l where l: "digit_count (n div 10) = Suc l" by (cases "digit_count (n div 10)") simp_all
    have "10 * 10 ^ l \<le> n" "n < 10 * (10 * 10 ^ l)" using IH l by simp_all
    then show ?thesis using False l by (simp add: digit_count.simps [of n])
  qed
qed

lemma bd_digits_bounds:
  assumes "int_val d \<noteq> 0"
  shows "10 ^ (bd_digits d - 1) \<le> \<bar>int_val d\<bar>" and "\<bar>int_val d\<bar> < 10 ^ bd_digits d"
  using digit_count_bounds [of "nat \<bar>int_val d\<bar>"] assms
  by (simp_all add: bd_digits_def le_nat_iff nat_less_iff)

text \<open>The two branches of the rounding: padding with zeros, and dividing with rounding.\<close>

lemma ref_rounded_pad:
  assumes "int_val d \<noteq> 0" and "bd_digits d < p"
  shows "int_val (ref_rounded d p) \<noteq> 0 \<and> \<bar>int_val (ref_rounded d p)\<bar> \<le> 10 ^ p \<and>
    bd_value (ref_rounded d p) = bd_value d \<and> bd_scale (ref_rounded d p) = bd_scale d + int p - int (bd_digits d)"
proof -
  let ?n = "bd_digits d"
  have "\<bar>int_val d\<bar> * 10 ^ (p - ?n) \<le> 10 ^ ?n * 10 ^ (p - ?n)"
    using bd_digits_bounds(2) [OF assms(1)] by (intro mult_right_mono) simp_all
  also have "\<dots> = 10 ^ p" using assms(2) by (simp add: power_add [symmetric])
  finally have "\<bar>int_val (ref_rounded d p)\<bar> \<le> 10 ^ p"
    using assms(2) by (simp add: ref_rounded_def Let_def abs_mult)
  moreover have "bd_value (ref_rounded d p) = bd_value d"
    by (rule bd_value_shift [where k = "p - ?n"]) (use assms(2) in \<open>simp_all add: ref_rounded_def Let_def\<close>)
  ultimately show ?thesis using assms by (simp add: ref_rounded_def Let_def)
qed

lemma divide_rounded:
  fixes a m :: int
  assumes "0 < m" and "0 \<le> a"
  defines "q \<equiv> (a + 5 * m div 10) div m"
  shows "\<bar>q * m - a\<bar> < m" and "m \<le> a \<Longrightarrow> 0 < q" and "a < m * c \<Longrightarrow> q \<le> c" and "m = 1 \<Longrightarrow> q = a"
proof -
  let ?h = "5 * m div 10"
  have h: "0 \<le> ?h" "?h < m" using assms(1) by simp_all
  have q: "q * m = a + ?h - (a + ?h) mod m" unfolding q_def by (simp add: minus_mod_eq_div_mult)
  have mod: "0 \<le> (a + ?h) mod m" "(a + ?h) mod m < m" using assms(1) by simp_all
  then show "\<bar>q * m - a\<bar> < m" unfolding abs_less_iff q using h by linarith
  show "0 < q" if "m \<le> a" unfolding q_def using that h assms(1) by (simp add: pos_imp_zdiv_pos_iff)
  show "q = a" if "m = 1" using that by (simp add: q_def)
  show "q \<le> c" if "a < m * c"
  proof -
    have "a + ?h < (c + 1) * m" using that h by (simp add: algebra_simps)
    then have "q * m < (c + 1) * m" using q mod by linarith
    then show ?thesis using assms(1) by simp
  qed
qed

lemma ref_rounded_divide:
  assumes "int_val d \<noteq> 0" and "p \<le> bd_digits d" and "0 < p"
  shows "int_val (ref_rounded d p) \<noteq> 0 \<and> \<bar>int_val (ref_rounded d p)\<bar> \<le> 10 ^ p \<and>
    \<bar>bd_value (ref_rounded d p) - bd_value d\<bar> < 10 powi (- bd_scale (ref_rounded d p)) \<and>
    (bd_digits d \<le> p \<longrightarrow> bd_value (ref_rounded d p) = bd_value d) \<and>
    bd_scale (ref_rounded d p) = bd_scale d + int p - int (bd_digits d)"
proof -
  define m where "m = bd_digits d - p"
  define q where "q = (\<bar>int_val d\<bar> + 5 * 10 ^ m div 10) div 10 ^ m"
  have r: "ref_rounded d p = \<lparr>int_val = sgn (int_val d) * q, bd_scale = bd_scale d - int m\<rparr>"
    using assms(2) by (simp add: ref_rounded_def Let_def m_def q_def)
  have "(10 :: int) ^ m \<le> 10 ^ (bd_digits d - 1)" using assms(3) by (intro power_increasing) (simp_all add: m_def)
  then have low: "10 ^ m \<le> \<bar>int_val d\<bar>" using bd_digits_bounds(1) [OF assms(1)] by linarith
  have "bd_digits d = m + p" using assms(2) by (simp add: m_def)
  then have high: "\<bar>int_val d\<bar> < 10 ^ m * 10 ^ p"
    using bd_digits_bounds(2) [OF assms(1)] by (simp add: power_add)
  have pos: "(0 :: int) < 10 ^ m" "0 \<le> \<bar>int_val d\<bar>" by simp_all
  have q: "\<bar>q * 10 ^ m - \<bar>int_val d\<bar>\<bar> < 10 ^ m" "0 < q" "q \<le> 10 ^ p"
    unfolding q_def
    by (rule divide_rounded(1) [OF pos], rule divide_rounded(2) [OF pos low], rule divide_rounded(3) [OF pos high])
  have q0: "m = 0 \<longrightarrow> q = \<bar>int_val d\<bar>" by (simp add: q_def)
  have "(10 :: rat) powi (int m + - bd_scale d) = 10 ^ m * 10 powi (- bd_scale d)"
    by (subst power_int_add) simp_all
  then have scale: "(10 :: rat) powi (int m - bd_scale d) = 10 ^ m * 10 powi (- bd_scale d)" by simp
  have sg: "(of_int (int_val d) :: rat) = of_int (sgn (int_val d)) * of_int \<bar>int_val d\<bar>"
    by (metis of_int_mult sgn_mult_abs)
  have diff: "bd_value (ref_rounded d p) - bd_value d =
      of_int (sgn (int_val d) * (q * 10 ^ m - \<bar>int_val d\<bar>)) * 10 powi (- bd_scale d)"
    unfolding bd_value_def r sg by (simp add: scale algebra_simps)
  have "\<bar>sgn (int_val d) * (q * 10 ^ m - \<bar>int_val d\<bar>)\<bar> < 10 ^ m" using q(1) assms(1) by (simp add: abs_mult abs_sgn_eq)
  then have "\<bar>of_int (sgn (int_val d) * (q * 10 ^ m - \<bar>int_val d\<bar>)) :: rat\<bar> < 10 ^ m"
    by (metis of_int_abs of_int_less_iff of_int_numeral of_int_power)
  then have "\<bar>bd_value (ref_rounded d p) - bd_value d\<bar> < 10 ^ m * 10 powi (- bd_scale d)"
    unfolding diff abs_mult by (simp add: power_int_minus)
  then have "\<bar>bd_value (ref_rounded d p) - bd_value d\<bar> < 10 powi (- bd_scale (ref_rounded d p))"
    using scale by (simp add: r)
  moreover have "bd_digits d \<le> p \<longrightarrow> bd_value (ref_rounded d p) = bd_value d"
  proof
    assume "bd_digits d \<le> p"
    then have "m = 0" by (simp add: m_def)
    with diff q0 show "bd_value (ref_rounded d p) = bd_value d" by simp
  qed
  ultimately show ?thesis using q(2,3) assms(1,2) by (auto simp: r m_def abs_mult abs_sgn_eq sgn_0_0)
qed

lemma ref_with_prec_law:
  assumes "0 < p" and "int_val d \<noteq> 0" and "i64_range (bd_scale d + int p - int (bd_digits d))"
  shows "\<exists>b. ref_with_prec d p = Some b \<and> bd_scale b = bd_scale d + int p - int (bd_digits d) \<and>
    int_val b \<noteq> 0 \<and> \<bar>int_val b\<bar> \<le> 10 ^ p \<and> \<bar>bd_value b - bd_value d\<bar> < 10 powi (- bd_scale b) \<and>
    (bd_digits d \<le> p \<longrightarrow> bd_value b = bd_value d)"
proof (cases "bd_digits d < p")
  case True
  note r = ref_rounded_pad [OF assms(2) this]
  then have "ref_with_prec d p = Some (ref_rounded d p)" using assms(3) by (simp add: ref_with_prec_def)
  with r show ?thesis by (intro exI [of _ "ref_rounded d p"]) simp
next
  case False
  then have "p \<le> bd_digits d" by simp
  note r = ref_rounded_divide [OF assms(2) this assms(1)]
  then have "ref_with_prec d p = Some (ref_rounded d p)" using assms(3) by (simp add: ref_with_prec_def)
  with r show ?thesis by (intro exI [of _ "ref_rounded d p"] conjI) blast+
qed

lemma hex_digit_value_hex_digit: "n < 16 \<Longrightarrow> hex_digit_value (hex_digit n) = Some n"
proof -
  assume "n < 16"
  moreover have "list_all (\<lambda>n. hex_digit_value (hex_digit n) = Some n) [0..<16]" by code_simp
  ultimately show ?thesis by (auto simp: list_all_iff)
qed

lemma is_hex_char_hex_digit: "is_hex_char (hex_digit n)"
proof -
  have "list_all (\<lambda>n. is_hex_char (hex_digit n)) [0..<16]" by code_simp
  then have "is_hex_char (hex_digit (n mod 16))" by (auto simp: list_all_iff)
  then show ?thesis by (simp add: hex_digit_def)
qed

lemma is_hex_char_ref_hex_encode: "c \<in> set (ref_hex_encode bs) \<Longrightarrow> is_hex_char c"
  by (induction bs) (auto simp: is_hex_char_hex_digit)

lemma ref_hex_decode_encode: "ref_hex_decode (ref_hex_encode bs) = Inr bs"
proof (induction bs)
  case Nil
  then show ?case by simp
next
  case (Cons b bs)
  have "unat b < 256" using unsigned_less [of b, where ?'a = nat] by simp
  then have d: "unat b div 16 < 16" "unat b mod 16 < 16" by simp_all
  have "of_nat (16 * (unat b div 16) + unat b mod 16) = b"
    by (simp only: mult_div_mod_eq of_nat_unat ucast_id)
  then show ?case using d
    by (simp only: ref_hex_encode.simps ref_hex_decode.simps hex_digit_value_hex_digit Cons
        option.case prod.case sum.case)
qed

interpretation ref: num_crate ref_num
proof (unfold_locales, goal_cases)
  case (7 n)
  then show ?case
    using le_value_le_bytes [of "unat n" 32] unsigned_less [of n, where ?'a = nat]
    by (simp add: ref_num_def)
qed (auto simp: ref_num_def last_nat_to_le signed_le_bytes signed_len_pos signed_len_fits
      signed_len_le_32 nat_to_digits_small ref_with_prec_law ref_hex_decode_encode
      is_hex_char_ref_hex_encode list_all_iff)

section \<open>Properties of the scalars\<close>



text \<open>C20. A \<open>BigInt\<close> converts to \<open>u64\<close> exactly when it is in range, to the word of the same
  value; a negative number and a number of \<open>2 ^ 64\<close> or more are the two errors.\<close>

theorem big_int_try_into_u64_correct:
  assumes "num_crate N"
  shows "big_int_try_into_u64 N n =
     (if n < 0 then Inl Negative else if 2 ^ 64 \<le> n then Inl Overflow
      else Inr (of_nat (nat n)))"
  using assms by (rule num_crate.try_into_u64)

theorem big_int_try_into_u64_witness:
  "num_crate ref_num \<and> big_int_try_into_u64 ref_num 258 = Inr 258 \<and>
   big_int_try_into_u64 ref_num (2 ^ 64) = Inl Overflow"
  using big_int_try_into_u64_correct [OF ref.num_crate_axioms, of 258]
    big_int_try_into_u64_correct [OF ref.num_crate_axioms, of "2 ^ 64"] ref.num_crate_axioms
  by simp

text \<open>C21. Every integer of the signed 256-bit range survives the conversion to \<open>U256\<close> in two's
  complement and back; the conversion does not panic there.\<close>

theorem to_from_signed_u256:
  assumes "num_crate N" and "- (2 ^ 255) \<le> n" and "n < 2 ^ 255"
  shows "\<exists>w. to_signed_u256 N n = Some w \<and> from_signed_u256 N w = n"
  using assms by (rule num_crate.signed_u256_roundtrip)

theorem to_from_signed_u256_witness:
  "num_crate ref_num \<and> (\<exists>w. to_signed_u256 ref_num (-1) = Some w \<and> from_signed_u256 ref_num w = -1)"
  using to_from_signed_u256 [OF ref.num_crate_axioms, of "-1"] ref.num_crate_axioms by simp

text \<open>Printing \<open>Bytes\<close> as a \<open>0x\<close> string and parsing the string gives the bytes back.\<close>

theorem bytes_from_str_to_string:
  assumes "num_crate N"
  shows "bytes_from_str N (bytes_to_string N bs) = Inr bs"
  using assms by (rule num_crate.bytes_roundtrip)

theorem bytes_from_str_to_string_witness:
  "num_crate ref_num \<and> bytes_from_str ref_num (bytes_to_string ref_num [0, 255]) = Inr [0, 255]"
  using bytes_from_str_to_string [OF ref.num_crate_axioms, of "[0, 255]"] ref.num_crate_axioms by simp

end
