(* ===== verification/Lfu_Cache.thy ===== *)
theory Lfu_Cache
  imports Prelude
begin

text \<open>
  The least-frequently-used cache of \<open>massbit/src/util/lfu_cache.rs\<close>.

  The cache keeps its entries in a \<open>PriorityQueue\<close> of the third-party crate
  \<open>priority-queue\<close>. The operations of the crate are a record \<open>pq_ops\<close> the definitions take as
  their argument, and the locale \<open>priority_queue\<close> states what the crate documents about them,
  over the finite map \<open>\<alpha> q\<close> from keys to entries with their priorities. The weight of
  an entry (\<open>CacheEntry::weight\<close>) depends on allocator capacities and is a function argument
  \<open>W\<close>. Operations that may panic return an \<open>option\<close>, \<open>None\<close> being the panic: the
  subtractions on \<open>total_weight\<close> (a \<open>usize\<close>) panic when they would go below zero, and so do
  the \<open>assert_eq!\<close> of \<open>remove\<close> and the \<open>expect\<close> of \<open>evict\<close>. The counters that only grow by
  one per call (\<open>u64\<close> frequencies and the \<open>usize\<close> sum) are unbounded here.
\<close>

section \<open>Entries and priorities\<close>

definition STALE_PERIOD :: nat where "STALE_PERIOD = 100"

record ('k, 'v) cache_entry =
  ce_weight :: nat
  ce_key :: 'k
  ce_value :: 'v
  will_stale :: bool

text \<open>The priority \<open>(stale, Reverse(frequency))\<close> with the order of Rust tuples: stale entries
  are greater than fresh ones, and among equals the less frequent is greater.\<close>

datatype priority = Priority (is_stale: bool) (frequency: nat)

instantiation priority :: linorder
begin

definition less_eq_priority :: "priority \<Rightarrow> priority \<Rightarrow> bool" where
  "p \<le> q \<longleftrightarrow> (\<not> is_stale p \<and> is_stale q) \<or>
     (is_stale p = is_stale q \<and> frequency q \<le> frequency p)"

definition less_priority :: "priority \<Rightarrow> priority \<Rightarrow> bool" where
  "p < q \<longleftrightarrow> p \<le> q \<and> \<not> q \<le> (p :: priority)"

instance
  by standard (auto simp: less_eq_priority_def less_priority_def intro: priority.expand)

end

text \<open>What the cache uses of \<open>PriorityQueue<CacheEntry<K, V>, Priority>\<close>. Entries are compared
  and hashed by their key alone, so a key stands for the \<open>cache_key\<close> entry the source builds
  to look one up. \<open>pq_modify\<close> is \<open>get_mut\<close> followed by assignments through the reference, and
  \<open>pq_iter_mut\<close> is a \<open>for\<close> loop over \<open>iter_mut()\<close>.\<close>

record ('q, 'k, 'v) pq_ops =
  pq_new :: 'q
  pq_push :: "('k, 'v) cache_entry \<Rightarrow> priority \<Rightarrow> 'q \<Rightarrow> 'q"
  pq_get :: "'k \<Rightarrow> 'q \<Rightarrow> (('k, 'v) cache_entry \<times> priority) option"
  pq_modify :: "'k \<Rightarrow> (('k, 'v) cache_entry \<Rightarrow> ('k, 'v) cache_entry) \<Rightarrow> 'q \<Rightarrow> 'q"
  pq_change_priority_by :: "'k \<Rightarrow> (priority \<Rightarrow> priority) \<Rightarrow> 'q \<Rightarrow> 'q"
  pq_change_priority :: "'k \<Rightarrow> priority \<Rightarrow> 'q \<Rightarrow> priority option \<times> 'q"
  pq_pop :: "'q \<Rightarrow> ((('k, 'v) cache_entry \<times> priority) \<times> 'q) option"
  pq_is_empty :: "'q \<Rightarrow> bool"
  pq_len :: "'q \<Rightarrow> nat"
  pq_iter_mut :: "(('k, 'v) cache_entry \<times> priority \<Rightarrow> ('k, 'v) cache_entry \<times> priority) \<Rightarrow> 'q \<Rightarrow> 'q"
  pq_into_iter :: "'q \<Rightarrow> (('k, 'v) cache_entry \<times> priority) list"
  pq_extend :: "'q \<Rightarrow> (('k, 'v) cache_entry \<times> priority) list \<Rightarrow> 'q"

section \<open>The cache\<close>

record 'q lfu_cache =
  queue :: 'q
  total_weight :: nat
  stale_counter :: nat

definition lfu_new :: "('q, 'k, 'v) pq_ops \<Rightarrow> 'q lfu_cache" where
  "lfu_new P = \<lparr>queue = pq_new P, total_weight = 0, stale_counter = 0\<rparr>"

definition lfu_get_mut ::
  "('q, 'k, 'v) pq_ops \<Rightarrow> 'k \<Rightarrow> 'q lfu_cache \<Rightarrow> ('k, 'v) cache_entry option \<times> 'q lfu_cache" where
  "lfu_get_mut P key c =
     (let q1 = pq_change_priority_by P key (\<lambda>p. Priority (is_stale p) (frequency p + 1)) (queue c);
          q2 = pq_modify P key (\<lambda>e. e\<lparr>will_stale := False\<rparr>) q1
      in (map_option fst (pq_get P key q2), c\<lparr>queue := q2\<rparr>))"

definition lfu_insert ::
  "('q, 'k, 'v) pq_ops \<Rightarrow> ('k \<Rightarrow> 'v \<Rightarrow> nat) \<Rightarrow> 'k \<Rightarrow> 'v \<Rightarrow> 'q lfu_cache \<Rightarrow> 'q lfu_cache option" where
  "lfu_insert P W key value c =
     (let weight = W key value in
      case lfu_get_mut P key c of
        (None, c1) \<Rightarrow>
          Some (c1\<lparr>total_weight := total_weight c1 + weight,
            queue := pq_push P
              \<lparr>ce_weight = weight, ce_key = key, ce_value = value, will_stale = False\<rparr>
              (Priority False 1) (queue c1)\<rparr>)
      | (Some entry, c1) \<Rightarrow>
          let old_weight = ce_weight entry;
              q = pq_modify P key (\<lambda>e. e\<lparr>ce_weight := weight, ce_value := value\<rparr>) (queue c1)
          in if old_weight \<le> total_weight c1
             then Some (c1\<lparr>queue := q, total_weight := total_weight c1 - old_weight + weight\<rparr>)
             else None)"

definition lfu_get ::
  "('q, 'k, 'v) pq_ops \<Rightarrow> 'k \<Rightarrow> 'q lfu_cache \<Rightarrow> 'v option \<times> 'q lfu_cache" where
  "lfu_get P key c = (let (e, c') = lfu_get_mut P key c in (map_option ce_value e, c'))"

definition lfu_remove ::
  "('q, 'k, 'v) pq_ops \<Rightarrow> 'k \<Rightarrow> 'q lfu_cache \<Rightarrow> ('v option \<times> 'q lfu_cache) option" where
  "lfu_remove P key c =
     (case pq_change_priority P key (Priority True 0) (queue c) of
        (None, q) \<Rightarrow> Some (None, c\<lparr>queue := q\<rparr>)
      | (Some _, q) \<Rightarrow>
          (case pq_pop P q of
             None \<Rightarrow> Some (None, c\<lparr>queue := q\<rparr>)
           | Some ((e, _), q') \<Rightarrow>
               if ce_key e = key \<and> ce_weight e \<le> total_weight c
               then Some (Some (ce_value e),
                      c\<lparr>queue := q', total_weight := total_weight c - ce_weight e\<rparr>)
               else None))"

definition lfu_contains_key :: "('q, 'k, 'v) pq_ops \<Rightarrow> 'k \<Rightarrow> 'q lfu_cache \<Rightarrow> bool" where
  "lfu_contains_key P key c \<longleftrightarrow> pq_get P key (queue c) \<noteq> None"

definition lfu_is_empty :: "('q, 'k, 'v) pq_ops \<Rightarrow> 'q lfu_cache \<Rightarrow> bool" where
  "lfu_is_empty P c = pq_is_empty P (queue c)"

definition lfu_len :: "('q, 'k, 'v) pq_ops \<Rightarrow> 'q lfu_cache \<Rightarrow> nat" where
  "lfu_len P c = pq_len P (queue c)"

text \<open>The \<open>while\<close> loop of \<open>evict_with_period\<close>: the fuel counts the remaining iterations, one
  per entry of the queue and one to find it empty.\<close>

fun evict_loop ::
  "('q, 'k, 'v) pq_ops \<Rightarrow> nat \<Rightarrow> nat \<Rightarrow> nat \<Rightarrow> 'q lfu_cache \<Rightarrow> (nat \<times> 'q lfu_cache) option" where
  "evict_loop P 0 max_weight evicted c = None"
| "evict_loop P (Suc fuel) max_weight evicted c =
     (if max_weight < total_weight c
      then (case pq_pop P (queue c) of
              None \<Rightarrow> None
            | Some ((entry, _), q) \<Rightarrow>
                if ce_weight entry \<le> total_weight c
                then evict_loop P fuel max_weight (evicted + ce_weight entry)
                       (c\<lparr>queue := q, total_weight := total_weight c - ce_weight entry\<rparr>)
                else None)
      else Some (evicted, c))"

definition mark_stale :: "('k, 'v) cache_entry \<times> priority \<Rightarrow> ('k, 'v) cache_entry \<times> priority" where
  "mark_stale = (\<lambda>(e, p). (e\<lparr>will_stale := True\<rparr>, Priority (will_stale e) (frequency p)))"

definition lfu_evict_with_period ::
  "('q, 'k, 'v) pq_ops \<Rightarrow> nat \<Rightarrow> nat \<Rightarrow> 'q lfu_cache \<Rightarrow> ((nat \<times> nat \<times> nat) option \<times> 'q lfu_cache) option" where
  "lfu_evict_with_period P max_weight stale_period c =
     (if total_weight c \<le> max_weight then Some (None, c)
      else
        let c1 = c\<lparr>stale_counter := stale_counter c + 1\<rparr>;
            c2 = (if stale_counter c1 = stale_period
                  then c1\<lparr>stale_counter := 0, queue := pq_iter_mut P mark_stale (queue c1)\<rparr>
                  else c1);
            old_weight = total_weight c2
        in case evict_loop P (Suc (pq_len P (queue c2))) max_weight 0 c2 of
             None \<Rightarrow> None
           | Some (evicted, c3) \<Rightarrow> Some (Some (evicted, old_weight, total_weight c3), c3))"

definition lfu_evict ::
  "('q, 'k, 'v) pq_ops \<Rightarrow> nat \<Rightarrow> 'q lfu_cache \<Rightarrow> ((nat \<times> nat \<times> nat) option \<times> 'q lfu_cache) option" where
  "lfu_evict P max_weight c = lfu_evict_with_period P max_weight STALE_PERIOD c"

definition lfu_into_iter ::
  "('q, 'k, 'v) pq_ops \<Rightarrow> 'q lfu_cache \<Rightarrow> (('k, 'v) cache_entry \<times> priority) list" where
  "lfu_into_iter P c = pq_into_iter P (queue c)"

definition lfu_extend ::
  "('q, 'k, 'v) pq_ops \<Rightarrow> 'q lfu_cache \<Rightarrow> (('k, 'v) cache_entry \<times> priority) list \<Rightarrow> 'q lfu_cache" where
  "lfu_extend P c items = c\<lparr>queue := pq_extend P (queue c) items\<rparr>"

section \<open>What the priority queue promises\<close>

type_synonym ('k, 'v) queue_map = "'k \<rightharpoonup> ('k, 'v) cache_entry \<times> priority"

definition keeps_key :: "(('k, 'v) cache_entry \<Rightarrow> ('k, 'v) cache_entry) \<Rightarrow> bool" where
  "keeps_key f \<longleftrightarrow> (\<forall>e. ce_key (f e) = ce_key e)"

locale priority_queue =
  fixes P :: "('q, 'k, 'v) pq_ops"
    and \<alpha> :: "'q \<Rightarrow> ('k, 'v) queue_map"
    and pq_invar :: "'q \<Rightarrow> bool"
  assumes finite_dom: "pq_invar q \<Longrightarrow> finite (dom (\<alpha> q))"
    and entry_key: "pq_invar q \<Longrightarrow> \<alpha> q k = Some (e, p) \<Longrightarrow> ce_key e = k"
    and new: "pq_invar (pq_new P) \<and> \<alpha> (pq_new P) = Map.empty"
    and push: "pq_invar q \<Longrightarrow> pq_invar (pq_push P e p q) \<and>
      \<alpha> (pq_push P e p q) = (\<alpha> q)(ce_key e \<mapsto>
        (case \<alpha> q (ce_key e) of None \<Rightarrow> (e, p) | Some (e0, _) \<Rightarrow> (e0, p)))"
    and get: "pq_invar q \<Longrightarrow> pq_get P k q = \<alpha> q k"
    and modify: "pq_invar q \<Longrightarrow> keeps_key f \<Longrightarrow> pq_invar (pq_modify P k f q) \<and>
      \<alpha> (pq_modify P k f q) = (\<alpha> q)(k := map_option (map_prod f id) (\<alpha> q k))"
    and change_priority_by: "pq_invar q \<Longrightarrow> pq_invar (pq_change_priority_by P k g q) \<and>
      \<alpha> (pq_change_priority_by P k g q) = (\<alpha> q)(k := map_option (map_prod id g) (\<alpha> q k))"
    and change_priority: "pq_invar q \<Longrightarrow> pq_change_priority P k p q = (r, q') \<Longrightarrow>
      r = map_option snd (\<alpha> q k) \<and> pq_invar q' \<and>
      \<alpha> q' = (\<alpha> q)(k := map_option (map_prod id (\<lambda>_. p)) (\<alpha> q k))"
    and pop_None: "pq_invar q \<Longrightarrow> pq_pop P q = None \<longleftrightarrow> \<alpha> q = Map.empty"
    and pop_Some: "pq_invar q \<Longrightarrow> pq_pop P q = Some ((e, p), q') \<Longrightarrow>
      \<alpha> q (ce_key e) = Some (e, p) \<and> (\<forall>k e' p'. \<alpha> q k = Some (e', p') \<longrightarrow> p' \<le> p) \<and>
      pq_invar q' \<and> \<alpha> q' = (\<alpha> q)(ce_key e := None)"
    and is_empty: "pq_invar q \<Longrightarrow> pq_is_empty P q \<longleftrightarrow> \<alpha> q = Map.empty"
    and len: "pq_invar q \<Longrightarrow> pq_len P q = card (dom (\<alpha> q))"
    and iter_mut: "pq_invar q \<Longrightarrow> (\<And>e p. ce_key (fst (h (e, p))) = ce_key e) \<Longrightarrow>
      pq_invar (pq_iter_mut P h q) \<and> \<alpha> (pq_iter_mut P h q) = map_option h \<circ> \<alpha> q"
    and into_iter: "pq_invar q \<Longrightarrow> distinct (map (ce_key \<circ> fst) (pq_into_iter P q)) \<and>
      (\<forall>k. \<alpha> q k = map_of (map (\<lambda>x. (ce_key (fst x), x)) (pq_into_iter P q)) k)"
    and extend: "pq_invar q \<Longrightarrow> pq_invar (pq_extend P q xs) \<and>
      \<alpha> (pq_extend P q xs) = fold (\<lambda>(e, p) m. m(ce_key e \<mapsto>
        (case m (ce_key e) of None \<Rightarrow> (e, p) | Some (e0, _) \<Rightarrow> (e0, p)))) xs (\<alpha> q)"

section \<open>The invariant\<close>

definition weight_sum :: "('k, 'v) queue_map \<Rightarrow> nat" where
  "weight_sum m = (\<Sum>k \<in> dom m. ce_weight (fst (the (m k))))"

definition lfu_inv ::
  "('q \<Rightarrow> ('k, 'v) queue_map) \<Rightarrow> ('q \<Rightarrow> bool) \<Rightarrow> 'q lfu_cache \<Rightarrow> bool" where
  "lfu_inv A I c \<longleftrightarrow> I (queue c) \<and> total_weight c = weight_sum (A (queue c)) \<and>
     (\<forall>k e p. A (queue c) k = Some (e, p) \<longrightarrow> 0 < frequency p)"

text \<open>The map from keys to values the cache stands for.\<close>

definition lfu_map :: "('q \<Rightarrow> ('k, 'v) queue_map) \<Rightarrow> 'q lfu_cache \<Rightarrow> 'k \<rightharpoonup> 'v" where
  "lfu_map A c = map_option (ce_value \<circ> fst) \<circ> A (queue c)"

text \<open>What eviction may do to the entries: drop some of them, none of a lower priority than one
  that stays.\<close>

definition evicts_from :: "('k, 'v) queue_map \<Rightarrow> ('k, 'v) queue_map \<Rightarrow> bool" where
  "evicts_from m m' \<longleftrightarrow> m' \<subseteq>\<^sub>m m \<and>
     (\<forall>k1 k2 x y. m k1 = Some x \<longrightarrow> m' k1 = None \<longrightarrow> m' k2 = Some y \<longrightarrow> snd y \<le> snd x)"

text \<open>The entries with the priorities the eviction loop sees: those of \<open>iter_mut\<close> when a stale
  period is over.\<close>

definition aged ::
  "('q \<Rightarrow> ('k, 'v) queue_map) \<Rightarrow> nat \<Rightarrow> 'q lfu_cache \<Rightarrow> ('k, 'v) queue_map" where
  "aged A stale_period c = (if stale_counter c + 1 = stale_period
     then map_option mark_stale \<circ> A (queue c) else A (queue c))"

lemma weight_sum_empty [simp]: "weight_sum Map.empty = 0"
  by (simp add: weight_sum_def)

lemma weight_sum_delete:
  assumes "finite (dom m)" and "m k = Some (e, p)"
  shows "weight_sum (m(k := None)) + ce_weight e = weight_sum m"
proof -
  have "weight_sum m = ce_weight (fst (the (m k))) + (\<Sum>j \<in> dom m - {k}. ce_weight (fst (the (m j))))"
    unfolding weight_sum_def using assms by (intro sum.remove) auto
  moreover have "(\<Sum>j \<in> dom m - {k}. ce_weight (fst (the (m j)))) = weight_sum (m(k := None))"
    unfolding weight_sum_def by (intro sum.cong) auto
  ultimately show ?thesis using assms(2) by simp
qed

lemma weight_sum_delete_None: "m k = None \<Longrightarrow> weight_sum (m(k := None)) = weight_sum m"
  by (simp add: fun_upd_idem)

lemma weight_sum_upd:
  assumes "finite (dom m)"
  shows "weight_sum (m(k \<mapsto> (e, p))) = weight_sum (m(k := None)) + ce_weight e"
  using weight_sum_delete [of "m(k \<mapsto> (e, p))" k e p] assms by simp

lemma weight_sum_same_weights:
  assumes "dom m = dom m'" and "\<And>k. k \<in> dom m \<Longrightarrow> ce_weight (fst (the (m k))) = ce_weight (fst (the (m' k)))"
  shows "weight_sum m = weight_sum m'"
  unfolding weight_sum_def using assms by (intro sum.cong) auto

lemma weight_sum_le:
  assumes "finite (dom m)" and "m k = Some (e, p)"
  shows "ce_weight e \<le> weight_sum m"
  using weight_sum_delete [OF assms] by simp

context priority_queue
begin

abbreviation "cinv \<equiv> lfu_inv \<alpha> pq_invar"
abbreviation "contents \<equiv> lfu_map \<alpha>"

lemma new_spec: "cinv (lfu_new P) \<and> contents (lfu_new P) = Map.empty"
  using new by (simp add: lfu_inv_def lfu_map_def lfu_new_def)

lemma keeps_key_fields [simp]:
  "keeps_key (\<lambda>e. e\<lparr>will_stale := b\<rparr>)"
  "keeps_key (\<lambda>e. e\<lparr>ce_weight := w, ce_value := v\<rparr>)"
  by (simp_all add: keeps_key_def)

text \<open>An access touches one entry: it bumps the frequency and clears the mark.\<close>

definition touched :: "'k \<Rightarrow> ('k, 'v) queue_map \<Rightarrow> ('k, 'v) queue_map" where
  "touched k m = m(k := map_option (\<lambda>(e, p).
     (e\<lparr>will_stale := False\<rparr>, Priority (is_stale p) (frequency p + 1))) (m k))"

lemma get_mut_queue:
  assumes "cinv c" and "lfu_get_mut P k c = (r, c')"
  shows "pq_invar (queue c') \<and> \<alpha> (queue c') = touched k (\<alpha> (queue c)) \<and>
    total_weight c' = total_weight c \<and> stale_counter c' = stale_counter c \<and>
    r = map_option fst (\<alpha> (queue c') k)"
proof -
  let ?q1 = "pq_change_priority_by P k (\<lambda>p. Priority (is_stale p) (frequency p + 1)) (queue c)"
  have q: "pq_invar (queue c)" using assms(1) by (simp add: lfu_inv_def)
  have q1: "pq_invar ?q1" and a1: "\<alpha> ?q1 = (\<alpha> (queue c))(k := map_option
      (map_prod id (\<lambda>p. Priority (is_stale p) (frequency p + 1))) (\<alpha> (queue c) k))"
    using change_priority_by [OF q] by blast+
  have q2: "pq_invar (pq_modify P k (\<lambda>e. e\<lparr>will_stale := False\<rparr>) ?q1)"
    and a2: "\<alpha> (pq_modify P k (\<lambda>e. e\<lparr>will_stale := False\<rparr>) ?q1) =
      (\<alpha> ?q1)(k := map_option (map_prod (\<lambda>e. e\<lparr>will_stale := False\<rparr>) id) (\<alpha> ?q1 k))"
    using modify [OF q1 keeps_key_fields(1)] by blast+
  have "\<alpha> (pq_modify P k (\<lambda>e. e\<lparr>will_stale := False\<rparr>) ?q1) = touched k (\<alpha> (queue c))"
    unfolding a2 a1 touched_def
    by (cases "\<alpha> (queue c) k") (auto simp: fun_eq_iff)
  moreover have "r = map_option fst (pq_get P k (queue c'))"
    and "c' = c\<lparr>queue := pq_modify P k (\<lambda>e. e\<lparr>will_stale := False\<rparr>) ?q1\<rparr>"
    using assms(2) by (auto simp: lfu_get_mut_def Let_def)
  ultimately show ?thesis using q2 get [OF q2] by simp
qed

lemma touched_weight_sum: "weight_sum (touched k m) = weight_sum m"
  by (rule weight_sum_same_weights) (auto simp: touched_def split: if_splits)

lemma get_mut_spec:
  assumes "cinv c" and "lfu_get_mut P k c = (r, c')"
  shows "cinv c' \<and> contents c' = contents c \<and> map_option ce_value r = contents c k"
proof -
  have "contents c' = contents c"
    using get_mut_queue [OF assms]
    by (simp add: lfu_map_def touched_def fun_eq_iff option.map_comp comp_def split_beta)
  moreover have "cinv c'" using get_mut_queue [OF assms] assms(1)
    by (auto simp: lfu_inv_def touched_weight_sum) (auto simp: touched_def split: if_splits)
  moreover have "map_option ce_value r = contents c' k"
    using get_mut_queue [OF assms] by (simp add: lfu_map_def option.map_comp comp_def)
  ultimately show ?thesis by simp
qed

lemma get_spec:
  assumes "cinv c" and "lfu_get P k c = (r, c')"
  shows "cinv c' \<and> contents c' = contents c \<and> r = contents c k"
  using get_mut_spec [OF assms(1), of k] assms(2)
  by (cases "lfu_get_mut P k c") (auto simp: lfu_get_def)

lemma contains_key_spec: "cinv c \<Longrightarrow> lfu_contains_key P k c \<longleftrightarrow> k \<in> dom (contents c)"
  by (auto simp: lfu_contains_key_def lfu_inv_def get lfu_map_def)

lemma len_spec: "cinv c \<Longrightarrow> lfu_len P c = card (dom (contents c))"
  by (auto simp: lfu_len_def lfu_inv_def len lfu_map_def dom_def)

lemma is_empty_spec: "cinv c \<Longrightarrow> lfu_is_empty P c \<longleftrightarrow> contents c = Map.empty"
  by (simp add: lfu_is_empty_def lfu_inv_def is_empty lfu_map_def fun_eq_iff)

lemma insert_spec:
  assumes "cinv c"
  shows "\<exists>c'. lfu_insert P W k v c = Some c' \<and> cinv c' \<and> contents c' = (contents c)(k \<mapsto> v)"
proof -
  obtain r c1 where g: "lfu_get_mut P k c = (r, c1)" by (cases "lfu_get_mut P k c")
  have i1: "cinv c1" and m1: "contents c1 = contents c" using get_mut_spec [OF assms g] by simp_all
  have q1: "pq_invar (queue c1)" and tw: "total_weight c1 = weight_sum (\<alpha> (queue c1))"
    and pos: "\<And>k e p. \<alpha> (queue c1) k = Some (e, p) \<Longrightarrow> 0 < frequency p"
    using i1 by (auto simp: lfu_inv_def)
  have r: "r = map_option fst (\<alpha> (queue c1) k)" using get_mut_queue [OF assms g] by simp
  note fin = finite_dom [OF q1]
  show ?thesis
  proof (cases "\<alpha> (queue c1) k")
    case None
    let ?e = "\<lparr>ce_weight = W k v, ce_key = k, ce_value = v, will_stale = False\<rparr>"
    have p: "pq_invar (pq_push P ?e (Priority False 1) (queue c1))"
      "\<alpha> (pq_push P ?e (Priority False 1) (queue c1)) = (\<alpha> (queue c1))(k \<mapsto> (?e, Priority False 1))"
      using push [OF q1, of ?e "Priority False 1"] None by simp_all
    then show ?thesis using None r g tw pos m1 fin
      by (auto simp: lfu_insert_def Let_def lfu_inv_def weight_sum_upd weight_sum_delete_None
          lfu_map_def fun_upd_comp)
  next
    case (Some ep)
    obtain e p where ep: "ep = (e, p)" by (cases ep)
    let ?f = "\<lambda>e. e\<lparr>ce_weight := W k v, ce_value := v\<rparr>"
    have md: "pq_invar (pq_modify P k ?f (queue c1))"
      "\<alpha> (pq_modify P k ?f (queue c1)) = (\<alpha> (queue c1))(k \<mapsto> (?f e, p))"
      using modify [OF q1, of ?f k] Some ep by simp_all
    have d: "weight_sum ((\<alpha> (queue c1))(k := None)) + ce_weight e = weight_sum (\<alpha> (queue c1))"
      using weight_sum_delete [OF fin] Some ep by simp
    show ?thesis using Some ep r g tw pos m1 md d fin
      by (auto simp: lfu_insert_def Let_def lfu_inv_def weight_sum_upd lfu_map_def fun_upd_comp)
  qed
qed

lemma remove_spec:
  assumes "cinv c"
  shows "\<exists>c'. lfu_remove P k c = Some (contents c k, c') \<and> cinv c' \<and> contents c' = (contents c)(k := None)"
proof -
  obtain r q1 where cp: "pq_change_priority P k (Priority True 0) (queue c) = (r, q1)"
    by (cases "pq_change_priority P k (Priority True 0) (queue c)")
  have q: "pq_invar (queue c)" and tw: "total_weight c = weight_sum (\<alpha> (queue c))"
    and pos: "\<And>k e p. \<alpha> (queue c) k = Some (e, p) \<Longrightarrow> 0 < frequency p"
    using assms by (auto simp: lfu_inv_def)
  have r: "r = map_option snd (\<alpha> (queue c) k)" and q1: "pq_invar q1" and a1: "\<alpha> q1 =
      (\<alpha> (queue c))(k := map_option (map_prod id (\<lambda>_. Priority True 0)) (\<alpha> (queue c) k))"
    using change_priority [OF q cp] by simp_all
  show ?thesis
  proof (cases "\<alpha> (queue c) k")
    case None
    then have "\<alpha> q1 = \<alpha> (queue c)" using a1 by (simp add: fun_upd_idem)
    then show ?thesis using None r cp q1 tw pos
      by (auto simp: lfu_remove_def lfu_inv_def lfu_map_def fun_upd_comp)
  next
    case (Some ep)
    obtain e p where ep: "ep = (e, p)" by (cases ep)
    have k1: "\<alpha> q1 k = Some (e, Priority True 0)" using a1 Some ep by simp
    obtain e' p' q' where pop: "pq_pop P q1 = Some ((e', p'), q')"
      using pop_None [OF q1] k1 by (metis option.exhaust option.distinct(1) prod.exhaust)
    have in1: "\<alpha> q1 (ce_key e') = Some (e', p')" and top: "Priority True 0 \<le> p'"
      and q': "pq_invar q'" and a': "\<alpha> q' = (\<alpha> q1)(ce_key e' := None)"
      using pop_Some [OF q1 pop] k1 by blast+
    have "ce_key e' = k"
    proof (rule ccontr)
      assume "ce_key e' \<noteq> k"
      then have "0 < frequency p'" using in1 a1 pos by simp
      then show False using top by (simp add: less_eq_priority_def)
    qed
    then have "Some (e', p') = Some (e, Priority True 0)" using in1 k1 by (simp only:)
    then have e': "e' = e" "ce_key e = k" using \<open>ce_key e' = k\<close> by simp_all
    moreover have "\<alpha> q' = (\<alpha> (queue c))(k := None)" unfolding a' a1 \<open>ce_key e' = k\<close> by simp
    ultimately show ?thesis
      using Some ep r cp pop q' tw pos weight_sum_delete [OF finite_dom [OF q]]
        weight_sum_le [OF finite_dom [OF q]]
      by (auto simp: lfu_remove_def lfu_inv_def lfu_map_def fun_upd_comp)
        (metis add_diff_cancel_right')
  qed
qed

lemma evict_loop_spec:
  assumes "cinv c" and "card (dom (\<alpha> (queue c))) < fuel"
  shows "\<exists>ev' c'. evict_loop P fuel max_weight ev c = Some (ev', c') \<and> cinv c' \<and>
    evicts_from (\<alpha> (queue c)) (\<alpha> (queue c')) \<and> total_weight c' \<le> max_weight \<and>
    ev' + total_weight c' = ev + total_weight c \<and> stale_counter c' = stale_counter c"
  using assms
proof (induction fuel arbitrary: c ev)
  case 0
  then show ?case by simp
next
  case (Suc fuel)
  have q: "pq_invar (queue c)" and tw: "total_weight c = weight_sum (\<alpha> (queue c))"
    using Suc.prems(1) by (simp_all add: lfu_inv_def)
  show ?case
  proof (cases "max_weight < total_weight c")
    case False
    then show ?thesis using Suc.prems(1) by (simp add: evicts_from_def)
  next
    case True
    then have "\<alpha> (queue c) \<noteq> Map.empty" using tw by auto
    then obtain e p q' where pop: "pq_pop P (queue c) = Some ((e, p), q')"
      using pop_None [OF q] by (metis option.exhaust prod.exhaust)
    have e: "\<alpha> (queue c) (ce_key e) = Some (e, p)"
      and top: "\<And>k e' p'. \<alpha> (queue c) k = Some (e', p') \<Longrightarrow> p' \<le> p"
      and q': "pq_invar q'" and a': "\<alpha> q' = (\<alpha> (queue c))(ce_key e := None)"
      using pop_Some [OF q pop] by blast+
    have w: "weight_sum (\<alpha> q') + ce_weight e = total_weight c"
      unfolding tw a' by (rule weight_sum_delete [OF finite_dom [OF q] e])
    let ?c = "c\<lparr>queue := q', total_weight := total_weight c - ce_weight e\<rparr>"
    have "cinv ?c" using Suc.prems(1) q' w by (auto simp: lfu_inv_def a' split: if_splits)
    moreover have "card (dom (\<alpha> q')) < fuel"
      using Suc.prems(2) card_Suc_Diff1 [OF finite_dom [OF q], of "ce_key e"] e unfolding a'
      by (simp add: domI)
    ultimately obtain ev' c' where r: "evict_loop P fuel max_weight (ev + ce_weight e) ?c = Some (ev', c')"
      "cinv c'" "total_weight c' \<le> max_weight" "stale_counter c' = stale_counter c"
      and evf: "evicts_from (\<alpha> q') (\<alpha> (queue c'))"
      and sum: "ev' + total_weight c' = ev + ce_weight e + (total_weight c - ce_weight e)"
      using Suc.IH [of ?c "ev + ce_weight e"] by auto
    have "evicts_from (\<alpha> (queue c)) (\<alpha> (queue c'))"
      unfolding evicts_from_def
    proof (intro conjI allI impI)
      show "\<alpha> (queue c') \<subseteq>\<^sub>m \<alpha> (queue c)"
        using evf unfolding evicts_from_def a' map_le_def by (auto split: if_splits)
    next
      fix k1 k2 x y
      assume k: "\<alpha> (queue c) k1 = Some x" "\<alpha> (queue c') k1 = None" "\<alpha> (queue c') k2 = Some y"
      then have "\<alpha> q' k2 = Some y" using evf unfolding evicts_from_def map_le_def by (metis domI)
      then have "snd y \<le> p" using top unfolding a' by (cases y) (auto split: if_splits)
      show "snd y \<le> snd x"
      proof (cases "k1 = ce_key e")
        case True
        then show ?thesis using k e \<open>snd y \<le> p\<close> by auto
      next
        case False
        then have "\<alpha> q' k1 = Some x" using k(1) by (simp add: a')
        then show ?thesis using k evf unfolding evicts_from_def by blast
      qed
    qed
    then show ?thesis using True pop r sum w by auto
  qed
qed

lemma evict_spec:
  assumes "cinv c"
  shows "\<exists>r c'. lfu_evict_with_period P max_weight stale_period c = Some (r, c') \<and> cinv c' \<and>
    total_weight c' \<le> max_weight \<and> contents c' \<subseteq>\<^sub>m contents c \<and>
    (r = None \<longleftrightarrow> total_weight c \<le> max_weight) \<and> (r = None \<longrightarrow> c' = c) \<and>
    (\<forall>evicted old new. r = Some (evicted, old, new) \<longrightarrow>
       old = total_weight c \<and> new = total_weight c' \<and> evicted + new = old \<and>
       evicts_from (aged \<alpha> stale_period c) (\<alpha> (queue c')))"
proof (cases "total_weight c \<le> max_weight")
  case True
  then show ?thesis using assms by (simp add: lfu_evict_with_period_def)
next
  case False
  let ?c1 = "c\<lparr>stale_counter := stale_counter c + 1\<rparr>"
  define c2 where "c2 = (if stale_counter ?c1 = stale_period
    then ?c1\<lparr>stale_counter := 0, queue := pq_iter_mut P mark_stale (queue ?c1)\<rparr> else ?c1)"
  have q: "pq_invar (queue c)" using assms by (simp add: lfu_inv_def)
  have it: "pq_invar (pq_iter_mut P mark_stale (queue c)) \<and>
      \<alpha> (pq_iter_mut P mark_stale (queue c)) = map_option mark_stale \<circ> \<alpha> (queue c)"
    by (rule iter_mut [OF q]) (simp add: mark_stale_def)
  then have a2: "\<alpha> (queue c2) = aged \<alpha> stale_period c" by (simp add: c2_def aged_def)
  have tw2: "total_weight c2 = total_weight c" by (simp add: c2_def)
  have "weight_sum (map_option mark_stale \<circ> \<alpha> (queue c)) = weight_sum (\<alpha> (queue c))"
    by (rule weight_sum_same_weights) (auto simp: mark_stale_def split: if_splits)
  then have i2: "cinv c2" using assms it
    by (auto simp: lfu_inv_def c2_def mark_stale_def)
  have m2: "contents c2 = contents c"
    using it by (auto simp: lfu_map_def c2_def mark_stale_def fun_eq_iff option.map_comp comp_def split_beta)
  have "card (dom (\<alpha> (queue c2))) < Suc (pq_len P (queue c2))"
    using i2 by (simp add: lfu_inv_def len)
  from evict_loop_spec [OF i2 this, of max_weight 0] obtain ev c' where
    loop: "evict_loop P (Suc (pq_len P (queue c2))) max_weight 0 c2 = Some (ev, c')" and c': "cinv c'"
    "evicts_from (\<alpha> (queue c2)) (\<alpha> (queue c'))" "total_weight c' \<le> max_weight"
    "ev + total_weight c' = total_weight c2" by auto
  have "contents c' \<subseteq>\<^sub>m contents c2"
    using c'(2) by (force simp: evicts_from_def lfu_map_def map_le_def)
  moreover have "lfu_evict_with_period P max_weight stale_period c =
      Some (Some (ev, total_weight c2, total_weight c'), c')"
    unfolding lfu_evict_with_period_def Let_def c2_def [symmetric] loop using False by simp
  ultimately show ?thesis using False c' a2 tw2 m2 by simp
qed

text \<open>An entry that comes in through \<open>extend\<close> is not counted in \<open>total_weight\<close>.\<close>

lemma extend_remove_panics:
  assumes "cinv c" and "\<alpha> (queue c) (ce_key e) = None" and "0 < frequency p"
    and "total_weight c < ce_weight e"
  shows "lfu_remove P (ce_key e) (lfu_extend P c [(e, p)]) = None"
proof -
  define q where "q = pq_extend P (queue c) [(e, p)]"
  have q: "pq_invar q" "\<alpha> q = (\<alpha> (queue c))(ce_key e \<mapsto> (e, p))"
    using extend [of "queue c" "[(e, p)]"] assms(1,2) by (simp_all add: q_def lfu_inv_def)
  obtain r q1 where cp: "pq_change_priority P (ce_key e) (Priority True 0) q = (r, q1)"
    by (cases "pq_change_priority P (ce_key e) (Priority True 0) q")
  have r: "r = Some p" and q1: "pq_invar q1"
    and a1: "\<alpha> q1 = (\<alpha> (queue c))(ce_key e \<mapsto> (e, Priority True 0))"
    using change_priority [OF q(1) cp] q(2) by simp_all
  show ?thesis
  proof (cases "pq_pop P q1")
    case None
    then show ?thesis using pop_None [OF q1] a1 by simp
  next
    case (Some ep)
    then obtain e' p' q' where pop: "pq_pop P q1 = Some ((e', p'), q')" by (cases ep) auto
    have k1: "\<alpha> q1 (ce_key e) = Some (e, Priority True 0)" by (simp add: a1)
    have in1: "\<alpha> q1 (ce_key e') = Some (e', p')" and top: "Priority True 0 \<le> p'"
      using pop_Some [OF q1 pop] k1 by blast+
    have "ce_key e' = ce_key e"
    proof (rule ccontr)
      assume "ce_key e' \<noteq> ce_key e"
      then have "0 < frequency p'" using in1 a1 assms(1) by (simp add: lfu_inv_def)
      then show False using top by (simp add: less_eq_priority_def)
    qed
    then have "Some (e', p') = Some (e, Priority True 0)" using in1 k1 by (simp only:)
    then have "e' = e" by simp
    have "queue (lfu_extend P c [(e, p)]) = q"
      and "total_weight (lfu_extend P c [(e, p)]) = total_weight c"
      by (simp_all add: lfu_extend_def q_def)
    then show ?thesis unfolding lfu_remove_def using \<open>e' = e\<close> assms(4)
      by (simp only: cp r pop prod.case option.case) simp
  qed
qed

end

end
