(* ===== verification/Lfu_Reference.thy ===== *)
theory Lfu_Reference
  imports Lfu_Cache
begin

text \<open>
  A list implementation of the priority queue and the interpretation of \<open>priority_queue\<close> on it:
  the documented laws can be met, and the concrete instances of the cache's theorems compute with
  it. The properties of the cache follow.
\<close>

type_synonym ('k, 'v) entry_list = "(('k, 'v) cache_entry \<times> priority) list"

definition entry_key_of :: "('k, 'v) cache_entry \<times> priority \<Rightarrow> 'k" where
  "entry_key_of x = ce_key (fst x)"

definition list_lookup :: "('k, 'v) entry_list \<Rightarrow> ('k, 'v) queue_map" where
  "list_lookup q k = find (\<lambda>x. entry_key_of x = k) q"

definition list_invar :: "('k, 'v) entry_list \<Rightarrow> bool" where
  "list_invar q \<longleftrightarrow> distinct (map entry_key_of q)"

definition list_push :: "('k, 'v) cache_entry \<Rightarrow> priority \<Rightarrow> ('k, 'v) entry_list \<Rightarrow> ('k, 'v) entry_list" where
  "list_push e p q =
     (if list_lookup q (ce_key e) = None then q @ [(e, p)]
      else map (\<lambda>x. if entry_key_of x = ce_key e then (fst x, p) else x) q)"

definition list_pop :: "('k, 'v) entry_list \<Rightarrow> ((('k, 'v) cache_entry \<times> priority) \<times> ('k, 'v) entry_list) option" where
  "list_pop q =
     (case q of
        [] \<Rightarrow> None
      | x # xs \<Rightarrow>
          let best = fold (\<lambda>y b. if snd b < snd y then y else b) xs x
          in Some (best, filter (\<lambda>y. entry_key_of y \<noteq> entry_key_of best) q))"

definition list_pq :: "(('k, 'v) entry_list, 'k, 'v) pq_ops" where
  "list_pq =
     \<lparr>pq_new = [],
      pq_push = list_push,
      pq_get = (\<lambda>k q. list_lookup q k),
      pq_modify = (\<lambda>k f q. map (\<lambda>x. if entry_key_of x = k then map_prod f id x else x) q),
      pq_change_priority_by = (\<lambda>k g q. map (\<lambda>x. if entry_key_of x = k then map_prod id g x else x) q),
      pq_change_priority = (\<lambda>k p q. (map_option snd (list_lookup q k),
        map (\<lambda>x. if entry_key_of x = k then map_prod id (\<lambda>_. p) x else x) q)),
      pq_pop = list_pop,
      pq_is_empty = (\<lambda>q. q = []),
      pq_len = length,
      pq_iter_mut = map,
      pq_into_iter = id,
      pq_extend = (\<lambda>q xs. fold (\<lambda>(e, p). list_push e p) xs q)\<rparr>"

lemma list_lookup_simps [simp]:
  "list_lookup [] = Map.empty"
  "list_lookup (x # q) = (list_lookup q)(entry_key_of x \<mapsto> x)"
  by (auto simp: list_lookup_def fun_eq_iff)

lemma list_lookup_key: "list_lookup q k = Some x \<Longrightarrow> entry_key_of x = k \<and> x \<in> set q"
  by (induction q) (auto split: if_splits)

lemma list_lookup_None: "list_lookup q k = None \<longleftrightarrow> k \<notin> entry_key_of ` set q"
  by (induction q) auto

lemma dom_list_lookup: "dom (list_lookup q) = entry_key_of ` set q"
  unfolding dom_def list_lookup_None by simp

lemma list_lookup_append: "list_lookup (q @ r) = list_lookup r ++ list_lookup q"
proof
  fix k
  show "list_lookup (q @ r) k = (list_lookup r ++ list_lookup q) k"
    by (induction q) (simp_all add: map_add_def)
qed

lemma list_lookup_in_set: "list_invar q \<Longrightarrow> x \<in> set q \<Longrightarrow> list_lookup q (entry_key_of x) = Some x"
  by (induction q) (simp_all add: list_invar_def, metis image_eqI)

lemma list_lookup_map:
  assumes "\<And>x. x \<in> set q \<Longrightarrow> entry_key_of (g x) = entry_key_of x"
  shows "list_lookup (map g q) = map_option g \<circ> list_lookup q"
  using assms by (induction q) (auto simp: fun_eq_iff)

lemma list_invar_map:
  assumes "\<And>x. x \<in> set q \<Longrightarrow> entry_key_of (g x) = entry_key_of x"
  shows "list_invar (map g q) = list_invar q"
  using assms by (simp add: list_invar_def comp_def cong: map_cong)

lemma list_update_at:
  assumes "\<And>x. entry_key_of (g x) = entry_key_of x"
  shows "list_lookup (map (\<lambda>x. if entry_key_of x = k then g x else x) q) =
      (list_lookup q)(k := map_option g (list_lookup q k))"
    and "list_invar (map (\<lambda>x. if entry_key_of x = k then g x else x) q) = list_invar q"
proof -
  let ?h = "\<lambda>x. if entry_key_of x = k then g x else x"
  have "list_lookup (map ?h q) = map_option ?h \<circ> list_lookup q"
    by (rule list_lookup_map) (simp add: assms)
  also have "\<dots> = (list_lookup q)(k := map_option g (list_lookup q k))"
  proof
    fix j
    show "(map_option ?h \<circ> list_lookup q) j = ((list_lookup q)(k := map_option g (list_lookup q k))) j"
      using list_lookup_key [of q j] by (cases "list_lookup q j") auto
  qed
  finally show "list_lookup (map ?h q) = \<dots>" .
  show "list_invar (map ?h q) = list_invar q" by (rule list_invar_map) (simp add: assms)
qed

lemma list_push_spec:
  assumes "list_invar q"
  shows "list_invar (list_push e p q)"
    and "list_lookup (list_push e p q) = (list_lookup q)(ce_key e \<mapsto>
      (case list_lookup q (ce_key e) of None \<Rightarrow> (e, p) | Some (e0, _) \<Rightarrow> (e0, p)))"
proof -
  have key: "entry_key_of (fst x, p) = entry_key_of x" for x :: "('a, 'b) cache_entry \<times> priority"
    by (simp add: entry_key_of_def)
  note upd = list_update_at [of "\<lambda>x. (fst x, p)", OF key]
  show "list_invar (list_push e p q)"
  proof (cases "list_lookup q (ce_key e) = None")
    case True
    then have "ce_key e \<notin> entry_key_of ` set q" by (simp add: list_lookup_None)
    moreover have "entry_key_of (e, p) = ce_key e" by (simp add: entry_key_of_def)
    ultimately show ?thesis using assms True by (simp add: list_push_def list_invar_def)
  next
    case False
    then show ?thesis unfolding list_push_def using assms upd(2) by (simp only: if_False)
  qed
  show "list_lookup (list_push e p q) = (list_lookup q)(ce_key e \<mapsto>
      (case list_lookup q (ce_key e) of None \<Rightarrow> (e, p) | Some (e0, _) \<Rightarrow> (e0, p)))"
    using upd(1)
    by (auto simp: list_push_def list_lookup_append map_add_def fun_eq_iff entry_key_of_def
        split: option.splits)
qed

lemma fold_best:
  "fold (\<lambda>y b. if snd b < snd y then y else b) xs x \<in> set (x # xs) \<and>
   (\<forall>y \<in> set (x # xs). snd y \<le> snd (fold (\<lambda>y b. if snd b < snd y then y else b) xs (x :: 'a \<times> priority)))"
proof (induction xs arbitrary: x)
  case Nil
  then show ?case by simp
next
  case (Cons y ys)
  show ?case using Cons [of "if snd x < snd y then y else x"]
    by (auto split: if_splits)
qed

lemma list_lookup_filter:
  "list_lookup (filter (\<lambda>y. entry_key_of y \<noteq> k) q) = (list_lookup q)(k := None)"
  by (induction q) (auto simp: fun_eq_iff)

lemma list_pop_spec:
  assumes "list_invar q" and "list_pop q = Some ((e, p), q')"
  shows "list_lookup q (ce_key e) = Some (e, p) \<and>
    (\<forall>k e' p'. list_lookup q k = Some (e', p') \<longrightarrow> p' \<le> p) \<and>
    list_invar q' \<and> list_lookup q' = (list_lookup q)(ce_key e := None)"
proof -
  obtain x xs where q: "q = x # xs" using assms(2) by (cases q) (auto simp: list_pop_def)
  define best where "best = fold (\<lambda>y b. if snd b < snd y then y else b) xs x"
  have best: "best = (e, p)" and q': "q' = filter (\<lambda>y. entry_key_of y \<noteq> entry_key_of best) q"
    using assms(2) by (auto simp: list_pop_def q best_def Let_def)
  have "best \<in> set q" and top: "\<forall>y \<in> set q. snd y \<le> snd best"
    using fold_best [of xs x] by (auto simp: best_def q)
  then have "list_lookup q (entry_key_of best) = Some best" by (intro list_lookup_in_set assms(1))
  moreover have "list_invar q'" using assms(1) unfolding q' list_invar_def by (rule distinct_map_filter)
  moreover have "entry_key_of best = ce_key e" by (simp add: best entry_key_of_def)
  ultimately show ?thesis using top best q' list_lookup_filter [of "ce_key e" q] list_lookup_key [of q]
    by (metis snd_conv)
qed

lemma list_lookup_map_of:
  "list_lookup q k = map_of (map (\<lambda>x. (entry_key_of x, x)) q) k"
  by (induction q) auto

lemma list_extend_spec:
  assumes "list_invar q"
  shows "list_invar (fold (\<lambda>(e, p). list_push e p) xs q) \<and>
    list_lookup (fold (\<lambda>(e, p). list_push e p) xs q) = fold (\<lambda>(e, p) m. m(ce_key e \<mapsto>
        (case m (ce_key e) of None \<Rightarrow> (e, p) | Some (e0, _) \<Rightarrow> (e0, p)))) xs (list_lookup q)"
  using assms by (induction xs arbitrary: q) (auto simp: list_push_spec)

lemma list_len: "list_invar q \<Longrightarrow> length q = card (dom (list_lookup q))"
  by (metis distinct_card length_map dom_list_lookup set_map list_invar_def)

interpretation lpq: priority_queue list_pq list_lookup list_invar
proof (unfold_locales, goal_cases)
  case (6 q f k)
  then show ?case
    using list_update_at [of "map_prod f id" k q]
    by (simp add: list_pq_def entry_key_of_def keeps_key_def)
next
  case (7 q k g)
  then show ?case
    using list_update_at [of "map_prod id g" k q] by (simp add: list_pq_def entry_key_of_def)
next
  case (8 q k p r q')
  then show ?case
    using list_update_at [of "map_prod id (\<lambda>_. p)" k q] by (auto simp: list_pq_def entry_key_of_def)
next
  case (9 q)
  show ?case by (cases q) (auto simp: list_pq_def list_pop_def Let_def)
next
  case (10 q e p q')
  then show ?case using list_pop_spec by (simp add: list_pq_def)
next
  case (11 q)
  show ?case by (cases q) (auto simp: list_pq_def)
next
  case (13 q h)
  then show ?case
    using list_lookup_map [of q h] list_invar_map [of q h] by (auto simp: list_pq_def entry_key_of_def)
next
  case (14 q)
  then show ?case
    by (simp add: list_pq_def list_invar_def list_lookup_map_of entry_key_of_def [abs_def] comp_def)
next
  case 3
  show ?case by (simp add: list_pq_def list_invar_def)
qed (auto simp: list_pq_def list_push_spec list_extend_spec list_len dom_list_lookup
      entry_key_of_def dest: list_lookup_key)

section \<open>Properties of the cache\<close>

text \<open>C11. The cache refines a finite map: from every state that satisfies the invariant, \<open>get\<close> returns
  the value of the key and leaves the contents alone, \<open>insert\<close> never panics and sets the key,
  \<open>remove\<close> never panics, returns the value and deletes exactly that key, and all of them keep
  the invariant (the total weight is the sum of the weights, every frequency is positive).\<close>

theorem lfu_cache_refines_map:
  assumes "priority_queue P A I" and "lfu_inv A I c"
  shows "\<exists>c1 c2 c3.
    lfu_get P k c = (lfu_map A c k, c1) \<and> lfu_inv A I c1 \<and> lfu_map A c1 = lfu_map A c \<and>
    lfu_insert P W k v c = Some c2 \<and> lfu_inv A I c2 \<and> lfu_map A c2 = (lfu_map A c)(k \<mapsto> v) \<and>
    lfu_remove P k c = Some (lfu_map A c k, c3) \<and> lfu_inv A I c3 \<and>
    lfu_map A c3 = (lfu_map A c)(k := None)"
proof -
  obtain r c1 where "lfu_get P k c = (r, c1)" by (cases "lfu_get P k c")
  then show ?thesis
    using priority_queue.get_spec [OF assms] priority_queue.insert_spec [OF assms, of W k v]
      priority_queue.remove_spec [OF assms, of k] by blast
qed

lemma weight_sum_list:
  "list_invar q \<Longrightarrow> weight_sum (list_lookup q) = sum_list (map (ce_weight \<circ> fst) q)"
proof (induction q)
  case Nil
  then show ?case by simp
next
  case (Cons x q)
  obtain e p where x: "x = (e, p)" by (cases x)
  have "list_lookup q (entry_key_of x) = None" using Cons.prems
    by (simp add: list_lookup_None list_invar_def)
  then have "weight_sum (list_lookup (x # q)) = weight_sum (list_lookup q) + ce_weight e"
    unfolding list_lookup_simps(2) x
    by (subst weight_sum_upd) (simp_all add: dom_list_lookup weight_sum_delete_None)
  then show ?case using Cons by (simp add: x list_invar_def del: list_lookup_simps)
qed

definition sample_cache :: "(nat, nat) entry_list lfu_cache" where
  "sample_cache =
     \<lparr>queue = [(\<lparr>ce_weight = 5, ce_key = 1, ce_value = 10, will_stale = True\<rparr>, Priority False 7),
               (\<lparr>ce_weight = 4, ce_key = 2, ce_value = 20, will_stale = False\<rparr>, Priority False 2)],
      total_weight = 9, stale_counter = 0\<rparr>"

lemma sample_cache_inv: "lfu_inv list_lookup list_invar sample_cache"
proof -
  have "list_invar (queue sample_cache)"
    by (simp add: sample_cache_def list_invar_def entry_key_of_def)
  then show ?thesis
    by (auto simp: lfu_inv_def weight_sum_list) (auto simp: sample_cache_def split: if_splits)
qed

theorem lfu_cache_refines_map_witness:
  "priority_queue list_pq list_lookup list_invar \<and> lfu_inv list_lookup list_invar sample_cache \<and>
   (\<exists>c. lfu_remove list_pq 2 sample_cache = Some (Some 20, c) \<and>
      lfu_map list_lookup c = (lfu_map list_lookup sample_cache)(2 := None))"
proof -
  have "lfu_map list_lookup sample_cache 2 = Some 20"
    by (simp add: lfu_map_def sample_cache_def entry_key_of_def)
  then show ?thesis
    using lfu_cache_refines_map [OF lpq.priority_queue_axioms sample_cache_inv, of 2 "\<lambda>_ _. 0" 0]
      lpq.priority_queue_axioms sample_cache_inv by auto
qed

text \<open>C12. Eviction terminates without a panic with the weight at most the bound. It reports
  \<open>None\<close> and changes nothing exactly when the weight already fits; otherwise it reports the
  evicted, the old and the new weight, which add up. Only entries are removed, no value changes,
  and every evicted entry had at least the priority of every entry that stays: stale entries go
  first, then the least frequently used.\<close>

theorem lfu_evict_correct:
  assumes "priority_queue P A I" and "lfu_inv A I c"
  shows "\<exists>r c'. lfu_evict_with_period P max_weight stale_period c = Some (r, c') \<and> lfu_inv A I c' \<and>
    total_weight c' \<le> max_weight \<and> lfu_map A c' \<subseteq>\<^sub>m lfu_map A c \<and>
    (r = None \<longleftrightarrow> total_weight c \<le> max_weight) \<and> (r = None \<longrightarrow> c' = c) \<and>
    (\<forall>evicted old new. r = Some (evicted, old, new) \<longrightarrow>
       old = total_weight c \<and> new = total_weight c' \<and> evicted + new = old \<and>
       evicts_from (aged A stale_period c) (A (queue c')))"
  by (rule priority_queue.evict_spec [OF assms])

theorem lfu_evict_correct_witness:
  "priority_queue list_pq list_lookup list_invar \<and> lfu_inv list_lookup list_invar sample_cache \<and>
   (\<exists>r c'. lfu_evict_with_period list_pq 6 100 sample_cache = Some (Some r, c') \<and> total_weight c' \<le> 6)"
  using lfu_evict_correct [OF lpq.priority_queue_axioms sample_cache_inv, of 6 100]
    lpq.priority_queue_axioms sample_cache_inv
  by (force simp: sample_cache_def)

text \<open>C18. \<open>Extend\<close> breaks the accounting: an entry that enters the cache through it is not added
  to \<open>total_weight\<close>, and removing it again panics on the subtraction when it is heavier than
  the counted entries.\<close>

theorem lfu_extend_then_remove_panics:
  assumes "priority_queue P A I" and "lfu_inv A I c" and "A (queue c) (ce_key e) = None"
    and "0 < frequency p" and "total_weight c < ce_weight e"
  shows "lfu_remove P (ce_key e) (lfu_extend P c [(e, p)]) = None"
  by (rule priority_queue.extend_remove_panics [OF assms])

theorem lfu_extend_then_remove_panics_witness:
  "lfu_remove list_pq 7 (lfu_extend list_pq sample_cache
     [(\<lparr>ce_weight = 10, ce_key = 7, ce_value = 0, will_stale = False\<rparr>, Priority False 1)]) = None"
  using lfu_extend_then_remove_panics [OF lpq.priority_queue_axioms sample_cache_inv,
      of "\<lparr>ce_weight = 10, ce_key = 7, ce_value = 0, will_stale = False\<rparr>" "Priority False 1"]
  by (simp add: sample_cache_def entry_key_of_def)

end
