(* ===== verification/Store_Value.thy ===== *)
theory Store_Value
  imports Scalar
begin

text \<open>
  Attribute values, entities and entity keys: \<open>massbit/src/data/store/mod.rs\<close> and the key types of
  \<open>massbit/src/components/store.rs\<close>.

  An \<open>Entity\<close> wraps a \<open>HashMap<Attribute, Value>\<close>, here a finite map. The loops over an entity
  run over the list of its attributes in name order; \<open>merge_entries_any_order\<close> and
  \<open>merge_entries_null_any_order\<close> show that every other order of the hash map gives the same.
\<close>

section \<open>Value types and values\<close>

datatype value_type = Boolean_T | BigInt_T | Bytes_T | BigDecimal_T | Int_T | String_T

definition value_type_from_str :: "string \<Rightarrow> string + value_type" where
  "value_type_from_str s =
     (if s = ''Boolean'' then Inr Boolean_T
      else if s = ''BigInt'' then Inr BigInt_T
      else if s = ''Bytes'' then Inr Bytes_T
      else if s = ''BigDecimal'' then Inr BigDecimal_T
      else if s = ''Int'' then Inr Int_T
      else if s = ''String'' \<or> s = ''ID'' then Inr String_T
      else Inl (''Type not available in this context: '' @ s))"

definition is_scalar :: "string \<Rightarrow> bool" where
  "is_scalar s = is_ok (value_type_from_str s)"

datatype val =
    VString string
  | VInt i32
  | VBigDecimal big_decimal
  | VBool bool
  | VList "val list"
  | VNull
  | VBytes "u8 list"
  | VBigInt int

text \<open>The values of \<open>graphql_parser::query::Value\<close>, with numbers as integers (the parser's numbers
  are \<open>i64\<close>) and floats as their text.\<close>

datatype q_value =
    QVariable string
  | QInt int
  | QFloat string
  | QString string
  | QBoolean bool
  | QNull
  | QEnum string
  | QList "q_value list"
  | QObject "(string \<times> q_value) list"

text \<open>\<open>From<Value> for q::Value\<close>. \<open>to_string\<close> of the two number types belongs to the
  crates behind them and is an argument.\<close>

fun q_value_from ::
  "num_ops \<Rightarrow> (big_decimal \<Rightarrow> string) \<Rightarrow> (int \<Rightarrow> string) \<Rightarrow> val \<Rightarrow> q_value" where
  "q_value_from N bd_str bi_str (VString s) = QString s"
| "q_value_from N bd_str bi_str (VInt i) = QInt (sint i)"
| "q_value_from N bd_str bi_str (VBigDecimal d) = QString (bd_str d)"
| "q_value_from N bd_str bi_str (VBool b) = QBoolean b"
| "q_value_from N bd_str bi_str VNull = QNull"
| "q_value_from N bd_str bi_str (VList vs) = QList (map (q_value_from N bd_str bi_str) vs)"
| "q_value_from N bd_str bi_str (VBytes bs) = QString (bytes_to_string N bs)"
| "q_value_from N bd_str bi_str (VBigInt n) = QString (bi_str n)"

fun value_try_into_big_int :: "val \<Rightarrow> string + int option" where
  "value_try_into_big_int (VBigInt n) = Inr (Some n)"
| "value_try_into_big_int VNull = Inr None"
| "value_try_into_big_int v = Inl ''Value is not an BigInt''"

section \<open>Entities\<close>

type_synonym attribute = string
type_synonym entity = "(attribute, val) fmap"

definition entity_new :: entity where
  "entity_new = fmempty"

definition entity_get :: "entity \<Rightarrow> string \<Rightarrow> val option" where
  "entity_get e key = fmlookup e key"

definition entity_insert :: "string \<Rightarrow> val \<Rightarrow> entity \<Rightarrow> val option \<times> entity" where
  "entity_insert key value e = (fmlookup e key, fmupd key value e)"

definition entity_remove :: "string \<Rightarrow> entity \<Rightarrow> val option \<times> entity" where
  "entity_remove key e = (fmlookup e key, fmdrop key e)"

definition entity_contains_key :: "entity \<Rightarrow> string \<Rightarrow> bool" where
  "entity_contains_key e key \<longleftrightarrow> fmlookup e key \<noteq> None"

definition entity_sorted :: "entity \<Rightarrow> (string \<times> val) list" where
  "entity_sorted e = sorted_list_of_fmap e"

definition entity_id_of :: "entity \<Rightarrow> string + string" where
  "entity_id_of e =
     (case entity_get e ''id'' of
        None \<Rightarrow> Inl ''Entity is missing an `id` attribute''
      | Some (VString s) \<Rightarrow> Inr s
      | Some _ \<Rightarrow> Inl ''Entity has non-string `id` attribute'')"

definition entity_set :: "string \<Rightarrow> val \<Rightarrow> entity \<Rightarrow> val option \<times> entity" where
  "entity_set name value e = entity_insert name value e"

fun merge_entries :: "entity \<Rightarrow> (string \<times> val) list \<Rightarrow> entity" where
  "merge_entries e [] = e"
| "merge_entries e ((key, value) # rest) = merge_entries (snd (entity_insert key value e)) rest"

definition entity_merge :: "entity \<Rightarrow> entity \<Rightarrow> entity" where
  "entity_merge e update = merge_entries e (sorted_list_of_fmap update)"

fun merge_entries_null :: "entity \<Rightarrow> (string \<times> val) list \<Rightarrow> entity" where
  "merge_entries_null e [] = e"
| "merge_entries_null e ((key, value) # rest) =
     merge_entries_null
       (case value of
          VNull \<Rightarrow> snd (entity_remove key e)
        | _ \<Rightarrow> snd (entity_insert key value e)) rest"

definition merge_remove_null_fields :: "entity \<Rightarrow> entity \<Rightarrow> entity" where
  "merge_remove_null_fields e update = merge_entries_null e (sorted_list_of_fmap update)"

definition entity_from :: "(string \<times> val) list \<Rightarrow> entity" where
  "entity_from entries = merge_entries entity_new entries"

section \<open>Keys\<close>

type_synonym deployment_hash = string

datatype entity_type = EntityType (et_str: string)

datatype entity_key =
  EntityKey (key_indexer_id: deployment_hash) (key_entity_type: entity_type) (key_entity_id: string)

text \<open>The derived \<open>Ord\<close> of the two types: by name, and lexicographic over the fields.\<close>

instantiation entity_type :: linorder
begin

definition less_eq_entity_type :: "entity_type \<Rightarrow> entity_type \<Rightarrow> bool" where
  "s \<le> t \<longleftrightarrow> et_str s \<le> et_str t"

definition less_entity_type :: "entity_type \<Rightarrow> entity_type \<Rightarrow> bool" where
  "s < t \<longleftrightarrow> et_str s < et_str t"

instance
  by standard (auto simp: less_eq_entity_type_def less_entity_type_def intro: entity_type.expand)

end

instantiation entity_key :: linorder
begin

definition less_entity_key :: "entity_key \<Rightarrow> entity_key \<Rightarrow> bool" where
  "k < l \<longleftrightarrow> key_indexer_id k < key_indexer_id l \<or>
     (key_indexer_id k = key_indexer_id l \<and>
       (key_entity_type k < key_entity_type l \<or>
         (key_entity_type k = key_entity_type l \<and> key_entity_id k < key_entity_id l)))"

definition less_eq_entity_key :: "entity_key \<Rightarrow> entity_key \<Rightarrow> bool" where
  "k \<le> l \<longleftrightarrow> k < l \<or> k = (l :: entity_key)"

instance
  by standard (auto simp: less_eq_entity_key_def less_entity_key_def intro: entity_key.expand)

end

definition entity_key_data :: "deployment_hash \<Rightarrow> string \<Rightarrow> string \<Rightarrow> entity_key" where
  "entity_key_data indexer_id entity_type entity_id = EntityKey indexer_id (EntityType entity_type) entity_id"

section \<open>Merging\<close>

lemma merge_entries_lookup:
  "distinct (map fst ps) \<Longrightarrow> fmlookup (merge_entries e ps) k =
     (case map_of ps k of Some v \<Rightarrow> Some v | None \<Rightarrow> fmlookup e k)"
proof (induction e ps rule: merge_entries.induct)
  case (2 e key v rest)
  have "key \<notin> fst ` set rest" using "2.prems" by simp
  then have "map_of rest key = None" by (simp add: map_of_eq_None_iff)
  then show ?case using 2 by (auto simp: entity_insert_def split: option.splits)
qed simp

lemma merge_entries_null_lookup:
  "distinct (map fst ps) \<Longrightarrow> fmlookup (merge_entries_null e ps) k =
     (case map_of ps k of
        Some v \<Rightarrow> (if v = VNull then None else Some v)
      | None \<Rightarrow> fmlookup e k)"
proof (induction e ps rule: merge_entries_null.induct)
  case (2 e key v rest)
  have "key \<notin> fst ` set rest" using "2.prems" by simp
  then have "map_of rest key = None" by (simp add: map_of_eq_None_iff)
  then show ?case using 2
    by (auto simp: entity_insert_def entity_remove_def split: option.splits val.splits)
qed simp

lemma entity_merge_lookup:
  "fmlookup (entity_merge e u) k = (case fmlookup u k of Some v \<Rightarrow> Some v | None \<Rightarrow> fmlookup e k)"
  by (simp add: entity_merge_def merge_entries_lookup)

lemma merge_remove_null_fields_lookup:
  "fmlookup (merge_remove_null_fields e u) k =
     (case fmlookup u k of
        Some v \<Rightarrow> (if v = VNull then None else Some v)
      | None \<Rightarrow> fmlookup e k)"
  by (simp add: merge_remove_null_fields_def merge_entries_null_lookup)

lemma merge_entries_any_order:
  "distinct (map fst ps) \<Longrightarrow> map_of ps = fmlookup u \<Longrightarrow> merge_entries e ps = entity_merge e u"
  by (rule fmap_ext) (simp add: merge_entries_lookup entity_merge_lookup)

lemma merge_entries_null_any_order:
  "distinct (map fst ps) \<Longrightarrow> map_of ps = fmlookup u \<Longrightarrow>
   merge_entries_null e ps = merge_remove_null_fields e u"
  by (rule fmap_ext) (simp add: merge_entries_null_lookup merge_remove_null_fields_lookup)

text \<open>An entity without its null fields.\<close>

definition non_null :: "entity \<Rightarrow> entity" where
  "non_null e = fmfilter (\<lambda>k. fmlookup e k \<noteq> Some VNull) e"

lemma non_null_lookup [simp]:
  "fmlookup (non_null e) k = (if fmlookup e k = Some VNull then None else fmlookup e k)"
  by (simp add: non_null_def)

lemma merge_new: "merge_remove_null_fields entity_new u = non_null u"
  by (rule fmap_ext) (simp add: merge_remove_null_fields_lookup entity_new_def split: option.splits)

lemma non_null_merge_remove: "non_null (merge_remove_null_fields e u) = merge_remove_null_fields (non_null e) u"
  by (rule fmap_ext) (auto simp: merge_remove_null_fields_lookup split: option.splits)

lemma non_null_entity_merge: "non_null (entity_merge e u) = merge_remove_null_fields (non_null e) u"
  by (rule fmap_ext) (auto simp: merge_remove_null_fields_lookup entity_merge_lookup split: option.splits)

lemma merge_remove_merge:
  "merge_remove_null_fields e (entity_merge u v) =
     merge_remove_null_fields (merge_remove_null_fields e u) v"
  by (rule fmap_ext) (auto simp: merge_remove_null_fields_lookup entity_merge_lookup split: option.splits)

end
