(* ===== verification/Entity_Cache.thy ===== *)
theory Entity_Cache
  imports Store_Value Lfu_Cache
begin

text \<open>
  The entity cache of \<open>massbit/src/components/store.rs\<close>: the operations a mapping accumulates on
  entities while a block is processed, the handler frame that can be discarded, the lookup that
  overlays the pending operations on the store, and \<open>as_modifications\<close>, which turns them into at
  most one modification per entity.

  The cache holds its store as a \<open>WritableStore\<close> trait object, of which it uses two methods: a
  record of functions here. The locale \<open>entity_store\<close> says what the trait promises about them,
  over the entities \<open>db\<close> of the deployment. The store tags what it returns with \<open>__typename\<close>.
  Operations that may panic or raise return \<open>query_execution_error fault + _\<close>.
\<close>

section \<open>Errors and the store interface\<close>

datatype store_error =
    SUnknown string
  | SConflictingId string string string
  | SUnknownField string
  | SUnknownTable string
  | SMalformedDirective string
  | SQueryExecutionError string
  | SInvalidIdentifier string
  | SDuplicateBlockProcessing deployment_hash int
  | SConstraintViolation string
  | SDeploymentNotFound string
  | SUnknownShard string
  | SFulltextSearchNonDeterministic
  | SCanceled
  | SDatabaseUnavailable

text \<open>Of \<open>QueryExecutionError\<close> the modelled code builds the \<open>StoreError\<close> case; the others keep
  their text.\<close>

datatype query_execution_error = QStoreError store_error | QOther string

text \<open>A \<open>BlockNumber\<close> is an \<open>i32\<close>: an integer, with the range checked where the code computes on it.\<close>

type_synonym block_number = int
type_synonym address = "160 word"

record source =
  src_address :: "address option"
  src_abi :: string
  src_start_block :: block_number

record stored_dynamic_data_source =
  sd_name :: string
  sd_source :: source
  sd_context :: "string option"
  sd_creation_block :: "block_number option"

record writable_store =
  ws_get :: "entity_key \<Rightarrow> query_execution_error + entity option"
  ws_get_many :: "(entity_type \<times> string list) list \<Rightarrow> store_error + (entity_type \<times> entity list) list"

section \<open>Operations\<close>

datatype entity_modification =
    Insert (mod_key: entity_key) (mod_data: entity)
  | Overwrite (mod_key: entity_key) (mod_data: entity)
  | Remove (mod_key: entity_key)

definition mod_is_remove :: "entity_modification \<Rightarrow> bool" where
  "mod_is_remove m = (case m of Remove _ \<Rightarrow> True | _ \<Rightarrow> False)"

datatype entity_op = OpRemove | OpUpdate entity | OpOverwrite entity

fun apply_to :: "entity_op \<Rightarrow> entity option \<Rightarrow> entity option" where
  "apply_to OpRemove _ = None"
| "apply_to (OpOverwrite new) _ = Some new"
| "apply_to (OpUpdate new) None = Some new"
| "apply_to (OpUpdate updates) (Some entity) = Some (merge_remove_null_fields entity updates)"

fun accumulate :: "entity_op \<Rightarrow> entity_op \<Rightarrow> entity_op" where
  "accumulate self OpRemove = OpRemove"
| "accumulate self (OpOverwrite new) = OpOverwrite new"
| "accumulate OpRemove (OpUpdate update) = OpOverwrite update"
| "accumulate (OpUpdate current) (OpUpdate update) = OpUpdate (entity_merge current update)"
| "accumulate (OpOverwrite current) (OpUpdate update) = OpOverwrite (entity_merge current update)"

datatype entity_operation = SetOp entity_key entity | RemoveOp entity_key

section \<open>The cache\<close>

type_synonym op_map = "(entity_key \<times> entity_op) list"

record 'q entity_cache =
  current :: "'q lfu_cache"
  updates :: op_map
  handler_updates :: op_map
  in_handler :: bool
  data_sources :: "stored_dynamic_data_source list"
  store :: writable_store

type_synonym 'q entity_pq = "('q, entity_key, entity option) pq_ops"
type_synonym entity_weight = "entity_key \<Rightarrow> entity option \<Rightarrow> nat"

definition ec_new :: "'q entity_pq \<Rightarrow> writable_store \<Rightarrow> 'q entity_cache" where
  "ec_new P st = \<lparr>current = lfu_new P, updates = [], handler_updates = [], in_handler = False,
     data_sources = [], store = st\<rparr>"

definition ec_with_current :: "writable_store \<Rightarrow> 'q lfu_cache \<Rightarrow> 'q entity_cache" where
  "ec_with_current st cur = \<lparr>current = cur, updates = [], handler_updates = [],
     in_handler = False, data_sources = [], store = st\<rparr>"

definition ec_entity_op :: "entity_key \<Rightarrow> entity_op \<Rightarrow> 'q entity_cache \<Rightarrow> 'q entity_cache" where
  "ec_entity_op key op c =
     (let upsert = al_upsert key (\<lambda>old. case old of None \<Rightarrow> op | Some o' \<Rightarrow> accumulate o' op)
      in if in_handler c then c\<lparr>handler_updates := upsert (handler_updates c)\<rparr>
         else c\<lparr>updates := upsert (updates c)\<rparr>)"

definition ec_enter_handler :: "'q entity_cache \<Rightarrow> 'q entity_cache option" where
  "ec_enter_handler c = (if in_handler c then None else Some (c\<lparr>in_handler := True\<rparr>))"

definition ec_exit_handler :: "'q entity_cache \<Rightarrow> 'q entity_cache option" where
  "ec_exit_handler c =
     (if in_handler c
      then Some (fold (\<lambda>(key, op). ec_entity_op key op) (handler_updates c)
             (c\<lparr>in_handler := False, handler_updates := []\<rparr>))
      else None)"

definition ec_exit_handler_and_discard_changes :: "'q entity_cache \<Rightarrow> 'q entity_cache option" where
  "ec_exit_handler_and_discard_changes c =
     (if in_handler c then Some (c\<lparr>in_handler := False, handler_updates := []\<rparr>) else None)"

definition lfu_get_entity ::
  "'q entity_pq \<Rightarrow> entity_weight \<Rightarrow> writable_store \<Rightarrow> entity_key \<Rightarrow> 'q lfu_cache
    \<Rightarrow> query_execution_error fault + entity option \<times> 'q lfu_cache" where
  "lfu_get_entity P W st key c =
     (case lfu_get P key c of
        (None, c1) \<Rightarrow>
          bind_result (map_err Raised (ws_get st key)) (\<lambda>found.
          let ent = map_option (\<lambda>e. snd (entity_remove ''__typename'' e)) found in
          bind_result (ok_or (Panicked ''attempt to subtract with overflow'') (lfu_insert P W key ent c1))
            (\<lambda>c2. Inr (ent, c2)))
      | (Some data, c1) \<Rightarrow> Inr (data, c1))"

definition ec_get ::
  "'q entity_pq \<Rightarrow> entity_weight \<Rightarrow> entity_key \<Rightarrow> 'q entity_cache
    \<Rightarrow> query_execution_error fault + entity option \<times> 'q entity_cache" where
  "ec_get P W key c =
     bind_result (lfu_get_entity P W (store c) key (current c)) (\<lambda>(entity, cur).
       let entity1 = (case map_of (updates c) key of
                        Some op \<Rightarrow> apply_to op entity | None \<Rightarrow> entity);
           entity2 = (case map_of (handler_updates c) key of
                        Some op \<Rightarrow> apply_to op entity1 | None \<Rightarrow> entity1)
       in Inr (entity2, c\<lparr>current := cur\<rparr>))"

definition ec_remove :: "entity_key \<Rightarrow> 'q entity_cache \<Rightarrow> 'q entity_cache" where
  "ec_remove key c = ec_entity_op key OpRemove c"

definition ec_set :: "entity_key \<Rightarrow> entity \<Rightarrow> 'q entity_cache \<Rightarrow> 'q entity_cache" where
  "ec_set key entity c = ec_entity_op key (OpUpdate entity) c"

definition ec_append :: "entity_operation list \<Rightarrow> 'q entity_cache \<Rightarrow> 'q entity_cache option" where
  "ec_append operations c =
     (if in_handler c then None
      else Some (fold (\<lambda>operation c. case operation of
                         SetOp key data \<Rightarrow> ec_entity_op key (OpUpdate data) c
                       | RemoveOp key \<Rightarrow> ec_entity_op key OpRemove c) operations c))"

definition ec_add_data_source :: "stored_dynamic_data_source \<Rightarrow> 'q entity_cache \<Rightarrow> 'q entity_cache" where
  "ec_add_data_source ds c = c\<lparr>data_sources := data_sources c @ [ds]\<rparr>"

definition ec_extend :: "'q entity_pq \<Rightarrow> 'q entity_cache \<Rightarrow> 'q entity_cache \<Rightarrow> 'q entity_cache option" where
  "ec_extend P c other =
     (if in_handler other then None
      else Some (fold (\<lambda>(key, op). ec_entity_op key op) (updates other)
             (c\<lparr>current := lfu_extend P (current c) (lfu_into_iter P (current other))\<rparr>)))"

section \<open>Modifications\<close>

definition missing_keys :: "'q entity_pq \<Rightarrow> 'q entity_cache \<Rightarrow> entity_key list" where
  "missing_keys P c = filter (\<lambda>key. \<not> lfu_contains_key P key (current c)) (map fst (updates c))"

definition push_missing_id :: "entity_key \<Rightarrow> (entity_type \<times> string list) list \<Rightarrow> (entity_type \<times> string list) list" where
  "push_missing_id key = bt_upsert (key_entity_type key)
     (\<lambda>ids. (case ids of None \<Rightarrow> [] | Some is \<Rightarrow> is) @ [key_entity_id key])"

definition missing_by_indexer ::
  "entity_key list \<Rightarrow> (deployment_hash \<times> (entity_type \<times> string list) list) list" where
  "missing_by_indexer keys =
     fold (\<lambda>key. bt_upsert (key_indexer_id key)
       (\<lambda>types. push_missing_id key (case types of None \<Rightarrow> [] | Some ts \<Rightarrow> ts))) keys []"

definition insert_found ::
  "'q entity_pq \<Rightarrow> entity_weight \<Rightarrow> deployment_hash \<Rightarrow> entity_type \<Rightarrow> 'q lfu_cache \<Rightarrow> entity
    \<Rightarrow> query_execution_error fault + 'q lfu_cache" where
  "insert_found P W indexer_id entity_type cur entity =
     bind_result (map_err (\<lambda>_. Panicked ''called `Result::unwrap()` on an `Err` value'') (entity_id_of entity))
       (\<lambda>eid. ok_or (Panicked ''attempt to subtract with overflow'')
          (lfu_insert P W (EntityKey indexer_id entity_type eid) (Some entity) cur))"

definition load_missing ::
  "'q entity_pq \<Rightarrow> entity_weight \<Rightarrow> writable_store \<Rightarrow> 'q lfu_cache
    \<Rightarrow> deployment_hash \<times> (entity_type \<times> string list) list
    \<Rightarrow> query_execution_error fault + 'q lfu_cache" where
  "load_missing P W st cur grp =
     bind_result (map_err (\<lambda>e. Raised (QStoreError e)) (ws_get_many st (snd grp))) (\<lambda>found.
       try_fold (\<lambda>cur (entity_type, entities).
         try_fold (insert_found P W (fst grp) entity_type) cur entities) cur found)"

text \<open>One iteration of the loop over the updates: the modification, if any, and the value the
  cache gets for the key.\<close>

fun modification_of ::
  "entity_key \<Rightarrow> entity option \<Rightarrow> entity_op \<Rightarrow> entity_modification option \<times> entity option option" where
  "modification_of key None (OpUpdate upd) =
     (let data = merge_remove_null_fields entity_new upd in (Some (Insert key data), Some (Some data)))"
| "modification_of key None (OpOverwrite upd) =
     (let data = merge_remove_null_fields entity_new upd in (Some (Insert key data), Some (Some data)))"
| "modification_of key (Some cur) (OpUpdate upd) =
     (let data = merge_remove_null_fields cur upd
      in (if cur \<noteq> data then Some (Overwrite key data) else None, Some (Some data)))"
| "modification_of key (Some cur) (OpOverwrite data) =
     (if cur \<noteq> data then Some (Overwrite key data) else None, Some (Some data))"
| "modification_of key (Some cur) OpRemove = (Some (Remove key), Some None)"
| "modification_of key None OpRemove = (None, None)"

definition modify_one ::
  "'q entity_pq \<Rightarrow> entity_weight \<Rightarrow> entity_modification list \<times> 'q lfu_cache \<Rightarrow> entity_key \<times> entity_op
    \<Rightarrow> query_execution_error fault + entity_modification list \<times> 'q lfu_cache" where
  "modify_one P W = (\<lambda>(mods, cur) (key, update).
     bind_result (ok_or (Panicked ''LfuCache::remove'') (lfu_remove P key cur)) (\<lambda>(removed, cur1).
       let (modification, cached) = modification_of key (Option.bind removed id) update;
           mods1 = (case modification of None \<Rightarrow> mods | Some m \<Rightarrow> mods @ [m])
       in case cached of
            None \<Rightarrow> Inr (mods1, cur1)
          | Some v \<Rightarrow>
              bind_result (ok_or (Panicked ''attempt to subtract with overflow'') (lfu_insert P W key v cur1))
                (\<lambda>cur2. Inr (mods1, cur2))))"

record 'q modifications_and_cache =
  modifications :: "entity_modification list"
  mc_data_sources :: "stored_dynamic_data_source list"
  entity_lfu_cache :: "'q lfu_cache"

definition as_modifications ::
  "'q entity_pq \<Rightarrow> entity_weight \<Rightarrow> 'q entity_cache
    \<Rightarrow> query_execution_error fault + 'q modifications_and_cache" where
  "as_modifications P W c =
     (if in_handler c then Inl (Panicked ''assertion failed: !self.in_handler'')
      else
        bind_result (try_fold (load_missing P W (store c)) (current c)
            (missing_by_indexer (missing_keys P c))) (\<lambda>cur.
        bind_result (try_fold (modify_one P W) ([], cur) (updates c)) (\<lambda>(mods, cur').
        Inr \<lparr>modifications = mods, mc_data_sources = data_sources c, entity_lfu_cache = cur'\<rparr>)))"

section \<open>What the store promises\<close>

definition tagged :: "entity_type \<Rightarrow> entity \<Rightarrow> entity" where
  "tagged t e = fmupd ''__typename'' (VString (et_str t)) e"

definition strip :: "entity \<Rightarrow> entity" where
  "strip e = fmdrop ''__typename'' e"

type_synonym entity_db = "entity_key \<rightharpoonup> entity"

locale entity_store =
  fixes st :: writable_store
    and D :: deployment_hash
    and db :: entity_db
  assumes db_id: "db k = Some e \<Longrightarrow> fmlookup e ''id'' = Some (VString (key_entity_id k))"
    and db_plain: "db k = Some e \<Longrightarrow> strip e = e"
    and store_get: "key_indexer_id k = D \<Longrightarrow>
      ws_get st k = Inr (map_option (tagged (key_entity_type k)) (db k))"
    and store_get_many: "btree grp \<Longrightarrow> \<exists>found. ws_get_many st grp = Inr found \<and>
      (\<forall>t e. (\<exists>es. (t, es) \<in> set found \<and> e \<in> set es) \<longleftrightarrow>
        (\<exists>ids i e0. (t, ids) \<in> set grp \<and> i \<in> set ids \<and> db (EntityKey D t i) = Some e0 \<and>
          e = tagged t e0))"

section \<open>Specification\<close>

text \<open>The cached entities agree with the store up to the tag.\<close>

definition coherent :: "entity_db \<Rightarrow> (entity_key \<rightharpoonup> entity option) \<Rightarrow> bool" where
  "coherent db m \<longleftrightarrow> (\<forall>k v. m k = Some v \<longrightarrow> map_option strip v = db k)"

text \<open>The value a pending operation leaves in the store, and the effect of a modification.\<close>

fun persist_op :: "entity_op \<Rightarrow> entity option \<Rightarrow> entity option" where
  "persist_op OpRemove _ = None"
| "persist_op (OpUpdate u) None = Some (non_null u)"
| "persist_op (OpOverwrite u) None = Some (non_null u)"
| "persist_op (OpUpdate u) (Some e) = Some (merge_remove_null_fields e u)"
| "persist_op (OpOverwrite u) (Some e) = Some u"

definition ops_result :: "op_map \<Rightarrow> entity_db \<Rightarrow> entity_db" where
  "ops_result ops d k = (case map_of ops k of
     None \<Rightarrow> d k | Some op \<Rightarrow> map_option strip (persist_op op (d k)))"

fun apply_mod :: "entity_modification \<Rightarrow> entity_db \<Rightarrow> entity_db" where
  "apply_mod (Insert k d) db = db(k \<mapsto> strip d)"
| "apply_mod (Overwrite k d) db = db(k \<mapsto> strip d)"
| "apply_mod (Remove k) db = db(k := None)"

fun mod_fits :: "entity_db \<Rightarrow> entity_modification \<Rightarrow> bool" where
  "mod_fits db (Insert k d) \<longleftrightarrow> db k = None"
| "mod_fits db (Overwrite k d) \<longleftrightarrow> db k \<noteq> None"
| "mod_fits db (Remove k) \<longleftrightarrow> db k \<noteq> None"

text \<open>What a mapping sees: the store overlaid with both layers of pending operations.\<close>

definition overlay :: "op_map \<Rightarrow> entity_key \<Rightarrow> entity option \<Rightarrow> entity option" where
  "overlay ops k e = (case map_of ops k of Some op \<Rightarrow> apply_to op e | None \<Rightarrow> e)"

definition view :: "entity_db \<Rightarrow> 'q entity_cache \<Rightarrow> entity_db" where
  "view db c k = overlay (handler_updates c) k (overlay (updates c) k (db k))"

text \<open>The entity a read starts from: the cached one, or the stored one where none is cached.\<close>

definition read_base :: "entity_db \<Rightarrow> (entity_key \<rightharpoonup> entity option) \<Rightarrow> entity_key \<Rightarrow> entity option" where
  "read_base db m k = (case m k of Some v \<Rightarrow> v | None \<Rightarrow> db k)"

definition ec_inv ::
  "('q \<Rightarrow> (entity_key, entity option) queue_map) \<Rightarrow> ('q \<Rightarrow> bool) \<Rightarrow> deployment_hash \<Rightarrow> entity_db
    \<Rightarrow> 'q entity_cache \<Rightarrow> bool" where
  "ec_inv A I D db c \<longleftrightarrow> lfu_inv A I (current c) \<and> coherent db (lfu_map A (current c)) \<and>
     distinct (map fst (updates c)) \<and> distinct (map fst (handler_updates c)) \<and>
     (\<forall>k \<in> fst ` set (updates c) \<union> fst ` set (handler_updates c). key_indexer_id k = D) \<and>
     (\<not> in_handler c \<longrightarrow> handler_updates c = [])"

section \<open>Tags\<close>

lemma strip_lookup [simp]: "fmlookup (strip e) k = (if k = ''__typename'' then None else fmlookup e k)"
  by (simp add: strip_def)

lemma strip_tagged: "strip (tagged t e) = strip e"
  by (rule fmap_ext) (simp add: tagged_def)

lemma strip_strip [simp]: "strip (strip e) = strip e"
  by (rule fmap_ext) simp

lemma strip_merge: "strip (merge_remove_null_fields e u) = strip (merge_remove_null_fields (strip e) u)"
  by (rule fmap_ext) (simp add: merge_remove_null_fields_lookup split: option.splits)

lemma strip_persist_op:
  "map_option strip (persist_op op e) = map_option strip (persist_op op (map_option strip e))"
proof (cases op)
  case (OpUpdate u)
  then show ?thesis by (cases e) (simp_all, rule strip_merge)
next
  case (OpOverwrite u)
  then show ?thesis by (cases e) simp_all
qed simp

lemma strip_apply_to:
  "map_option strip (apply_to op e) = map_option strip (apply_to op (map_option strip e))"
proof (cases op)
  case (OpUpdate u)
  then show ?thesis by (cases e) (simp_all, rule strip_merge)
qed simp_all

lemma coherent_upd: "coherent db m \<Longrightarrow> map_option strip v = x \<Longrightarrow> coherent (db(k := x)) (m(k \<mapsto> v))"
  by (simp add: coherent_def)

lemma coherent_del: "coherent db m \<Longrightarrow> coherent (db(k := x)) (m(k := None))"
  by (simp add: coherent_def)

lemma modification_of_db:
  assumes "map_option strip e = d k" and "modification_of k e op = (m, v)"
  shows "(case m of None \<Rightarrow> d | Some m \<Rightarrow> apply_mod m d) =
      d(k := map_option strip (persist_op op (d k)))"
  using assms strip_persist_op [of op e]
  by (cases op; cases e) (auto simp: Let_def merge_new fun_upd_idem split: if_splits)

lemma modification_of_cached:
  assumes "map_option strip e = d k" and "modification_of k e op = (m, v)"
  shows "case v of None \<Rightarrow> d k = None \<and> op = OpRemove
    | Some v \<Rightarrow> map_option strip v = map_option strip (persist_op op (d k))"
  using assms strip_persist_op [of op e]
  by (cases op; cases e) (auto simp: Let_def merge_new)

lemma modification_of_fits:
  assumes "map_option strip e = d k" and "modification_of k e op = (Some m, v)"
  shows "mod_key m = k \<and> mod_fits d m"
  using assms(1) [symmetric] assms(2) by (cases op; cases e) (auto simp: Let_def split: if_splits)

lemma ops_result_Cons:
  "k \<notin> fst ` set ops \<Longrightarrow>
   ops_result ops (d(k := map_option strip (persist_op op (d k)))) = ops_result ((k, op) # ops) d"
  using map_of_eq_None_iff [of ops k] by (auto simp: ops_result_def fun_eq_iff split: option.splits)

section \<open>Loading the missing entities\<close>

lemma missing_by_indexer_one:
  assumes "\<And>k. k \<in> set keys \<Longrightarrow> key_indexer_id k = D" and "keys \<noteq> []"
  shows "missing_by_indexer keys = [(D, fold push_missing_id keys [])]"
proof -
  let ?f = "\<lambda>key. bt_upsert (key_indexer_id key)
    (\<lambda>types. push_missing_id key (case types of None \<Rightarrow> [] | Some ts \<Rightarrow> ts))"
  have "fold ?f ks [(D, ts)] = [(D, fold push_missing_id ks ts)]"
    if "\<And>k. k \<in> set ks \<Longrightarrow> key_indexer_id k = D" for ks ts
    using that by (induction ks arbitrary: ts) simp_all
  then show ?thesis using assms
    by (cases keys) (simp_all add: missing_by_indexer_def)
qed

lemma group_keys:
  assumes "btree ts"
  shows "btree (fold push_missing_id keys ts) \<and>
    (\<forall>t i. (\<exists>ids. map_of (fold push_missing_id keys ts) t = Some ids \<and> i \<in> set ids) \<longleftrightarrow>
      (\<exists>ids. map_of ts t = Some ids \<and> i \<in> set ids) \<or>
      (\<exists>k \<in> set keys. key_entity_type k = t \<and> key_entity_id k = i))"
  using assms
proof (induction keys arbitrary: ts)
  case Nil
  then show ?case by simp
next
  case (Cons k keys)
  have "btree (push_missing_id k ts)"
    unfolding push_missing_id_def using Cons.prems by (rule btree_bt_upsert)
  moreover have "(\<exists>ids. map_of (push_missing_id k ts) t = Some ids \<and> i \<in> set ids) \<longleftrightarrow>
      (\<exists>ids. map_of ts t = Some ids \<and> i \<in> set ids) \<or> key_entity_type k = t \<and> key_entity_id k = i" for t i
    by (cases "map_of ts (key_entity_type k)")
      (auto simp: push_missing_id_def map_of_bt_upsert [OF Cons.prems])
  ultimately show ?case using Cons.IH [of "push_missing_id k ts"] by auto
qed

lemma missing_groups:
  assumes "\<And>k. k \<in> set keys \<Longrightarrow> key_indexer_id k = D"
  shows "(\<forall>grp \<in> set (missing_by_indexer keys). fst grp = D \<and> btree (snd grp)) \<and>
    (\<forall>k \<in> set keys. \<exists>grp ids. grp \<in> set (missing_by_indexer keys) \<and>
      (key_entity_type k, ids) \<in> set (snd grp) \<and> key_entity_id k \<in> set ids)"
proof (cases "keys = []")
  case True
  then show ?thesis by (simp add: missing_by_indexer_def)
next
  case False
  have one: "missing_by_indexer keys = [(D, fold push_missing_id keys [])]"
    using assms False by (rule missing_by_indexer_one)
  have bt: "btree (fold push_missing_id keys [])"
    and mem: "\<And>t i. (\<exists>ids. map_of (fold push_missing_id keys []) t = Some ids \<and> i \<in> set ids) \<longleftrightarrow>
      (\<exists>k \<in> set keys. key_entity_type k = t \<and> key_entity_id k = i)"
    using group_keys [of "[]" keys] by simp_all
  have "\<exists>ids. (key_entity_type k, ids) \<in> set (fold push_missing_id keys []) \<and> key_entity_id k \<in> set ids"
    if "k \<in> set keys" for k
  proof -
    have "\<exists>ids. map_of (fold push_missing_id keys []) (key_entity_type k) = Some ids \<and>
        key_entity_id k \<in> set ids"
      unfolding mem using that by (intro bexI [of _ k]) simp_all
    then show ?thesis by (elim exE conjE) (intro exI conjI, rule map_of_SomeD)
  qed
  then show ?thesis using bt by (simp add: one)
qed

locale entity_cache_env = priority_queue P \<alpha> pq_invar + entity_store st D db
  for P :: "'q entity_pq" and \<alpha> pq_invar st D db
begin

abbreviation "loaded d cur \<equiv> cinv cur \<and> coherent d (contents cur)"

lemma insert_found_spec:
  assumes "loaded db cur" and "db (EntityKey D t i) = Some e"
  shows "\<exists>cur'. insert_found P W D t cur (tagged t e) = Inr cur' \<and> loaded db cur' \<and>
    dom (contents cur) \<subseteq> dom (contents cur') \<and> {EntityKey D t i} \<subseteq> dom (contents cur')"
proof -
  have i: "entity_id_of (tagged t e) = Inr i"
    using db_id [OF assms(2)] by (simp add: entity_id_of_def entity_get_def tagged_def)
  obtain cur' where cur': "lfu_insert P W (EntityKey D t i) (Some (tagged t e)) cur = Some cur'"
    "cinv cur'" "contents cur' = (contents cur)(EntityKey D t i \<mapsto> Some (tagged t e))"
    using insert_spec assms(1) by blast
  have "coherent (db(EntityKey D t i := db (EntityKey D t i))) (contents cur')"
    unfolding cur'(3) using assms(1) db_plain [OF assms(2)]
    by (intro coherent_upd) (simp_all add: assms(2) strip_tagged)
  then show ?thesis using cur' i by (auto simp: insert_found_def)
qed

lemma load_missing_spec:
  assumes "loaded db cur" and "fst grp = D" and "btree (snd grp)"
  shows "\<exists>cur'. load_missing P W st cur grp = Inr cur' \<and> loaded db cur' \<and>
    dom (contents cur) \<subseteq> dom (contents cur') \<and>
    {EntityKey D t i |t i ids. (t, ids) \<in> set (snd grp) \<and> i \<in> set ids} \<inter> dom db \<subseteq> dom (contents cur')"
proof -
  obtain found where found: "ws_get_many st (snd grp) = Inr found"
    and mem: "\<And>t e. (\<exists>es. (t, es) \<in> set found \<and> e \<in> set es) \<longleftrightarrow>
        (\<exists>ids i e0. (t, ids) \<in> set (snd grp) \<and> i \<in> set ids \<and> db (EntityKey D t i) = Some e0 \<and> e = tagged t e0)"
    using store_get_many [OF assms(3)] by blast
  define Q where "Q t e = {EntityKey D t i |i. \<exists>e0. db (EntityKey D t i) = Some e0 \<and> e = tagged t e0}" for t e
  have inner: "\<exists>cur'. try_fold (insert_found P W D t) cur es = Inr cur' \<and> loaded db cur' \<and>
      dom (contents cur) \<subseteq> dom (contents cur') \<and> (\<forall>e \<in> set es. Q t e \<subseteq> dom (contents cur'))"
    if es: "(t, es) \<in> set found" and cur: "loaded db cur" for t es cur
  proof (rule try_fold_collect [where M = "\<lambda>cur. dom (contents cur)"])
    fix c e assume c: "loaded db c" and "e \<in> set es"
    then obtain i e0 where e: "db (EntityKey D t i) = Some e0" "e = tagged t e0"
      using mem [of t e] es by blast
    have same: "j = i" if "db (EntityKey D t j) = Some e1" "tagged t e0 = tagged t e1" for j e1
    proof -
      have "fmlookup (tagged t e0) ''id'' = fmlookup (tagged t e1) ''id''" using that(2) by simp
      then show ?thesis using db_id [OF that(1)] db_id [OF e(1)] by (simp add: tagged_def)
    qed
    have sub: "Q t e \<subseteq> {EntityKey D t i}" unfolding Q_def e(2) using same by blast
    show "\<exists>s'. insert_found P W D t c e = Inr s' \<and> loaded db s' \<and>
        dom (contents c) \<subseteq> dom (contents s') \<and> Q t e \<subseteq> dom (contents s')"
      using insert_found_spec [OF c e(1), of W] sub unfolding e(2) [symmetric] by blast
  qed (fact cur)
  have "\<exists>cur'. try_fold (\<lambda>cur (t, es). try_fold (insert_found P W D t) cur es) cur found = Inr cur' \<and>
      loaded db cur' \<and> dom (contents cur) \<subseteq> dom (contents cur') \<and>
      (\<forall>x \<in> set found. (\<Union>e \<in> set (snd x). Q (fst x) e) \<subseteq> dom (contents cur'))"
  proof (rule try_fold_collect [where M = "\<lambda>cur. dom (contents cur)"])
    fix c x assume "loaded db c" "x \<in> set found"
    then show "\<exists>s'. (case x of (t, es) \<Rightarrow> try_fold (insert_found P W D t) c es) = Inr s' \<and> loaded db s' \<and>
        dom (contents c) \<subseteq> dom (contents s') \<and> (\<Union>e \<in> set (snd x). Q (fst x) e) \<subseteq> dom (contents s')"
      using inner [of "fst x" "snd x" c] by (cases x) (simp add: UN_subset_iff)
  qed (fact assms(1))
  then obtain cur' where
    fold: "try_fold (\<lambda>cur (t, es). try_fold (insert_found P W D t) cur es) cur found = Inr cur'"
    and cur': "loaded db cur'" "dom (contents cur) \<subseteq> dom (contents cur')"
    and q0: "\<forall>x \<in> set found. (\<Union>e \<in> set (snd x). Q (fst x) e) \<subseteq> dom (contents cur')"
    by blast
  have load: "load_missing P W st cur grp = Inr cur'"
    using fold by (simp add: load_missing_def found assms(2))
  have q: "Q t e \<subseteq> dom (contents cur')" if "(t, es) \<in> set found" "e \<in> set es" for t es e
    using bspec [OF q0 that(1)] that(2) by (simp add: UN_subset_iff)
  have in_dom: "EntityKey D t i \<in> dom (contents cur')"
    if ids: "(t, ids) \<in> set (snd grp)" "i \<in> set ids" and e0: "db (EntityKey D t i) = Some e0" for t i ids e0
  proof -
    have "\<exists>es. (t, es) \<in> set found \<and> tagged t e0 \<in> set es"
      unfolding mem using ids e0 by blast
    then have "Q t (tagged t e0) \<subseteq> dom (contents cur')" using q by blast
    moreover have "EntityKey D t i \<in> Q t (tagged t e0)" unfolding Q_def using e0 by blast
    ultimately show ?thesis by (rule subsetD)
  qed
  have "{EntityKey D t i |t i ids. (t, ids) \<in> set (snd grp) \<and> i \<in> set ids} \<inter> dom db
      \<subseteq> dom (contents cur')"
  proof
    fix k assume "k \<in> {EntityKey D t i |t i ids. (t, ids) \<in> set (snd grp) \<and> i \<in> set ids} \<inter> dom db"
    then obtain t i ids e0 where k: "k = EntityKey D t i" "(t, ids) \<in> set (snd grp)" "i \<in> set ids"
      and "db k = Some e0" by blast
    then show "k \<in> dom (contents cur')" unfolding k(1) by (intro in_dom)
  qed
  then show ?thesis using conjunct1 [OF cur'(1)] conjunct2 [OF cur'(1)] cur'(2) load
    by (intro exI [of _ cur'] conjI)
qed

lemma load_all_spec:
  assumes "loaded db cur" and "\<forall>k \<in> set keys. key_indexer_id k = D"
  shows "\<exists>cur'. try_fold (load_missing P W st) cur (missing_by_indexer keys) = Inr cur' \<and> loaded db cur' \<and>
    dom (contents cur) \<subseteq> dom (contents cur') \<and> set keys \<inter> dom db \<subseteq> dom (contents cur')"
proof -
  let ?Q = "\<lambda>grp. {EntityKey D t i |t i ids. (t, ids) \<in> set (snd grp) \<and> i \<in> set ids} \<inter> dom db"
  note groups = missing_groups [of keys D, OF bspec [OF assms(2)]]
  have "\<exists>cur'. try_fold (load_missing P W st) cur (missing_by_indexer keys) = Inr cur' \<and> loaded db cur' \<and>
      dom (contents cur) \<subseteq> dom (contents cur') \<and>
      (\<forall>grp \<in> set (missing_by_indexer keys). ?Q grp \<subseteq> dom (contents cur'))"
  proof (rule try_fold_collect [where M = "\<lambda>cur. dom (contents cur)"])
    fix c grp assume "loaded db c" "grp \<in> set (missing_by_indexer keys)"
    then show "\<exists>s'. load_missing P W st c grp = Inr s' \<and> loaded db s' \<and>
        dom (contents c) \<subseteq> dom (contents s') \<and> ?Q grp \<subseteq> dom (contents s')"
      using groups by (intro load_missing_spec) simp_all
  qed (fact assms(1))
  then obtain cur' where cur': "try_fold (load_missing P W st) cur (missing_by_indexer keys) = Inr cur'"
    "loaded db cur'" "dom (contents cur) \<subseteq> dom (contents cur')"
    and q: "\<forall>grp \<in> set (missing_by_indexer keys). ?Q grp \<subseteq> dom (contents cur')"
    by (elim exE conjE) (intro that conjI)
  have "set keys \<inter> dom db \<subseteq> dom (contents cur')"
  proof
    fix k assume k: "k \<in> set keys \<inter> dom db"
    then obtain grp ids where grp: "grp \<in> set (missing_by_indexer keys)"
      "(key_entity_type k, ids) \<in> set (snd grp)" "key_entity_id k \<in> set ids"
      using bspec [OF conjunct2 [OF groups], where x = k] by auto
    have "k = EntityKey D (key_entity_type k) (key_entity_id k)"
      using k bspec [OF assms(2), of k] by (cases k) simp
    then have "k \<in> {EntityKey D t i |t i ids. (t, ids) \<in> set (snd grp) \<and> i \<in> set ids}"
      using grp(2,3) by (intro CollectI exI conjI)
    then have "k \<in> ?Q grp" using k by (intro IntI) simp_all
    then show "k \<in> dom (contents cur')" using bspec [OF q grp(1)] by (rule subsetD [rotated])
  qed
  then show ?thesis using cur'(1,3) conjunct1 [OF cur'(2)] conjunct2 [OF cur'(2)]
    by (intro exI [of _ cur'] conjI)
qed

text \<open>One iteration of the loop over the updates.\<close>

lemma modify_one_spec:
  assumes cur: "loaded d cur" and missing: "k \<in> dom (contents cur) \<or> d k = None"
  shows "\<exists>ms cur'. modify_one P W (mods, cur) (k, op) = Inr (mods @ ms, cur') \<and>
    loaded (fold apply_mod ms d) cur' \<and> dom (contents cur) - {k} \<subseteq> dom (contents cur') \<and>
    fold apply_mod ms d = d(k := map_option strip (persist_op op (d k))) \<and>
    length ms \<le> 1 \<and> (\<forall>m \<in> set ms. mod_key m = k \<and> mod_fits d m) \<and>
    ms = (case fst (modification_of k (Option.bind (contents cur k) id) op) of None \<Rightarrow> [] | Some m \<Rightarrow> [m])"
proof -
  obtain cur1 where rm: "lfu_remove P k cur = Some (contents cur k, cur1)" "cinv cur1"
    "contents cur1 = (contents cur)(k := None)"
    using remove_spec [of cur k] cur by blast
  define e where "e = Option.bind (contents cur k) id"
  have e: "map_option strip e = d k"
  proof (cases "contents cur k")
    case None
    then have "k \<notin> dom (contents cur)" by (simp add: domIff)
    then have "d k = None" using missing by blast
    then show ?thesis using None by (simp add: e_def)
  next
    case (Some v)
    then show ?thesis using cur by (simp add: e_def coherent_def)
  qed
  obtain m v where mv: "modification_of k e op = (m, v)" by (cases "modification_of k e op")
  define ms where "ms = (case m of None \<Rightarrow> [] | Some m \<Rightarrow> [m])"
  have ms: "ms = (case fst (modification_of k (Option.bind (contents cur k) id) op) of
      None \<Rightarrow> [] | Some m \<Rightarrow> [m])"
    by (simp only: ms_def mv e_def [symmetric] fst_conv)
  have db': "fold apply_mod ms d = d(k := map_option strip (persist_op op (d k)))"
    using modification_of_db [where e = e and d = d, OF e mv] by (cases m) (simp_all add: ms_def)
  have fits: "length ms \<le> 1 \<and> (\<forall>m \<in> set ms. mod_key m = k \<and> mod_fits d m)"
    using modification_of_fits [where e = e and d = d, OF e] mv by (cases m) (simp_all add: ms_def)
  have coh1: "coherent d' (contents cur1)" if "d' = d(k := x)" for d' x
    using cur coherent_del [of d "contents cur" k x] by (simp add: rm(3) that)
  note start = modify_one_def rm(1) e_def [symmetric] mv ms_def
  show ?thesis
  proof (cases v)
    case None
    have "modify_one P W (mods, cur) (k, op) = Inr (mods @ ms, cur1)"
      using None by (cases m) (simp_all add: start)
    moreover have "dom (contents cur) - {k} \<subseteq> dom (contents cur1)" by (simp add: rm(3))
    ultimately show ?thesis using rm(2) coh1 [OF db'] db' fits ms
      by (intro exI [of _ ms] exI [of _ cur1] conjI) simp_all
  next
    case (Some v')
    obtain cur2 where ins: "lfu_insert P W k v' cur1 = Some cur2" "cinv cur2"
      "contents cur2 = (contents cur1)(k \<mapsto> v')"
      using insert_spec [OF rm(2)] by blast
    have "modify_one P W (mods, cur) (k, op) = Inr (mods @ ms, cur2)"
      using Some ins(1) by (cases m) (simp_all add: start)
    moreover have "coherent (fold apply_mod ms d) (contents cur2)"
      unfolding db' ins(3) rm(3)
      using cur modification_of_cached [where e = e and d = d, OF e mv] Some
      by (simp add: coherent_def)
    moreover have "dom (contents cur) - {k} \<subseteq> dom (contents cur2)" by (auto simp: ins(3) rm(3))
    ultimately show ?thesis using ins(2) db' fits ms
      by (intro exI [of _ ms] exI [of _ cur2] conjI) simp_all
  qed
qed

lemma modify_all_spec:
  assumes "loaded d cur" and "distinct (map fst ops)"
    and "\<forall>k \<in> fst ` set ops. k \<in> dom (contents cur) \<or> d k = None"
  shows "\<exists>ms cur'. try_fold (modify_one P W) (mods, cur) ops = Inr (mods @ ms, cur') \<and>
    loaded (fold apply_mod ms d) cur' \<and> fold apply_mod ms d = ops_result ops d \<and>
    distinct (map mod_key ms) \<and> mod_key ` set ms \<subseteq> fst ` set ops \<and> (\<forall>m \<in> set ms. mod_fits d m)"
  using assms
proof (induction ops arbitrary: mods cur d)
  case Nil
  then show ?case by (auto simp: ops_result_def)
next
  case (Cons x ops)
  obtain k op where x: "x = (k, op)" by (cases x)
  obtain ms1 cur1 where one: "modify_one P W (mods, cur) (k, op) = Inr (mods @ ms1, cur1)"
    "loaded (fold apply_mod ms1 d) cur1" "dom (contents cur) - {k} \<subseteq> dom (contents cur1)"
    "length ms1 \<le> 1" "\<forall>m \<in> set ms1. mod_key m = k \<and> mod_fits d m"
    and d1: "fold apply_mod ms1 d = d(k := map_option strip (persist_op op (d k)))"
  proof -
    have "k \<in> dom (contents cur) \<or> d k = None" using Cons.prems(3) x by simp
    from modify_one_spec [where W = W and mods = mods and op = op, OF Cons.prems(1) this]
    show ?thesis by (elim exE conjE) (intro that conjI)
  qed
  let ?d = "fold apply_mod ms1 d"
  have k: "k \<notin> fst ` set ops" using Cons.prems(2) x by simp
  have missing: "\<forall>j \<in> fst ` set ops. j \<in> dom (contents cur1) \<or> ?d j = None"
  proof
    fix j assume j: "j \<in> fst ` set ops"
    have "j \<noteq> k" using j k by blast
    moreover have "j \<in> dom (contents cur) \<or> d j = None"
      by (rule bspec [OF Cons.prems(3)]) (use j in auto)
    ultimately show "j \<in> dom (contents cur1) \<or> ?d j = None" using one(3) by (auto simp: d1)
  qed
  have "distinct (map fst ops)" using Cons.prems(2) by simp
  from Cons.IH [OF one(2) this missing, of "mods @ ms1"]
  obtain ms2 cur2 where rest: "try_fold (modify_one P W) (mods @ ms1, cur1) ops = Inr ((mods @ ms1) @ ms2, cur2)"
    "loaded (fold apply_mod ms2 ?d) cur2" "fold apply_mod ms2 ?d = ops_result ops ?d"
    "distinct (map mod_key ms2)" "mod_key ` set ms2 \<subseteq> fst ` set ops" "\<forall>m \<in> set ms2. mod_fits ?d m"
    by (elim exE conjE) (intro that conjI)
  have same: "mod_fits d m" if "m \<in> set ms2" for m
  proof -
    have "mod_key m \<noteq> k" using that rest(5) k by auto
    then show ?thesis using bspec [OF rest(6) that] unfolding d1 by (cases m) simp_all
  qed
  have "distinct (map mod_key (ms1 @ ms2))"
    using one(4,5) rest(4,5) k by (cases ms1) auto
  moreover have "try_fold (modify_one P W) (mods, cur) (x # ops) = Inr (mods @ (ms1 @ ms2), cur2)"
    using one(1) rest(1) by (simp add: x)
  moreover have "fold apply_mod (ms1 @ ms2) d = ops_result (x # ops) d"
    using rest(3) ops_result_Cons [OF k] by (simp add: x d1)
  ultimately show ?case using rest(2,5) one(5) same x
    by (intro exI [of _ "ms1 @ ms2"] exI [of _ cur2]) auto
qed

lemma as_modifications_spec:
  assumes "ec_inv \<alpha> pq_invar D db c" and "store c = st" and "\<not> in_handler c"
  shows "\<exists>r. as_modifications P W c = Inr r \<and>
    distinct (map mod_key (modifications r)) \<and> mod_key ` set (modifications r) \<subseteq> fst ` set (updates c) \<and>
    (\<forall>m \<in> set (modifications r). mod_fits db m) \<and>
    fold apply_mod (modifications r) db = ops_result (updates c) db \<and>
    cinv (entity_lfu_cache r) \<and>
    coherent (ops_result (updates c) db) (contents (entity_lfu_cache r)) \<and>
    mc_data_sources r = data_sources c"
proof -
  have cur: "loaded db (current c)" and dist: "distinct (map fst (updates c))"
    and D: "\<And>k. k \<in> fst ` set (updates c) \<Longrightarrow> key_indexer_id k = D"
    using assms(1) by (simp_all add: ec_inv_def)
  have miss: "set (missing_keys P c) = fst ` set (updates c) - dom (contents (current c))"
    using cur by (auto simp: missing_keys_def contains_key_spec)
  have "\<forall>k \<in> set (missing_keys P c). key_indexer_id k = D" using D by (simp add: miss)
  from load_all_spec [where W = W, OF cur this] obtain cur1 where
    load: "try_fold (load_missing P W st) (current c) (missing_by_indexer (missing_keys P c)) = Inr cur1"
    and cur1: "loaded db cur1" and sub: "dom (contents (current c)) \<subseteq> dom (contents cur1)"
    and found: "set (missing_keys P c) \<inter> dom db \<subseteq> dom (contents cur1)"
    by (elim exE conjE) (intro that conjI)
  have "\<forall>k \<in> fst ` set (updates c). k \<in> dom (contents cur1) \<or> db k = None"
    using sub found unfolding miss by blast
  from modify_all_spec [where W = W and mods = "[]", OF cur1 dist this] obtain ms cur2 where
    all: "try_fold (modify_one P W) ([], cur1) (updates c) = Inr ([] @ ms, cur2)"
    and ms: "cinv cur2" "coherent (fold apply_mod ms db) (contents cur2)"
    "fold apply_mod ms db = ops_result (updates c) db"
    "distinct (map mod_key ms)" "mod_key ` set ms \<subseteq> fst ` set (updates c)" "\<forall>m \<in> set ms. mod_fits db m"
    by (elim exE conjE) (intro that conjI)
  have "as_modifications P W c =
      Inr \<lparr>modifications = ms, mc_data_sources = data_sources c, entity_lfu_cache = cur2\<rparr>"
    using load all assms(2,3) by (simp add: as_modifications_def)
  then show ?thesis using ms(1,4-6) ms(2) [unfolded ms(3)] ms(3) by simp
qed

lemma get_entity_spec:
  assumes "loaded db cur" and "key_indexer_id k = D"
  shows "\<exists>cur'. lfu_get_entity P W st k cur = Inr (read_base db (contents cur) k, cur') \<and> loaded db cur' \<and>
    contents cur' = (contents cur)(k \<mapsto> read_base db (contents cur) k)"
proof -
  obtain r cur1 where g: "lfu_get P k cur = (r, cur1)" by (cases "lfu_get P k cur")
  have cur1: "cinv cur1" "contents cur1 = contents cur" and r: "r = contents cur k"
    using get_spec [OF conjunct1 [OF assms(1)] g] by simp_all
  show ?thesis
  proof (cases r)
    case None
    let ?e = "map_option (\<lambda>e. snd (entity_remove ''__typename'' e)) (map_option (tagged (key_entity_type k)) (db k))"
    have e: "?e = db k"
    proof (cases "db k")
      case (Some e0)
      then show ?thesis using db_plain [OF Some] strip_tagged [of "key_entity_type k" e0]
        by (simp add: entity_remove_def strip_def)
    qed simp
    obtain cur2 where ins: "lfu_insert P W k ?e cur1 = Some cur2" "cinv cur2"
      "contents cur2 = (contents cur1)(k \<mapsto> ?e)"
      using insert_spec [OF cur1(1)] by blast
    have plain: "map_option strip (db k) = db k" using db_plain by (cases "db k") simp_all
    have base: "read_base db (contents cur) k = db k" using None r by (simp add: read_base_def)
    have "lfu_get_entity P W st k cur = Inr (?e, cur2)"
      using None g store_get [OF assms(2)] ins(1) by (simp add: lfu_get_entity_def Let_def)
    moreover have "coherent db (contents cur2)"
      using assms(1) plain unfolding ins(3) cur1(2) e by (simp add: coherent_def)
    ultimately show ?thesis using ins(2,3) cur1(2) unfolding base e
      by (intro exI [of _ cur2]) simp
  next
    case (Some v)
    then have base: "contents cur k = Some v" "read_base db (contents cur) k = v"
      using r by (simp_all add: read_base_def)
    then show ?thesis using Some g cur1 assms(1) by (simp add: lfu_get_entity_def fun_upd_idem)
  qed
qed

lemma read_base_strip:
  assumes "coherent db m"
  shows "map_option strip (read_base db m k) = db k"
    and "(\<forall>v. m k = Some v \<longrightarrow> map_option strip v = v) \<Longrightarrow> read_base db m k = db k"
proof -
  have "map_option strip (db k) = db k" using db_plain by (cases "db k") simp_all
  then show "map_option strip (read_base db m k) = db k"
    and "(\<forall>v. m k = Some v \<longrightarrow> map_option strip v = v) \<Longrightarrow> read_base db m k = db k"
    using assms by (auto simp: read_base_def coherent_def split: option.split)
qed

lemma get_view:
  assumes "ec_inv \<alpha> pq_invar D db c" and "store c = st" and "key_indexer_id k = D"
  shows "\<exists>e cur. ec_get P W k c = Inr (e, c\<lparr>current := cur\<rparr>) \<and>
    ec_inv \<alpha> pq_invar D db (c\<lparr>current := cur\<rparr>) \<and>
    contents cur = (contents (current c))(k \<mapsto> read_base db (contents (current c)) k) \<and>
    e = overlay (handler_updates c) k (overlay (updates c) k (read_base db (contents (current c)) k)) \<and>
    ((\<forall>v. contents (current c) k = Some v \<longrightarrow> map_option strip v = v) \<longrightarrow> e = view db c k) \<and>
    map_option strip e = map_option strip (view db c k)"
proof -
  have l: "loaded db (current c)" using assms(1) by (simp add: ec_inv_def)
  let ?b = "read_base db (contents (current c)) k"
  note base = read_base_strip [OF conjunct2 [OF l], of k]
  from get_entity_spec [OF l assms(3), of W] obtain cur where
    g: "lfu_get_entity P W st k (current c) = Inr (?b, cur)" and cur: "loaded db cur"
    and upd: "contents cur = (contents (current c))(k \<mapsto> ?b)" by (elim exE conjE) (intro that conjI)
  let ?e2 = "overlay (handler_updates c) k (overlay (updates c) k ?b)"
  have get: "ec_get P W k c = Inr (?e2, c\<lparr>current := cur\<rparr>)"
    using g assms(2) by (simp add: ec_get_def overlay_def Let_def split: option.splits)
  have ov: "map_option strip (overlay ops k x) = map_option strip (overlay ops k (map_option strip x))" for ops x
    using strip_apply_to by (auto simp: overlay_def option.map_comp comp_def split: option.splits)
  have same: "map_option strip ?e2 = map_option strip (view db c k)"
    unfolding view_def by (metis ov base(1))
  have plain: "(\<forall>v. contents (current c) k = Some v \<longrightarrow> map_option strip v = v) \<longrightarrow> ?e2 = view db c k"
    using base(2) by (simp add: view_def)
  have "ec_inv \<alpha> pq_invar D db (c\<lparr>current := cur\<rparr>)"
    using assms(1) cur by (simp add: ec_inv_def)
  then show ?thesis by (intro exI [of _ ?e2] exI [of _ cur] conjI get upd plain same refl)
qed

end

section \<open>Pending operations and what is visible\<close>

abbreviation same_fields :: "entity option \<Rightarrow> entity option \<Rightarrow> bool" where
  "same_fields e f \<equiv> map_option non_null e = map_option non_null f"

lemma apply_to_cong: "same_fields e f \<Longrightarrow> same_fields (apply_to op e) (apply_to op f)"
  by (cases op; cases e; cases f) (auto simp: non_null_merge_remove)

lemma apply_to_accumulate:
  "same_fields (apply_to (accumulate a b) e) (apply_to b (apply_to a e))"
  by (cases a; cases b; cases e)
    (auto simp: non_null_merge_remove non_null_entity_merge merge_remove_merge)

lemma overlay_cong: "same_fields e f \<Longrightarrow> same_fields (overlay ops k e) (overlay ops k f)"
  by (auto simp: overlay_def intro: apply_to_cong split: option.splits)

abbreviation push_op :: "entity_key \<Rightarrow> entity_op \<Rightarrow> op_map \<Rightarrow> op_map" where
  "push_op key op \<equiv> al_upsert key (\<lambda>old. case old of None \<Rightarrow> op | Some o' \<Rightarrow> accumulate o' op)"

lemma overlay_push_op:
  "same_fields (overlay (push_op k op ops) j e)
     (if j = k then apply_to op (overlay ops j e) else overlay ops j e)"
  using apply_to_accumulate by (auto simp: overlay_def split: option.splits)

lemma entity_op_view:
  assumes "\<not> in_handler c \<longrightarrow> handler_updates c = []"
  shows "same_fields (view db (ec_entity_op k op c) j)
    (if j = k then apply_to op (view db c j) else view db c j)"
proof (cases "in_handler c")
  case True
  then show ?thesis
    using overlay_push_op [of k op "handler_updates c" j "overlay (updates c) j (db j)"]
    by (simp add: view_def ec_entity_op_def Let_def)
next
  case False
  then have "overlay (handler_updates c) j e = e" for e using assms by (simp add: overlay_def)
  then show ?thesis
    using overlay_push_op [of k op "updates c" j "db j"] False assms
    by (simp add: view_def ec_entity_op_def Let_def overlay_def)
qed

lemma entity_op_inv:
  assumes "ec_inv A I D db c" and "key_indexer_id k = D"
  shows "ec_inv A I D db (ec_entity_op k op c)"
  using assms by (auto simp: ec_inv_def ec_entity_op_def Let_def keys_al_upsert)

text \<open>Folding the operations of a handler into the main layer.\<close>

lemma fold_entity_op_fields:
  "\<not> in_handler c \<Longrightarrow> fold (\<lambda>(key, op). ec_entity_op key op) ops c =
     c\<lparr>updates := fold (\<lambda>(key, op). push_op key op) ops (updates c)\<rparr>"
  by (induction ops arbitrary: c) (auto simp: ec_entity_op_def Let_def)

lemma fold_entity_op_handler:
  "in_handler c \<Longrightarrow> fold (\<lambda>(key, op). ec_entity_op key op) ops c =
     c\<lparr>handler_updates := fold (\<lambda>(key, op). push_op key op) ops (handler_updates c)\<rparr>"
  by (induction ops arbitrary: c) (auto simp: ec_entity_op_def Let_def)

lemma overlay_fold_push:
  "distinct (map fst ops) \<Longrightarrow> same_fields (overlay (fold (\<lambda>(key, op). push_op key op) ops us) j e)
     (overlay ops j (overlay us j e))"
proof (induction ops arbitrary: us)
  case Nil
  then show ?case by (simp add: overlay_def)
next
  case (Cons x ops)
  obtain k op where x: "x = (k, op)" by (cases x)
  have "same_fields (overlay (fold (\<lambda>(key, op). push_op key op) (x # ops) us) j e)
      (overlay ops j (overlay (push_op k op us) j e))"
    using Cons.IH [of "push_op k op us"] Cons.prems by (simp add: x)
  also have "map_option non_null (overlay ops j (overlay (push_op k op us) j e)) =
      map_option non_null (overlay ops j (if j = k then apply_to op (overlay us j e) else overlay us j e))"
    by (rule overlay_cong) (rule overlay_push_op)
  also have "overlay ops j (if j = k then apply_to op (overlay us j e) else overlay us j e) =
      overlay (x # ops) j (overlay us j e)"
  proof -
    have "map_of ops k = None" using Cons.prems by (simp add: x map_of_eq_None_iff)
    then show ?thesis by (simp add: x overlay_def [of ops] overlay_def [of "(k, op) # ops"])
  qed
  finally show ?case .
qed

lemma fold_push_keys:
  "distinct (map fst us) \<Longrightarrow> distinct (map fst (fold (\<lambda>(key, op). push_op key op) ops us)) \<and>
   fst ` set (fold (\<lambda>(key, op). push_op key op) ops us) = fst ` set us \<union> fst ` set ops"
proof (induction ops arbitrary: us)
  case (Cons x ops)
  then show ?case
    using Cons.IH [of "push_op (fst x) (snd x) us"]
    by (cases x) (simp add: keys_al_upsert insert_commute Un_commute)
qed simp

lemma exit_handler_spec:
  assumes "ec_inv A I D db c" and "in_handler c"
  shows "\<exists>c'. ec_exit_handler c = Some c' \<and> ec_inv A I D db c' \<and> \<not> in_handler c' \<and>
    (\<forall>k. same_fields (view db c' k) (view db c k))"
proof -
  let ?c' = "c\<lparr>in_handler := False, handler_updates := [],
    updates := fold (\<lambda>(key, op). push_op key op) (handler_updates c) (updates c)\<rparr>"
  have "ec_exit_handler c = Some ?c'"
    using assms(2) by (simp add: ec_exit_handler_def fold_entity_op_fields)
  moreover have "ec_inv A I D db ?c'"
    using assms(1) fold_push_keys [of "updates c" "handler_updates c"] by (simp add: ec_inv_def)
  moreover have "same_fields (view db ?c' k) (view db c k)" for k
    using assms(1) overlay_fold_push [of "handler_updates c" "updates c" k "db k"]
    by (simp add: view_def ec_inv_def) (simp add: overlay_def)
  ultimately show ?thesis by fastforce
qed

lemma strip_non_null: "strip (non_null e) = non_null (strip e)"
  by (rule fmap_ext) simp

lemma ops_result_view:
  "map_option strip (db k) = db k \<Longrightarrow>
   same_fields (ops_result ops db k) (map_option strip (overlay ops k (db k)))"
proof (cases "map_of ops k")
  case (Some op)
  then show ?thesis
    by (cases op; cases "db k") (auto simp: ops_result_def overlay_def strip_non_null [symmetric]
        intro!: fmap_ext)
qed (simp add: ops_result_def overlay_def)

end
