(* ===== verification/Entity_Reference.thy ===== *)
theory Entity_Reference
  imports Entity_Cache Lfu_Reference
begin

text \<open>
  The properties of the entity cache, with their concrete instances: a store over an association
  list of rows, for which the laws of \<open>entity_store\<close> are proved, and the list priority queue.
\<close>

definition list_store :: "deployment_hash \<Rightarrow> (entity_key \<times> entity) list \<Rightarrow> writable_store" where
  "list_store D rows =
     \<lparr>ws_get = (\<lambda>k. Inr (map_option (tagged (key_entity_type k)) (map_of rows k))),
      ws_get_many = (\<lambda>grp. Inr (map (\<lambda>(t, ids). (t, List.map_filter
        (\<lambda>i. map_option (tagged t) (map_of rows (EntityKey D t i))) ids)) grp))\<rparr>"

lemma list_store_laws:
  assumes "\<forall>(k, e) \<in> set rows. fmlookup e ''id'' = Some (VString (key_entity_id k)) \<and>
    fmlookup e ''__typename'' = None"
  shows "entity_store (list_store D rows) D (map_of rows)"
proof
  fix k e assume k: "map_of rows k = Some e"
  then have "(k, e) \<in> set rows" by (rule map_of_SomeD)
  then have e: "fmlookup e ''id'' = Some (VString (key_entity_id k))" "fmlookup e ''__typename'' = None"
    using assms by auto
  show "fmlookup e ''id'' = Some (VString (key_entity_id k))" by (rule e)
  show "strip e = e" by (rule fmap_ext) (simp add: e(2))
next
  fix k show "ws_get (list_store D rows) k = Inr (map_option (tagged (key_entity_type k)) (map_of rows k))"
    by (simp add: list_store_def)
next
  fix grp :: "(entity_type \<times> string list) list"
  let ?found = "map (\<lambda>(t, ids). (t, List.map_filter
        (\<lambda>i. map_option (tagged t) (map_of rows (EntityKey D t i))) ids)) grp"
  have "(\<exists>es. (t, es) \<in> set ?found \<and> e \<in> set es) \<longleftrightarrow>
      (\<exists>ids i e0. (t, ids) \<in> set grp \<and> i \<in> set ids \<and> map_of rows (EntityKey D t i) = Some e0 \<and>
         e = tagged t e0)" for t e
    by (force simp: set_map_filter_iff)
  then show "\<exists>found. ws_get_many (list_store D rows) grp = Inr found \<and> (\<forall>t e.
      (\<exists>es. (t, es) \<in> set found \<and> e \<in> set es) \<longleftrightarrow>
      (\<exists>ids i e0. (t, ids) \<in> set grp \<and> i \<in> set ids \<and> map_of rows (EntityKey D t i) = Some e0 \<and>
         e = tagged t e0))"
    by (intro exI [of _ ?found]) (simp add: list_store_def)
qed

definition sample_key :: entity_key where
  "sample_key = EntityKey ''Qm1'' (EntityType ''Token'') ''a''"

definition sample_rows :: "(entity_key \<times> entity) list" where
  "sample_rows = [(sample_key, fmap_of_list [(''id'', VString ''a''), (''n'', VInt 1)])]"

definition sample_store :: writable_store where
  "sample_store = list_store ''Qm1'' sample_rows"

interpretation sample: entity_cache_env list_pq list_lookup list_invar sample_store "''Qm1''" "map_of sample_rows"
  unfolding entity_cache_env_def sample_store_def
  by (intro conjI lpq.priority_queue_axioms list_store_laws)
    (simp add: sample_rows_def sample_key_def)

definition sample_ec :: "(entity_key, entity option) entry_list entity_cache" where
  "sample_ec = ec_set sample_key (fmap_of_list [(''n'', VInt 2)]) (ec_new list_pq sample_store)"

lemma sample_ec_inv: "ec_inv list_lookup list_invar ''Qm1'' (map_of sample_rows) sample_ec"
proof -
  have "ec_inv list_lookup list_invar ''Qm1'' (map_of sample_rows) (ec_new list_pq sample_store)"
    using lpq.new_spec by (auto simp: ec_inv_def ec_new_def coherent_def)
  then show ?thesis
    unfolding sample_ec_def ec_set_def by (rule entity_op_inv) (simp add: sample_key_def)
qed

lemma sample_ec_store: "store sample_ec = sample_store" "\<not> in_handler sample_ec"
  "updates sample_ec = [(sample_key, OpUpdate (fmap_of_list [(''n'', VInt 2)]))]"
  by (simp_all add: sample_ec_def ec_set_def ec_new_def ec_entity_op_def)

section \<open>Properties\<close>

text \<open>C10. \<open>as_modifications\<close> succeeds on every well-formed cache that is not in a handler. It
  produces at most one modification per entity, only for entities with pending operations; an
  \<open>Insert\<close> only where the store has no entity, an \<open>Overwrite\<close> or \<open>Remove\<close> only where it has one; and
  applying the modifications to the store yields exactly the result of the pending operations.
  The returned cache is well formed and agrees with the store after the modifications.\<close>

theorem as_modifications_correct:
  assumes "entity_cache_env P A I st D db" and "ec_inv A I D db c" and "store c = st" and "\<not> in_handler c"
  shows "\<exists>r. as_modifications P W c = Inr r \<and>
    distinct (map mod_key (modifications r)) \<and> mod_key ` set (modifications r) \<subseteq> fst ` set (updates c) \<and>
    (\<forall>m \<in> set (modifications r). mod_fits db m) \<and>
    fold apply_mod (modifications r) db = ops_result (updates c) db \<and>
    lfu_inv A I (entity_lfu_cache r) \<and>
    coherent (ops_result (updates c) db) (lfu_map A (entity_lfu_cache r)) \<and>
    mc_data_sources r = data_sources c"
  by (rule entity_cache_env.as_modifications_spec [OF assms])

theorem as_modifications_correct_witness:
  "entity_cache_env list_pq list_lookup list_invar sample_store ''Qm1'' (map_of sample_rows) \<and>
   ec_inv list_lookup list_invar ''Qm1'' (map_of sample_rows) sample_ec \<and>
   (\<exists>r. as_modifications list_pq (\<lambda>_ _. 1) sample_ec = Inr r \<and> distinct (map mod_key (modifications r)))"
  using as_modifications_correct [OF sample.entity_cache_env_axioms sample_ec_inv sample_ec_store(1,2),
      of "\<lambda>_ _. 1"]
    sample.entity_cache_env_axioms sample_ec_inv by blast

text \<open>C14. What a mapping reads before a block ends is what the modifications leave in the store,
  field by field: for every entity, the result of the pending operations has the same non-null
  fields as the overlay \<open>get\<close> computes.\<close>

theorem persisted_is_visible:
  assumes "entity_store st D db"
  shows "map_option non_null (ops_result ops db k) =
    map_option non_null (map_option strip (overlay ops k (db k)))"
proof (rule ops_result_view)
  show "map_option strip (db k) = db k"
    using entity_store.db_plain [OF assms, of k] by (cases "db k") simp_all
qed

theorem persisted_is_visible_witness:
  "entity_store sample_store ''Qm1'' (map_of sample_rows) \<and>
   map_option non_null (ops_result [(sample_key, OpRemove)] (map_of sample_rows) sample_key) =
     map_option non_null (map_option strip (overlay [(sample_key, OpRemove)] sample_key (map_of sample_rows sample_key)))"
  using persisted_is_visible [OF sample.entity_store_axioms] sample.entity_store_axioms by blast

text \<open>C13. \<open>get\<close> never panics and returns exactly the handler's operations over the block's
  operations over the base entity: the cached one, or else the store's without its \<open>__typename\<close>
  tag. Hence, unless a tagged entity is cached for the key, it returns what the mapping should see
  (\<open>view\<close>) to the field, and with one cached the same up to the tag. It changes nothing but the
  cached entities: the base is cached for the key and the invariant is kept.\<close>

theorem ec_get_reads_overlay:
  assumes "entity_cache_env P A I st D db" and "ec_inv A I D db c" and "store c = st"
    and "key_indexer_id k = D"
  shows "\<exists>e cur. ec_get P W k c = Inr (e, c\<lparr>current := cur\<rparr>) \<and>
    ec_inv A I D db (c\<lparr>current := cur\<rparr>) \<and>
    lfu_map A cur = (lfu_map A (current c))(k \<mapsto> read_base db (lfu_map A (current c)) k) \<and>
    e = overlay (handler_updates c) k (overlay (updates c) k (read_base db (lfu_map A (current c)) k)) \<and>
    ((\<forall>v. lfu_map A (current c) k = Some v \<longrightarrow> map_option strip v = v) \<longrightarrow> e = view db c k) \<and>
    map_option strip e = map_option strip (view db c k)"
  by (rule entity_cache_env.get_view [OF assms])

lemma sample_ec_uncached: "lfu_map list_lookup (current sample_ec) k = None"
  by (simp add: sample_ec_def ec_set_def ec_new_def ec_entity_op_def lpq.new_spec)

theorem ec_get_reads_overlay_witness:
  "\<exists>cur. ec_get list_pq (\<lambda>_ _. 1) sample_key sample_ec =
      Inr (view (map_of sample_rows) sample_ec sample_key, sample_ec\<lparr>current := cur\<rparr>)"
proof -
  have "key_indexer_id sample_key = ''Qm1''" by (simp add: sample_key_def)
  from ec_get_reads_overlay [OF sample.entity_cache_env_axioms sample_ec_inv sample_ec_store(1) this,
      of "\<lambda>_ _. 1"]
  obtain e cur where "ec_get list_pq (\<lambda>_ _. 1) sample_key sample_ec = Inr (e, sample_ec\<lparr>current := cur\<rparr>)"
    and "(\<forall>v. lfu_map list_lookup (current sample_ec) sample_key = Some v \<longrightarrow> map_option strip v = v) \<longrightarrow>
      e = view (map_of sample_rows) sample_ec sample_key"
    by (elim exE conjE)
  then show ?thesis by (intro exI [of _ cur]) (simp add: sample_ec_uncached)
qed

text \<open>The tag does reach a mapping once \<open>as_modifications\<close> has cached what \<open>get_many\<close> returned: a
  read through the cache that the block hands to the next one shows \<open>__typename\<close>.\<close>

lemma cached_tag_is_visible:
  "(case as_modifications list_pq (\<lambda>_ _. 1) sample_ec of
      Inr r \<Rightarrow> (case ec_get list_pq (\<lambda>_ _. 1) sample_key (ec_with_current sample_store (entity_lfu_cache r)) of
         Inr (Some e, _) \<Rightarrow> fmlookup e ''__typename'' = Some (VString ''Token'')
       | _ \<Rightarrow> False)
    | Inl _ \<Rightarrow> False)"
  by code_simp

text \<open>C15. Setting or removing an entity changes what is visible of that entity by exactly that
  operation, and of no other entity, inside and outside a handler; accumulating the operation
  onto pending ones loses nothing but explicit nulls.\<close>

theorem ec_entity_op_visible:
  assumes "ec_inv A I D db c"
  shows "map_option non_null (view db (ec_entity_op k op c) j) =
    map_option non_null (if j = k then apply_to op (view db c j) else view db c j)"
  using assms by (intro entity_op_view) (simp add: ec_inv_def)

theorem ec_entity_op_visible_witness:
  "map_option non_null (view (map_of sample_rows) (ec_entity_op sample_key OpRemove sample_ec) sample_key) = None"
  using ec_entity_op_visible [OF sample_ec_inv, of sample_key OpRemove sample_key] by simp

text \<open>C16. Leaving a handler merges its operations into the block's: the invariant holds and every
  entity shows the same non-null fields as inside the handler.\<close>

theorem ec_exit_handler_keeps_view:
  assumes "ec_inv A I D db c" and "in_handler c"
  shows "\<exists>c'. ec_exit_handler c = Some c' \<and> ec_inv A I D db c' \<and> \<not> in_handler c' \<and>
    (\<forall>k. map_option non_null (view db c' k) = map_option non_null (view db c k))"
  using assms by (rule exit_handler_spec)

lemma sample_handler_inv:
  "ec_inv list_lookup list_invar ''Qm1'' (map_of sample_rows)
     (ec_remove sample_key (sample_ec\<lparr>in_handler := True\<rparr>))"
proof -
  have "ec_inv list_lookup list_invar ''Qm1'' (map_of sample_rows) (sample_ec\<lparr>in_handler := True\<rparr>)"
    using sample_ec_inv by (simp add: ec_inv_def)
  then show ?thesis
    unfolding ec_remove_def by (rule entity_op_inv) (simp add: sample_key_def)
qed

theorem ec_exit_handler_keeps_view_witness:
  "\<exists>c'. ec_exit_handler (ec_remove sample_key (sample_ec\<lparr>in_handler := True\<rparr>)) = Some c' \<and> \<not> in_handler c'"
proof -
  have "in_handler (ec_remove sample_key (sample_ec\<lparr>in_handler := True\<rparr>))"
    by (simp add: ec_remove_def ec_entity_op_def)
  then show ?thesis using ec_exit_handler_keeps_view [OF sample_handler_inv] by blast
qed

text \<open>C17. A failed handler leaves no trace: entering, performing any operations and leaving with
  \<open>exit_handler_and_discard_changes\<close> gives back the very cache the handler started from.\<close>

theorem ec_discard_restores:
  assumes "ec_inv A I D db c" and "\<not> in_handler c"
  shows "\<exists>c1. ec_enter_handler c = Some c1 \<and>
    ec_exit_handler_and_discard_changes (fold (\<lambda>(key, op). ec_entity_op key op) ops c1) = Some c"
  using assms
  by (simp add: ec_enter_handler_def ec_exit_handler_and_discard_changes_def ec_inv_def
      fold_entity_op_handler)

theorem ec_discard_restores_witness:
  "\<exists>c1. ec_enter_handler sample_ec = Some c1 \<and>
    ec_exit_handler_and_discard_changes (ec_remove sample_key c1) = Some sample_ec"
  using ec_discard_restores [OF sample_ec_inv sample_ec_store(2), of "[(sample_key, OpRemove)]"]
  by (simp add: ec_remove_def)

end
