(* ===== verification/Block_Stream.thy ===== *)
theory Block_Stream
  imports Num_Reference Entity_Cache
begin

text \<open>
  Block pointers (\<open>massbit/src/blockchain/types.rs\<close>) and the two block streams
  (\<open>polling_block_stream.rs\<close>, \<open>firehose_block_stream.rs\<close>) of \<open>massbit/src/blockchain\<close>.

  The streams are state machines driven by \<open>poll_next\<close>. One iteration of its loop is a function
  from the state and from what the polled future or connection answers (the environment) to an
  outcome and the next state. A future that has completed is \<open>None\<close>: polling it again panics, as
  every \<open>async\<close> block does. An \<open>f64\<close> is a rational number, and \<open>rnd\<close> is the rounding of the
  floating point operations; the theorems hold for every \<open>rnd\<close>.
\<close>

section \<open>Block numbers and pointers\<close>

definition i32_range :: "int \<Rightarrow> bool" where
  "i32_range n \<longleftrightarrow> - (2 ^ 31) \<le> n \<and> n < 2 ^ 31"

definition i32_checked :: "int \<Rightarrow> int option" where
  "i32_checked n = (if i32_range n then Some n else None)"

type_synonym block_hash = "u8 list"

record block_ptr =
  bp_hash :: block_hash
  bp_number :: block_number

fun hash_hex :: "block_hash \<Rightarrow> string" where
  "hash_hex [] = []"
| "hash_hex (b # bs) = hex_digit (unat b div 16) # hex_digit (unat b mod 16) # hash_hex bs"

definition block_ptr_from_u64 :: "block_hash \<Rightarrow> int \<Rightarrow> block_ptr option" where
  "block_ptr_from_u64 hash number =
     map_option (\<lambda>n. \<lparr>bp_hash = hash, bp_number = n\<rparr>) (i32_checked number)"

definition block_ptr_from_i64 :: "block_hash \<Rightarrow> int \<Rightarrow> block_ptr option" where
  "block_ptr_from_i64 hash number = (if number < 0 then None else block_ptr_from_u64 hash number)"

text \<open>\<open>H256::from_str\<close> is the argument \<open>parse\<close>; \<open>None\<close> is the panic on a number out of range.\<close>

definition block_ptr_try_from_str ::
  "(string \<Rightarrow> string + block_hash) \<Rightarrow> string \<Rightarrow> int \<Rightarrow> (string + block_ptr) option" where
  "block_ptr_try_from_str parse hash number =
     (case parse (trim_start_matches ''0x'' hash) of
        Inl e \<Rightarrow> Some (Inl (''Cannot parse H256 value from string `'' @ trim_start_matches ''0x'' hash @ ''`: '' @ e))
      | Inr h \<Rightarrow> map_option Inr (block_ptr_from_i64 h number))"

definition block_ptr_try_from_bytes :: "u8 list \<Rightarrow> int \<Rightarrow> (string + block_ptr) option" where
  "block_ptr_try_from_bytes bytes number =
     (if length bytes = 32 then map_option Inr (block_ptr_from_i64 bytes number)
      else Some (Inl ''invalid H256 value''))"

section \<open>Polling\<close>

datatype 'a poll = Pending | Ready 'a

record 'b block_with_triggers =
  bt_block :: 'b
  trigger_count :: nat

record scan_ctx =
  stream_ptr :: block_number
  previous_triggers_per_block :: rat
  previous_block_range_size :: int
  max_block_range_size :: int
  target_triggers_per_block_range :: nat

datatype 'b stream_state =
    BeginReconciliation
  | Reconciliation "scan_ctx option"
  | YieldingBlocks "'b block_with_triggers list"

record 'b polling_stream =
  ps_state :: "'b stream_state"
  ps_ctx :: scan_ctx

definition polling_new :: "block_number \<Rightarrow> int \<Rightarrow> nat \<Rightarrow> 'b polling_stream" where
  "polling_new ptr max_range target =
     \<lparr>ps_state = BeginReconciliation,
      ps_ctx = \<lparr>stream_ptr = ptr, previous_triggers_per_block = 1000000,
        previous_block_range_size = 1, max_block_range_size = max_range,
        target_triggers_per_block_range = target\<rparr>\<rparr>"

text \<open>The range \<open>get_next_step\<close> scans, as \<open>(from, to, range_size)\<close>; \<open>None\<close> is an overflow.\<close>

definition range_size_of :: "(rat \<Rightarrow> rat) \<Rightarrow> scan_ctx \<Rightarrow> int \<Rightarrow> int" where
  "range_size_of rnd ctx upper_limit =
     (if previous_triggers_per_block ctx = 0 then upper_limit
      else \<lfloor>min (max (rnd (rnd (of_nat (target_triggers_per_block_range ctx)) / previous_triggers_per_block ctx)) 1)
             (of_int upper_limit)\<rfloor>)"

definition next_range :: "(rat \<Rightarrow> rat) \<Rightarrow> scan_ctx \<Rightarrow> (int \<times> int \<times> int) option" where
  "next_range rnd ctx =
     Option.bind (i32_checked (stream_ptr ctx + 1)) (\<lambda>from.
     Option.bind (i32_checked (previous_block_range_size ctx * 10)) (\<lambda>tenfold.
     let range_size = range_size_of rnd ctx (min (max_block_range_size ctx) tenfold) in
     Option.bind (i32_checked (from + range_size)) (\<lambda>end.
     Some (from, end - 1, range_size))))"

datatype 'b outcome =
    Again
  | Emit "'b block_with_triggers"
  | Wait
  | Fail string
  | Panic

type_synonym 'b scan = "int \<Rightarrow> int \<Rightarrow> (string + 'b block_with_triggers list) poll"

text \<open>One iteration of the loop in \<open>poll_next\<close>; \<open>scan\<close> answers the poll of \<open>scan_triggers\<close>.\<close>

definition poll_iter :: "(rat \<Rightarrow> rat) \<Rightarrow> 'b scan \<Rightarrow> 'b polling_stream \<Rightarrow> 'b outcome \<times> 'b polling_stream" where
  "poll_iter rnd scan s =
     (case ps_state s of
        BeginReconciliation \<Rightarrow> (Again, s\<lparr>ps_state := Reconciliation (Some (ps_ctx s))\<rparr>)
      | Reconciliation None \<Rightarrow> (Panic, s)
      | Reconciliation (Some ctx) \<Rightarrow>
          (case next_range rnd ctx of
             None \<Rightarrow> (Panic, s)
           | Some (from, to, range_size) \<Rightarrow>
               (case scan from to of
                  Pending \<Rightarrow> (Wait, s)
                | Ready (Inl e) \<Rightarrow> (Fail e, s\<lparr>ps_state := Reconciliation None\<rparr>)
                | Ready (Inr next_blocks) \<Rightarrow>
                    let total_triggers = sum_list (map trigger_count next_blocks) in
                    (case i32_checked (stream_ptr (ps_ctx s) + range_size) of
                       None \<Rightarrow> (Panic, s)
                     | Some ptr \<Rightarrow>
                         (Again, \<lparr>ps_state = YieldingBlocks next_blocks,
                            ps_ctx = (ps_ctx s)\<lparr>
                              previous_triggers_per_block := rnd (of_nat total_triggers / of_int range_size),
                              previous_block_range_size := range_size,
                              stream_ptr := ptr\<rparr>\<rparr>))))
      | YieldingBlocks (b # bs) \<Rightarrow> (Emit b, s\<lparr>ps_state := YieldingBlocks bs\<rparr>)
      | YieldingBlocks [] \<Rightarrow> (Again, s\<lparr>ps_state := BeginReconciliation\<rparr>))"

fun poll_next ::
  "nat \<Rightarrow> (rat \<Rightarrow> rat) \<Rightarrow> 'b scan \<Rightarrow> 'b polling_stream \<Rightarrow> ('b outcome \<times> 'b polling_stream) option" where
  "poll_next 0 rnd scan s = None"
| "poll_next (Suc fuel) rnd scan s =
     (case poll_iter rnd scan s of
        (Again, s') \<Rightarrow> poll_next fuel rnd scan s'
      | r \<Rightarrow> Some r)"

section \<open>Firehose\<close>

datatype firehose_state = Disconnected | Connecting bool | Connected

record firehose_stream =
  fs_state :: firehose_state
  connection_attempts :: nat

definition firehose_new :: firehose_stream where
  "firehose_new = \<lparr>fs_state = Disconnected, connection_attempts = 0\<rparr>"

definition wait_duration :: "nat \<Rightarrow> nat" where
  "wait_duration attempt_number = push_bit (if attempt_number > 5 then 5 else attempt_number) 2"

text \<open>What the environment answers: the serialisation of the filter, the poll of the connection
  future, and the poll of the connected stream with the mapping of its response.\<close>

record 'e firehose_env =
  fe_filter :: "string + u8 list"
  fe_connect :: "(string + unit) poll"
  fe_next :: "(string + (string + 'e)) option poll"

datatype 'e firehose_outcome = FAgain | FEmit 'e | FFail string | FPending | FRetry nat | FPanic

definition schedule_error_retry :: "firehose_stream \<Rightarrow> 'e firehose_outcome \<times> firehose_stream" where
  "schedule_error_retry s =
     (let attempts = connection_attempts s + 1
      in (FRetry (wait_duration attempts), s\<lparr>connection_attempts := attempts\<rparr>))"

text \<open>\<open>Connecting False\<close> holds a future that has completed.\<close>

definition firehose_iter ::
  "'e firehose_env \<Rightarrow> firehose_stream \<Rightarrow> 'e firehose_outcome \<times> firehose_stream" where
  "firehose_iter env s =
     (case fs_state s of
        Disconnected \<Rightarrow>
          (case fe_filter env of
             Inl e \<Rightarrow> (FFail e, s)
           | Inr _ \<Rightarrow>
               (case fe_connect env of
                  Ready (Inr _) \<Rightarrow> (FAgain, s\<lparr>fs_state := Connected, connection_attempts := 0\<rparr>)
                | Ready (Inl e) \<Rightarrow> schedule_error_retry s
                | Pending \<Rightarrow> (FPending, s\<lparr>fs_state := Connecting True\<rparr>)))
      | Connecting False \<Rightarrow> (FPanic, s)
      | Connecting True \<Rightarrow>
          (case fe_connect env of
             Ready (Inr _) \<Rightarrow> (FAgain, s\<lparr>fs_state := Connected\<rparr>)
           | Ready (Inl e) \<Rightarrow> schedule_error_retry (s\<lparr>fs_state := Connecting False\<rparr>)
           | Pending \<Rightarrow> (FPending, s))
      | Connected \<Rightarrow>
          (case fe_next env of
             Ready (Some (Inr (Inr event))) \<Rightarrow> (FEmit event, s)
           | Ready (Some (Inr (Inl e))) \<Rightarrow> schedule_error_retry (s\<lparr>fs_state := Disconnected\<rparr>)
           | Ready (Some (Inl e)) \<Rightarrow> schedule_error_retry (s\<lparr>fs_state := Disconnected\<rparr>)
           | Ready None \<Rightarrow> schedule_error_retry (s\<lparr>fs_state := Disconnected\<rparr>)
           | Pending \<Rightarrow> (FPending, s)))"

section \<open>Executions of the polling stream\<close>

text \<open>A run of loop iterations: the ranges scanned with success, the blocks they returned, and the
  blocks the stream emitted, in order.\<close>

inductive stream_run ::
  "(rat \<Rightarrow> rat) \<Rightarrow> 'b polling_stream \<Rightarrow> (int \<times> int) list \<Rightarrow> 'b block_with_triggers list
    \<Rightarrow> 'b block_with_triggers list \<Rightarrow> 'b polling_stream \<Rightarrow> bool"
  for rnd s0 where
  run_start: "stream_run rnd s0 [] [] [] s0"
| run_begin: "stream_run rnd s0 ranges found emitted s \<Longrightarrow> ps_state s = BeginReconciliation \<Longrightarrow>
    poll_iter rnd scan s = (out, s') \<Longrightarrow> stream_run rnd s0 ranges found emitted s'"
| run_scanned: "stream_run rnd s0 ranges found emitted s \<Longrightarrow> ps_state s = Reconciliation (Some ctx) \<Longrightarrow>
    next_range rnd ctx = Some (from, to, range_size) \<Longrightarrow> scan from to = Ready (Inr blocks) \<Longrightarrow>
    poll_iter rnd scan s = (Again, s') \<Longrightarrow>
    stream_run rnd s0 (ranges @ [(from, to)]) (found @ blocks) emitted s'"
| run_waiting: "stream_run rnd s0 ranges found emitted s \<Longrightarrow> poll_iter rnd scan s = (Wait, s') \<Longrightarrow>
    stream_run rnd s0 ranges found emitted s'"
| run_failed: "stream_run rnd s0 ranges found emitted s \<Longrightarrow> poll_iter rnd scan s = (Fail e, s') \<Longrightarrow>
    stream_run rnd s0 ranges found emitted s'"
| run_emit: "stream_run rnd s0 ranges found emitted s \<Longrightarrow> poll_iter rnd scan s = (Emit b, s') \<Longrightarrow>
    stream_run rnd s0 ranges found (emitted @ [b]) s'"
| run_drained: "stream_run rnd s0 ranges found emitted s \<Longrightarrow> ps_state s = YieldingBlocks [] \<Longrightarrow>
    poll_iter rnd scan s = (Again, s') \<Longrightarrow> stream_run rnd s0 ranges found emitted s'"

text \<open>Consecutive ranges that cover everything after \<open>ptr\<close> up to \<open>end\<close>.\<close>

fun tiles :: "int \<Rightarrow> (int \<times> int) list \<Rightarrow> int \<Rightarrow> bool" where
  "tiles ptr [] end \<longleftrightarrow> ptr = end"
| "tiles ptr ((from, to) # rs) end \<longleftrightarrow> from = ptr + 1 \<and> from \<le> to \<and> tiles to rs end"

definition pending_blocks :: "'b polling_stream \<Rightarrow> 'b block_with_triggers list" where
  "pending_blocks s = (case ps_state s of YieldingBlocks bs \<Rightarrow> bs | _ \<Rightarrow> [])"

definition ctx_ok :: "int \<Rightarrow> scan_ctx \<Rightarrow> bool" where
  "ctx_ok max_range ctx \<longleftrightarrow> max_block_range_size ctx = max_range \<and>
     1 \<le> previous_block_range_size ctx \<and> previous_block_range_size ctx \<le> max_range"

lemma i32_checked_Some: "i32_checked n = Some m \<longleftrightarrow> i32_range n \<and> m = n"
  by (auto simp: i32_checked_def)

lemma next_range_bounds:
  assumes "ctx_ok m ctx" and "next_range rnd ctx = Some (from, to, range_size)"
  shows "from = stream_ptr ctx + 1 \<and> to = stream_ptr ctx + range_size \<and> 1 \<le> range_size \<and>
    range_size \<le> m \<and> range_size \<le> 10 * previous_block_range_size ctx"
proof -
  define u where "u = min m (previous_block_range_size ctx * 10)"
  have "1 \<le> u" using assms(1) by (simp add: ctx_ok_def u_def)
  have r: "range_size = range_size_of rnd ctx u" and f: "from = stream_ptr ctx + 1"
    and t: "to = stream_ptr ctx + range_size"
    using assms by (auto simp: next_range_def u_def ctx_ok_def Let_def i32_checked_Some
        split: Option.bind_splits)
  have "1 \<le> range_size_of rnd ctx u \<and> range_size_of rnd ctx u \<le> u"
  proof (cases "previous_triggers_per_block ctx = 0")
    case True
    then show ?thesis using \<open>1 \<le> u\<close> by (simp add: range_size_of_def)
  next
    case False
    define q where "q = rnd (rnd (of_nat (target_triggers_per_block_range ctx)) / previous_triggers_per_block ctx)"
    have lo: "(1 :: rat) \<le> min (max q 1) (of_int u)" using \<open>1 \<le> u\<close> by simp
    have hi: "min (max q 1) (of_int u) \<le> (of_int u :: rat)" by simp
    have "1 \<le> \<lfloor>min (max q 1) (of_int u :: rat)\<rfloor>" using lo by (simp add: le_floor_iff)
    moreover have "\<lfloor>min (max q 1) (of_int u :: rat)\<rfloor> \<le> u" using floor_mono [OF hi] by simp
    ultimately show ?thesis using False by (simp add: range_size_of_def q_def)
  qed
  then show ?thesis using r f t by (auto simp: u_def)
qed

lemma tiles_snoc: "tiles p (rs @ [(f, t)]) e \<longleftrightarrow> (\<exists>q. tiles p rs q \<and> f = q + 1 \<and> f \<le> t \<and> e = t)"
  by (induction p rs e rule: tiles.induct) auto

definition stream_inv :: "int \<Rightarrow> 'b polling_stream \<Rightarrow> bool" where
  "stream_inv m s \<longleftrightarrow> ctx_ok m (ps_ctx s) \<and>
     (\<forall>ctx. ps_state s = Reconciliation (Some ctx) \<longrightarrow> ctx = ps_ctx s)"

lemmas poll_iter_cases = poll_iter_def Let_def

lemma stream_run_invariant:
  assumes "stream_run rnd s0 ranges found emitted s"
    and "s0 = polling_new ptr m target" and "1 \<le> m"
  shows "stream_inv m s \<and> tiles ptr ranges (stream_ptr (ps_ctx s)) \<and>
    found = emitted @ pending_blocks s \<and> (\<forall>(f, t) \<in> set ranges. t - f < m)"
  using assms
proof (induction rule: stream_run.induct)
  case run_start
  then show ?case by (simp add: polling_new_def stream_inv_def ctx_ok_def pending_blocks_def)
next
  case (run_begin ranges found emitted s scan out s')
  then show ?case by (auto simp: poll_iter_cases stream_inv_def pending_blocks_def)
next
  case (run_scanned ranges found emitted s ctx "from" to range_size scan blocks s')
  then have inv: "stream_inv m s" and tl: "tiles ptr ranges (stream_ptr (ps_ctx s))"
    and pend: "found = emitted @ pending_blocks s" by simp_all
  have ctx: "ctx = ps_ctx s" "ctx_ok m ctx"
    using inv run_scanned.hyps(2) by (simp_all add: stream_inv_def)
  note bounds = next_range_bounds [OF ctx(2) run_scanned.hyps(3)]
  have s': "ps_state s' = YieldingBlocks blocks" "stream_ptr (ps_ctx s') = stream_ptr (ps_ctx s) + range_size"
    "previous_block_range_size (ps_ctx s') = range_size" "max_block_range_size (ps_ctx s') = max_block_range_size (ps_ctx s)"
    using run_scanned.hyps(2-5)
    by (auto simp: poll_iter_cases i32_checked_Some split: option.splits)
  have "tiles ptr (ranges @ [(from, to)]) (stream_ptr (ps_ctx s'))"
    using tl bounds ctx(1) s'(2) by (simp add: tiles_snoc)
  moreover have "stream_inv m s'" using ctx bounds s' by (simp add: stream_inv_def ctx_ok_def)
  ultimately show ?case
    using run_scanned bounds pend s'(1) by (auto simp: pending_blocks_def)
next
  case (run_waiting ranges found emitted s scan s')
  then have "s' = s" by (auto simp: poll_iter_cases split: stream_state.splits option.splits poll.splits sum.splits list.splits)
  with run_waiting show ?case by simp
next
  case (run_failed ranges found emitted s scan e s')
  then obtain ctx where "ps_state s = Reconciliation (Some ctx)" "s' = s\<lparr>ps_state := Reconciliation None\<rparr>"
    by (auto simp: poll_iter_cases split: stream_state.splits option.splits poll.splits sum.splits list.splits)
  with run_failed show ?case by (auto simp: stream_inv_def pending_blocks_def)
next
  case (run_emit ranges found emitted s scan b s')
  then obtain bs where "ps_state s = YieldingBlocks (b # bs)" "s' = s\<lparr>ps_state := YieldingBlocks bs\<rparr>"
    by (auto simp: poll_iter_cases split: stream_state.splits option.splits poll.splits sum.splits list.splits)
  with run_emit show ?case by (auto simp: stream_inv_def pending_blocks_def)
next
  case (run_drained ranges found emitted s scan s')
  then show ?case by (auto simp: poll_iter_cases stream_inv_def pending_blocks_def)
qed

section \<open>Properties\<close>

text \<open>C22. However the scans answer, the ranges the polling stream scans are consecutive, start right
  after the start pointer, are never empty, never longer than the configured maximum and end at
  the stream pointer; and the blocks it emits are the blocks the scans returned, in order, none
  lost and none twice.\<close>

theorem polling_stream_tiles:
  assumes "stream_run rnd (polling_new ptr m target) ranges found emitted s" and "1 \<le> m"
  shows "tiles ptr ranges (stream_ptr (ps_ctx s)) \<and> (\<forall>(f, t) \<in> set ranges. t - f < m) \<and>
    found = emitted @ pending_blocks s"
  using stream_run_invariant [OF assms(1) refl assms(2)] by simp

definition sample_block :: "nat block_with_triggers" where
  "sample_block = \<lparr>bt_block = 7, trigger_count = 3\<rparr>"

lemma sample_run:
  "\<exists>s. stream_run id (polling_new 10 100 50) [(11, 11)] [sample_block] [sample_block] s"
proof -
  let ?scan = "\<lambda>_ _. Ready (Inr [sample_block])"
  let ?c0 = "ps_ctx (polling_new 10 100 50 :: nat polling_stream)"
  let ?s1 = "\<lparr>ps_state = Reconciliation (Some ?c0), ps_ctx = ?c0\<rparr> :: nat polling_stream"
  have nr: "next_range id ?c0 = Some (11, 11, 1)"
    by (simp add: next_range_def polling_new_def i32_checked_def i32_range_def range_size_of_def Let_def)
  have "stream_run id (polling_new 10 100 50) [] [] [] (polling_new 10 100 50 :: nat polling_stream)"
    by (rule run_start)
  then have r1: "stream_run id (polling_new 10 100 50) [] [] [] ?s1"
    by (rule run_begin [where scan = ?scan and out = Again]) (simp_all add: polling_new_def poll_iter_def)
  define s2 where "s2 = snd (poll_iter id ?scan ?s1)"
  have s2: "poll_iter id ?scan ?s1 = (Again, s2)" "ps_state s2 = YieldingBlocks [sample_block]"
    using nr by (simp_all add: s2_def poll_iter_def Let_def i32_checked_def i32_range_def polling_new_def)
  have "stream_run id (polling_new 10 100 50) ([] @ [(11, 11)]) ([] @ [sample_block]) [] s2"
    by (rule run_scanned [OF r1 _ nr _ s2(1)]) simp_all
  then have "stream_run id (polling_new 10 100 50) ([] @ [(11, 11)]) ([] @ [sample_block]) ([] @ [sample_block])
      (s2\<lparr>ps_state := YieldingBlocks []\<rparr>)"
    by (rule run_emit [where scan = ?scan]) (simp add: poll_iter_def s2(2))
  then show ?thesis by auto
qed

theorem polling_stream_tiles_witness:
  "\<exists>s. stream_run id (polling_new 10 100 50) [(11, 11)] [sample_block] [sample_block] s \<and>
     tiles 10 [(11, 11)] (stream_ptr (ps_ctx s))"
  using sample_run polling_stream_tiles [of id 10 100 50 "[(11, 11)]" "[sample_block]" "[sample_block]"]
  by fastforce

text \<open>C23. \<open>poll_next\<close> returns: when the adapter keeps its promise that a successful scan returns at
  least one block, four iterations of the loop always reach an answer.\<close>

theorem poll_next_returns:
  assumes "\<And>f t bs. scan f t = Ready (Inr bs) \<Longrightarrow> bs \<noteq> []"
  shows "\<exists>r. poll_next 4 rnd scan s = Some r"
proof -
  have yield: "\<exists>r. poll_next (Suc n) rnd scan s = Some r" if "ps_state s = YieldingBlocks (b # bs)" for n b bs s
    using that by (simp add: poll_iter_def)
  have recon: "\<exists>r. poll_next (Suc (Suc n)) rnd scan s = Some r" if st: "ps_state s = Reconciliation c" for n c s
  proof (cases "poll_iter rnd scan s")
    case (Pair out s')
    show ?thesis
    proof (cases "out = Again")
      case True
      then obtain b bs where "ps_state s' = YieldingBlocks (b # bs)"
        using Pair st assms
        by (fastforce simp: poll_iter_def Let_def neq_Nil_conv
            split: option.splits poll.splits sum.splits)
      then show ?thesis using Pair True yield by (simp del: poll_next.simps add: poll_next.simps(2) [of "Suc n"])
    next
      case False
      then show ?thesis using Pair by (cases out) simp_all
    qed
  qed
  have start: "\<exists>r. poll_next (Suc (Suc (Suc n))) rnd scan s = Some r" if "ps_state s = BeginReconciliation" for n s
    using that recon [of "s\<lparr>ps_state := Reconciliation (Some (ps_ctx s))\<rparr>" _ n]
    by (simp del: poll_next.simps add: poll_next.simps(2) [of "Suc (Suc n)"] poll_iter_def)
  have 4: "4 = Suc (Suc (Suc (Suc 0)))" by simp
  show ?thesis
  proof (cases "ps_state s")
    case BeginReconciliation
    then show ?thesis unfolding 4 by (rule start)
  next
    case (Reconciliation c)
    then show ?thesis unfolding 4 by (rule recon)
  next
    case (YieldingBlocks bs)
    show ?thesis
    proof (cases bs)
      case Nil
      then have "poll_next 4 rnd scan s = poll_next (Suc (Suc (Suc 0))) rnd scan (s\<lparr>ps_state := BeginReconciliation\<rparr>)"
        unfolding 4 using YieldingBlocks by (subst poll_next.simps) (simp add: poll_iter_def)
      then show ?thesis using start [of "s\<lparr>ps_state := BeginReconciliation\<rparr>" 0] by simp
    next
      case (Cons b bs')
      then show ?thesis unfolding 4 using YieldingBlocks yield by blast
    qed
  qed
qed

theorem poll_next_returns_witness:
  "\<exists>r. poll_next 4 id (\<lambda>_ _. Ready (Inr [sample_block])) (polling_new 10 100 50) = Some r"
  by (rule poll_next_returns) auto

text \<open>C24. An error of a scan wedges the polling stream: the state keeps the completed future, and the
  next poll panics whatever the adapter would answer.\<close>

theorem polling_error_then_panic:
  assumes "poll_iter rnd scan s = (Fail e, s')"
  shows "poll_next (Suc n) rnd scan' s' = Some (Panic, s')"
proof -
  have "ps_state s' = Reconciliation None"
    using assms by (auto simp: poll_iter_def Let_def
        split: stream_state.splits option.splits poll.splits sum.splits list.splits)
  then show ?thesis by (simp add: poll_iter_def)
qed

theorem polling_error_then_panic_witness:
  "\<exists>s :: nat polling_stream. \<exists>s'. poll_iter id (\<lambda>_ _. Ready (Inl ''timeout'')) s = (Fail ''timeout'', s') \<and>
     poll_next 1 id (\<lambda>_ _. Ready (Inr [sample_block])) s' = Some (Panic, s')"
proof -
  let ?c = "ps_ctx (polling_new 10 100 50 :: nat polling_stream)"
  let ?s = "\<lparr>ps_state = Reconciliation (Some ?c), ps_ctx = ?c\<rparr>"
  have "next_range id ?c = Some (11, 11, 1)"
    by (simp add: next_range_def polling_new_def i32_checked_def i32_range_def range_size_of_def Let_def)
  then have "poll_iter id (\<lambda>_ _. Ready (Inl ''timeout'')) ?s =
      (Fail ''timeout'', ?s\<lparr>ps_state := Reconciliation None\<rparr>)"
    by (simp add: poll_iter_def)
  moreover from this have "poll_next (Suc 0) id (\<lambda>_ _. Ready (Inr [sample_block]))
      (?s\<lparr>ps_state := Reconciliation None\<rparr>) = Some (Panic, ?s\<lparr>ps_state := Reconciliation None\<rparr>)"
    by (rule polling_error_then_panic)
  ultimately show ?thesis unfolding One_nat_def by blast
qed

lemma wait_duration_value: "wait_duration n = 2 * 2 ^ min n 5"
  by (auto simp: wait_duration_def push_bit_nat_def min_def)

text \<open>The firehose stream retries with an exponential delay between 4 and 64 seconds that
  depends on the number of failed attempts so far, and only a retry counts as an attempt.\<close>

theorem firehose_retry_delay:
  assumes "firehose_iter env s = (out, s')"
  shows "case out of
      FRetry d \<Rightarrow> connection_attempts s' = connection_attempts s + 1 \<and>
        d = 2 * 2 ^ min (connection_attempts s') 5 \<and> 4 \<le> d \<and> d \<le> 64
    | _ \<Rightarrow> connection_attempts s' \<le> connection_attempts s"
proof -
  have bounds: "4 \<le> (2 :: nat) * 2 ^ min (Suc n) 5 \<and> (2 :: nat) * 2 ^ min (Suc n) 5 \<le> 64" for n
  proof -
    have "(2 :: nat) ^ 1 \<le> 2 ^ min (Suc n) 5" by (rule power_increasing) simp_all
    moreover have "(2 :: nat) ^ min (Suc n) 5 \<le> 2 ^ 5" by (rule power_increasing) simp_all
    ultimately show ?thesis by simp
  qed
  have retry: "case fst (schedule_error_retry t) of FRetry d \<Rightarrow>
      connection_attempts (snd (schedule_error_retry t)) = connection_attempts t + 1 \<and>
      d = 2 * 2 ^ min (connection_attempts t + 1) 5 | _ \<Rightarrow> False" for t
    by (simp add: schedule_error_retry_def wait_duration_value Let_def)
  show ?thesis using assms bounds [of "connection_attempts s"]
    by (auto simp: firehose_iter_def schedule_error_retry_def wait_duration_value Let_def
        split: firehose_state.splits sum.splits poll.splits option.splits bool.splits)
qed

theorem firehose_retry_delay_witness:
  "firehose_iter \<lparr>fe_filter = Inr [], fe_connect = Ready (Inl ''refused''), fe_next = Pending\<rparr> firehose_new =
     (FRetry 4 :: nat firehose_outcome, \<lparr>fs_state = Disconnected, connection_attempts = 1\<rparr>) \<and>
   (4 :: nat) \<le> 4"
proof -
  let ?env = "\<lparr>fe_filter = Inr [], fe_connect = Ready (Inl ''refused''), fe_next = Pending\<rparr>"
  have "firehose_iter ?env firehose_new =
      (FRetry 4 :: nat firehose_outcome, \<lparr>fs_state = Disconnected, connection_attempts = 1\<rparr>)"
    by (simp add: firehose_iter_def firehose_new_def schedule_error_retry_def wait_duration_value Let_def)
  then show ?thesis using firehose_retry_delay [of ?env firehose_new] by simp
qed

text \<open>C25. A connection that fails after it was pending wedges the firehose stream: the state still
  holds the completed future and the retry it schedules panics.\<close>

theorem firehose_connecting_error_then_panic:
  assumes "fs_state s = Connecting True" and "fe_connect env = Ready (Inl e)"
    and "firehose_iter env s = (out, s')"
  shows "(\<exists>d. out = FRetry d) \<and> firehose_iter env' s' = (FPanic, s')"
  using assms by (auto simp: firehose_iter_def schedule_error_retry_def Let_def)

theorem firehose_connecting_error_then_panic_witness:
  "\<exists>s' d. firehose_iter \<lparr>fe_filter = Inr [], fe_connect = Ready (Inl ''refused''), fe_next = Pending\<rparr>
       \<lparr>fs_state = Connecting True, connection_attempts = 0\<rparr> = (FRetry d :: nat firehose_outcome, s') \<and>
     firehose_iter \<lparr>fe_filter = Inr [], fe_connect = Ready (Inr ()), fe_next = Pending\<rparr> s' =
       (FPanic :: nat firehose_outcome, s')"
proof -
  let ?s = "\<lparr>fs_state = Connecting True, connection_attempts = 0\<rparr>"
  let ?env = "\<lparr>fe_filter = Inr [], fe_connect = Ready (Inl ''refused''), fe_next = Pending\<rparr> :: nat firehose_env"
  obtain out s' where it: "firehose_iter ?env ?s = (out, s')" by (cases "firehose_iter ?env ?s")
  show ?thesis using firehose_connecting_error_then_panic [OF _ _ it] it by auto
qed

text \<open>A block pointer survives the way through the database: its hash printed by \<open>hash_hex\<close>,
  with or without prefix, and its number convert back to the same pointer, provided the parser of
  the hash inverts the hex printing; a negative or too large number panics.\<close>

theorem block_ptr_roundtrip:
  assumes "\<And>h. length h = 32 \<Longrightarrow> parse (hash_hex h) = Inr h"
    and "length (bp_hash p) = 32" and "0 \<le> bp_number p" and "bp_number p < 2 ^ 31"
  shows "block_ptr_try_from_str parse (hash_hex (bp_hash p)) (bp_number p) = Some (Inr p) \<and>
    block_ptr_try_from_str parse (''0x'' @ hash_hex (bp_hash p)) (bp_number p) = Some (Inr p)"
proof -
  let ?h = "hash_hex (bp_hash p)" and ?pre = "''0x''"
  have hex: "c \<in> set (hash_hex bs) \<Longrightarrow> is_hex_char c" for c bs
    by (induction bs) (auto simp: is_hex_char_hex_digit)
  have "CHR ''x'' \<notin> set ?h"
    using hex [of "CHR ''x''" "bp_hash p"] by (auto simp: is_hex_char_def)
  then have "take (length ?pre) ?h \<noteq> ?pre"
    by (metis in_set_takeD list.set_intros(1) list.set_intros(2))
  then have t1: "trim_start_matches ?pre ?h = ?h" by (rule trim_start_matches_id)
  then have t2: "trim_start_matches ?pre (?pre @ ?h) = ?h"
    by (simp only: trim_start_matches_prefix list.distinct not_False_eq_True)
  have num: "block_ptr_from_i64 (bp_hash p) (bp_number p) = Some p"
    using assms(3,4) by (simp add: block_ptr_from_i64_def block_ptr_from_u64_def i32_checked_def i32_range_def)
  show ?thesis
    unfolding block_ptr_try_from_str_def t1 t2 assms(1) [OF assms(2)] by (simp add: num)
qed

definition sample_parse :: "string \<Rightarrow> string + block_hash" where
  "sample_parse s = ref_hex_decode s"

lemma hash_hex_ref: "hash_hex bs = ref_hex_encode bs"
  by (induction bs) simp_all

theorem block_ptr_roundtrip_witness:
  "block_ptr_try_from_str sample_parse (hash_hex (replicate 32 171)) 12 =
     Some (Inr \<lparr>bp_hash = replicate 32 171, bp_number = 12\<rparr>)"
  using block_ptr_roundtrip [of sample_parse "\<lparr>bp_hash = replicate 32 171, bp_number = 12\<rparr>"]
  by (simp add: sample_parse_def hash_hex_ref ref_hex_decode_encode)

end
