(* ===== verification/Eth_Trigger.thy ===== *)
theory Eth_Trigger
  imports Block_Stream "HOL-Library.Product_Lexorder" "HOL-Library.Multiset"
begin

text \<open>
  Ethereum blocks, calls, logs and the triggers made of them: \<open>massbit/src/components/ethereum/types.rs\<close>
  and \<open>chain/ethereum/src/trigger.rs\<close>. A 256-bit hash is the list of its bytes, the unsigned
  numbers of the \<open>web3\<close> types are \<open>nat\<close>. \<open>None\<close> is the panic of an \<open>unwrap\<close>.
\<close>

section \<open>Blocks, calls and logs\<close>

type_synonym h256 = "u8 list"

record eth_transaction =
  tx_hash :: h256
  tx_block_hash :: "h256 option"
  tx_block_number :: "nat option"
  tx_index :: "nat option"
  tx_from :: address
  tx_to :: "address option"
  tx_value :: nat
  tx_gas_price :: nat
  tx_gas :: nat
  tx_input :: "u8 list"

record light_block =
  lb_hash :: "h256 option"
  lb_parent_hash :: h256
  lb_number :: "nat option"
  lb_transactions :: "eth_transaction list"

record eth_log =
  log_address :: address
  log_topics :: "h256 list"
  log_data :: "u8 list"
  log_block_hash :: "h256 option"
  log_block_number :: "nat option"
  log_transaction_hash :: "h256 option"
  log_transaction_index :: "nat option"
  log_index :: "nat option"

record ethereum_call =
  call_from :: address
  call_to :: address
  call_value :: nat
  call_gas_used :: nat
  call_input :: "u8 list"
  call_output :: "u8 list"
  call_block_number :: block_number
  call_block_hash :: h256
  call_transaction_hash :: "h256 option"
  call_transaction_index :: nat

definition light_block_number :: "light_block \<Rightarrow> block_number option" where
  "light_block_number b = Option.bind (lb_number b) (\<lambda>n. i32_checked (int n))"

definition transaction_for_log :: "light_block \<Rightarrow> eth_log \<Rightarrow> eth_transaction option" where
  "transaction_for_log b log =
     Option.bind (log_transaction_hash log) (\<lambda>hash. find (\<lambda>tx. tx_hash tx = hash) (lb_transactions b))"

definition transaction_for_call :: "light_block \<Rightarrow> ethereum_call \<Rightarrow> eth_transaction option" where
  "transaction_for_call b call =
     Option.bind (call_transaction_hash call) (\<lambda>hash. find (\<lambda>tx. tx_hash tx = hash) (lb_transactions b))"

text \<open>The outer option is the panic of \<open>number()\<close>.\<close>

definition parent_ptr :: "light_block \<Rightarrow> block_ptr option option" where
  "parent_ptr b =
     (case light_block_number b of
        None \<Rightarrow> None
      | Some n \<Rightarrow> if n = 0 then Some None
                  else Some (Some \<lparr>bp_hash = lb_parent_hash b, bp_number = n - 1\<rparr>))"

definition light_block_ptr :: "light_block \<Rightarrow> block_ptr option" where
  "light_block_ptr b =
     Option.bind (lb_hash b) (\<lambda>h. Option.bind (lb_number b) (\<lambda>n. block_ptr_from_u64 h (int n)))"

record transaction_receipt =
  rc_transaction_hash :: h256
  rc_status :: "nat option"

definition evaluate_transaction_status :: "nat option \<Rightarrow> bool" where
  "evaluate_transaction_status receipt_status =
     (case map_option (\<lambda>status. status \<noteq> 0) receipt_status of None \<Rightarrow> True | Some ok \<Rightarrow> ok)"

definition transaction_for_call_succeeded ::
  "transaction_receipt list \<Rightarrow> ethereum_call \<Rightarrow> string + bool" where
  "transaction_for_call_succeeded receipts call =
     bind_result (ok_or ''failed to find a transaction for this call'' (call_transaction_hash call)) (\<lambda>hash.
     bind_result (ok_or ''failed to find the receipt for this transaction''
        (find (\<lambda>txn. rc_transaction_hash txn = hash) receipts)) (\<lambda>receipt.
     Inr (evaluate_transaction_status (rc_status receipt))))"

text \<open>Traces of the \<open>trace_filter\<close> API: the action and result of a trace as the code tells them apart.\<close>

record call_action =
  ca_from :: address
  ca_to :: address
  ca_value :: nat
  ca_input :: "u8 list"

datatype trace_action = ActionCall call_action | ActionOther
datatype trace_result = ResCall nat "u8 list" | ResOther

record eth_trace =
  tr_error :: "string option"
  tr_action :: trace_action
  tr_result :: "trace_result option"
  tr_transaction_position :: "nat option"
  tr_block_number :: nat
  tr_block_hash :: h256
  tr_transaction_hash :: "h256 option"

text \<open>\<open>as BlockNumber\<close> wraps a \<open>u64\<close> to the signed 32-bit range.\<close>

definition as_i32 :: "nat \<Rightarrow> int" where
  "as_i32 n = sint (of_nat n :: 32 word)"

definition try_from_trace :: "eth_trace \<Rightarrow> ethereum_call option" where
  "try_from_trace trace =
     (if tr_error trace \<noteq> None then None
      else case tr_action trace of
        ActionCall call \<Rightarrow>
          if 4 \<le> length (ca_input call)
          then (case tr_result trace of
                  Some (ResCall gas_used output) \<Rightarrow>
                    Option.bind (tr_transaction_position trace) (\<lambda>index.
                    Some \<lparr>call_from = ca_from call, call_to = ca_to call, call_value = ca_value call,
                      call_gas_used = gas_used, call_input = ca_input call, call_output = output,
                      call_block_number = as_i32 (tr_block_number trace),
                      call_block_hash = tr_block_hash trace,
                      call_transaction_hash = tr_transaction_hash trace,
                      call_transaction_index = index\<rparr>)
                | _ \<Rightarrow> None)
          else None
      | ActionOther \<Rightarrow> None)"

definition call_block_ptr :: "ethereum_call \<Rightarrow> block_ptr" where
  "call_block_ptr call = \<lparr>bp_hash = call_block_hash call, bp_number = call_block_number call\<rparr>"

section \<open>Triggers\<close>

datatype block_trigger_type = Every | WithCallTo address

datatype eth_trigger = TBlock block_ptr block_trigger_type | TCall ethereum_call | TLog eth_log

fun trigger_eq :: "eth_trigger \<Rightarrow> eth_trigger \<Rightarrow> bool" where
  "trigger_eq (TBlock a_ptr a_kind) (TBlock b_ptr b_kind) \<longleftrightarrow> a_ptr = b_ptr \<and> a_kind = b_kind"
| "trigger_eq (TCall a) (TCall b) \<longleftrightarrow> a = b"
| "trigger_eq (TLog a) (TLog b) \<longleftrightarrow>
     log_transaction_hash a = log_transaction_hash b \<and> log_index a = log_index b"
| "trigger_eq _ _ \<longleftrightarrow> False"

fun trigger_block_number :: "eth_trigger \<Rightarrow> block_number option" where
  "trigger_block_number (TBlock ptr _) = Some (bp_number ptr)"
| "trigger_block_number (TCall call) = Some (call_block_number call)"
| "trigger_block_number (TLog log) = Option.bind (log_block_number log) (\<lambda>n. i32_checked (int n))"

text \<open>\<open>hash_as_h256\<close> panics on a slice that does not have 32 bytes.\<close>

fun trigger_block_hash :: "eth_trigger \<Rightarrow> h256 option" where
  "trigger_block_hash (TBlock ptr _) = (if length (bp_hash ptr) = 32 then Some (bp_hash ptr) else None)"
| "trigger_block_hash (TCall call) = Some (call_block_hash call)"
| "trigger_block_hash (TLog log) = log_block_hash log"

datatype ordering = Less | Equal | Greater

definition compare_with :: "'a::linorder \<Rightarrow> 'a \<Rightarrow> ordering" where
  "compare_with a b = (if a < b then Less else if a = b then Equal else Greater)"

text \<open>\<open>Option<U256>\<close> with its derived order: \<open>None\<close> is least.\<close>

definition option_key :: "nat option \<Rightarrow> nat" where
  "option_key x = (case x of None \<Rightarrow> 0 | Some n \<Rightarrow> n + 1)"

fun trigger_cmp :: "eth_trigger \<Rightarrow> eth_trigger \<Rightarrow> ordering option" where
  "trigger_cmp (TBlock _ _) (TBlock _ _) = Some Equal"
| "trigger_cmp (TBlock _ _) _ = Some Greater"
| "trigger_cmp _ (TBlock _ _) = Some Less"
| "trigger_cmp (TCall a) (TCall b) =
     Some (compare_with (call_transaction_index a) (call_transaction_index b))"
| "trigger_cmp (TLog a) (TLog b) = Some (compare_with (option_key (log_index a)) (option_key (log_index b)))"
| "trigger_cmp (TCall a) (TLog b) =
     map_option (\<lambda>j. if call_transaction_index a = j then Greater
                     else compare_with (call_transaction_index a) j) (log_transaction_index b)"
| "trigger_cmp (TLog a) (TCall b) =
     map_option (\<lambda>i. if i = call_transaction_index b then Less
                     else compare_with i (call_transaction_index b)) (log_transaction_index a)"

text \<open>\<open>trigger_data.sort()\<close>: a stable sort by the comparison above.\<close>

fun insert_trigger :: "eth_trigger \<Rightarrow> eth_trigger list \<Rightarrow> eth_trigger list option" where
  "insert_trigger x [] = Some [x]"
| "insert_trigger x (y # ys) =
     Option.bind (trigger_cmp x y) (\<lambda>c.
       if c = Greater then map_option (Cons y) (insert_trigger x ys) else Some (x # y # ys))"

fun sort_triggers :: "eth_trigger list \<Rightarrow> eth_trigger list option" where
  "sort_triggers [] = Some []"
| "sort_triggers (x # xs) = Option.bind (sort_triggers xs) (insert_trigger x)"

record 'b eth_block_with_triggers =
  ebt_block :: 'b
  ebt_triggers :: "eth_trigger list"

definition block_with_triggers_new :: "'b \<Rightarrow> eth_trigger list \<Rightarrow> 'b eth_block_with_triggers option" where
  "block_with_triggers_new block triggers =
     map_option (\<lambda>ts. \<lparr>ebt_block = block, ebt_triggers = ts\<rparr>) (sort_triggers triggers)"

section \<open>The order of triggers\<close>

text \<open>The position of a trigger in its block: block triggers last, the others by transaction, events
  before calls, events by log index.\<close>

fun trigger_key :: "eth_trigger \<Rightarrow> bool \<times> nat \<times> bool \<times> nat" where
  "trigger_key (TBlock _ _) = (True, 0, False, 0)"
| "trigger_key (TCall c) = (False, call_transaction_index c, True, 0)"
| "trigger_key (TLog l) = (False, the (log_transaction_index l), False, option_key (log_index l))"

text \<open>Logs of one block as a node reports them: they carry their transaction index, and the log
  index grows along the block, so a smaller index is in the same or an earlier transaction.\<close>

definition log_positions_ok :: "eth_trigger list \<Rightarrow> bool" where
  "log_positions_ok ts \<longleftrightarrow>
     (\<forall>a. TLog a \<in> set ts \<longrightarrow> log_transaction_index a \<noteq> None) \<and>
     (\<forall>a b. TLog a \<in> set ts \<longrightarrow> TLog b \<in> set ts \<longrightarrow>
        (option_key (log_index a) < option_key (log_index b) \<longrightarrow>
           the (log_transaction_index a) \<le> the (log_transaction_index b)) \<and>
        (log_index a = log_index b \<longrightarrow> log_transaction_index a = log_transaction_index b))"

lemma option_key_inj: "option_key x = option_key y \<longleftrightarrow> x = y"
  by (auto simp: option_key_def split: option.splits)

lemma log_positions_index:
  "log_positions_ok ts \<Longrightarrow> TLog a \<in> set ts \<Longrightarrow> \<exists>i. log_transaction_index a = Some i"
  unfolding log_positions_ok_def by blast

lemma log_positions_order:
  assumes "log_positions_ok ts" and "TLog a \<in> set ts" and "TLog b \<in> set ts"
    and "log_transaction_index a = Some i" and "log_transaction_index b = Some j"
  shows "(option_key (log_index a) < option_key (log_index b) \<longrightarrow> i \<le> j) \<and>
    (option_key (log_index a) = option_key (log_index b) \<longrightarrow> i = j)"
proof -
  have "(option_key (log_index a) < option_key (log_index b) \<longrightarrow>
           the (log_transaction_index a) \<le> the (log_transaction_index b)) \<and>
        (log_index a = log_index b \<longrightarrow> log_transaction_index a = log_transaction_index b)"
    using assms(1-3) unfolding log_positions_ok_def by blast
  then show ?thesis using assms(4,5) by (simp add: option_key_inj)
qed

lemma compare_with_refine:
  fixes i j p q :: nat
  assumes "p < q \<Longrightarrow> i \<le> j" and "q < p \<Longrightarrow> j \<le> i" and "p = q \<Longrightarrow> i = j"
  shows "compare_with p q = compare_with (False, i, False, p) (False, j, False, q)"
proof -
  consider (lt) "p < q" | (gt) "q < p" | (eq) "p = q" by linarith
  then show ?thesis
  proof cases
    case lt
    then show ?thesis using assms(1) [OF lt] by (simp add: compare_with_def le_less)
  next
    case gt
    then show ?thesis using assms(2) [OF gt] by (simp add: compare_with_def le_less) auto
  next
    case eq
    then show ?thesis using assms(3) [OF eq] by (simp add: compare_with_def)
  qed
qed

lemma trigger_cmp_key:
  assumes "log_positions_ok ts" and "x \<in> set ts" and "y \<in> set ts"
  shows "trigger_cmp x y = Some (compare_with (trigger_key x) (trigger_key y))"
proof (cases x)
  case (TBlock p t)
  then show ?thesis by (cases y) (simp_all add: compare_with_def)
next
  case (TCall a)
  show ?thesis
  proof (cases y)
    case (TLog b)
    then obtain j where "log_transaction_index b = Some j"
      using log_positions_index [OF assms(1)] assms(3) by blast
    then show ?thesis using TCall TLog by (simp add: compare_with_def)
  qed (use TCall in \<open>simp_all add: compare_with_def\<close>)
next
  case (TLog a)
  then obtain i where i: "log_transaction_index a = Some i"
    using log_positions_index [OF assms(1)] assms(2) by blast
  show ?thesis
  proof (cases y)
    case y: (TLog b)
    then obtain j where j: "log_transaction_index b = Some j"
      using log_positions_index [OF assms(1)] assms(3) by blast
    have in_ts: "TLog a \<in> set ts" "TLog b \<in> set ts" using assms(2,3) TLog y by simp_all
    define p q where "p = option_key (log_index a)" and "q = option_key (log_index b)"
    have "p < q \<Longrightarrow> i \<le> j" and "q < p \<Longrightarrow> j \<le> i" and "p = q \<Longrightarrow> i = j"
      using log_positions_order [OF assms(1) in_ts i j] log_positions_order [OF assms(1) in_ts(2,1) j i]
      unfolding p_def q_def by blast+
    then have "compare_with p q = compare_with (False, i, False, p) (False, j, False, q)"
      by (rule compare_with_refine)
    then show ?thesis using TLog y i j by (simp add: p_def q_def)
  qed (use TLog i in \<open>simp_all add: compare_with_def\<close>)
qed

lemma insert_trigger_key:
  assumes "log_positions_ok ts" and "x \<in> set ts" and "set ys \<subseteq> set ts"
  shows "insert_trigger x ys = Some (insort_key trigger_key x ys)"
  using assms(3)
proof (induction ys)
  case Nil
  then show ?case by simp
next
  case (Cons y ys)
  have "trigger_cmp x y = Some (compare_with (trigger_key x) (trigger_key y))"
    using trigger_cmp_key [OF assms(1,2)] Cons.prems by simp
  then show ?case using Cons by (auto simp: compare_with_def)
qed

lemma sort_triggers_key:
  assumes "log_positions_ok ts" and "set xs \<subseteq> set ts"
  shows "sort_triggers xs = Some (sort_key trigger_key xs)"
  using assms(2)
proof (induction xs)
  case Nil
  then show ?case by simp
next
  case (Cons x xs)
  then show ?case using insert_trigger_key [OF assms(1), of x "sort_key trigger_key xs"] by simp
qed

lemma sort_triggers_mset: "sort_triggers xs = Some ys \<Longrightarrow> mset ys = mset xs"
proof (induction xs arbitrary: ys)
  case Nil
  then show ?case by simp
next
  case (Cons x xs)
  have ins: "insert_trigger x zs = Some ys \<Longrightarrow> mset ys = add_mset x (mset zs)" for zs ys
    by (induction zs arbitrary: ys) (auto split: Option.bind_splits if_splits)
  show ?case using Cons ins by (auto split: Option.bind_splits)
qed

section \<open>Properties\<close>

text \<open>C26. Sorting the triggers of a block never panics when the logs carry consistent positions, and
  puts them in block order: by transaction, events before calls, events by log index, block
  triggers last; triggers of equal position keep their order.\<close>

theorem sort_triggers_block_order:
  assumes "log_positions_ok ts"
  shows "\<exists>sorted_ts. sort_triggers ts = Some sorted_ts \<and> mset sorted_ts = mset ts \<and>
    sorted (map trigger_key sorted_ts) \<and>
    (\<forall>k. filter (\<lambda>t. trigger_key t = k) sorted_ts = filter (\<lambda>t. trigger_key t = k) ts)"
  using sort_triggers_key [OF assms subset_refl] sort_key_stable [of trigger_key _ ts] by simp

definition sample_log :: "nat \<Rightarrow> nat \<Rightarrow> eth_log" where
  "sample_log ti li = \<lparr>log_address = 1, log_topics = [], log_data = [], log_block_hash = None,
     log_block_number = Some 5, log_transaction_hash = None, log_transaction_index = Some ti, log_index = Some li\<rparr>"

definition sample_call :: "nat \<Rightarrow> ethereum_call" where
  "sample_call ti = \<lparr>call_from = 1, call_to = 2, call_value = 0, call_gas_used = 0,
     call_input = [1, 2, 3, 4], call_output = [], call_block_number = 5, call_block_hash = [],
     call_transaction_hash = None, call_transaction_index = ti\<rparr>"

theorem sort_triggers_block_order_witness:
  "log_positions_ok [TCall (sample_call 1), TLog (sample_log 1 3), TLog (sample_log 0 2)] \<and>
   (\<exists>ts. sort_triggers [TCall (sample_call 1), TLog (sample_log 1 3), TLog (sample_log 0 2)] = Some ts \<and>
      sorted (map trigger_key ts))"
proof -
  have ok: "log_positions_ok [TCall (sample_call 1), TLog (sample_log 1 3), TLog (sample_log 0 2)]"
    by (auto simp: log_positions_ok_def sample_log_def option_key_def)
  show ?thesis using sort_triggers_block_order [OF ok] ok by blast
qed

text \<open>A trace becomes a call only for a successful \<open>CALL\<close> with a method selector, a call result
  and a transaction, and then keeps its data.\<close>

theorem try_from_trace_correct:
  "try_from_trace trace = Some call \<longleftrightarrow>
     (\<exists>a gas output i. tr_error trace = None \<and> tr_action trace = ActionCall a \<and> 4 \<le> length (ca_input a) \<and>
        tr_result trace = Some (ResCall gas output) \<and> tr_transaction_position trace = Some i \<and>
        call = \<lparr>call_from = ca_from a, call_to = ca_to a, call_value = ca_value a,
          call_gas_used = gas, call_input = ca_input a, call_output = output,
          call_block_number = as_i32 (tr_block_number trace), call_block_hash = tr_block_hash trace,
          call_transaction_hash = tr_transaction_hash trace, call_transaction_index = i\<rparr>)"
  by (auto simp: try_from_trace_def split: trace_action.splits option.splits trace_result.splits Option.bind_splits if_splits)

end
