(* ===== verification/Eth_Data_Source.thy ===== *)
theory Eth_Data_Source
  imports Eth_Trigger
begin

text \<open>
  Ethereum data sources and their mappings: \<open>chain/ethereum/src/data_source.rs\<close>.

  The \<open>ethabi\<close> types are datatypes with the library's constructors; its decoders, the hash function,
  the JSON form of a context, the address and version parsers and the contract loader are the
  record \<open>eth_lib\<close>, an argument of the definitions that call them. The events and functions of a
  contract come in the order the library iterates them.
\<close>

section \<open>ABI types\<close>

datatype param_type =
    PAddress | PBytes | PInt nat | PUint nat | PBool | PString
  | PArray param_type | PFixedBytes nat | PFixedArray param_type nat | PTuple "param_type list"

datatype token =
    TkAddress address | TkFixedBytes "u8 list" | TkBytes "u8 list" | TkInt nat | TkUint nat
  | TkBool bool | TkString string | TkFixedArray "token list" | TkArray "token list" | TkTuple "token list"

record abi_param =
  ap_name :: string
  ap_kind :: param_type

record event_param =
  ep_name :: string
  ep_kind :: param_type
  ep_indexed :: bool

record abi_event =
  ev_name :: string
  ev_inputs :: "event_param list"

datatype state_mutability = Pure | View | NonPayable | Payable

record abi_function =
  fn_name :: string
  fn_inputs :: "abi_param list"
  fn_outputs :: "abi_param list"
  fn_mutability :: state_mutability

record contract =
  c_events :: "abi_event list"
  c_functions :: "abi_function list"

record log_param =
  lp_name :: string
  lp_value :: token

record version =
  v_major :: nat
  v_minor :: nat
  v_patch :: nat

record eth_lib =
  keccak256 :: "u8 list \<Rightarrow> u8 list"
  parse_log :: "abi_event \<Rightarrow> h256 list \<Rightarrow> u8 list \<Rightarrow> string + log_param list"
  decode_input :: "abi_function \<Rightarrow> u8 list \<Rightarrow> string + token list"
  decode_output :: "abi_function \<Rightarrow> u8 list \<Rightarrow> string + token list"
  param_display :: "param_type \<Rightarrow> string"
  address_from_str :: "string \<Rightarrow> string + address"
  context_to_json :: "entity \<Rightarrow> string"
  context_from_json :: "string \<Rightarrow> string + entity"
  contract_load :: "u8 list \<Rightarrow> string + contract"
  version_parse :: "string \<Rightarrow> string + version"

definition str_bytes :: "string \<Rightarrow> u8 list" where
  "str_bytes s = map (\<lambda>c. of_nat (of_char c)) s"

definition quoted :: "string \<Rightarrow> string" where
  "quoted s = CHR 0x22 # s @ [CHR 0x22]"

definition show_nat :: "nat \<Rightarrow> string" where
  "show_nat n = map (\<lambda>d. char_of (48 + d)) (nat_to_digits n)"

text \<open>\<open>str::replace\<close>: every non-overlapping occurrence of a non-empty pattern, left to right.\<close>

function replace_all :: "string \<Rightarrow> string \<Rightarrow> string \<Rightarrow> string" where
  "replace_all pat rep s =
     (if s = [] \<or> pat = [] then s
      else if take (length pat) s = pat then rep @ replace_all pat rep (drop (length pat) s)
      else hd s # replace_all pat rep (tl s))"
  by pat_completeness auto
termination
  by (relation "measure (\<lambda>(pat, rep, s). length s)") auto

declare replace_all.simps [simp del]

section \<open>Handlers and mappings\<close>

datatype block_handler_filter = CallFilter

record mapping_block_handler =
  bh_handler :: string
  bh_filter :: "block_handler_filter option"

record mapping_call_handler =
  ch_function :: string
  ch_handler :: string

record mapping_event_handler =
  eh_event :: string
  eh_topic0 :: "h256 option"
  eh_handler :: string

definition string_to_h256 :: "eth_lib \<Rightarrow> string \<Rightarrow> h256" where
  "string_to_h256 L s = keccak256 L (str_bytes (replace_all '' '' '''' s))"

definition topic0 :: "eth_lib \<Rightarrow> mapping_event_handler \<Rightarrow> h256" where
  "topic0 L h = (case eh_topic0 h of
     Some t \<Rightarrow> t | None \<Rightarrow> string_to_h256 L (replace_all ''indexed '' '''' (eh_event h)))"

record mapping_abi =
  ma_name :: string
  ma_contract :: contract

record mapping =
  mp_kind :: string
  mp_api_version :: version
  mp_language :: string
  mp_entities :: "string list"
  mp_abis :: "mapping_abi list"
  mp_block_handlers :: "mapping_block_handler list"
  mp_call_handlers :: "mapping_call_handler list"
  mp_event_handlers :: "mapping_event_handler list"
  mp_runtime :: "u8 list"
  mp_link :: string

definition has_call_handler :: "mapping \<Rightarrow> bool" where
  "has_call_handler m \<longleftrightarrow> mp_call_handlers m \<noteq> []"

definition has_block_handler_with_call_filter :: "mapping \<Rightarrow> bool" where
  "has_block_handler_with_call_filter m \<longleftrightarrow>
     list_ex (\<lambda>handler. bh_filter handler = Some CallFilter) (mp_block_handlers m)"

definition find_abi :: "mapping \<Rightarrow> string \<Rightarrow> string + mapping_abi" where
  "find_abi m abi_name =
     ok_or (''No ABI entry with name `'' @ abi_name @ ''` found'')
       (find (\<lambda>abi. ma_name abi = abi_name) (mp_abis m))"

text \<open>\<open>resolver.cat\<close> of the link resolver is the argument \<open>cat\<close>.\<close>

record unresolved_mapping_abi =
  ua_name :: string
  ua_file :: string

definition resolve_abi ::
  "eth_lib \<Rightarrow> (string \<Rightarrow> string + u8 list) \<Rightarrow> unresolved_mapping_abi \<Rightarrow> string + mapping_abi" where
  "resolve_abi L cat abi =
     bind_result (cat (ua_file abi)) (\<lambda>bytes.
     bind_result (contract_load L bytes) (\<lambda>contract.
     Inr \<lparr>ma_name = ua_name abi, ma_contract = contract\<rparr>))"

record unresolved_mapping =
  um_kind :: string
  um_api_version :: string
  um_language :: string
  um_entities :: "string list"
  um_abis :: "unresolved_mapping_abi list"
  um_block_handlers :: "mapping_block_handler list"
  um_call_handlers :: "mapping_call_handler list"
  um_event_handlers :: "mapping_event_handler list"
  um_file :: string

text \<open>The two futures of \<open>try_join\<close> run together; when both fail, the first error to arrive wins, here
  the one of the ABIs.\<close>

definition resolve_mapping ::
  "eth_lib \<Rightarrow> (string \<Rightarrow> string + u8 list) \<Rightarrow> unresolved_mapping \<Rightarrow> string + mapping" where
  "resolve_mapping L cat m =
     bind_result (version_parse L (um_api_version m)) (\<lambda>api_version.
     bind_result (try_map (resolve_abi L cat) (um_abis m)) (\<lambda>abis.
     bind_result (cat (um_file m)) (\<lambda>runtime.
     Inr \<lparr>mp_kind = um_kind m, mp_api_version = api_version, mp_language = um_language m,
       mp_entities = um_entities m, mp_abis = abis, mp_block_handlers = um_block_handlers m,
       mp_call_handlers = um_call_handlers m, mp_event_handlers = um_event_handlers m,
       mp_runtime = runtime, mp_link = um_file m\<rparr>)))"

section \<open>Data sources\<close>

record data_source =
  ds_kind :: string
  ds_network :: "string option"
  ds_name :: string
  ds_source :: source
  ds_mapping :: mapping
  ds_context :: "entity option"
  ds_creation_block :: "block_number option"
  ds_contract_abi :: mapping_abi

record template =
  t_kind :: string
  t_network :: "string option"
  t_name :: string
  t_abi :: string
  t_mapping :: mapping

definition as_stored_dynamic_data_source :: "eth_lib \<Rightarrow> data_source \<Rightarrow> stored_dynamic_data_source" where
  "as_stored_dynamic_data_source L ds =
     \<lparr>sd_name = ds_name ds, sd_source = ds_source ds,
      sd_context = map_option (context_to_json L) (ds_context ds),
      sd_creation_block = ds_creation_block ds\<rparr>"

definition from_stored_dynamic_data_source ::
  "eth_lib \<Rightarrow> (string \<times> template) list \<Rightarrow> stored_dynamic_data_source \<Rightarrow> string + data_source" where
  "from_stored_dynamic_data_source L templates stored =
     bind_result (ok_or (''no template named `'' @ sd_name stored @ ''` was found'')
        (map_of templates (sd_name stored))) (\<lambda>template.
     bind_result (case sd_context stored of
                    None \<Rightarrow> Inr None
                  | Some ctx \<Rightarrow> bind_result (context_from_json L ctx) (\<lambda>e. Inr (Some e))) (\<lambda>context.
     bind_result (find_abi (t_mapping template) (t_abi template)) (\<lambda>contract_abi.
     Inr \<lparr>ds_kind = t_kind template, ds_network = t_network template, ds_name = sd_name stored,
       ds_source = sd_source stored, ds_mapping = t_mapping template, ds_context = context,
       ds_creation_block = sd_creation_block stored, ds_contract_abi = contract_abi\<rparr>)))"

definition is_duplicate_of :: "data_source \<Rightarrow> data_source \<Rightarrow> bool" where
  "is_duplicate_of ds other \<longleftrightarrow>
     ds_kind ds = ds_kind other \<and> ds_network ds = ds_network other \<and> ds_name ds = ds_name other \<and>
     ds_source ds = ds_source other \<and>
     mp_abis (ds_mapping ds) = mp_abis (ds_mapping other) \<and>
     mp_event_handlers (ds_mapping ds) = mp_event_handlers (ds_mapping other) \<and>
     mp_call_handlers (ds_mapping ds) = mp_call_handlers (ds_mapping other) \<and>
     mp_block_handlers (ds_mapping ds) = mp_block_handlers (ds_mapping other) \<and>
     ds_context ds = ds_context other"

datatype ds_validation_error = SourceAddressRequired | DataSourceBlockHandlerLimitExceeded

definition ds_validate :: "data_source \<Rightarrow> ds_validation_error list" where
  "ds_validate ds =
     (let no_source_address = src_address (ds_source ds) = None;
          has_call_handlers = mp_call_handlers (ds_mapping ds) \<noteq> [];
          has_block_handlers = mp_block_handlers (ds_mapping ds) \<noteq> [];
          errors1 = (if no_source_address \<and> (has_call_handlers \<or> has_block_handlers)
                     then [SourceAddressRequired] else []);
          (non_filtered, call_filtered) =
            foldl (\<lambda>(n, c) handler. if bh_filter handler = None then (n + 1, c) else (n, c + 1))
              (0 :: nat, 0 :: nat) (mp_block_handlers (ds_mapping ds))
      in errors1 @ (if non_filtered > 1 \<or> call_filtered > 1
                    then [DataSourceBlockHandlerLimitExceeded] else []))"

definition ds_from_manifest ::
  "string \<Rightarrow> string option \<Rightarrow> string \<Rightarrow> source \<Rightarrow> mapping \<Rightarrow> entity option \<Rightarrow> string + data_source" where
  "ds_from_manifest kind network name source m context =
     bind_result (map_err (\<lambda>e. ''data source `'' @ name @ ''`: '' @ e) (find_abi m (src_abi source)))
       (\<lambda>abi. Inr \<lparr>ds_kind = kind, ds_network = network, ds_name = name, ds_source = source,
          ds_mapping = m, ds_context = context, ds_creation_block = None, ds_contract_abi = abi\<rparr>)"

definition ds_try_from_template ::
  "eth_lib \<Rightarrow> template \<Rightarrow> string list \<Rightarrow> entity option \<Rightarrow> block_number \<Rightarrow> string + data_source" where
  "ds_try_from_template L t params context creation_block =
     bind_result (case params of
        [] \<Rightarrow> Inl (''Failed to create data source from template `'' @ t_name t @ ''`: address parameter is missing'')
      | p # _ \<Rightarrow> Inr (trim_start_matches ''0x'' p)) (\<lambda>s.
     bind_result (map_err (\<lambda>e. ''Failed to create data source from template `'' @ t_name t
          @ ''`, invalid address provided: '' @ e) (address_from_str L s)) (\<lambda>addr.
     bind_result (map_err (\<lambda>e. ''template `'' @ t_name t @ ''`: '' @ e) (find_abi (t_mapping t) (t_abi t))) (\<lambda>abi.
     Inr \<lparr>ds_kind = t_kind t, ds_network = t_network t, ds_name = t_name t,
       ds_source = \<lparr>src_address = Some addr, src_abi = t_abi t, src_start_block = 0\<rparr>,
       ds_mapping = t_mapping t, ds_context = context, ds_creation_block = Some creation_block,
       ds_contract_abi = abi\<rparr>)))"

text \<open>\<open>resolve\<close> of an unresolved data source and of an unresolved template; the latter only resolves
  its mapping.\<close>

record unresolved_data_source =
  ud_kind :: string
  ud_network :: "string option"
  ud_name :: string
  ud_source :: source
  ud_mapping :: unresolved_mapping
  ud_context :: "entity option"

definition resolve_data_source ::
  "eth_lib \<Rightarrow> (string \<Rightarrow> string + u8 list) \<Rightarrow> unresolved_data_source \<Rightarrow> string + data_source" where
  "resolve_data_source L cat ud =
     bind_result (resolve_mapping L cat (ud_mapping ud)) (\<lambda>m.
       ds_from_manifest (ud_kind ud) (ud_network ud) (ud_name ud) (ud_source ud) m (ud_context ud))"

record unresolved_template =
  ut_kind :: string
  ut_network :: "string option"
  ut_name :: string
  ut_abi :: string
  ut_mapping :: unresolved_mapping

definition resolve_template ::
  "eth_lib \<Rightarrow> (string \<Rightarrow> string + u8 list) \<Rightarrow> unresolved_template \<Rightarrow> string + template" where
  "resolve_template L cat ut =
     bind_result (resolve_mapping L cat (ut_mapping ut)) (\<lambda>m.
       Inr \<lparr>t_kind = ut_kind ut, t_network = ut_network ut, t_name = ut_name ut, t_abi = ut_abi ut, t_mapping = m\<rparr>)"

section \<open>Matching triggers\<close>

definition handlers_for_log :: "eth_lib \<Rightarrow> data_source \<Rightarrow> eth_log \<Rightarrow> string + mapping_event_handler list" where
  "handlers_for_log L ds log =
     (case log_topics log of
        [] \<Rightarrow> Inl ''Ethereum event has no topics''
      | t # _ \<Rightarrow> Inr (filter (\<lambda>handler. t = topic0 L handler) (mp_event_handlers (ds_mapping ds))))"

definition method_id :: "eth_lib \<Rightarrow> string \<Rightarrow> u8 list" where
  "method_id L function = take 4 (keccak256 L (str_bytes function))"

definition handler_for_call :: "eth_lib \<Rightarrow> data_source \<Rightarrow> ethereum_call \<Rightarrow> string + mapping_call_handler option" where
  "handler_for_call L ds call =
     (if 4 \<le> length (call_input call)
      then Inr (find (\<lambda>handler. take 4 (call_input call) = method_id L (ch_function handler))
             (mp_call_handlers (ds_mapping ds)))
      else Inl ''Ethereum call has input with less than 4 bytes'')"

fun handler_for_block :: "data_source \<Rightarrow> block_trigger_type \<Rightarrow> mapping_block_handler option" where
  "handler_for_block ds Every =
     find (\<lambda>handler. bh_filter handler = None) (mp_block_handlers (ds_mapping ds))"
| "handler_for_block ds (WithCallTo address) =
     find (\<lambda>handler. bh_filter handler = Some CallFilter) (mp_block_handlers (ds_mapping ds))"

fun event_param_type_signature :: "param_type \<Rightarrow> string" where
  "event_param_type_signature PAddress = ''address''"
| "event_param_type_signature PBytes = ''bytes''"
| "event_param_type_signature (PInt sz) = ''int'' @ show_nat sz"
| "event_param_type_signature (PUint sz) = ''uint'' @ show_nat sz"
| "event_param_type_signature PBool = ''bool''"
| "event_param_type_signature PString = ''string''"
| "event_param_type_signature (PArray inner) = event_param_type_signature inner @ ''[]''"
| "event_param_type_signature (PFixedBytes sz) = ''bytes'' @ show_nat sz"
| "event_param_type_signature (PFixedArray inner sz) =
     event_param_type_signature inner @ ''['' @ show_nat sz @ '']''"
| "event_param_type_signature (PTuple components) =
     ''('' @ join_with '','' (map event_param_type_signature components) @ '')''"

definition ambiguous_event_signature :: "abi_event \<Rightarrow> string" where
  "ambiguous_event_signature event = ev_name event @ ''('' @
     join_with '','' (map (\<lambda>input. event_param_type_signature (ep_kind input)) (ev_inputs event)) @ '')''"

definition event_signature :: "abi_event \<Rightarrow> string" where
  "event_signature event = ev_name event @ ''('' @
     join_with '','' (map (\<lambda>input. (if ep_indexed input then ''indexed '' else '''') @
       event_param_type_signature (ep_kind input)) (ev_inputs event)) @ '')''"

text \<open>\<open>signature[0..signature.find('(').unwrap_or(0)]\<close>.\<close>

definition event_name_of :: "string \<Rightarrow> string" where
  "event_name_of signature =
     (if CHR ''('' \<in> set signature then takeWhile (\<lambda>c. c \<noteq> CHR ''('') signature else [])"

definition contract_event_with_signature :: "data_source \<Rightarrow> string \<Rightarrow> abi_event option" where
  "contract_event_with_signature ds signature =
     (let events = c_events (ma_contract (ds_contract_abi ds)) in
      case find (\<lambda>event. event_signature event = signature) events of
        Some event \<Rightarrow> Some event
      | None \<Rightarrow>
          (case filter (\<lambda>event. ev_name event = event_name_of signature) events of
             [event] \<Rightarrow> if ambiguous_event_signature event = signature then Some event else None
           | _ \<Rightarrow> None))"

definition function_signature :: "eth_lib \<Rightarrow> abi_function \<Rightarrow> string" where
  "function_signature L function = join_with ''('' [fn_name function,
     join_with '','' (map (\<lambda>input. param_display L (ap_kind input)) (fn_inputs function)) @ '')'']"

definition contract_function_with_signature :: "eth_lib \<Rightarrow> data_source \<Rightarrow> string \<Rightarrow> abi_function option" where
  "contract_function_with_signature L ds target_signature =
     find (\<lambda>function. target_signature = function_signature L function)
       (filter (\<lambda>function. case fn_mutability function of
            Payable \<Rightarrow> True | NonPayable \<Rightarrow> True | Pure \<Rightarrow> False | View \<Rightarrow> False)
         (c_functions (ma_contract (ds_contract_abi ds))))"

definition matches_trigger_address :: "data_source \<Rightarrow> eth_trigger \<Rightarrow> bool" where
  "matches_trigger_address ds trigger =
     (case src_address (ds_source ds) of
        None \<Rightarrow> True
      | Some ds_address \<Rightarrow>
          (case trigger of
             TBlock _ (WithCallTo address) \<Rightarrow> ds_address = address
           | TCall call \<Rightarrow> ds_address = call_to call
           | TLog log \<Rightarrow> ds_address = log_address log
           | TBlock _ Every \<Rightarrow> True))"

datatype mapping_trigger =
    MTLog light_block eth_transaction eth_log "log_param list" mapping_event_handler
  | MTCall light_block eth_transaction ethereum_call "log_param list" "log_param list" mapping_call_handler
  | MTBlock light_block mapping_block_handler

fun handler_name :: "mapping_trigger \<Rightarrow> string" where
  "handler_name (MTLog _ _ _ _ handler) = eh_handler handler"
| "handler_name (MTCall _ _ _ _ _ handler) = ch_handler handler"
| "handler_name (MTBlock _ handler) = bh_handler handler"

text \<open>The error messages of the two decoders leave out the debug form of the function and the raw
  bytes. \<open>Transaction::default()\<close>: everything zero or absent.\<close>

definition tx_default :: eth_transaction where
  "tx_default = \<lparr>tx_hash = replicate 32 0, tx_block_hash = None, tx_block_number = None,
     tx_index = None, tx_from = 0, tx_to = None, tx_value = 0, tx_gas_price = 0, tx_gas = 0, tx_input = []\<rparr>"

type_synonym match_result = "string fault + mapping_trigger option"

definition match_block :: "data_source \<Rightarrow> light_block \<Rightarrow> block_trigger_type \<Rightarrow> match_result" where
  "match_block ds block trigger_type =
     (case handler_for_block ds trigger_type of
        Some handler \<Rightarrow> Inr (Some (MTBlock block handler))
      | None \<Rightarrow> Inr None)"

definition decodable_handlers ::
  "eth_lib \<Rightarrow> eth_log \<Rightarrow> (mapping_event_handler \<times> abi_event) list
    \<Rightarrow> (mapping_event_handler \<times> log_param list) list" where
  "decodable_handlers L log valid_handlers =
     List.map_filter (\<lambda>(event_handler, event_abi).
       case parse_log L event_abi (log_topics log) (log_data log) of
         Inl e \<Rightarrow> None | Inr params \<Rightarrow> Some (event_handler, params)) valid_handlers"

definition transaction_of_log :: "light_block \<Rightarrow> eth_log \<Rightarrow> string fault + eth_transaction" where
  "transaction_of_log block log =
     (if log_transaction_hash log \<noteq> lb_hash block
      then ok_or (Raised ''Found no transaction for event'') (transaction_for_log block log)
      else bind_result (ok_or (Panicked ''unwrap'') (log_transaction_hash log)) (\<lambda>hash.
        Inr (tx_default\<lparr>tx_hash := hash, tx_block_hash := lb_hash block,
          tx_block_number := lb_number block, tx_index := log_transaction_index log\<rparr>)))"

definition event_handler_abi ::
  "data_source \<Rightarrow> mapping_event_handler \<Rightarrow> string fault + mapping_event_handler \<times> abi_event" where
  "event_handler_abi ds event_handler =
     bind_result (ok_or (Raised (''Event with the signature '' @ quoted (eh_event event_handler)
         @ '' not found in contract '' @ quoted (ma_name (ds_contract_abi ds))
         @ '' of data source '' @ quoted (ds_name ds)))
       (contract_event_with_signature ds (eh_event event_handler)))
     (\<lambda>event_abi. Inr (event_handler, event_abi))"

text \<open>The list is \<open>matching_handlers\<close>: \<open>pop\<close> takes the last element, \<open>ensure!\<close> asks that
  nothing is left.\<close>

definition pop_single ::
  "(mapping_event_handler \<times> 'p) list \<Rightarrow> string fault + (mapping_event_handler \<times> 'p) option" where
  "pop_single matching_handlers =
     (if matching_handlers = [] then Inr None
      else if butlast matching_handlers \<noteq> []
      then Inl (Raised (''Multiple handlers defined for event `'' @ eh_event (fst (last matching_handlers))
        @ ''`, only one is supported''))
      else Inr (Some (last matching_handlers)))"

definition match_log :: "eth_lib \<Rightarrow> data_source \<Rightarrow> light_block \<Rightarrow> eth_log \<Rightarrow> match_result" where
  "match_log L ds block log =
     bind_result (map_err Raised (handlers_for_log L ds log)) (\<lambda>potential_handlers.
     bind_result (try_map (event_handler_abi ds) potential_handlers) (\<lambda>valid_handlers.
     bind_result (pop_single (decodable_handlers L log valid_handlers)) (\<lambda>popped.
     case popped of
       None \<Rightarrow> Inr None
     | Some (event_handler, params) \<Rightarrow>
         bind_result (transaction_of_log block log) (\<lambda>transaction.
         Inr (Some (MTLog block transaction log params event_handler))))))"

definition named_params :: "abi_param list \<Rightarrow> token list \<Rightarrow> log_param list" where
  "named_params ps tokens = map (\<lambda>(p, t). \<lparr>lp_name = ap_name p, lp_value = t\<rparr>) (zip ps tokens)"

definition match_call :: "eth_lib \<Rightarrow> data_source \<Rightarrow> light_block \<Rightarrow> ethereum_call \<Rightarrow> match_result" where
  "match_call L ds block call =
     bind_result (map_err Raised (handler_for_call L ds call)) (\<lambda>found.
     case found of
       None \<Rightarrow> Inr None
     | Some handler \<Rightarrow>
         bind_result (ok_or (Raised (''Function with the signature '' @ quoted (ch_function handler) @ '' not found in contract ''
             @ quoted (ma_name (ds_contract_abi ds)) @ '' of data source '' @ quoted (ds_name ds)))
           (contract_function_with_signature L ds (ch_function handler))) (\<lambda>function_abi.
         bind_result (map_err (\<lambda>e. Raised (''Generating function inputs for the call failed: '' @ e))
           (decode_input L function_abi (drop 4 (call_input call)))) (\<lambda>in_tokens.
         if length in_tokens \<noteq> length (fn_inputs function_abi)
         then Inl (Raised ''Number of arguments in call does not match number of inputs in function signature.'')
         else
         bind_result (map_err (\<lambda>e. Raised (''Decoding function outputs for the call failed: '' @ e))
           (decode_output L function_abi (call_output call))) (\<lambda>out_tokens.
         if length out_tokens \<noteq> length (fn_outputs function_abi)
         then Inl (Raised ''Number of parameters in the call output does not match number of outputs in the function signature.'')
         else
         bind_result (ok_or (Raised ''Found no transaction for call'') (transaction_for_call block call)) (\<lambda>transaction.
         Inr (Some (MTCall block transaction call (named_params (fn_inputs function_abi) in_tokens)
           (named_params (fn_outputs function_abi) out_tokens) handler)))))))"

definition match_and_decode :: "eth_lib \<Rightarrow> data_source \<Rightarrow> eth_trigger \<Rightarrow> light_block \<Rightarrow> match_result" where
  "match_and_decode L ds trigger block =
     (if \<not> matches_trigger_address ds trigger then Inr None
      else
        bind_result (ok_or (Panicked ''unwrap'') (light_block_number block)) (\<lambda>number.
        if src_start_block (ds_source ds) > number then Inr None
        else case trigger of
          TBlock _ trigger_type \<Rightarrow> match_block ds block trigger_type
        | TLog log \<Rightarrow> match_log L ds block log
        | TCall call \<Rightarrow> match_call L ds block call))"

section \<open>Properties\<close>

lemma ok_or_Inr_iff: "ok_or e x = Inr y \<longleftrightarrow> x = Some y"
  by (cases x) auto

lemma map_err_Inr_iff: "map_err f r = Inr y \<longleftrightarrow> r = Inr y"
  by (cases r) auto

lemmas result_Inr = ok_or_Inr_iff map_err_Inr_iff

lemma contract_event_with_signature_sound:
  assumes "contract_event_with_signature ds sig = Some ev"
  shows "ev \<in> set (c_events (ma_contract (ds_contract_abi ds)))"
    and "event_signature ev = sig \<or> ambiguous_event_signature ev = sig"
proof -
  let ?es = "c_events (ma_contract (ds_contract_abi ds))"
  have "ev \<in> set ?es \<and> (event_signature ev = sig \<or> ambiguous_event_signature ev = sig)"
  proof (cases "find (\<lambda>event. event_signature event = sig) ?es")
    case (Some e)
    with assms have "ev = e" by (simp add: contract_event_with_signature_def)
    with Some show ?thesis by (auto simp: find_Some_iff)
  next
    case None
    then obtain rest where "filter (\<lambda>event. ev_name event = event_name_of sig) ?es = ev # rest"
      and amb: "ambiguous_event_signature ev = sig"
      using assms by (auto simp: contract_event_with_signature_def split: list.splits if_splits)
    then have "ev \<in> set (filter (\<lambda>event. ev_name event = event_name_of sig) ?es)" by simp
    with amb show ?thesis by simp
  qed
  then show "ev \<in> set ?es" "event_signature ev = sig \<or> ambiguous_event_signature ev = sig" by auto
qed

text \<open>What it means for a data source to fire on a trigger.\<close>

fun fires :: "eth_lib \<Rightarrow> data_source \<Rightarrow> light_block \<Rightarrow> eth_trigger \<Rightarrow> mapping_trigger \<Rightarrow> bool" where
  "fires L ds block (TBlock ptr ty) m \<longleftrightarrow>
     (\<exists>h \<in> set (mp_block_handlers (ds_mapping ds)).
        m = MTBlock block h \<and> bh_filter h = (case ty of Every \<Rightarrow> None | WithCallTo a \<Rightarrow> Some CallFilter))"
| "fires L ds block (TLog log) m \<longleftrightarrow>
     (\<exists>h \<in> set (mp_event_handlers (ds_mapping ds)). \<exists>ev \<in> set (c_events (ma_contract (ds_contract_abi ds))).
      \<exists>tx params.
        m = MTLog block tx log params h \<and>
        log_topics log \<noteq> [] \<and> hd (log_topics log) = topic0 L h \<and>
        (event_signature ev = eh_event h \<or> ambiguous_event_signature ev = eh_event h) \<and>
        parse_log L ev (log_topics log) (log_data log) = Inr params \<and>
        transaction_of_log block log = Inr tx)"
| "fires L ds block (TCall call) m \<longleftrightarrow>
     (\<exists>h \<in> set (mp_call_handlers (ds_mapping ds)). \<exists>f \<in> set (c_functions (ma_contract (ds_contract_abi ds))).
      \<exists>tx ins outs.
        m = MTCall block tx call (named_params (fn_inputs f) ins) (named_params (fn_outputs f) outs) h \<and>
        take 4 (call_input call) = method_id L (ch_function h) \<and>
        function_signature L f = ch_function h \<and> fn_mutability f \<in> {Payable, NonPayable} \<and>
        decode_input L f (drop 4 (call_input call)) = Inr ins \<and> length ins = length (fn_inputs f) \<and>
        decode_output L f (call_output call) = Inr outs \<and> length outs = length (fn_outputs f) \<and>
        transaction_for_call block call = Some tx)"

lemma handler_for_block_sound:
  "handler_for_block ds ty = Some h \<Longrightarrow> h \<in> set (mp_block_handlers (ds_mapping ds)) \<and>
     bh_filter h = (case ty of Every \<Rightarrow> None | WithCallTo a \<Rightarrow> Some CallFilter)"
  by (cases ty) (auto simp: find_Some_iff)

lemma match_block_fires:
  "match_block ds block ty = Inr (Some m) \<Longrightarrow> fires L ds block (TBlock ptr ty) m"
  by (auto simp: match_block_def dest: handler_for_block_sound split: option.splits)

lemma mem_map_filterD: "y \<in> set (List.map_filter f xs) \<Longrightarrow> \<exists>x \<in> set xs. f x = Some y"
  by (auto simp: List.map_filter_def)

lemma decodable_handlers_sound:
  assumes "(h, params) \<in> set (decodable_handlers L log valid)"
  obtains ev where "(h, ev) \<in> set valid" "parse_log L ev (log_topics log) (log_data log) = Inr params"
  using assms unfolding decodable_handlers_def
  by (auto dest!: mem_map_filterD split: sum.splits)

lemma event_handler_abi_sound:
  assumes "try_map (event_handler_abi ds) pot = Inr valid" and "(h, ev) \<in> set valid"
  shows "h \<in> set pot" "contract_event_with_signature ds (eh_event h) = Some ev"
proof -
  have all2: "list_all2 (\<lambda>x y. event_handler_abi ds x = Inr y) pot valid"
    using assms(1) by (simp add: try_map_Inr_iff)
  from assms(2) obtain i where i: "i < length valid" "valid ! i = (h, ev)"
    by (auto simp: in_set_conv_nth)
  then have "event_handler_abi ds (pot ! i) = Inr (h, ev)" and "i < length pot"
    using list_all2_nthD2 [OF all2 i(1)] list_all2_lengthD [OF all2] by simp_all
  then have "pot ! i = h \<and> contract_event_with_signature ds (eh_event h) = Some ev"
    by (auto simp: event_handler_abi_def bind_result_eq_Inr ok_or_Inr_iff)
  with \<open>i < length pot\<close> show "h \<in> set pot" "contract_event_with_signature ds (eh_event h) = Some ev"
    by (auto dest: nth_mem)
qed

lemma pop_single_Some_iff: "pop_single ms = Inr (Some x) \<longleftrightarrow> ms = [x]"
  by (cases ms rule: rev_cases) (auto simp: pop_single_def)

lemma handlers_for_log_sound:
  assumes "handlers_for_log L ds log = Inr pot" and "h \<in> set pot"
  shows "h \<in> set (mp_event_handlers (ds_mapping ds))" "log_topics log \<noteq> []"
    "hd (log_topics log) = topic0 L h"
  using assms by (auto simp: handlers_for_log_def split: list.splits)

lemma match_log_fires:
  assumes "match_log L ds block log = Inr (Some m)"
  shows "fires L ds block (TLog log) m"
proof -
  obtain pot valid h params tx where pot: "handlers_for_log L ds log = Inr pot"
    and valid: "try_map (event_handler_abi ds) pot = Inr valid"
    and one: "decodable_handlers L log valid = [(h, params)]"
    and tx: "transaction_of_log block log = Inr tx" and m: "m = MTLog block tx log params h"
    using assms
    by (auto simp: match_log_def bind_result_eq_Inr result_Inr pop_single_Some_iff split: option.splits)
  from one obtain ev where ev: "(h, ev) \<in> set valid"
    and parse: "parse_log L ev (log_topics log) (log_data log) = Inr params"
    by (metis decodable_handlers_sound list.set_intros(1))
  note h = event_handler_abi_sound [OF valid ev]
  show ?thesis
    using handlers_for_log_sound [OF pot h(1)] contract_event_with_signature_sound [OF h(2)] parse tx m
    by auto
qed

lemma contract_function_with_signature_sound:
  "contract_function_with_signature L ds sig = Some f \<Longrightarrow>
     f \<in> set (c_functions (ma_contract (ds_contract_abi ds))) \<and> function_signature L f = sig \<and>
     fn_mutability f \<in> {Payable, NonPayable}"
  by (cases "fn_mutability f") (auto simp: contract_function_with_signature_def dest!: find_eq_SomeD)

lemma handler_for_call_sound:
  "handler_for_call L ds call = Inr (Some h) \<Longrightarrow>
     h \<in> set (mp_call_handlers (ds_mapping ds)) \<and> take 4 (call_input call) = method_id L (ch_function h)"
  by (auto simp: handler_for_call_def find_Some_iff split: if_splits)

lemma match_call_fires:
  assumes "match_call L ds block call = Inr (Some m)"
  shows "fires L ds block (TCall call) m"
proof -
  obtain h where h: "handler_for_call L ds call = Inr (Some h)"
    using assms by (auto simp: match_call_def bind_result_eq_Inr result_Inr split: option.splits)
  obtain f where f: "contract_function_with_signature L ds (ch_function h) = Some f"
    using assms by (auto simp: match_call_def h bind_result_eq_Inr result_Inr)
  obtain ins where ins: "decode_input L f (drop 4 (call_input call)) = Inr ins" "length ins = length (fn_inputs f)"
    using assms by (auto simp: match_call_def h f bind_result_eq_Inr result_Inr split: if_splits)
  obtain outs where outs: "decode_output L f (call_output call) = Inr outs" "length outs = length (fn_outputs f)"
    using assms by (auto simp: match_call_def h f ins bind_result_eq_Inr result_Inr split: if_splits)
  obtain tx where tx: "transaction_for_call block call = Some tx"
    and m: "m = MTCall block tx call (named_params (fn_inputs f) ins) (named_params (fn_outputs f) outs) h"
    using assms by (auto simp: match_call_def h f ins outs bind_result_eq_Inr result_Inr)
  show ?thesis
    unfolding fires.simps m
    by (rule bexI [of _ h], rule bexI [of _ f], intro exI conjI refl)
       (use handler_for_call_sound [OF h] contract_function_with_signature_sound [OF f] ins outs tx
        in simp_all)
qed

lemma match_and_decode_sound:
  assumes "match_and_decode L ds trigger block = Inr (Some m)"
  shows "matches_trigger_address ds trigger \<and>
    (\<exists>n. light_block_number block = Some n \<and> src_start_block (ds_source ds) \<le> n) \<and>
    fires L ds block trigger m"
proof -
  obtain n where addr: "matches_trigger_address ds trigger" and n: "light_block_number block = Some n"
    and start: "\<not> src_start_block (ds_source ds) > n"
    using assms by (auto simp: match_and_decode_def bind_result_eq_Inr ok_or_Inr_iff split: if_splits)
  have "fires L ds block trigger m"
  proof (cases trigger)
    case (TBlock ptr ty)
    with assms addr n start have "match_block ds block ty = Inr (Some m)" by (simp add: match_and_decode_def)
    then show ?thesis unfolding TBlock by (rule match_block_fires)
  next
    case (TCall call)
    with assms addr n start have "match_call L ds block call = Inr (Some m)" by (simp add: match_and_decode_def)
    then show ?thesis unfolding TCall by (rule match_call_fires)
  next
    case (TLog log)
    with assms addr n start have "match_log L ds block log = Inr (Some m)" by (simp add: match_and_decode_def)
    then show ?thesis unfolding TLog by (rule match_log_fires)
  qed
  moreover have "src_start_block (ds_source ds) \<le> n" using start by linarith
  ultimately show ?thesis using addr n by (intro conjI exI [of _ n])
qed

text \<open>C27. A data source that decodes a trigger into a mapping trigger has the trigger's address or none,
  has started at the block, and has the handler it names: a block handler of the right kind, an
  event handler whose topic is the log's and whose event in the ABI decodes the log, or a call
  handler whose selector is the call's and whose payable or non-payable function decodes its
  arguments and results.
\<close>

theorem match_and_decode_fires:
  assumes "match_and_decode L ds trigger block = Inr (Some m)"
  shows "matches_trigger_address ds trigger \<and>
    (\<exists>n. light_block_number block = Some n \<and> src_start_block (ds_source ds) \<le> n) \<and>
    fires L ds block trigger m"
  by (rule match_and_decode_sound [OF assms])

text \<open>A sample library and data source to evaluate the definitions on: the hash pads its input, the
  decoders find no parameters, the only context is the empty one.\<close>

definition sample_lib :: eth_lib where
  "sample_lib = \<lparr>keccak256 = (\<lambda>bs. take 32 (bs @ replicate 32 0)), parse_log = (\<lambda>_ _ _. Inr []),
     decode_input = (\<lambda>_ _. Inr []), decode_output = (\<lambda>_ _. Inr []),
     param_display = event_param_type_signature, address_from_str = (\<lambda>s. Inr (of_nat (length s))),
     context_to_json = (\<lambda>_. []), context_from_json = (\<lambda>_. Inr fmempty),
     contract_load = (\<lambda>_. Inl ''EOF''), version_parse = (\<lambda>_. Inl ''EOF'')\<rparr>"

definition sample_mapping :: mapping where
  "sample_mapping = \<lparr>mp_kind = ''ethereum/events'', mp_api_version = \<lparr>v_major = 0, v_minor = 0, v_patch = 4\<rparr>,
     mp_language = ''wasm'', mp_entities = [], mp_abis = [\<lparr>ma_name = ''T'', ma_contract =
       \<lparr>c_events = [\<lparr>ev_name = ''E'', ev_inputs = []\<rparr>], c_functions = []\<rparr>\<rparr>],
     mp_block_handlers = [], mp_call_handlers = [\<lparr>ch_function = ''f()'', ch_handler = ''onF''\<rparr>],
     mp_event_handlers = [\<lparr>eh_event = ''E()'', eh_topic0 = None, eh_handler = ''onE''\<rparr>],
     mp_runtime = [], mp_link = ''/ipfs/m''\<rparr>"

definition sample_ds :: data_source where
  "sample_ds = \<lparr>ds_kind = ''ethereum'', ds_network = None, ds_name = ''T'',
     ds_source = \<lparr>src_address = Some 7, src_abi = ''T'', src_start_block = 0\<rparr>, ds_mapping = sample_mapping,
     ds_context = None, ds_creation_block = None, ds_contract_abi = hd (mp_abis sample_mapping)\<rparr>"

definition sample_event_log :: eth_log where
  "sample_event_log = \<lparr>log_address = 7, log_topics = [topic0 sample_lib (hd (mp_event_handlers sample_mapping))],
     log_data = [], log_block_hash = Some [9], log_block_number = Some 3, log_transaction_hash = Some [9],
     log_transaction_index = Some 0, log_index = Some 0\<rparr>"

definition sample_light_block :: light_block where
  "sample_light_block = \<lparr>lb_hash = Some [9], lb_parent_hash = [8], lb_number = Some 3, lb_transactions = []\<rparr>"

lemma sample_match:
  "match_and_decode sample_lib sample_ds (TLog sample_event_log) sample_light_block =
     Inr (Some (MTLog sample_light_block
       (tx_default\<lparr>tx_hash := [9], tx_block_hash := Some [9], tx_block_number := Some 3, tx_index := Some 0\<rparr>)
       sample_event_log [] (hd (mp_event_handlers sample_mapping))))"
  by code_simp

theorem match_and_decode_fires_witness:
  "\<exists>m. match_and_decode sample_lib sample_ds (TLog sample_event_log) sample_light_block = Inr (Some m) \<and>
     fires sample_lib sample_ds sample_light_block (TLog sample_event_log) m"
  using match_and_decode_fires [OF sample_match] sample_match by blast

text \<open>A dynamic data source made from a template survives being stored and loaded again, when the
  JSON form of a context can be read back.\<close>

theorem stored_data_source_roundtrip:
  assumes "ds_try_from_template L t params ctx creation_block = Inr ds"
    and "map_of templates (t_name t) = Some t"
    and "\<And>e. ctx = Some e \<Longrightarrow> context_from_json L (context_to_json L e) = Inr e"
  shows "from_stored_dynamic_data_source L templates (as_stored_dynamic_data_source L ds) = Inr ds"
  using assms
  by (cases params; cases ctx)
     (auto simp: ds_try_from_template_def from_stored_dynamic_data_source_def as_stored_dynamic_data_source_def
        bind_result_eq_Inr result_Inr)

definition sample_template :: template where
  "sample_template = \<lparr>t_kind = ''ethereum'', t_network = None, t_name = ''Pair'', t_abi = ''T'',
     t_mapping = sample_mapping\<rparr>"

theorem stored_data_source_roundtrip_witness:
  "\<exists>ds. ds_try_from_template sample_lib sample_template [''0xabc''] (Some fmempty) 12 = Inr ds \<and>
     from_stored_dynamic_data_source sample_lib [(''Pair'', sample_template)]
       (as_stored_dynamic_data_source sample_lib ds) = Inr ds"
proof -
  have "\<exists>ds. ds_try_from_template sample_lib sample_template [''0xabc''] (Some fmempty) 12 = Inr ds"
    by (simp add: ds_try_from_template_def find_abi_def sample_lib_def sample_template_def sample_mapping_def)
  then show ?thesis
    using stored_data_source_roundtrip [of sample_lib sample_template "[''0xabc'']" "Some fmempty" 12]
    by (force simp: sample_template_def sample_lib_def)
qed

lemma count_block_handlers:
  "foldl (\<lambda>(n, c) handler. if bh_filter handler = None then (n + 1, c) else (n, c + 1)) (n0, c0) hs =
     (n0 + length (filter (\<lambda>h. bh_filter h = None) hs), c0 + length (filter (\<lambda>h. bh_filter h = Some CallFilter) hs))"
proof (induction hs arbitrary: n0 c0)
  case (Cons h hs)
  have "bh_filter h = None \<or> bh_filter h = Some CallFilter"
    by (metis (full_types) block_handler_filter.exhaust not_None_eq)
  with Cons show ?case by auto
qed simp

lemma ds_validate_iff:
  "ds_validate ds = [] \<longleftrightarrow>
     ((\<exists>a. src_address (ds_source ds) = Some a) \<or>
        mp_call_handlers (ds_mapping ds) = [] \<and> mp_block_handlers (ds_mapping ds) = []) \<and>
     length (filter (\<lambda>h. bh_filter h = None) (mp_block_handlers (ds_mapping ds))) \<le> 1 \<and>
     length (filter (\<lambda>h. bh_filter h = Some CallFilter) (mp_block_handlers (ds_mapping ds))) \<le> 1"
  by (auto simp: ds_validate_def count_block_handlers Let_def)

text \<open>Validation accepts a data source exactly when it names an address or has neither call nor
  block handlers, and has at most one unfiltered and at most one call-filtered block handler.\<close>

theorem ds_validate_correct:
  "ds_validate ds = [] \<longleftrightarrow>
     ((\<exists>a. src_address (ds_source ds) = Some a) \<or>
        mp_call_handlers (ds_mapping ds) = [] \<and> mp_block_handlers (ds_mapping ds) = []) \<and>
     length (filter (\<lambda>h. bh_filter h = None) (mp_block_handlers (ds_mapping ds))) \<le> 1 \<and>
     length (filter (\<lambda>h. bh_filter h = Some CallFilter) (mp_block_handlers (ds_mapping ds))) \<le> 1"
  by (rule ds_validate_iff)



end
