(* ===== verification/Eth_Filter.thy ===== *)
theory Eth_Filter
  imports Eth_Data_Source
begin

text \<open>
  The filters a set of data sources gives for logs, calls and blocks:
  \<open>chain/ethereum/src/adapter.rs\<close>. A hash map that is iterated is an association list with distinct
  keys in its iteration order, a hash set of pairs is a list without duplicates.
\<close>

section \<open>Log filter\<close>

record eth_get_logs_filter =
  contracts :: "address list"
  event_signatures :: "h256 list"

type_synonym ethereum_log_filter = "eth_get_logs_filter list"

definition log_filters_of :: "eth_lib \<Rightarrow> data_source \<Rightarrow> ethereum_log_filter" where
  "log_filters_of L ds =
     map (\<lambda>event_sig. case src_address (ds_source ds) of
            Some contract \<Rightarrow> \<lparr>contracts = [contract], event_signatures = [event_sig]\<rparr>
          | None \<Rightarrow> \<lparr>contracts = [], event_signatures = [event_sig]\<rparr>)
       (map (topic0 L) (mp_event_handlers (ds_mapping ds)))"

definition log_from_data_sources :: "eth_lib \<Rightarrow> data_source list \<Rightarrow> ethereum_log_filter" where
  "log_from_data_sources L dss = foldl (\<lambda>this ds. this @ log_filters_of L ds) [] dss"

definition log_extend :: "ethereum_log_filter \<Rightarrow> ethereum_log_filter \<Rightarrow> ethereum_log_filter" where
  "log_extend self other = foldl (\<lambda>this filter. this @ [filter]) self other"

text \<open>What \<open>eth_getLogs\<close> returns for a filter: no contract stands for every contract, the first topic
  is one of the signatures.\<close>

definition get_logs_matches :: "eth_get_logs_filter \<Rightarrow> eth_log \<Rightarrow> bool" where
  "get_logs_matches f log \<longleftrightarrow>
     (contracts f = [] \<or> log_address log \<in> set (contracts f)) \<and>
     log_topics log \<noteq> [] \<and> hd (log_topics log) \<in> set (event_signatures f)"

section \<open>Call filter\<close>

type_synonym function_selector = "u8 list"
type_synonym ethereum_call_filter = "(address \<times> (block_number \<times> function_selector set)) list"

text \<open>\<open>None\<close> is the panic of the slice \<open>input[..4]\<close>.\<close>

definition call_matches :: "ethereum_call_filter \<Rightarrow> ethereum_call \<Rightarrow> bool option" where
  "call_matches f call =
     (case map_of f (call_to call) of
        None \<Rightarrow> Some False
      | Some (start_block, sigs) \<Rightarrow>
          if sigs = {} then Some True
          else if length (call_input call) < 4 then None
          else Some (take 4 (call_input call) \<in> sigs))"

definition call_filter_insert ::
  "ethereum_call_filter \<Rightarrow> block_number \<times> address \<times> function_selector \<Rightarrow> ethereum_call_filter" where
  "call_filter_insert lookup item = (case item of (start_block, address, selector) \<Rightarrow>
     al_upsert address (\<lambda>old.
       let (b, sigs) = (case old of None \<Rightarrow> (start_block, {}) | Some x \<Rightarrow> x)
       in (if b > start_block then start_block else b, insert selector sigs)) lookup)"

definition call_from_iter :: "(block_number \<times> address \<times> function_selector) list \<Rightarrow> ethereum_call_filter" where
  "call_from_iter items = foldl call_filter_insert [] items"

definition call_items_of :: "eth_lib \<Rightarrow> data_source \<Rightarrow> (block_number \<times> address \<times> function_selector) list" where
  "call_items_of L ds =
     (case src_address (ds_source ds) of
        None \<Rightarrow> []
      | Some contract_addr \<Rightarrow>
          map (\<lambda>call_handler. (src_start_block (ds_source ds), contract_addr, method_id L (ch_function call_handler)))
            (mp_call_handlers (ds_mapping ds)))"

definition call_from_data_sources :: "eth_lib \<Rightarrow> data_source list \<Rightarrow> ethereum_call_filter" where
  "call_from_data_sources L dss = call_from_iter (concat (map (call_items_of L) dss))"

definition call_extend :: "ethereum_call_filter \<Rightarrow> ethereum_call_filter \<Rightarrow> ethereum_call_filter" where
  "call_extend self other =
     foldl (\<lambda>this (address, proposed_start_block, new_sigs).
       al_upsert address (\<lambda>old. case old of
           Some (existing_start_block, existing_sigs) \<Rightarrow>
             (min proposed_start_block existing_start_block, existing_sigs \<union> new_sigs)
         | None \<Rightarrow> (proposed_start_block, new_sigs)) this) self other"

section \<open>Block filter\<close>

record ethereum_block_filter =
  contract_addresses :: "(block_number \<times> address) list"
  trigger_every_block :: bool

definition block_filter_default :: ethereum_block_filter where
  "block_filter_default = \<lparr>contract_addresses = [], trigger_every_block = False\<rparr>"

definition set_insert :: "'a \<Rightarrow> 'a list \<Rightarrow> 'a list" where
  "set_insert x xs = (if x \<in> set xs then xs else xs @ [x])"

definition extend_address ::
  "(block_number \<times> address) list \<Rightarrow> (block_number \<times> address) list \<Rightarrow> block_number \<times> address \<Rightarrow> (block_number \<times> address) list" where
  "extend_address others addresses item = (case item of (start_block, address) \<Rightarrow>
     (case find (\<lambda>(_, other_address). address = other_address) others of
        Some (other_start_block, address) \<Rightarrow> set_insert (min other_start_block start_block, address) addresses
      | None \<Rightarrow> set_insert (start_block, address) addresses))"

definition block_extend :: "ethereum_block_filter \<Rightarrow> ethereum_block_filter \<Rightarrow> ethereum_block_filter" where
  "block_extend self other =
     \<lparr>contract_addresses = foldl (extend_address (contract_addresses other)) [] (contract_addresses self),
      trigger_every_block = trigger_every_block self \<or> trigger_every_block other\<rparr>"

definition block_filter_of :: "data_source \<Rightarrow> ethereum_block_filter" where
  "block_filter_of ds =
     \<lparr>contract_addresses =
        (if list_ex (\<lambda>h. bh_filter h = Some CallFilter) (mp_block_handlers (ds_mapping ds))
         then (case src_address (ds_source ds) of Some address \<Rightarrow> [(src_start_block (ds_source ds), address)] | None \<Rightarrow> [])
         else []),
      trigger_every_block = list_ex (\<lambda>h. bh_filter h = None) (mp_block_handlers (ds_mapping ds))\<rparr>"

definition block_from_data_sources :: "data_source list \<Rightarrow> ethereum_block_filter" where
  "block_from_data_sources dss =
     foldl (\<lambda>filter_opt ds. block_extend filter_opt (block_filter_of ds)) block_filter_default
       (filter (\<lambda>ds. src_address (ds_source ds) \<noteq> None) dss)"

text \<open>\<open>From<EthereumBlockFilter> for EthereumCallFilter\<close>: collecting into a hash map keeps the last
  entry of an address.\<close>

definition call_filter_from_block :: "ethereum_block_filter \<Rightarrow> ethereum_call_filter" where
  "call_filter_from_block f =
     foldl (\<lambda>m (start_block, address). al_upsert address (\<lambda>_. (start_block, {})) m) [] (contract_addresses f)"

section \<open>Trigger filter\<close>

record trigger_filter =
  tf_log :: ethereum_log_filter
  tf_call :: ethereum_call_filter
  tf_block :: ethereum_block_filter

definition trigger_filter_default :: trigger_filter where
  "trigger_filter_default = \<lparr>tf_log = [], tf_call = [], tf_block = block_filter_default\<rparr>"

definition trigger_filter_extend :: "eth_lib \<Rightarrow> trigger_filter \<Rightarrow> data_source list \<Rightarrow> trigger_filter" where
  "trigger_filter_extend L f dss =
     \<lparr>tf_log = log_extend (tf_log f) (log_from_data_sources L dss),
      tf_call = call_extend (tf_call f) (call_from_data_sources L dss),
      tf_block = block_extend (tf_block f) (block_from_data_sources dss)\<rparr>"

definition trigger_filter_from_data_sources :: "eth_lib \<Rightarrow> data_source list \<Rightarrow> trigger_filter" where
  "trigger_filter_from_data_sources L dss = trigger_filter_extend L trigger_filter_default dss"

section \<open>Properties\<close>

lemma log_from_data_sources_concat: "log_from_data_sources L dss = concat (map (log_filters_of L) dss)"
proof -
  have "foldl (\<lambda>this ds. this @ log_filters_of L ds) acc dss = acc @ concat (map (log_filters_of L) dss)" for acc
    by (induction dss arbitrary: acc) auto
  then show ?thesis by (simp add: log_from_data_sources_def)
qed

lemma log_extend_append: "log_extend self other = self @ other"
  unfolding log_extend_def by (induction other arbitrary: self) auto

text \<open>The entry of an address under several insertions: the least start block and all selectors.\<close>

type_synonym call_entry = "(block_number \<times> function_selector set) option"

fun join_entry :: "call_entry \<Rightarrow> call_entry \<Rightarrow> call_entry" where
  "join_entry None e = e"
| "join_entry e None = e"
| "join_entry (Some (b, s)) (Some (b', s')) = Some (min b b', s \<union> s')"

lemma join_entry_None [simp]: "join_entry e None = e"
  by (cases e) auto

lemma join_entry_assoc: "join_entry (join_entry a b) c = join_entry a (join_entry b c)"
  by (cases a; cases b; cases c) (auto simp: min.assoc Un_assoc)

lemma join_entry_commute: "join_entry a b = join_entry b a"
  by (cases a; cases b) (auto simp: min.commute Un_commute)

fun item_entry :: "block_number \<times> address \<times> function_selector \<Rightarrow> address \<Rightarrow> call_entry" where
  "item_entry (b, addr, sel) a = (if addr = a then Some (b, {sel}) else None)"

definition items_entry :: "(block_number \<times> address \<times> function_selector) list \<Rightarrow> address \<Rightarrow> call_entry" where
  "items_entry items a = foldr (\<lambda>i e. join_entry (item_entry i a) e) items None"

lemma items_entry_simps [simp]:
  "items_entry [] a = None"
  "items_entry (i # items) a = join_entry (item_entry i a) (items_entry items a)"
  by (simp_all add: items_entry_def)

lemma items_entry_append: "items_entry (xs @ ys) a = join_entry (items_entry xs a) (items_entry ys a)"
  by (induction xs) (auto simp: join_entry_assoc)

lemma call_filter_insert_entry:
  "map_of (call_filter_insert m i) a = join_entry (map_of m a) (item_entry i a)"
  by (cases i; cases "map_of m (fst (snd i))")
     (auto simp: call_filter_insert_def min_def Let_def split: prod.splits)

lemma call_from_iter_entry: "map_of (call_from_iter items) a = items_entry items a"
proof -
  have "map_of (foldl call_filter_insert m items) a = join_entry (map_of m a) (items_entry items a)" for m
    by (induction items arbitrary: m) (auto simp: call_filter_insert_entry join_entry_assoc)
  then show ?thesis by (simp add: call_from_iter_def)
qed

lemma call_from_iter_distinct: "distinct (map fst (call_from_iter items))"
proof -
  have "distinct (map fst m) \<Longrightarrow> distinct (map fst (foldl call_filter_insert m items))" for m
    by (induction items arbitrary: m) (auto simp: call_filter_insert_def split: prod.splits)
  then show ?thesis by (simp add: call_from_iter_def)
qed

lemma call_extend_entry:
  assumes "distinct (map fst other)"
  shows "map_of (call_extend self other) a = join_entry (map_of self a) (map_of other a)"
  using assms
proof (induction other arbitrary: self)
  case (Cons x other)
  obtain addr b s where x: "x = (addr, b, s)" by (cases x) auto
  let ?self = "al_upsert addr (\<lambda>old. case old of
      Some (b', s') \<Rightarrow> (min b b', s' \<union> s) | None \<Rightarrow> (b, s)) self"
  have "map_of (call_extend self (x # other)) a = join_entry (map_of ?self a) (map_of other a)"
    using Cons.IH [of ?self] Cons.prems by (simp add: call_extend_def x)
  also have "\<dots> = join_entry (map_of self a) (map_of (x # other) a)"
  proof (cases "addr = a")
    case True
    with Cons.prems have "map_of other a = None" by (simp add: x map_of_eq_None_iff)
    with True show ?thesis by (auto simp: x min.commute split: option.splits)
  qed (simp add: x)
  finally show ?case .
qed (simp add: call_extend_def)

lemma items_entry_None_iff: "items_entry items a = None \<longleftrightarrow> (\<forall>(b, addr, sel) \<in> set items. addr \<noteq> a)"
proof (induction items)
  case (Cons i items)
  then show ?case by (cases i; cases "items_entry items a") auto
qed simp

lemma items_entry_selectors:
  "items_entry items a = Some (b, sels) \<Longrightarrow> sels = {sel. \<exists>b'. (b', a, sel) \<in> set items} \<and> sels \<noteq> {}"
proof (induction items arbitrary: b sels)
  case (Cons i items)
  obtain b0 addr sel where i: "i = (b0, addr, sel)" by (cases i) auto
  show ?case
  proof (cases "items_entry items a")
    case None
    then have "(b', a, s) \<notin> set items" for b' s by (auto simp: items_entry_None_iff)
    with Cons.prems None show ?thesis by (auto simp: i split: if_splits)
  next
    case (Some e)
    obtain b1 sels1 where e: "e = (b1, sels1)" by (cases e) auto
    have "sels1 = {sel. \<exists>b'. (b', a, sel) \<in> set items} \<and> sels1 \<noteq> {}"
      by (rule Cons.IH) (simp add: Some e)
    with Cons.prems Some e show ?thesis by (auto simp: i split: if_splits)
  qed
qed simp

lemma items_entry_start:
  "items_entry items a = Some (b, sels) \<Longrightarrow> (b', a, sel) \<in> set items \<Longrightarrow> b \<le> b'"
proof (induction items arbitrary: b sels)
  case (Cons i items)
  obtain b0 addr s0 where i: "i = (b0, addr, s0)" by (cases i) auto
  show ?case
  proof (cases "items_entry items a")
    case None
    then have "(b', a, sel) \<notin> set items" by (auto simp: items_entry_None_iff)
    with Cons.prems None show ?thesis by (auto simp: i split: if_splits)
  next
    case (Some e)
    obtain b1 s1 where e: "e = (b1, s1)" by (cases e) auto
    then have "(b', a, sel) \<in> set items \<Longrightarrow> b1 \<le> b'" using Cons.IH Some by blast
    with Cons.prems Some e show ?thesis by (auto simp: i split: if_splits)
  qed
qed simp

lemma items_entry_mem:
  assumes "(b', a, sel) \<in> set items"
  obtains b sels where "items_entry items a = Some (b, sels)" "b \<le> b'"
proof (cases "items_entry items a")
  case None
  with assms show thesis by (auto simp: items_entry_None_iff)
next
  case (Some e)
  with assms items_entry_start [of items a] show thesis by (cases e) (auto intro: that)
qed

lemma mem_call_items_of:
  "(b, a, sel) \<in> set (call_items_of L ds) \<longleftrightarrow>
     src_address (ds_source ds) = Some a \<and> src_start_block (ds_source ds) = b \<and>
       (\<exists>h \<in> set (mp_call_handlers (ds_mapping ds)). method_id L (ch_function h) = sel)"
  by (cases "src_address (ds_source ds)") (auto simp: call_items_of_def)

lemma mem_call_items:
  "(b, a, sel) \<in> set (concat (map (call_items_of L) dss)) \<longleftrightarrow>
     (\<exists>ds \<in> set dss. src_address (ds_source ds) = Some a \<and> src_start_block (ds_source ds) = b \<and>
        (\<exists>h \<in> set (mp_call_handlers (ds_mapping ds)). method_id L (ch_function h) = sel))"
  by (auto simp: mem_call_items_of)

lemma handler_for_call_exists:
  assumes "4 \<le> length (call_input call)"
  shows "(\<exists>h. handler_for_call L ds call = Inr (Some h)) \<longleftrightarrow>
    (\<exists>h \<in> set (mp_call_handlers (ds_mapping ds)). method_id L (ch_function h) = take 4 (call_input call))"
proof -
  have "(\<exists>h. find P xs = Some h) \<longleftrightarrow> (\<exists>x \<in> set xs. P x)" for P and xs :: "mapping_call_handler list"
    using find_eq_None [of P xs] by (cases "find P xs") auto
  then show ?thesis using assms by (simp add: handler_for_call_def eq_commute)
qed

lemma call_from_data_sources_distinct: "distinct (map fst (call_from_data_sources L dss))"
  by (simp add: call_from_data_sources_def call_from_iter_distinct)

lemma call_extend_default: "map_of (call_extend [] f) = map_of f" if "distinct (map fst f)"
  using call_extend_entry [OF that, of "[]"] by (simp add: fun_eq_iff)

lemma call_matches_items:
  assumes entry: "map_of f (call_to call) = items_entry items (call_to call)"
    and len: "4 \<le> length (call_input call)"
  shows "call_matches f call = Some (\<exists>b. (b, call_to call, take 4 (call_input call)) \<in> set items)"
proof (cases "items_entry items (call_to call)")
  case None
  then have "(b, call_to call, sel) \<notin> set items" for b sel by (auto simp: items_entry_None_iff)
  with None entry show ?thesis by (simp add: call_matches_def)
next
  case (Some e)
  obtain b sels where e: "e = (b, sels)" by (cases e) auto
  have sels: "sels = {sel. \<exists>b'. (b', call_to call, sel) \<in> set items}" "sels \<noteq> {}"
    using items_entry_selectors [of items "call_to call" b sels] Some e by blast+
  have "call_matches f call = Some (take 4 (call_input call) \<in> sels)"
    using Some e entry len sels(2) by (simp add: call_matches_def)
  then show ?thesis by (simp add: sels(1))
qed

lemma call_filter_iff:
  assumes "4 \<le> length (call_input call)"
  shows "call_matches (tf_call (trigger_filter_from_data_sources L dss)) call =
    Some (\<exists>ds \<in> set dss. src_address (ds_source ds) = Some (call_to call) \<and>
      (\<exists>h. handler_for_call L ds call = Inr (Some h)))"
proof -
  let ?items = "concat (map (call_items_of L) dss)"
  let ?wanted = "\<exists>b. (b, call_to call, take 4 (call_input call)) \<in> set ?items"
  have entry: "map_of (tf_call (trigger_filter_from_data_sources L dss)) (call_to call) =
      items_entry ?items (call_to call)"
    by (simp add: trigger_filter_from_data_sources_def trigger_filter_extend_def trigger_filter_default_def
        call_extend_default call_from_data_sources_distinct)
       (simp add: call_from_data_sources_def call_from_iter_entry)
  have "call_matches (tf_call (trigger_filter_from_data_sources L dss)) call = Some ?wanted"
    by (rule call_matches_items [OF entry assms])
  also have "?wanted \<longleftrightarrow> (\<exists>ds \<in> set dss. src_address (ds_source ds) = Some (call_to call) \<and>
      (\<exists>h. handler_for_call L ds call = Inr (Some h)))"
    unfolding mem_call_items handler_for_call_exists [OF assms] by blast
  finally show ?thesis .
qed

text \<open>An address in the call filter has started no later than each of its data sources.\<close>

lemma call_filter_start:
  assumes "ds \<in> set dss" "src_address (ds_source ds) = Some a" "h \<in> set (mp_call_handlers (ds_mapping ds))"
  obtains b sels where "(a, b, sels) \<in> set (tf_call (trigger_filter_from_data_sources L dss))"
    "b \<le> src_start_block (ds_source ds)"
proof -
  let ?items = "concat (map (call_items_of L) dss)"
  let ?f = "tf_call (trigger_filter_from_data_sources L dss)"
  have item: "(src_start_block (ds_source ds), a, method_id L (ch_function h)) \<in> set ?items"
    using assms unfolding mem_call_items by blast
  obtain b sels where entry: "items_entry ?items a = Some (b, sels)" "b \<le> src_start_block (ds_source ds)"
    by (rule items_entry_mem [OF item])
  moreover have "map_of ?f a = items_entry ?items a"
    by (simp add: trigger_filter_from_data_sources_def trigger_filter_extend_def trigger_filter_default_def
        call_extend_default call_from_data_sources_distinct)
       (simp add: call_from_data_sources_def call_from_iter_entry)
  ultimately have "(a, b, sels) \<in> set ?f" by (simp only: map_of_SomeD)
  from this entry(2) show thesis by (rule that)
qed

text \<open>C28. The call filter of a set of data sources keeps a call with a method selector exactly when
  one of the data sources is at the called address and has a handler for the call, so no call a data
  source would handle is dropped and no other call is kept.\<close>

theorem call_filter_exact:
  assumes "4 \<le> length (call_input call)"
  shows "call_matches (tf_call (trigger_filter_from_data_sources L dss)) call =
    Some (\<exists>ds \<in> set dss. src_address (ds_source ds) = Some (call_to call) \<and>
      (\<exists>h. handler_for_call L ds call = Inr (Some h)))"
  by (rule call_filter_iff [OF assms])

theorem call_filter_exact_witness:
  "call_matches (tf_call (trigger_filter_from_data_sources sample_lib [sample_ds]))
     ((sample_call 0)\<lparr>call_to := 7, call_input := str_bytes ''f()'' @ [0, 0]\<rparr>) = Some True"
proof -
  let ?call = "(sample_call 0)\<lparr>call_to := 7, call_input := str_bytes ''f()'' @ [0, 0]\<rparr>"
  have "4 \<le> length (call_input ?call)" by (simp add: str_bytes_def)
  moreover have "handler_for_call sample_lib sample_ds ?call = Inr (Some (hd (mp_call_handlers sample_mapping)))"
    by code_simp
  ultimately show ?thesis
    using call_filter_exact [of ?call sample_lib "[sample_ds]"] by (simp add: sample_ds_def)
qed

lemma log_filter_iff:
  "(\<exists>f \<in> set (tf_log (trigger_filter_from_data_sources L dss)). get_logs_matches f log) \<longleftrightarrow>
   (\<exists>ds \<in> set dss. matches_trigger_address ds (TLog log) \<and>
      (\<exists>h hs. handlers_for_log L ds log = Inr (h # hs)))"
proof -
  have one: "(\<exists>f \<in> set (log_filters_of L ds). get_logs_matches f log) \<longleftrightarrow>
      matches_trigger_address ds (TLog log) \<and> (\<exists>h hs. handlers_for_log L ds log = Inr (h # hs))" for ds
  proof (cases "log_topics log")
    case Nil
    then show ?thesis by (auto simp: handlers_for_log_def get_logs_matches_def)
  next
    case (Cons t ts)
    have "(\<exists>h hs. filter P xs = h # hs) \<longleftrightarrow> (\<exists>x \<in> set xs. P x)" for P and xs :: "mapping_event_handler list"
      by (metis empty_filter_conv list.exhaust list.distinct(1))
    with Cons show ?thesis
      by (cases "src_address (ds_source ds)")
         (auto simp: handlers_for_log_def log_filters_of_def get_logs_matches_def matches_trigger_address_def)
  qed
  show ?thesis
    using one
    by (auto simp: trigger_filter_from_data_sources_def trigger_filter_extend_def trigger_filter_default_def
        log_extend_append log_from_data_sources_concat)
qed

text \<open>The log filter of a set of data sources asks for a log exactly when one of them has its
  address, or none, and an event handler for its first topic.\<close>

theorem log_filter_exact:
  "(\<exists>f \<in> set (tf_log (trigger_filter_from_data_sources L dss)). get_logs_matches f log) \<longleftrightarrow>
   (\<exists>ds \<in> set dss. matches_trigger_address ds (TLog log) \<and>
      (\<exists>h hs. handlers_for_log L ds log = Inr (h # hs)))"
  by (rule log_filter_iff)

lemma extend_address_snd: "snd ` set (extend_address others acc x) = insert (snd x) (snd ` set acc)"
  by (cases x) (auto simp: extend_address_def set_insert_def dest!: find_eq_SomeD split: option.splits intro: rev_image_eqI)

lemma block_extend_addresses:
  "snd ` set (contract_addresses (block_extend self other)) = snd ` set (contract_addresses self)"
proof -
  have "snd ` set (foldl (extend_address others) acc xs) = snd ` set acc \<union> snd ` set xs" for others acc xs
    by (induction xs arbitrary: acc) (simp_all add: extend_address_snd)
  from this [of _ "[]"] show ?thesis by (simp add: block_extend_def)
qed

lemma block_extend_none [simp]:
  "contract_addresses (block_extend self other) = [] \<longleftrightarrow> contract_addresses self = []"
  using block_extend_addresses [of self other] by (metis image_is_empty set_empty)

lemma block_extend_every [simp]:
  "trigger_every_block (block_extend self other) \<longleftrightarrow> trigger_every_block self \<or> trigger_every_block other"
  by (simp add: block_extend_def)

lemma trigger_every_block_filter_of [simp]:
  "trigger_every_block (block_filter_of ds) \<longleftrightarrow> (\<exists>h \<in> set (mp_block_handlers (ds_mapping ds)). bh_filter h = None)"
  by (simp add: block_filter_of_def list_ex_iff)

lemma fold_block_extend:
  "contract_addresses (foldl (\<lambda>f ds. block_extend f (block_filter_of ds)) f0 dss) = [] \<longleftrightarrow> contract_addresses f0 = []"
  "trigger_every_block (foldl (\<lambda>f ds. block_extend f (block_filter_of ds)) f0 dss) \<longleftrightarrow>
     trigger_every_block f0 \<or> (\<exists>ds \<in> set dss. trigger_every_block (block_filter_of ds))"
  by (induction dss arbitrary: f0) auto

lemma block_filter_every:
  "contract_addresses (tf_block (trigger_filter_from_data_sources L dss)) = []"
  "trigger_every_block (tf_block (trigger_filter_from_data_sources L dss)) \<longleftrightarrow>
     (\<exists>ds \<in> set dss. src_address (ds_source ds) \<noteq> None \<and>
       (\<exists>h \<in> set (mp_block_handlers (ds_mapping ds)). bh_filter h = None))"
  by (auto simp: trigger_filter_from_data_sources_def trigger_filter_extend_def trigger_filter_default_def
      block_filter_default_def block_from_data_sources_def fold_block_extend)

text \<open>C29. The block filter built from data sources never contains a contract address, whatever
  call-filtered block handlers they have: extending a filter only keeps the addresses it already
  had, and it starts empty. Only the unfiltered handlers of data sources with an address count.\<close>

theorem block_filter_drops_call_handlers:
  "contract_addresses (tf_block (trigger_filter_from_data_sources L dss)) = [] \<and>
   (trigger_every_block (tf_block (trigger_filter_from_data_sources L dss)) \<longleftrightarrow>
     (\<exists>ds \<in> set dss. src_address (ds_source ds) \<noteq> None \<and>
       (\<exists>h \<in> set (mp_block_handlers (ds_mapping ds)). bh_filter h = None)))"
  by (simp only: block_filter_every)

lemma block_filter_eqI:
  "contract_addresses f = [] \<Longrightarrow> contract_addresses g = [] \<Longrightarrow>
     trigger_every_block f = trigger_every_block g \<Longrightarrow> f = (g :: ethereum_block_filter)"
  by simp

text \<open>Extending the filter of some data sources with further ones, as a block that creates
  dynamic data sources does, gives the filter of all of them.\<close>

theorem trigger_filter_extend_incremental:
  "let f = trigger_filter_extend L (trigger_filter_from_data_sources L xs) ys;
       g = trigger_filter_from_data_sources L (xs @ ys)
   in tf_log f = tf_log g \<and> map_of (tf_call f) = map_of (tf_call g) \<and> tf_block f = tf_block g"
  unfolding Let_def trigger_filter_from_data_sources_def trigger_filter_extend_def trigger_filter_default_def
    trigger_filter.simps
proof (intro conjI)
  show "log_extend (log_extend [] (log_from_data_sources L xs)) (log_from_data_sources L ys) =
      log_extend [] (log_from_data_sources L (xs @ ys))"
    by (simp add: log_extend_append log_from_data_sources_concat)
  have "map_of (call_from_data_sources L dss) a = items_entry (concat (map (call_items_of L) dss)) a" for dss a
    by (simp add: call_from_data_sources_def call_from_iter_entry)
  then show "map_of (call_extend (call_extend [] (call_from_data_sources L xs)) (call_from_data_sources L ys)) =
      map_of (call_extend [] (call_from_data_sources L (xs @ ys)))"
    by (simp add: fun_eq_iff call_extend_entry call_from_data_sources_distinct items_entry_append)
  show "block_extend (block_extend block_filter_default (block_from_data_sources xs)) (block_from_data_sources ys) =
      block_extend block_filter_default (block_from_data_sources (xs @ ys))"
    by (rule block_filter_eqI) (auto simp: block_filter_default_def block_from_data_sources_def fold_block_extend)
qed

end
