(* ===== verification/Retry.thy ===== *)
theory Retry
  imports Prelude
begin

text \<open>
  The retry helper for asynchronous operations: \<open>massbit/src/util/futures.rs\<close>. An operation is the
  function that gives the outcome of its \<open>k\<close>-th attempt. \<open>None\<close> is a retry loop that never ends; the
  loop of the \<open>tokio_retry\<close> crate repeats a failing action after each delay of its strategy and
  gives up when the strategy has none left.
\<close>

section \<open>Configuration\<close>

datatype 'v retry_config_property = Set 'v | Clear | Unknown

text \<open>\<open>None\<close> is the panic of a property that is configured twice or never.\<close>

fun property_set :: "'v retry_config_property \<Rightarrow> 'v \<Rightarrow> 'v retry_config_property option" where
  "property_set Unknown v = Some (Set v)"
| "property_set _ v = None"

fun property_clear :: "'v retry_config_property \<Rightarrow> 'v retry_config_property option" where
  "property_clear Unknown = Some Clear"
| "property_clear _ = None"

fun property_unwrap :: "'v retry_config_property \<Rightarrow> 'v option option" where
  "property_unwrap (Set v) = Some (Some v)"
| "property_unwrap Clear = Some None"
| "property_unwrap Unknown = None"

datatype ('i, 'e) retry_if = OnError | Predicate "'e + 'i \<Rightarrow> bool"

fun retry_check :: "('i, 'e) retry_if \<Rightarrow> 'e + 'i \<Rightarrow> bool" where
  "retry_check OnError result = (\<not> is_ok result)"
| "retry_check (Predicate pred) result = pred result"

record ('i, 'e) retry_config =
  rc_condition :: "('i, 'e) retry_if"
  rc_log_after :: nat
  rc_warn_after :: nat
  rc_limit :: "nat retry_config_property"

definition retry :: "('i, 'e) retry_config" where
  "retry = \<lparr>rc_condition = OnError, rc_log_after = 1, rc_warn_after = 10, rc_limit = Unknown\<rparr>"

definition retry_when :: "('e + 'i \<Rightarrow> bool) \<Rightarrow> ('i, 'e) retry_config \<Rightarrow> ('i, 'e) retry_config" where
  "retry_when predicate c = c\<lparr>rc_condition := Predicate predicate\<rparr>"

definition retry_limit :: "nat \<Rightarrow> ('i, 'e) retry_config \<Rightarrow> ('i, 'e) retry_config option" where
  "retry_limit n c = map_option (\<lambda>p. c\<lparr>rc_limit := p\<rparr>) (property_set (rc_limit c) n)"

definition retry_no_limit :: "('i, 'e) retry_config \<Rightarrow> ('i, 'e) retry_config option" where
  "retry_no_limit c = map_option (\<lambda>p. c\<lparr>rc_limit := p\<rparr>) (property_clear (rc_limit c))"

section \<open>The loop\<close>

datatype 'e timeout_error = Inner 'e | Elapsed

fun is_elapsed :: "'e timeout_error \<Rightarrow> bool" where
  "is_elapsed (Inner _) = False"
| "is_elapsed Elapsed = True"

fun into_inner :: "'e timeout_error \<Rightarrow> 'e option" where
  "into_inner (Inner x) = Some x"
| "into_inner Elapsed = None"

text \<open>The outer \<open>Inl\<close> asks for a retry, the outer \<open>Inr\<close> prevents it.\<close>

fun retry_outcome ::
  "('i, 'e) retry_if \<Rightarrow> 'e timeout_error + 'i \<Rightarrow> ('e timeout_error + 'i) + ('e timeout_error + 'i)" where
  "retry_outcome condition (Inl Elapsed) = Inl (Inl Elapsed)"
| "retry_outcome condition (Inl (Inner e)) =
     (if retry_check condition (Inl e) then Inl (Inl (Inner e)) else Inr (Inl (Inner e)))"
| "retry_outcome condition (Inr x) =
     (if retry_check condition (Inr x) then Inl (Inr x) else Inr (Inr x))"

text \<open>The number of delays of the strategy, and the delay before the \<open>k\<close>-th retry in milliseconds
  without jitter. \<open>limit - 1\<close> panics for a limit of zero: the outer \<open>None\<close>.\<close>

fun strategy_length :: "nat option \<Rightarrow> nat option option" where
  "strategy_length (Some limit) = (if limit = 0 then None else Some (Some (limit - 1)))"
| "strategy_length None = Some None"

definition backoff_delay :: "nat \<Rightarrow> nat" where
  "backoff_delay k = min (2 ^ (k + 1)) 30000"

partial_function (option) spawn_loop :: "(nat \<Rightarrow> 'r + 'r) \<Rightarrow> nat option \<Rightarrow> nat \<Rightarrow> ('r \<times> nat) option" where
  "spawn_loop action delays k =
     (case action k of
        Inr r \<Rightarrow> Some (r, k + 1)
      | Inl e \<Rightarrow>
          (case delays of
             None \<Rightarrow> spawn_loop action None (k + 1)
           | Some n \<Rightarrow> if n = 0 then Some (e, k + 1) else spawn_loop action (Some (n - 1)) (k + 1)))"

declare spawn_loop.simps [code]

text \<open>\<open>run_retry\<close> for a limit property: the result and the number of attempts made. The outer \<open>Inl\<close>
  is a panic.\<close>

definition run_retry ::
  "('i, 'e) retry_if \<Rightarrow> nat option \<Rightarrow> (nat \<Rightarrow> 'e timeout_error + 'i) \<Rightarrow>
     string + (('e timeout_error + 'i) \<times> nat) option" where
  "run_retry condition limit_opt attempts =
     (case strategy_length limit_opt of
        None \<Rightarrow> Inl ''attempt to subtract with overflow''
      | Some delays \<Rightarrow> Inr (spawn_loop (\<lambda>k. retry_outcome condition (attempts k)) delays 0))"

definition run_with_timeout ::
  "('i, 'e) retry_config \<Rightarrow> (nat \<Rightarrow> 'e timeout_error + 'i) \<Rightarrow> string + (('e timeout_error + 'i) \<times> nat) option" where
  "run_with_timeout c attempts =
     (case property_unwrap (rc_limit c) of
        None \<Rightarrow> Inl ''Retry helper must have limit parameter configured''
      | Some limit_opt \<Rightarrow> run_retry (rc_condition c) limit_opt attempts)"

text \<open>Without a timeout every error is an inner error; the inner option is the panic of the \<open>unwrap\<close>.\<close>

definition run_no_timeout ::
  "('i, 'e) retry_config \<Rightarrow> (nat \<Rightarrow> 'e + 'i) \<Rightarrow> string + (('e + 'i) option \<times> nat) option" where
  "run_no_timeout c attempts =
     (case run_with_timeout c (\<lambda>k. map_err Inner (attempts k)) of
        Inl p \<Rightarrow> Inl p
      | Inr None \<Rightarrow> Inr None
      | Inr (Some (r, n)) \<Rightarrow>
          Inr (Some (case r of Inl e \<Rightarrow> map_option Inl (into_inner e) | Inr x \<Rightarrow> Some (Inr x), n)))"

section \<open>Properties\<close>

lemma spawn_loop_limited:
  obtains m where "m \<le> n" "\<forall>j < m. \<exists>e. action (k + j) = Inl e"
    "spawn_loop action (Some n) k = Some (case action (k + m) of Inl e \<Rightarrow> e | Inr r \<Rightarrow> r, k + m + 1)"
    "m = n \<or> (\<exists>r. action (k + m) = Inr r)"
proof (induction n arbitrary: k thesis)
  case 0
  show ?case
    by (rule 0 [of 0]) (simp_all add: spawn_loop.simps [of action "Some 0" k] split: sum.splits)
next
  case (Suc n)
  show ?case
  proof (cases "action k")
    case (Inr r)
    then show ?thesis
      by (intro Suc.prems [of 0]) (simp_all add: spawn_loop.simps [of action "Some (Suc n)" k])
  next
    case (Inl e)
    obtain m where m: "m \<le> n" "\<forall>j < m. \<exists>e. action (k + 1 + j) = Inl e"
      "spawn_loop action (Some n) (k + 1) = Some (case action (k + 1 + m) of Inl e \<Rightarrow> e | Inr r \<Rightarrow> r, k + 1 + m + 1)"
      "m = n \<or> (\<exists>r. action (k + 1 + m) = Inr r)"
      by (rule Suc.IH)
    have "\<exists>e. action (k + j) = Inl e" if "j < Suc m" for j
      using that m(2) Inl by (cases j) auto
    with m Inl show ?thesis
      by (intro Suc.prems [of "Suc m"]) (simp_all add: spawn_loop.simps [of action "Some (Suc n)" k])
  qed
qed

lemma spawn_loop_unlimited:
  assumes "\<forall>j < m. \<exists>e. action (k + j) = Inl e" and "action (k + m) = Inr r"
  shows "spawn_loop action None k = Some (r, k + m + 1)"
  using assms
proof (induction m arbitrary: k)
  case 0
  then show ?case by (simp add: spawn_loop.simps)
next
  case (Suc m)
  from Suc.prems(1) obtain e where e: "action k = Inl e" by (metis add_0_right zero_less_Suc)
  have "spawn_loop action None (k + 1) = Some (r, k + 1 + m + 1)"
  proof (rule Suc.IH)
    show "\<forall>j<m. \<exists>e. action (k + 1 + j) = Inl e"
      using Suc.prems(1) by (metis Suc_eq_plus1 Suc_less_eq add.assoc add.commute)
    show "action (k + 1 + m) = Inr r" using Suc.prems(2) by simp
  qed
  with e show ?case by (simp add: spawn_loop.simps [of action None k])
qed

lemma spawn_loop_unlimited_returns:
  assumes "spawn_loop action None k = Some x"
  shows "\<exists>m. is_ok (action (k + m))"
proof -
  have "(None :: nat option) = None \<longrightarrow> (\<exists>m. is_ok (action (k + m)))"
  proof (rule spawn_loop.raw_induct [where P = "\<lambda>a d k x. d = None \<longrightarrow> (\<exists>m. is_ok (a (k + m)))", OF _ assms], intro impI)
    fix spawn :: "(nat \<Rightarrow> 'a + 'a) \<Rightarrow> nat option \<Rightarrow> nat \<Rightarrow> ('a \<times> nat) option" and action delays k x
    assume IH: "\<And>a d k x. spawn a d k = Some x \<Longrightarrow> d = None \<longrightarrow> (\<exists>m. is_ok (a (k + m)))"
      and step: "(case action k of Inl e \<Rightarrow> (case delays of None \<Rightarrow> spawn action None (k + 1)
          | Some n \<Rightarrow> if n = 0 then Some (e, k + 1) else spawn action (Some (n - 1)) (k + 1))
        | Inr r \<Rightarrow> Some (r, k + 1)) = Some x"
      and "delays = None"
    show "\<exists>m. is_ok (action (k + m))"
    proof (cases "action k")
      case (Inl e)
      with step \<open>delays = None\<close> have "spawn action None (k + 1) = Some x" by simp
      from IH [OF this] obtain m where "is_ok (action (k + 1 + m))" by auto
      then show ?thesis by (intro exI [of _ "Suc m"]) simp
    next
      case (Inr r)
      then show ?thesis by (intro exI [of _ 0]) simp
    qed
  qed
  then show ?thesis by simp
qed

lemma retry_outcome_same: "(case retry_outcome condition x of Inl e \<Rightarrow> e | Inr r \<Rightarrow> r) = x"
  by (cases "(condition, x)" rule: retry_outcome.cases) auto

lemma run_retry_trace:
  assumes "0 < limit"
  obtains n where "n < limit" "run_retry condition (Some limit) attempts = Inr (Some (attempts n, n + 1))"
    "\<forall>j < n. \<not> is_ok (retry_outcome condition (attempts j))"
    "n = limit - 1 \<or> is_ok (retry_outcome condition (attempts n))"
proof -
  obtain m where "m \<le> limit - 1"
    "\<forall>j < m. \<exists>e. retry_outcome condition (attempts (0 + j)) = Inl e"
    "spawn_loop (\<lambda>k. retry_outcome condition (attempts k)) (Some (limit - 1)) 0 =
       Some (case retry_outcome condition (attempts (0 + m)) of Inl e \<Rightarrow> e | Inr r \<Rightarrow> r, 0 + m + 1)"
    "m = limit - 1 \<or> (\<exists>r. retry_outcome condition (attempts (0 + m)) = Inr r)"
    by (rule spawn_loop_limited)
  with assms show thesis
    by (intro that [of m]) (auto simp: run_retry_def retry_outcome_same)
qed

lemma run_retry_returns:
  assumes "0 < limit"
  obtains n where "n < limit" "run_retry condition (Some limit) attempts = Inr (Some (attempts n, n + 1))"
  using run_retry_trace [OF assms] by blast

lemma run_retry_unlimited_returns:
  assumes "run_retry condition None attempts = Inr (Some (r, n))"
  obtains k where "r = attempts k"
proof -
  have spawn: "spawn_loop (\<lambda>k. retry_outcome condition (attempts k)) None 0 = Some (r, n)"
    using assms by (simp add: run_retry_def)
  then obtain m where "is_ok (retry_outcome condition (attempts m))"
    using spawn_loop_unlimited_returns by force
  then obtain k where k: "is_ok (retry_outcome condition (attempts k))"
    and least: "\<forall>j < k. \<not> is_ok (retry_outcome condition (attempts j))"
    using exists_least_iff [of "\<lambda>k. is_ok (retry_outcome condition (attempts k))"] by blast
  obtain x where x: "retry_outcome condition (attempts k) = Inr x"
    using k by (cases "retry_outcome condition (attempts k)") auto
  have "\<forall>j < k. \<exists>e. retry_outcome condition (attempts (0 + j)) = Inl e"
    using least by (metis add_0 is_ok_simps(2) old.sum.exhaust)
  from spawn_loop_unlimited [OF this] x have "spawn_loop (\<lambda>k. retry_outcome condition (attempts k)) None 0 = Some (x, k + 1)"
    by simp
  with spawn have "r = x" by simp
  with x retry_outcome_same [of condition "attempts k"] show thesis by (intro that [of k]) simp
qed

text \<open>The chains of builder calls the adapters use.\<close>

lemma retry_chain_limited:
  "map_option (\<lambda>c. run_with_timeout c attempts) (retry_limit n retry) = Some (run_retry OnError (Some n) attempts)"
  "map_option (\<lambda>c. run_with_timeout c attempts) (retry_limit n (retry_when pred retry)) =
     Some (run_retry (Predicate pred) (Some n) attempts)"
  by (simp_all add: retry_limit_def retry_def retry_when_def run_with_timeout_def)

lemma retry_chain_unlimited:
  "map_option (\<lambda>c. run_with_timeout c attempts) (retry_no_limit retry) = Some (run_retry OnError None attempts)"
  by (simp add: retry_no_limit_def retry_def run_with_timeout_def)



definition accepted :: "('i, 'e) retry_if \<Rightarrow> (nat \<Rightarrow> 'e timeout_error + 'i) \<Rightarrow> nat \<Rightarrow> bool" where
  "accepted condition attempts k \<longleftrightarrow> is_ok (retry_outcome condition (attempts k))"

text \<open>C32. Without a limit the helper returns exactly when some attempt neither times out nor meets the
  retry condition, and then answers with the first such attempt.\<close>

theorem run_retry_unlimited:
  "run_retry condition None attempts =
     Inr (if \<exists>k. accepted condition attempts k
          then let k = (LEAST k. accepted condition attempts k) in Some (attempts k, k + 1)
          else None)"
proof (cases "\<exists>k. accepted condition attempts k")
  case True
  define m where "m = (LEAST k. accepted condition attempts k)"
  from True have "accepted condition attempts m" unfolding m_def by (rule LeastI_ex)
  then obtain r where r: "retry_outcome condition (attempts m) = Inr r"
    by (cases "retry_outcome condition (attempts m)") (auto simp: accepted_def)
  have "\<forall>j < m. \<exists>e. retry_outcome condition (attempts j) = Inl e"
    using not_less_Least [of _ "accepted condition attempts"] unfolding m_def accepted_def
    by (metis is_ok_simps(2) old.sum.exhaust)
  then have "spawn_loop (\<lambda>k. retry_outcome condition (attempts k)) None 0 = Some (r, 0 + m + 1)"
    by (intro spawn_loop_unlimited) (simp_all add: r)
  with True r retry_outcome_same [of condition "attempts m"] show ?thesis
    by (simp add: run_retry_def m_def Let_def)
next
  case False
  then show ?thesis
    using spawn_loop_unlimited_returns [of "\<lambda>k. retry_outcome condition (attempts k)" 0]
    by (cases "spawn_loop (\<lambda>k. retry_outcome condition (attempts k)) None 0") (auto simp: run_retry_def accepted_def)
qed

end
