(* ===== verification/Eth_Adapter.thy ===== *)
theory Eth_Adapter
  imports Eth_Filter Retry
begin

text \<open>
  The Ethereum adapter: \<open>chain/ethereum/src/ethereum_adapter.rs\<close> and the triggers adapter of
  \<open>chain/ethereum/src/chain.rs\<close>. The node behind the JSON-RPC transport is the record \<open>eth_node\<close>: each
  field gives the outcome of the \<open>k\<close>-th attempt of a request, and the log request also carries the
  number of the round that issues it, so that asking again may give a different answer.

  \<open>None\<close> is code that never returns. Where several requests run at the same time and more than one
  fails, the model reports the first failure in program order.
\<close>

section \<open>Outcomes of asynchronous code\<close>

type_synonym 'a io = "(string fault + 'a) option"

definition io_ok :: "'a \<Rightarrow> 'a io" where
  "io_ok x = Some (Inr x)"

definition io_err :: "string fault \<Rightarrow> 'a io" where
  "io_err e = Some (Inl e)"

definition io_bind :: "'a io \<Rightarrow> ('a \<Rightarrow> 'b io) \<Rightarrow> 'b io" where
  "io_bind m f = Option.bind m (\<lambda>r. case r of Inl e \<Rightarrow> Some (Inl e) | Inr x \<Rightarrow> f x)"

definition io_of :: "'a option \<Rightarrow> 'a io" where
  "io_of x = Some (ok_or (Panicked ''unwrap'') x)"

fun io_map :: "('a \<Rightarrow> 'b io) \<Rightarrow> 'a list \<Rightarrow> 'b list io" where
  "io_map f [] = io_ok []"
| "io_map f (x # xs) = io_bind (f x) (\<lambda>y. io_bind (io_map f xs) (\<lambda>ys. io_ok (y # ys)))"

lemma io_bind_simps [simp]:
  "io_bind None f = None"
  "io_bind (io_err e) f = io_err e"
  "io_bind (io_ok x) f = f x"
  by (simp_all add: io_bind_def io_err_def io_ok_def)

lemma io_bind_ok: "io_bind m f = io_ok y \<longleftrightarrow> (\<exists>x. m = io_ok x \<and> f x = io_ok y)"
  by (cases m) (auto simp: io_bind_def io_ok_def split: sum.splits)

lemma io_eq_simps [simp]: "io_ok x = io_ok y \<longleftrightarrow> x = y" "io_err e \<noteq> io_ok x" "io_ok x \<noteq> io_err e"
  by (simp_all add: io_ok_def io_err_def)

lemma io_of_ok [simp]: "io_of x = io_ok y \<longleftrightarrow> x = Some y"
  by (cases x) (auto simp: io_of_def io_ok_def)

lemma io_map_ok: "io_map f xs = io_ok ys \<longleftrightarrow> list_all2 (\<lambda>x y. f x = io_ok y) xs ys"
  by (induction xs arbitrary: ys) (auto simp: io_bind_ok list_all2_Cons1)

section \<open>The node\<close>

record rpc_error =
  rpc_code :: int
  rpc_message :: string
  rpc_data :: "string option"

datatype web3_error = Rpc rpc_error | OtherError string

datatype block_id = ById_Hash h256 | ById_Number block_number

type_synonym 'a reply = "web3_error timeout_error + 'a"

record eth_node =
  nd_logs :: "nat \<Rightarrow> nat \<Rightarrow> block_number \<Rightarrow> block_number \<Rightarrow> eth_get_logs_filter \<Rightarrow> eth_log list reply"
  nd_traces :: "nat \<Rightarrow> block_number \<Rightarrow> block_number \<Rightarrow> address list \<Rightarrow> eth_trace list reply"
  nd_block_by_number :: "nat \<Rightarrow> block_number \<Rightarrow> light_block option reply"
  nd_block_by_hash :: "nat \<Rightarrow> h256 \<Rightarrow> light_block option reply"
  nd_call :: "nat \<Rightarrow> address \<Rightarrow> u8 list \<Rightarrow> block_id \<Rightarrow> u8 list reply"
  web3_display :: "web3_error \<Rightarrow> string"
  web3_debug :: "web3_error \<Rightarrow> string"

record eth_config =
  request_retries :: nat
  trace_stream_step_size :: block_number
  max_event_only_range :: block_number

text \<open>The end of a \<open>retry(..)\<close> chain: the inner error, or the message for a timeout.\<close>

fun settle :: "('e \<Rightarrow> string) \<Rightarrow> string \<Rightarrow> string + (('e timeout_error + 'a) \<times> nat) option \<Rightarrow> 'a io" where
  "settle disp late (Inl p) = io_err (Panicked p)"
| "settle disp late (Inr None) = None"
| "settle disp late (Inr (Some (Inr x, n))) = io_ok x"
| "settle disp late (Inr (Some (Inl (Inner e), n))) = io_err (Raised (disp e))"
| "settle disp late (Inr (Some (Inl Elapsed, n))) = io_err (Raised late)"

fun has_substring :: "string \<Rightarrow> string \<Rightarrow> bool" where
  "has_substring pat [] \<longleftrightarrow> pat = []"
| "has_substring pat (c # s) \<longleftrightarrow> take (length pat) (c # s) = pat \<or> has_substring pat s"

section \<open>Logs\<close>

definition too_many_logs_fingerprints :: "string list" where
  "too_many_logs_fingerprints = [''ServerError(-32005)'', ''503 Service Unavailable'', ''ServerError(-32000)'']"

definition logs_with_sigs ::
  "eth_node \<Rightarrow> eth_config \<Rightarrow> nat \<Rightarrow> block_number \<Rightarrow> block_number \<Rightarrow> eth_get_logs_filter \<Rightarrow>
     string + (eth_log list reply \<times> nat) option" where
  "logs_with_sigs node cfg rd from to flt =
     run_retry (Predicate (\<lambda>res. case res of
         Inr _ \<Rightarrow> False
       | Inl e \<Rightarrow> \<not> list_ex (\<lambda>f. has_substring f (web3_display node e)) too_many_logs_fingerprints))
       (Some (request_retries cfg)) (\<lambda>k. nd_logs node rd k from to flt)"

fun timeout_error_string :: "eth_node \<Rightarrow> web3_error timeout_error \<Rightarrow> string" where
  "timeout_error_string node (Inner e) = web3_debug node e"
| "timeout_error_string node Elapsed = ''Timeout elapsed''"

text \<open>One turn of \<open>try_unfold\<close>, from the start and the step: the logs and the next state, or the end.
  The sums are checked \<open>i32\<close> additions.\<close>

datatype 'a turn = Done | Next 'a block_number block_number

definition log_turn ::
  "eth_node \<Rightarrow> eth_config \<Rightarrow> eth_get_logs_filter \<Rightarrow> block_number \<Rightarrow> nat \<Rightarrow> block_number \<Rightarrow> block_number \<Rightarrow>
     eth_log list turn io" where
  "log_turn node cfg flt to rd start step =
     (if start > to then io_ok Done
      else
        io_bind (io_of (i32_checked (start + step))) (\<lambda>tot.
        let end = min tot to in
        case logs_with_sigs node cfg rd start end flt of
          Inl p \<Rightarrow> io_err (Panicked p)
        | Inr None \<Rightarrow> None
        | Inr (Some (Inl e, _)) \<Rightarrow>
            let string_err = timeout_error_string node e in
            if list_ex (\<lambda>f. has_substring f string_err) too_many_logs_fingerprints \<and> step > 0
            then io_ok (Next [] start (step div 10))
            else io_err (Raised string_err)
        | Inr (Some (Inr logs, _)) \<Rightarrow>
            io_bind (io_of (i32_checked (end + 1))) (\<lambda>next. io_ok (Next logs next step))))"

partial_function (option) log_loop ::
  "eth_node \<Rightarrow> eth_config \<Rightarrow> eth_get_logs_filter \<Rightarrow> block_number \<Rightarrow> nat \<Rightarrow> block_number \<Rightarrow> block_number \<Rightarrow>
     eth_log list io" where
  "log_loop node cfg flt to rd start step =
     Option.bind (log_turn node cfg flt to rd start step) (\<lambda>r. case r of
        Inl e \<Rightarrow> Some (Inl e)
      | Inr Done \<Rightarrow> Some (Inr [])
      | Inr (Next logs start' step') \<Rightarrow>
          Option.bind (log_loop node cfg flt to (rd + 1) start' step') (\<lambda>r'. case r' of
             Inl e \<Rightarrow> Some (Inl e)
           | Inr rest \<Rightarrow> Some (Inr (logs @ rest))))"

declare log_loop.simps [code]

definition log_stream ::
  "eth_node \<Rightarrow> eth_config \<Rightarrow> block_number \<Rightarrow> block_number \<Rightarrow> eth_get_logs_filter \<Rightarrow> eth_log list io" where
  "log_stream node cfg from to flt =
     (if from > to then io_err (Panicked ''cannot produce a log stream on a backwards block range'')
      else
        let step = (if contracts flt \<noteq> [] then to - from else min (to - from) (max_event_only_range cfg - 1))
        in log_loop node cfg flt to 0 from step)"

definition logs_in_block_range ::
  "eth_node \<Rightarrow> eth_config \<Rightarrow> block_number \<Rightarrow> block_number \<Rightarrow> ethereum_log_filter \<Rightarrow> eth_log list io" where
  "logs_in_block_range node cfg from to log_filter =
     io_bind (io_map (log_stream node cfg from to) log_filter) (\<lambda>lss. io_ok (concat lss))"

section \<open>Traces and calls\<close>

definition traces ::
  "eth_node \<Rightarrow> eth_config \<Rightarrow> block_number \<Rightarrow> block_number \<Rightarrow> address list \<Rightarrow> eth_trace list io" where
  "traces node cfg from to addresses =
     settle (web3_display node) ''Ethereum node took too long to respond to trace_filter''
       (run_retry OnError (Some (request_retries cfg)) (\<lambda>k. nd_traces node k from to addresses))"

text \<open>The ranges \<open>stream::unfold\<close> requests, in order.\<close>

partial_function (option) trace_ranges ::
  "block_number \<Rightarrow> block_number \<Rightarrow> block_number \<Rightarrow> (block_number \<times> block_number) list io" where
  "trace_ranges step_size to start =
     (if start > to then Some (Inr [])
      else case i32_checked (start + step_size) of
        None \<Rightarrow> Some (Inl (Panicked ''attempt to add with overflow''))
      | Some tot \<Rightarrow>
          let end = min (tot - 1) to in
          (case i32_checked (end + 1) of
             None \<Rightarrow> Some (Inl (Panicked ''attempt to add with overflow''))
           | Some new_start \<Rightarrow>
               Option.bind (trace_ranges step_size to new_start) (\<lambda>r. case r of
                  Inl e \<Rightarrow> Some (Inl e)
                | Inr rest \<Rightarrow> Some (Inr ((start, end) # rest)))))"

declare trace_ranges.simps [code]

definition trace_stream ::
  "eth_node \<Rightarrow> eth_config \<Rightarrow> block_number \<Rightarrow> block_number \<Rightarrow> address list \<Rightarrow> eth_trace list io" where
  "trace_stream node cfg from to addresses =
     (if from > to then io_err (Panicked ''Can not produce a call stream on a backwards block range'')
      else
        io_bind (trace_ranges (trace_stream_step_size cfg) to from) (\<lambda>ranges.
        io_bind (io_map (\<lambda>(start, end). traces node cfg start end addresses) ranges) (\<lambda>tss. io_ok (concat tss))))"

fun filter_calls :: "ethereum_call_filter \<Rightarrow> ethereum_call list \<Rightarrow> ethereum_call list io" where
  "filter_calls f [] = io_ok []"
| "filter_calls f (call # calls) =
     io_bind (io_of (call_matches f call)) (\<lambda>keep.
     io_bind (filter_calls f calls) (\<lambda>rest. io_ok (if keep then call # rest else rest)))"

definition calls_in_block_range ::
  "eth_node \<Rightarrow> eth_config \<Rightarrow> block_number \<Rightarrow> block_number \<Rightarrow> ethereum_call_filter \<Rightarrow> ethereum_call list io" where
  "calls_in_block_range node cfg from to call_filter =
     (let addresses = map fst (filter (\<lambda>(_, start_block, _). start_block \<le> to) call_filter) in
      if addresses = [] then io_ok []
      else
        io_bind (trace_stream node cfg from to addresses) (\<lambda>ts.
        filter_calls call_filter (List.map_filter try_from_trace ts)))"

section \<open>Blocks\<close>

definition found_block :: "string \<Rightarrow> eth_node \<Rightarrow> light_block option reply \<Rightarrow> string timeout_error + light_block" where
  "found_block missing node r =
     (case r of
        Inl Elapsed \<Rightarrow> Inl Elapsed
      | Inl (Inner e) \<Rightarrow> Inl (Inner (web3_display node e))
      | Inr None \<Rightarrow> Inl (Inner missing)
      | Inr (Some block) \<Rightarrow> Inr block)"

definition load_blocks_rpc :: "eth_node \<Rightarrow> eth_config \<Rightarrow> h256 list \<Rightarrow> light_block list io" where
  "load_blocks_rpc node cfg ids =
     io_map (\<lambda>hash. settle id ''Timeout elapsed''
       (run_retry OnError (Some (request_retries cfg))
         (\<lambda>k. found_block ''Ethereum node did not find block'' node (nd_block_by_hash node k hash)))) ids"

definition load_block_ptrs_rpc :: "eth_node \<Rightarrow> block_number list \<Rightarrow> block_ptr list io" where
  "load_block_ptrs_rpc node block_nums =
     io_map (\<lambda>block_num.
       io_bind (settle id ''Timeout elapsed'' (run_retry OnError None
         (\<lambda>k. found_block ''Ethereum node did not find block'' node (nd_block_by_number node k block_num))))
       (\<lambda>block. io_of (light_block_ptr block))) block_nums"

definition block_range_to_ptrs :: "eth_node \<Rightarrow> block_number \<Rightarrow> block_number \<Rightarrow> block_ptr list io" where
  "block_range_to_ptrs node from to = load_block_ptrs_rpc node [from..to]"

definition block_hash_by_block_number :: "eth_node \<Rightarrow> block_number \<Rightarrow> h256 option io" where
  "block_hash_by_block_number node block_number =
     settle (web3_display node) ''Ethereum node took too long to return data for block''
       (run_retry OnError None (\<lambda>k. case nd_block_by_number node k block_number of
          Inl e \<Rightarrow> Inl e | Inr block_opt \<Rightarrow> Inr (Option.bind block_opt lb_hash)))"

definition block_pointer_from_number :: "eth_node \<Rightarrow> block_number \<Rightarrow> block_ptr io" where
  "block_pointer_from_number node block_number =
     io_bind (block_hash_by_block_number node block_number) (\<lambda>block_hash_opt.
       case block_hash_opt of
         None \<Rightarrow> io_err (Raised ''Ethereum node could not find start block hash by block number'')
       | Some block_hash \<Rightarrow> io_ok \<lparr>bp_hash = block_hash, bp_number = block_number\<rparr>)"

text \<open>\<open>sort_by_key(|block| block.number)\<close>: a missing number comes first.\<close>

definition number_key :: "light_block \<Rightarrow> nat" where
  "number_key b = (case lb_number b of None \<Rightarrow> 0 | Some n \<Rightarrow> Suc n)"

definition load_blocks :: "eth_node \<Rightarrow> eth_config \<Rightarrow> h256 list \<Rightarrow> light_block list io" where
  "load_blocks node cfg block_hashes =
     io_bind (load_blocks_rpc node cfg block_hashes) (\<lambda>new_blocks. io_ok (sort_key number_key new_blocks))"

section \<open>Blocks with triggers\<close>

definition io_when :: "bool \<Rightarrow> 'a list io \<Rightarrow> 'a list list io" where
  "io_when b m = (if b then io_bind m (\<lambda>x. io_ok [x]) else io_ok [])"

definition log_triggers :: "eth_node \<Rightarrow> eth_config \<Rightarrow> block_number \<Rightarrow> block_number \<Rightarrow> trigger_filter \<Rightarrow> eth_trigger list list io" where
  "log_triggers node cfg from to flt =
     io_when (tf_log flt \<noteq> [])
       (io_bind (logs_in_block_range node cfg from to (tf_log flt)) (\<lambda>logs. io_ok (map TLog logs)))"

definition call_triggers :: "eth_node \<Rightarrow> eth_config \<Rightarrow> block_number \<Rightarrow> block_number \<Rightarrow> trigger_filter \<Rightarrow> eth_trigger list list io" where
  "call_triggers node cfg from to flt =
     io_when (tf_call flt \<noteq> [])
       (io_bind (calls_in_block_range node cfg from to (tf_call flt)) (\<lambda>calls. io_ok (map TCall calls)))"

definition block_triggers :: "eth_node \<Rightarrow> eth_config \<Rightarrow> block_number \<Rightarrow> block_number \<Rightarrow> trigger_filter \<Rightarrow> eth_trigger list list io" where
  "block_triggers node cfg from to flt =
     (if trigger_every_block (tf_block flt)
      then io_when True (io_bind (block_range_to_ptrs node from to) (\<lambda>ptrs. io_ok (map (\<lambda>ptr. TBlock ptr Every) ptrs)))
      else
        io_when (contract_addresses (tf_block flt) \<noteq> [])
          (io_bind (calls_in_block_range node cfg from to (call_filter_from_block (tf_block flt))) (\<lambda>calls.
             io_ok (map (\<lambda>call. TBlock (call_block_ptr call) (WithCallTo (call_to call))) calls))))"

text \<open>The futures complete in any order; the argument \<open>done_order\<close> rearranges their results.\<close>

definition scan_range ::
  "(eth_trigger list list \<Rightarrow> eth_trigger list list) \<Rightarrow> eth_node \<Rightarrow> eth_config \<Rightarrow> block_number \<Rightarrow> block_number \<Rightarrow>
     trigger_filter \<Rightarrow> eth_trigger list io" where
  "scan_range done_order node cfg from to flt =
     io_bind (log_triggers node cfg from to flt) (\<lambda>logs.
     io_bind (call_triggers node cfg from to flt) (\<lambda>calls.
     io_bind (block_triggers node cfg from to flt) (\<lambda>blocks.
     io_ok (concat (done_order (logs @ calls @ blocks))))))"

fun triggers_by_block ::
  "eth_trigger list \<Rightarrow> (block_number \<times> eth_trigger list) list \<Rightarrow> (block_number \<times> eth_trigger list) list io" where
  "triggers_by_block [] m = io_ok m"
| "triggers_by_block (t # ts) m =
     io_bind (io_of (trigger_block_number t)) (\<lambda>n.
       triggers_by_block ts (al_upsert n (\<lambda>old. (case old of None \<Rightarrow> [] | Some l \<Rightarrow> l) @ [t]) m))"

text \<open>The blocks in load order, each taking its triggers out of the map.\<close>

fun attach_triggers ::
  "light_block list \<Rightarrow> (block_number \<times> eth_trigger list) list \<Rightarrow> light_block eth_block_with_triggers list io" where
  "attach_triggers [] m = io_ok []"
| "attach_triggers (block # blocks) m =
     io_bind (io_of (light_block_number block)) (\<lambda>n.
     case map_of m n of
       None \<Rightarrow> io_err (Raised ''block not found in `triggers_by_block`'')
     | Some triggers \<Rightarrow>
         io_bind (io_of (block_with_triggers_new block triggers)) (\<lambda>bt.
         io_bind (attach_triggers blocks (filter (\<lambda>e. fst e \<noteq> n) m)) (\<lambda>rest. io_ok (bt # rest))))"

text \<open>\<open>sort_by_key(|block| block.ptr().number)\<close> and the range check.\<close>

definition bt_ptr_number :: "light_block eth_block_with_triggers \<Rightarrow> block_number option" where
  "bt_ptr_number bt = map_option bp_number (light_block_ptr (ebt_block bt))"

definition check_range ::
  "block_number \<Rightarrow> block_number \<Rightarrow> light_block eth_block_with_triggers list \<Rightarrow> light_block eth_block_with_triggers list io" where
  "check_range from to blocks =
     io_bind (io_map (\<lambda>bt. io_of (bt_ptr_number bt)) blocks) (\<lambda>numbers.
     let sorted_blocks = map snd (sort_key fst (zip numbers blocks));
         sorted_numbers = sort numbers in
     case sorted_numbers of
       [] \<Rightarrow> io_err (Panicked ''unwrap'')
     | first # _ \<Rightarrow>
         if first < from then io_err (Raised ''block returned by the Ethereum node is before the first block of the requested range'')
         else if last sorted_numbers > to
         then io_err (Raised ''block returned by the Ethereum node is after the last block of the requested range'')
         else io_ok sorted_blocks)"

definition blocks_with_triggers ::
  "(eth_trigger list list \<Rightarrow> eth_trigger list list) \<Rightarrow> eth_node \<Rightarrow> eth_config \<Rightarrow> block_number \<Rightarrow> block_number \<Rightarrow>
     trigger_filter \<Rightarrow> light_block eth_block_with_triggers list io" where
  "blocks_with_triggers done_order node cfg from to flt =
     io_bind (scan_range done_order node cfg from to flt) (\<lambda>triggers.
     io_bind (block_hash_by_block_number node to) (\<lambda>to_hash_opt.
     io_bind (case to_hash_opt of None \<Rightarrow> io_err (Raised ''Block not found in the chain'') | Some h \<Rightarrow> io_ok h) (\<lambda>to_hash.
     io_bind (io_map (\<lambda>t. io_of (trigger_block_hash t)) triggers) (\<lambda>hashes.
     io_bind (triggers_by_block triggers []) (\<lambda>by_block.
     io_bind (load_blocks node cfg (remdups (hashes @ [to_hash]))) (\<lambda>loaded.
     io_bind (attach_triggers loaded (al_upsert to (\<lambda>old. case old of None \<Rightarrow> [] | Some l \<Rightarrow> l) by_block)) (\<lambda>blocks.
     check_range from to blocks)))))))"

text \<open>The triggers adapter of \<open>chain.rs\<close>.\<close>

definition scan_triggers ::
  "(eth_trigger list list \<Rightarrow> eth_trigger list list) \<Rightarrow> eth_node \<Rightarrow> eth_config \<Rightarrow> block_number \<Rightarrow> block_number \<Rightarrow>
     trigger_filter \<Rightarrow> light_block eth_block_with_triggers list io" where
  "scan_triggers done_order node cfg from to flt = blocks_with_triggers done_order node cfg from to flt"

definition triggers_in_block ::
  "(eth_trigger list list \<Rightarrow> eth_trigger list list) \<Rightarrow> eth_node \<Rightarrow> eth_config \<Rightarrow> light_block \<Rightarrow>
     trigger_filter \<Rightarrow> light_block eth_block_with_triggers io" where
  "triggers_in_block done_order node cfg block flt =
     io_bind (io_of (map_option bp_number (light_block_ptr block))) (\<lambda>block_number.
     io_bind (blocks_with_triggers done_order node cfg block_number block_number flt) (\<lambda>blocks.
       case blocks of
         [b] \<Rightarrow> io_ok b
       | _ \<Rightarrow> io_err (Panicked ''assertion failed: blocks.len() == 1'')))"

end
