(* ===== verification/Eth_Chain.thy ===== *)
theory Eth_Chain
  imports Eth_Adapter
begin

text \<open>
  What the Ethereum adapter does against a node that follows its documentation. The locale
  \<open>eth_chain\<close> fixes a chain of final blocks with their logs and traces and assumes that every
  successful reply of the node is about that chain: \<open>eth_getLogs\<close> and \<open>trace_filter\<close> return what the
  blocks of the range contain and the filter asks for, in order, and a block request returns the
  block. Replies may fail at any time. At the end a reference node that serves a chain from a
  function interprets the locale.
\<close>

definition range_logs :: "(block_number \<Rightarrow> eth_log list) \<Rightarrow> eth_get_logs_filter \<Rightarrow> block_number \<Rightarrow> block_number \<Rightarrow> eth_log list" where
  "range_logs logs_at f s e = concat (map (\<lambda>n. filter (get_logs_matches f) (logs_at n)) [s..e])"

lemma upto_append: "s \<le> m + 1 \<Longrightarrow> m \<le> e \<Longrightarrow> [s..m] @ [m + 1..e] = [s..e]" for s m e :: int
  by (cases "m = e") (simp_all add: upto_split1 [of s "m + 1" e])

lemma range_logs_split:
  "s \<le> m + 1 \<Longrightarrow> m \<le> e \<Longrightarrow> range_logs logs_at f s m @ range_logs logs_at f (m + 1) e = range_logs logs_at f s e"
  unfolding range_logs_def by (subst upto_append [of s m e, symmetric]) simp_all

definition calls_to :: "address set \<Rightarrow> eth_trace \<Rightarrow> bool" where
  "calls_to A t = (case tr_action t of ActionCall a \<Rightarrow> ca_to a \<in> A | ActionOther \<Rightarrow> False)"

definition range_traces :: "(block_number \<Rightarrow> eth_trace list) \<Rightarrow> address list \<Rightarrow> block_number \<Rightarrow> block_number \<Rightarrow> eth_trace list" where
  "range_traces traces_at addrs s e =
     concat (map (\<lambda>n. filter (calls_to (set addrs)) (traces_at n)) [s..e])"

lemma tiles_concat:
  "tiles p rs e \<Longrightarrow> p \<le> e \<and> concat (map (\<lambda>(s, e). concat (map g [s..e])) rs) = concat (map g [p + 1..e])"
proof (induction rs arbitrary: p)
  case (Cons r rs)
  obtain s t where r: "r = (s, t)" by (cases r)
  with Cons have IH: "t \<le> e" "concat (map (\<lambda>(s, e). concat (map g [s..e])) rs) = concat (map g [t + 1..e])"
    by auto
  have s: "s = p + 1" "s \<le> t" using Cons.prems by (auto simp: r)
  then have "[p + 1..t] @ [t + 1..e] = [p + 1..e]" using IH(1) by (intro upto_append) auto
  then have "concat (map g [p + 1..t]) @ concat (map g [t + 1..e]) = concat (map g [p + 1..e])"
    by (metis concat_append map_append)
  with IH s show ?case by (simp add: r)
qed simp

lemma settle_limited:
  assumes "0 < limit" "settle disp late (run_retry c (Some limit) attempts) = io_ok x"
  obtains k where "attempts k = Inr x"
proof -
  obtain n where n: "run_retry c (Some limit) attempts = Inr (Some (attempts n, n + 1))"
    by (rule run_retry_returns [OF assms(1)])
  show thesis
  proof (cases "attempts n")
    case (Inl e)
    with assms n show thesis by (cases e) auto
  next
    case (Inr y)
    with assms n show thesis by (auto intro: that)
  qed
qed

lemma settle_unlimited:
  assumes "settle disp late (run_retry c None attempts) = io_ok x"
  obtains k where "attempts k = Inr x"
proof -
  from assms obtain n where "run_retry c None attempts = Inr (Some (Inr x, n))"
    by (cases "(disp, late, run_retry c None attempts)" rule: settle.cases) (auto simp: io_ok_def io_err_def)
  from run_retry_unlimited_returns [OF this] show thesis by (metis that)
qed

lemma filter_calls_ok:
  "filter_calls f calls = io_ok kept \<Longrightarrow> kept = filter (\<lambda>c. call_matches f c = Some True) calls"
  by (induction calls arbitrary: kept) (auto simp: io_bind_ok)

lemma try_from_trace_to:
  "try_from_trace t = Some c \<Longrightarrow> calls_to A t \<longleftrightarrow> call_to c \<in> A"
  by (auto simp: calls_to_def try_from_trace_def split: trace_action.splits option.splits trace_result.splits Option.bind_splits if_splits)

lemma calls_of_filtered_traces:
  "List.map_filter try_from_trace (filter (calls_to A) ts) =
     filter (\<lambda>c. call_to c \<in> A) (List.map_filter try_from_trace ts)"
proof (induction ts)
  case (Cons t ts)
  then show ?case by (cases "try_from_trace t") (auto simp: try_from_trace_to)
qed simp

subsection \<open>Grouping and attaching triggers\<close>

definition group_at :: "(block_number \<times> eth_trigger list) list \<Rightarrow> block_number \<Rightarrow> eth_trigger list" where
  "group_at m n = (case map_of m n of None \<Rightarrow> [] | Some l \<Rightarrow> l)"

lemma triggers_by_block_ok:
  assumes "triggers_by_block ts m = io_ok m'"
  shows "group_at m' n = group_at m n @ filter (\<lambda>t. trigger_block_number t = Some n) ts \<and>
    (map_of m' n = None \<longleftrightarrow> map_of m n = None \<and> (\<forall>t \<in> set ts. trigger_block_number t \<noteq> Some n))"
  using assms
proof (induction ts arbitrary: m)
  case (Cons t ts)
  then obtain k where k: "trigger_block_number t = Some k"
    and rest: "triggers_by_block ts (al_upsert k (\<lambda>old. (case old of None \<Rightarrow> [] | Some l \<Rightarrow> l) @ [t]) m) = io_ok m'"
    by (auto simp: io_bind_ok)
  have "group_at (al_upsert k (\<lambda>old. (case old of None \<Rightarrow> [] | Some l \<Rightarrow> l) @ [t]) m) n =
      group_at m n @ (if k = n then [t] else [])"
    by (auto simp: group_at_def split: option.splits)
  with Cons.IH [OF rest] k show ?case by auto
qed simp

lemma attach_triggers_ok:
  assumes "attach_triggers blocks m = io_ok bts"
  shows "map ebt_block bts = blocks \<and> distinct (map light_block_number blocks) \<and>
    (\<forall>bt \<in> set bts. \<exists>n ts. light_block_number (ebt_block bt) = Some n \<and> map_of m n = Some ts \<and>
       sort_triggers ts = Some (ebt_triggers bt))"
  using assms
proof (induction blocks arbitrary: m bts)
  case (Cons block blocks)
  then obtain n where n: "light_block_number block = Some n" by (auto simp: io_bind_ok)
  with Cons.prems obtain ts sorted_ts rest where ts: "map_of m n = Some ts" "sort_triggers ts = Some sorted_ts"
    and rest: "attach_triggers blocks (filter (\<lambda>e. fst e \<noteq> n) m) = io_ok rest"
    and bts: "bts = \<lparr>ebt_block = block, ebt_triggers = sorted_ts\<rparr> # rest"
    by (auto simp: io_bind_ok block_with_triggers_new_def split: option.splits)
  have restrict: "map_of (filter (\<lambda>e. fst e \<noteq> n) m) k = (if k = n then None else map_of m k)" for k
    by (induction m) auto
  note IH = Cons.IH [OF rest]
  have "Some n \<notin> set (map light_block_number blocks)"
  proof
    assume "Some n \<in> set (map light_block_number blocks)"
    with IH obtain bt where "bt \<in> set rest" "light_block_number (ebt_block bt) = Some n" by force
    with IH restrict show False by fastforce
  qed
  then show ?case using IH n ts bts restrict by (auto split: if_splits)
qed simp

lemma sort_triggers_set: "sort_triggers ts = Some s \<Longrightarrow> set s = set ts"
  by (blast dest: sort_triggers_mset mset_eq_setD)

lemma bt_ptr_number_eq: "bt_ptr_number bt = Some n \<Longrightarrow> light_block_number (ebt_block bt) = Some n"
  by (auto simp: bt_ptr_number_def light_block_ptr_def light_block_number_def block_ptr_from_u64_def
      split: Option.bind_splits)

lemma sorted_between:
  assumes "x \<in> set xs" "sorted xs"
  shows "hd xs \<le> x \<and> x \<le> last xs"
proof
  show "hd xs \<le> x" using assms by (cases xs) auto
  show "x \<le> last xs" using assms by (cases xs rule: rev_cases) (auto simp: sorted_append)
qed

lemma check_range_ok:
  assumes "check_range from to bts = io_ok sorted_bts"
  shows "set sorted_bts = set bts" "mset sorted_bts = mset bts" "bts \<noteq> []"
    and "sorted (map (the \<circ> bt_ptr_number) sorted_bts)"
    and "\<forall>bt \<in> set bts. \<exists>n. bt_ptr_number bt = Some n \<and> from \<le> n \<and> n \<le> to"
proof -
  obtain ns where ns: "list_all2 (\<lambda>bt n. bt_ptr_number bt = Some n) bts ns"
    and nonempty: "sort ns \<noteq> []" and lo: "\<not> hd (sort ns) < from" and hi: "\<not> to < last (sort ns)"
    and res: "sorted_bts = map snd (sort_key fst (zip ns bts))"
  proof -
    obtain ns where "list_all2 (\<lambda>bt n. bt_ptr_number bt = Some n) bts ns"
      and "(case sort ns of [] \<Rightarrow> io_err (Panicked ''unwrap'') | first # _ \<Rightarrow>
         if first < from then io_err (Raised ''block returned by the Ethereum node is before the first block of the requested range'')
         else if last (sort ns) > to
         then io_err (Raised ''block returned by the Ethereum node is after the last block of the requested range'')
         else io_ok (map snd (sort_key fst (zip ns bts)))) = io_ok sorted_bts"
      using assms by (auto simp: check_range_def io_bind_ok io_map_ok Let_def)
    then show thesis by (cases "sort ns") (auto split: if_splits intro!: that [of ns])
  qed
  have len: "length ns = length bts" using ns by (simp add: list_all2_lengthD)
  then show "mset sorted_bts = mset bts" by (simp add: res) (metis map_snd_zip mset_map)
  then show "set sorted_bts = set bts" by (rule mset_eq_setD)
  show "bts \<noteq> []" using nonempty len by auto
  have pair: "bt_ptr_number bt = Some n" if "(n, bt) \<in> set (zip ns bts)" for n bt
    using that ns by (auto simp: in_set_zip list_all2_conv_all_nth)
  have "map (the \<circ> bt_ptr_number) sorted_bts = map fst (sort_key fst (zip ns bts))"
    unfolding res by (auto simp: pair)
  then show "sorted (map (the \<circ> bt_ptr_number) sorted_bts)" by simp
  have bounds: "from \<le> n \<and> n \<le> to" if "n \<in> set ns" for n
  proof -
    have "n \<in> set (sort ns)" "sorted (sort ns)" using that by simp_all
    then have "hd (sort ns) \<le> n \<and> n \<le> last (sort ns)" by (intro sorted_between)
    with lo hi show ?thesis by simp
  qed
  show "\<forall>bt \<in> set bts. \<exists>n. bt_ptr_number bt = Some n \<and> from \<le> n \<and> n \<le> to"
  proof
    fix bt assume "bt \<in> set bts"
    then obtain i where "i < length bts" "bt = bts ! i" by (auto simp: in_set_conv_nth)
    with ns len have "bt_ptr_number bt = Some (ns ! i)" "ns ! i \<in> set ns"
      by (auto simp: list_all2_conv_all_nth)
    with bounds show "\<exists>n. bt_ptr_number bt = Some n \<and> from \<le> n \<and> n \<le> to" by blast
  qed
qed

text \<open>A trigger of block \<open>n\<close> of a chain: a log or a call of the block, or the block itself.\<close>

fun chain_trigger ::
  "(block_number \<Rightarrow> h256) \<Rightarrow> (block_number \<Rightarrow> eth_log list) \<Rightarrow> (block_number \<Rightarrow> eth_trace list) \<Rightarrow>
     block_number \<Rightarrow> eth_trigger \<Rightarrow> bool" where
  "chain_trigger hash_at logs_at traces_at n (TLog log) \<longleftrightarrow> log \<in> set (logs_at n)"
| "chain_trigger hash_at logs_at traces_at n (TCall call) \<longleftrightarrow>
     call \<in> set (List.map_filter try_from_trace (traces_at n))"
| "chain_trigger hash_at logs_at traces_at n (TBlock ptr ty) \<longleftrightarrow> ptr = \<lparr>bp_hash = hash_at n, bp_number = n\<rparr>"

text \<open>What a filter asks for.\<close>

fun wanted :: "trigger_filter \<Rightarrow> block_number \<Rightarrow> eth_trigger \<Rightarrow> bool" where
  "wanted flt to (TLog log) \<longleftrightarrow> (\<exists>f \<in> set (tf_log flt). get_logs_matches f log)"
| "wanted flt to (TCall call) \<longleftrightarrow> call_matches (tf_call flt) call = Some True \<and>
     (\<exists>b sigs. (call_to call, b, sigs) \<in> set (tf_call flt) \<and> b \<le> to)"
| "wanted flt to (TBlock ptr ty) \<longleftrightarrow> trigger_every_block (tf_block flt) \<and> ty = Every"

lemma map_filter_concat: "List.map_filter f (concat xss) = concat (map (List.map_filter f) xss)"
  by (induction xss) (simp_all add: List.map_filter_def)

lemma set_map_filter_concat: "set (List.map_filter f (concat (map g ns))) = (\<Union>n \<in> set ns. set (List.map_filter f (g n)))"
  by (simp add: map_filter_concat)

lemma as_i32_small: "0 \<le> n \<Longrightarrow> n \<le> 1073741822 \<Longrightarrow> as_i32 (nat n) = n"
  by (simp add: as_i32_def sint_sbintrunc' signed_take_bit_int_eq_self)

locale eth_chain =
  fixes node :: eth_node
    and cfg :: eth_config
    and hash_at :: "block_number \<Rightarrow> h256"
    and block_at :: "block_number \<Rightarrow> light_block"
    and logs_at :: "block_number \<Rightarrow> eth_log list"
    and traces_at :: "block_number \<Rightarrow> eth_trace list"
  assumes retries: "0 < request_retries cfg"
    and event_range: "0 < max_event_only_range cfg"
    and trace_step: "0 < trace_stream_step_size cfg" "trace_stream_step_size cfg \<le> 1073741823"
    and node_logs: "nd_logs node rd k s e f = Inr ls \<Longrightarrow>
      ls = concat (map (\<lambda>n. filter (get_logs_matches f) (logs_at n)) [s..e])"
    and node_traces: "nd_traces node k s e addrs = Inr ts \<Longrightarrow>
      ts = concat (map (\<lambda>n. filter (calls_to (set addrs)) (traces_at n)) [s..e])"
    and node_by_number: "nd_block_by_number node k n = Inr (Some b) \<Longrightarrow> b = block_at n"
    and node_by_hash: "0 \<le> n \<Longrightarrow> n \<le> 1073741822 \<Longrightarrow> nd_block_by_hash node k (hash_at n) = Inr (Some b) \<Longrightarrow> b = block_at n"
    and block_number_at: "lb_number (block_at n) = Some (nat n)"
    and block_hash_at: "lb_hash (block_at n) = Some (hash_at n)"
    and hash_at_length: "length (hash_at n) = 32"
    and hash_at_inj: "inj_on hash_at {0..1073741822}"
    and log_at: "log \<in> set (logs_at n) \<Longrightarrow>
      log_block_number log = Some (nat n) \<and> log_block_hash log = Some (hash_at n) \<and> log_transaction_index log \<noteq> None"
    and trace_at: "t \<in> set (traces_at n) \<Longrightarrow> tr_block_number t = nat n \<and> tr_block_hash t = hash_at n"
begin

lemma request_logs:
  obtains k n where "logs_with_sigs node cfg rd s e f = Inr (Some (nd_logs node rd k s e f, n))"
proof -
  obtain n where "logs_with_sigs node cfg rd s e f = Inr (Some (nd_logs node rd n s e f, n + 1))"
    unfolding logs_with_sigs_def by (rule run_retry_returns [OF retries])
  then show thesis by (rule that)
qed

lemma log_turn_cases:
  assumes "start \<le> to" "0 \<le> step" "0 \<le> start" "start + step < 2147483647" "to < 2147483647"
  shows "(\<exists>s. log_turn node cfg f to rd start step = io_err (Raised s)) \<or>
    (0 < step \<and> log_turn node cfg f to rd start step = io_ok (Next [] start (step div 10))) \<or>
    log_turn node cfg f to rd start step =
      io_ok (Next (range_logs logs_at f start (min (start + step) to)) (min (start + step) to + 1) step)"
proof -
  let ?e = "min (start + step) to"
  obtain k n where req: "logs_with_sigs node cfg rd start ?e f = Inr (Some (nd_logs node rd k start ?e f, n))"
    by (rule request_logs)
  have sums: "i32_checked (start + step) = Some (start + step)" "i32_checked (?e + 1) = Some (?e + 1)"
    using assms by (auto simp: i32_checked_def i32_range_def)
  show ?thesis
  proof (cases "nd_logs node rd k start ?e f")
    case (Inl e)
    then show ?thesis
      using req sums assms(1) by (simp add: log_turn_def io_of_def io_bind_def Let_def io_ok_def io_err_def)
  next
    case (Inr ls)
    with node_logs [OF Inr] show ?thesis
      using req sums assms(1) by (simp add: log_turn_def io_of_def io_bind_def Let_def io_ok_def range_logs_def)
  qed
qed

lemma log_loop_complete:
  assumes "0 \<le> start" "start \<le> to + 1" "0 \<le> step" "to + step < 2147483646"
  shows "(\<exists>s. log_loop node cfg f to rd start step = io_err (Raised s)) \<or>
    log_loop node cfg f to rd start step = io_ok (range_logs logs_at f start to)"
  using assms
proof (induction "nat (to + 1 - start)" arbitrary: start step rd rule: less_induct)
  case outer: less
  from outer.prems show ?case
  proof (induction "nat step" arbitrary: step rd rule: less_induct)
    case inner: less
    note unfold = log_loop.simps [of node cfg f to rd start step]
    show ?case
    proof (cases "start > to")
      case True
      then show ?thesis by (simp add: unfold log_turn_def io_ok_def range_logs_def)
    next
      case False
      let ?e = "min (start + step) to"
      consider (fail) s where "log_turn node cfg f to rd start step = io_err (Raised s)"
        | (shrink) "0 < step" "log_turn node cfg f to rd start step = io_ok (Next [] start (step div 10))"
        | (logs) "log_turn node cfg f to rd start step = io_ok (Next (range_logs logs_at f start ?e) (?e + 1) step)"
        using log_turn_cases [of start to step f rd] False inner.prems by fastforce
      then show ?thesis
      proof cases
        case fail
        then show ?thesis by (simp add: unfold io_err_def)
      next
        case shrink
        have "nat (step div 10) < nat step" using shrink(1) by auto
        moreover have "0 \<le> step div 10" "to + step div 10 < 2147483646" using inner.prems by linarith+
        ultimately show ?thesis
          using inner.hyps [of "step div 10" "rd + 1"] inner.prems shrink(2)
          by (auto simp: unfold io_ok_def io_err_def)
      next
        case logs
        have "nat (to + 1 - (?e + 1)) < nat (to + 1 - start)" using False inner.prems by auto
        from outer.hyps [OF this, of step "rd + 1"] inner.prems False
        have "(\<exists>s. log_loop node cfg f to (rd + 1) (?e + 1) step = io_err (Raised s)) \<or>
            log_loop node cfg f to (rd + 1) (?e + 1) step = io_ok (range_logs logs_at f (?e + 1) to)"
          by auto
        moreover have "range_logs logs_at f start ?e @ range_logs logs_at f (?e + 1) to = range_logs logs_at f start to"
          using False inner.prems by (intro range_logs_split) auto
        ultimately show ?thesis using logs by (auto simp: unfold io_ok_def io_err_def)
      qed
    qed
  qed
qed

lemma log_stream_complete:
  assumes "0 \<le> from" "from \<le> to" "to \<le> 1073741822"
  shows "(\<exists>s. log_stream node cfg from to f = io_err (Raised s)) \<or>
    log_stream node cfg from to f = io_ok (range_logs logs_at f from to)"
proof -
  let ?step = "if contracts f \<noteq> [] then to - from else min (to - from) (max_event_only_range cfg - 1)"
  have "0 \<le> ?step" "to + ?step < 2147483646" using assms event_range by auto
  with log_loop_complete [of "from" to ?step f 0] assms show ?thesis by (simp add: log_stream_def Let_def)
qed

lemma logs_in_block_range_complete:
  assumes "0 \<le> from" "from \<le> to" "to \<le> 1073741822" "logs_in_block_range node cfg from to fs = io_ok logs"
  shows "logs = concat (map (\<lambda>f. range_logs logs_at f from to) fs)"
proof -
  obtain lss where lss: "list_all2 (\<lambda>f ls. log_stream node cfg from to f = io_ok ls) fs lss" and logs: "logs = concat lss"
    using assms(4) by (auto simp: logs_in_block_range_def io_bind_ok io_map_ok)
  from lss have "lss = map (\<lambda>f. range_logs logs_at f from to) fs"
  proof (induction rule: list_all2_induct)
    case (Cons f fs ls lss)
    then show ?case using log_stream_complete [OF assms(1-3), of f] by auto
  qed simp
  with logs show ?thesis by simp
qed

subsection \<open>The trace stream\<close>

lemma trace_ranges_tile:
  assumes "0 \<le> start" "start \<le> to + 1" "to \<le> 1073741822"
  shows "\<exists>rs. trace_ranges (trace_stream_step_size cfg) to start = io_ok rs \<and> tiles (start - 1) rs to \<and>
    (\<forall>(s, e) \<in> set rs. e - s < trace_stream_step_size cfg)"
  using assms
proof (induction "nat (to + 1 - start)" arbitrary: start rule: less_induct)
  case less
  let ?step = "trace_stream_step_size cfg"
  note unfold = trace_ranges.simps [of ?step to start]
  show ?case
  proof (cases "start > to")
    case True
    with less.prems show ?thesis by (intro exI [of _ "[]"]) (simp add: unfold io_ok_def)
  next
    case False
    let ?e = "min (start + ?step - 1) to"
    have sums: "i32_checked (start + ?step) = Some (start + ?step)" "i32_checked (?e + 1) = Some (?e + 1)"
      using less.prems trace_step False by (auto simp: i32_checked_def i32_range_def)
    have "nat (to + 1 - (?e + 1)) < nat (to + 1 - start)" using False less.prems trace_step by auto
    from less.hyps [OF this] less.prems False trace_step
    obtain rs where "trace_ranges ?step to (?e + 1) = io_ok rs" "tiles ?e rs to" "\<forall>(s, e) \<in> set rs. e - s < ?step"
      by auto
    then show ?thesis
      using sums False trace_step
      by (intro exI [of _ "(start, ?e) # rs"]) (auto simp: unfold io_ok_def Let_def)
  qed
qed

lemma traces_complete:
  assumes "traces node cfg s e addrs = io_ok ts"
  shows "ts = range_traces traces_at addrs s e"
proof -
  from assms obtain k where "nd_traces node k s e addrs = Inr ts"
    unfolding traces_def by (rule settle_limited [OF retries])
  then show ?thesis using node_traces by (simp add: range_traces_def)
qed

lemma trace_stream_complete:
  assumes "0 \<le> from" "from \<le> to" "to \<le> 1073741822" "trace_stream node cfg from to addrs = io_ok ts"
  shows "ts = range_traces traces_at addrs from to"
proof -
  obtain rs where rs: "trace_ranges (trace_stream_step_size cfg) to from = io_ok rs" "tiles (from - 1) rs to"
    using trace_ranges_tile [of "from" to] assms by auto
  with assms obtain tss where tss: "list_all2 (\<lambda>(s, e) ts. traces node cfg s e addrs = io_ok ts) rs tss"
    and ts: "ts = concat tss"
    by (auto simp: trace_stream_def io_bind_ok io_map_ok case_prod_unfold)
  from tss have "tss = map (\<lambda>(s, e). range_traces traces_at addrs s e) rs"
    by (induction rule: list_all2_induct) (auto dest: traces_complete)
  with ts show ?thesis
    using tiles_concat [OF rs(2), of "\<lambda>n. filter (calls_to (set addrs)) (traces_at n)"]
    by (simp add: range_traces_def)
qed

lemma calls_in_block_range_complete:
  assumes "0 \<le> from" "from \<le> to" "to \<le> 1073741822" "calls_in_block_range node cfg from to f = io_ok calls"
  shows "calls = filter (\<lambda>c. call_matches f c = Some True \<and> (\<exists>b sigs. (call_to c, b, sigs) \<in> set f \<and> b \<le> to))
    (List.map_filter try_from_trace (concat (map traces_at [from..to])))"
proof -
  let ?addrs = "map fst (filter (\<lambda>(_, start_block, _). start_block \<le> to) f)"
  let ?all = "List.map_filter try_from_trace (concat (map traces_at [from..to]))"
  have mem: "call_to c \<in> set ?addrs \<longleftrightarrow> (\<exists>b sigs. (call_to c, b, sigs) \<in> set f \<and> b \<le> to)" for c
    by force
  have "calls = filter (\<lambda>c. call_matches f c = Some True) (filter (\<lambda>c. call_to c \<in> set ?addrs) ?all)"
  proof (cases "?addrs = []")
    case True
    with assms(4) show ?thesis by (simp add: calls_in_block_range_def)
  next
    case False
    with assms(4) obtain ts where ts: "trace_stream node cfg from to ?addrs = io_ok ts"
      and kept: "filter_calls f (List.map_filter try_from_trace ts) = io_ok calls"
      by (auto simp: calls_in_block_range_def io_bind_ok Let_def)
    have "ts = filter (calls_to (set ?addrs)) (concat (map traces_at [from..to]))"
      using trace_stream_complete [OF assms(1-3) ts] by (simp add: range_traces_def filter_concat comp_def)
    then have "List.map_filter try_from_trace ts = filter (\<lambda>c. call_to c \<in> set ?addrs) ?all"
      by (simp only: calls_of_filtered_traces)
    with filter_calls_ok [OF kept] show ?thesis by simp
  qed
  then show ?thesis by (simp only: mem filter_filter conj_commute)
qed

subsection \<open>Blocks with triggers\<close>

lemma block_at_number: "0 \<le> n \<Longrightarrow> n \<le> 1073741822 \<Longrightarrow> light_block_number (block_at n) = Some n"
  by (simp add: light_block_number_def block_number_at i32_checked_def i32_range_def)

lemma block_at_ptr: "0 \<le> n \<Longrightarrow> n \<le> 1073741822 \<Longrightarrow>
    light_block_ptr (block_at n) = Some \<lparr>bp_hash = hash_at n, bp_number = n\<rparr>"
  by (simp add: light_block_ptr_def block_number_at block_hash_at block_ptr_from_u64_def i32_checked_def i32_range_def)

lemma load_block_complete:
  assumes "settle id ''Timeout elapsed'' (run_retry OnError (Some (request_retries cfg))
      (\<lambda>k. found_block missing node (nd_block_by_hash node k (hash_at n)))) = io_ok b"
    and "0 \<le> n" "n \<le> 1073741822"
  shows "b = block_at n"
proof -
  from assms(1) obtain k where "found_block missing node (nd_block_by_hash node k (hash_at n)) = Inr b"
    by (rule settle_limited [OF retries])
  then have "nd_block_by_hash node k (hash_at n) = Inr (Some b)"
    by (auto simp: found_block_def split: sum.splits timeout_error.splits option.splits)
  with assms(2,3) show ?thesis by (rule node_by_hash)
qed

lemma load_blocks_complete:
  assumes "load_blocks node cfg (map hash_at ns) = io_ok blocks" and "set ns \<subseteq> {0..1073741822}"
  shows "mset blocks = mset (map block_at ns)"
proof -
  from assms obtain new_blocks where new: "load_blocks_rpc node cfg (map hash_at ns) = io_ok new_blocks"
    and blocks: "blocks = sort_key number_key new_blocks"
    by (auto simp: load_blocks_def io_bind_ok)
  have "new_blocks = map block_at ns"
    using new assms(2) unfolding load_blocks_rpc_def io_map_ok list_all2_map1
    by (induction ns arbitrary: new_blocks) (auto simp: list_all2_Cons1 dest!: load_block_complete)
  with blocks show ?thesis by simp
qed

lemma block_range_to_ptrs_complete:
  assumes "block_range_to_ptrs node from to = io_ok ptrs" "0 \<le> from" "to \<le> 1073741822"
  shows "ptrs = map (\<lambda>n. \<lparr>bp_hash = hash_at n, bp_number = n\<rparr>) [from..to]"
proof -
  have "list_all2 (\<lambda>n p. 0 \<le> n \<longrightarrow> n \<le> 1073741822 \<longrightarrow> p = \<lparr>bp_hash = hash_at n, bp_number = n\<rparr>) [from..to] ptrs"
    using assms(1) unfolding block_range_to_ptrs_def load_block_ptrs_rpc_def io_map_ok
  proof (rule list_all2_mono, intro impI)
    fix n p assume n: "0 \<le> n" "n \<le> 1073741822"
      and "io_bind (settle id ''Timeout elapsed'' (run_retry OnError None
         (\<lambda>k. found_block ''Ethereum node did not find block'' node (nd_block_by_number node k n))))
       (\<lambda>block. io_of (light_block_ptr block)) = io_ok p"
    then obtain b where b: "settle id ''Timeout elapsed'' (run_retry OnError None
         (\<lambda>k. found_block ''Ethereum node did not find block'' node (nd_block_by_number node k n))) = io_ok b"
      and p: "light_block_ptr b = Some p"
      by (auto simp: io_bind_ok)
    from b obtain k where "found_block ''Ethereum node did not find block'' node (nd_block_by_number node k n) = Inr b"
      by (rule settle_unlimited)
    then have "nd_block_by_number node k n = Inr (Some b)"
      by (auto simp: found_block_def split: sum.splits timeout_error.splits option.splits)
    with p n show "p = \<lparr>bp_hash = hash_at n, bp_number = n\<rparr>"
      using node_by_number block_at_ptr by fastforce
  qed
  with assms(2,3) show ?thesis by (auto simp: list_eq_iff_nth_eq list_all2_conv_all_nth)
qed

lemma block_hash_by_number_complete:
  assumes "block_hash_by_block_number node n = io_ok (Some h)"
  shows "h = hash_at n"
proof -
  from assms obtain k where k: "(case nd_block_by_number node k n of
      Inl e \<Rightarrow> Inl e | Inr block_opt \<Rightarrow> Inr (Option.bind block_opt lb_hash)) = Inr (Some h)"
    unfolding block_hash_by_block_number_def by (rule settle_unlimited)
  then obtain b where "nd_block_by_number node k n = Inr (Some b)" "lb_hash b = Some h"
    by (auto split: sum.splits Option.bind_splits)
  with node_by_number block_hash_at show ?thesis by force
qed

lemma log_triggers_ok:
  assumes "0 \<le> from" "from \<le> to" "to \<le> 1073741822" "log_triggers node cfg from to flt = io_ok tss"
  shows "set (concat tss) = TLog ` {log. (\<exists>n \<in> {from..to}. log \<in> set (logs_at n)) \<and> wanted flt to (TLog log)}"
proof (cases "tf_log flt = []")
  case True
  with assms(4) show ?thesis by (simp add: log_triggers_def io_when_def)
next
  case False
  with assms(4) obtain logs where logs: "logs_in_block_range node cfg from to (tf_log flt) = io_ok logs"
    and tss: "tss = [map TLog logs]"
    by (auto simp: log_triggers_def io_when_def io_bind_ok)
  have "set logs = {log. (\<exists>n \<in> {from..to}. log \<in> set (logs_at n)) \<and> wanted flt to (TLog log)}"
    unfolding logs_in_block_range_complete [OF assms(1-3) logs] by (auto simp: range_logs_def)
  then show ?thesis by (simp add: tss)
qed

lemma call_triggers_ok:
  assumes "0 \<le> from" "from \<le> to" "to \<le> 1073741822" "call_triggers node cfg from to flt = io_ok tss"
  shows "set (concat tss) = TCall ` {call. (\<exists>n \<in> {from..to}.
    call \<in> set (List.map_filter try_from_trace (traces_at n))) \<and> wanted flt to (TCall call)}"
proof (cases "tf_call flt = []")
  case True
  with assms(4) show ?thesis by (simp add: call_triggers_def io_when_def)
next
  case False
  with assms(4) obtain calls where calls: "calls_in_block_range node cfg from to (tf_call flt) = io_ok calls"
    and tss: "tss = [map TCall calls]"
    by (auto simp: call_triggers_def io_when_def io_bind_ok)
  have "set calls = {call. (\<exists>n \<in> {from..to}. call \<in> set (List.map_filter try_from_trace (traces_at n))) \<and>
      wanted flt to (TCall call)}"
    unfolding calls_in_block_range_complete [OF assms(1-3) calls] by (auto simp: set_map_filter_concat)
  then show ?thesis by (simp add: tss)
qed

lemma block_triggers_ok:
  assumes "0 \<le> from" "from \<le> to" "to \<le> 1073741822" "block_triggers node cfg from to flt = io_ok tss"
  shows "t \<in> set (concat tss) \<Longrightarrow> \<exists>n \<in> {from..to}. \<exists>ty. t = TBlock \<lparr>bp_hash = hash_at n, bp_number = n\<rparr> ty"
    and "n \<in> {from..to} \<Longrightarrow> trigger_every_block (tf_block flt) \<Longrightarrow>
      TBlock \<lparr>bp_hash = hash_at n, bp_number = n\<rparr> Every \<in> set (concat tss)"
proof -
  consider (every) ptrs where "trigger_every_block (tf_block flt)" "block_range_to_ptrs node from to = io_ok ptrs"
      "tss = [map (\<lambda>ptr. TBlock ptr Every) ptrs]"
    | (calls) calls where "\<not> trigger_every_block (tf_block flt)"
      "calls_in_block_range node cfg from to (call_filter_from_block (tf_block flt)) = io_ok calls"
      "tss = [map (\<lambda>call. TBlock (call_block_ptr call) (WithCallTo (call_to call))) calls]"
    | (none) "\<not> trigger_every_block (tf_block flt)" "tss = []"
    using assms(4) by (auto simp: block_triggers_def io_when_def io_bind_ok split: if_splits)
  then have "(t \<in> set (concat tss) \<longrightarrow> (\<exists>n \<in> {from..to}. \<exists>ty. t = TBlock \<lparr>bp_hash = hash_at n, bp_number = n\<rparr> ty)) \<and>
    (n \<in> {from..to} \<longrightarrow> trigger_every_block (tf_block flt) \<longrightarrow>
      TBlock \<lparr>bp_hash = hash_at n, bp_number = n\<rparr> Every \<in> set (concat tss))"
  proof cases
    case every
    show ?thesis unfolding every(3) block_range_to_ptrs_complete [OF every(2) assms(1,3)] by auto
  next
    case calls
    have ptr: "\<exists>n \<in> {from..to}. call_block_ptr call = \<lparr>bp_hash = hash_at n, bp_number = n\<rparr>" if "call \<in> set calls" for call
    proof -
      from that obtain n t where n: "n \<in> {from..to}" "t \<in> set (traces_at n)" "try_from_trace t = Some call"
        unfolding calls_in_block_range_complete [OF assms(1-3) calls(2)]
        by (auto simp: List.map_filter_def)
      then have "call_block_number call = as_i32 (tr_block_number t)" "call_block_hash call = tr_block_hash t"
        by (auto simp: try_from_trace_def split: trace_action.splits option.splits trace_result.splits Option.bind_splits if_splits)
      with n trace_at [OF n(2)] assms(1,3) show ?thesis by (auto simp: call_block_ptr_def as_i32_small)
    qed
    show ?thesis using calls(1) ptr by (auto simp: calls(3))
  next
    case none
    then show ?thesis by simp
  qed
  then show "t \<in> set (concat tss) \<Longrightarrow> \<exists>n \<in> {from..to}. \<exists>ty. t = TBlock \<lparr>bp_hash = hash_at n, bp_number = n\<rparr> ty"
    and "n \<in> {from..to} \<Longrightarrow> trigger_every_block (tf_block flt) \<Longrightarrow>
      TBlock \<lparr>bp_hash = hash_at n, bp_number = n\<rparr> Every \<in> set (concat tss)"
    by blast+
qed

lemma scan_range_ok:
  assumes "0 \<le> from" "from \<le> to" "to \<le> 1073741822" "scan_range done_order node cfg from to flt = io_ok ts"
    and perm: "\<And>xss. mset (done_order xss) = mset xss"
  shows "t \<in> set ts \<Longrightarrow> \<exists>n \<in> {from..to}. chain_trigger hash_at logs_at traces_at n t"
    and "n \<in> {from..to} \<Longrightarrow> chain_trigger hash_at logs_at traces_at n t \<Longrightarrow> wanted flt to t \<Longrightarrow> t \<in> set ts"
proof -
  obtain ls cs bs where parts: "log_triggers node cfg from to flt = io_ok ls"
      "call_triggers node cfg from to flt = io_ok cs" "block_triggers node cfg from to flt = io_ok bs"
    and ts: "ts = concat (done_order (ls @ cs @ bs))"
    using assms(4) by (auto simp: scan_range_def io_bind_ok)
  have "set (done_order (ls @ cs @ bs)) = set (ls @ cs @ bs)" using perm by (rule mset_eq_setD)
  then have set_ts: "set ts = set (concat ls) \<union> set (concat cs) \<union> set (concat bs)" by (auto simp: ts)
  note logs = log_triggers_ok [OF assms(1-3) parts(1)] and calls = call_triggers_ok [OF assms(1-3) parts(2)]
    and blocks = block_triggers_ok [OF assms(1-3) parts(3)]
  show "\<exists>n \<in> {from..to}. chain_trigger hash_at logs_at traces_at n t" if "t \<in> set ts"
    using that blocks(1) [of t] unfolding set_ts logs calls by fastforce
  show "t \<in> set ts" if "n \<in> {from..to}" "chain_trigger hash_at logs_at traces_at n t" "wanted flt to t"
  proof (cases t)
    case (TBlock ptr ty)
    with that blocks(2) [of n] show ?thesis unfolding set_ts by simp
  next
    case (TCall call)
    with that have "call \<in> {call. (\<exists>n \<in> {from..to}. call \<in> set (List.map_filter try_from_trace (traces_at n))) \<and>
        wanted flt to (TCall call)}" by auto
    then show ?thesis unfolding set_ts logs calls TCall by blast
  next
    case (TLog log)
    with that have "log \<in> {log. (\<exists>n \<in> {from..to}. log \<in> set (logs_at n)) \<and> wanted flt to (TLog log)}" by auto
    then show ?thesis unfolding set_ts logs calls TLog by blast
  qed
qed

lemma chain_trigger_block:
  assumes "0 \<le> n" "n \<le> 1073741822" "chain_trigger hash_at logs_at traces_at n t"
  shows "trigger_block_number t = Some n" "trigger_block_hash t = Some (hash_at n)"
proof -
  have "trigger_block_number t = Some n \<and> trigger_block_hash t = Some (hash_at n)"
  proof (cases t)
    case (TBlock ptr ty)
    with assms show ?thesis by (simp add: hash_at_length)
  next
    case (TCall call)
    with assms obtain tr where "tr \<in> set (traces_at n)" "try_from_trace tr = Some call"
      by (auto simp: List.map_filter_def)
    with assms(1,2) trace_at TCall show ?thesis
      by (auto simp: try_from_trace_def as_i32_small
          split: trace_action.splits option.splits trace_result.splits Option.bind_splits if_splits)
  next
    case (TLog log)
    with assms log_at [of log n] show ?thesis by (auto simp: i32_checked_def i32_range_def)
  qed
  then show "trigger_block_number t = Some n" "trigger_block_hash t = Some (hash_at n)" by auto
qed

lemma hash_of_number:
  "0 \<le> n \<Longrightarrow> n \<le> 1073741822 \<Longrightarrow> 0 \<le> m \<Longrightarrow> m \<le> 1073741822 \<Longrightarrow> hash_at n = hash_at m \<longleftrightarrow> n = m"
  using hash_at_inj by (auto simp: inj_on_def)

lemma loaded_blocks:
  assumes ts: "\<And>t. t \<in> set ts \<Longrightarrow> \<exists>n \<in> {from..to}. chain_trigger hash_at logs_at traces_at n t"
    and range: "0 \<le> from" "from \<le> to" "to \<le> 1073741822"
    and hashes: "list_all2 (\<lambda>t h. trigger_block_hash t = Some h) ts hashes"
    and load: "load_blocks node cfg (remdups (hashes @ [hash_at to])) = io_ok loaded"
  obtains ns where "set ns = insert to {n. \<exists>t \<in> set ts. trigger_block_number t = Some n}" "distinct ns"
    "set ns \<subseteq> {from..to}" "mset loaded = mset (map block_at ns)"
proof -
  define num where "num t = the (trigger_block_number t)" for t
  have num: "num t \<in> {from..to} \<and> trigger_block_number t = Some (num t) \<and> trigger_block_hash t = Some (hash_at (num t))"
    if t: "t \<in> set ts" for t
  proof -
    from ts [OF t] obtain n where "n \<in> {from..to}" "chain_trigger hash_at logs_at traces_at n t" by blast
    with chain_trigger_block [of n t] range show ?thesis by (auto simp: num_def)
  qed
  have "hashes = map (hash_at \<circ> num) ts"
    using hashes num by (auto simp: list_all2_conv_all_nth list_eq_iff_nth_eq)
  then have all: "hashes @ [hash_at to] = map hash_at (map num ts @ [to])" by simp
  have inj: "inj_on hash_at (set (map num ts @ [to]))"
    using range by (intro inj_on_subset [OF hash_at_inj]) (auto dest!: num)
  have "remdups (map hash_at xs) = map hash_at (remdups xs)" if "inj_on hash_at (set xs)" for xs
    using that by (induction xs) (auto simp: inj_on_def)
  from this [OF inj] load have "load_blocks node cfg (map hash_at (remdups (map num ts @ [to]))) = io_ok loaded"
    unfolding all by simp
  then have "mset loaded = mset (map block_at (remdups (map num ts @ [to])))"
    by (rule load_blocks_complete) (use range in \<open>auto dest!: num\<close>)
  then show thesis
    using num range by (intro that [of "remdups (map num ts @ [to])"]) force+
qed

lemma attached_triggers:
  assumes "triggers_by_block ts [] = io_ok by_block"
    and "map_of (al_upsert to (\<lambda>old. case old of None \<Rightarrow> [] | Some l \<Rightarrow> l) by_block) n = Some l"
  shows "l = filter (\<lambda>t. trigger_block_number t = Some n) ts"
  using assms(2) triggers_by_block_ok [OF assms(1), of n]
  by (cases "map_of by_block n") (auto simp: group_at_def split: if_splits)

lemma blocks_of_range:
  assumes range: "0 \<le> from" "from \<le> to" "to \<le> 1073741822"
    and perm: "\<And>xss. mset (done_order xss) = mset xss"
    and ok: "blocks_with_triggers done_order node cfg from to flt = io_ok bts"
  obtains ts ns where "scan_range done_order node cfg from to flt = io_ok ts"
    "set ns = insert to {n. \<exists>t \<in> set ts. trigger_block_number t = Some n}" "distinct ns" "set ns \<subseteq> {from..to}"
    "mset (map ebt_block bts) = mset (map block_at ns)"
    "\<And>bt. bt \<in> set bts \<Longrightarrow> \<exists>n \<in> set ns. ebt_block bt = block_at n \<and> bt_ptr_number bt = Some n \<and>
       set (ebt_triggers bt) = {t \<in> set ts. trigger_block_number t = Some n}"
    "sorted (map (the \<circ> bt_ptr_number) bts)"
proof -
  let ?upsert = "al_upsert to (\<lambda>old. case old of None \<Rightarrow> [] | Some l \<Rightarrow> l)"
  obtain ts to_hash hashes by_block loaded attached where
    scan: "scan_range done_order node cfg from to flt = io_ok ts"
    and to_hash: "block_hash_by_block_number node to = io_ok (Some to_hash)"
    and hashes: "list_all2 (\<lambda>t h. trigger_block_hash t = Some h) ts hashes"
    and by_block: "triggers_by_block ts [] = io_ok by_block"
    and load: "load_blocks node cfg (remdups (hashes @ [to_hash])) = io_ok loaded"
    and attach: "attach_triggers loaded (?upsert by_block) = io_ok attached"
    and check: "check_range from to attached = io_ok bts"
    using ok by (auto simp: blocks_with_triggers_def io_bind_ok io_map_ok split: option.splits)
  obtain ns where ns: "set ns = insert to {n. \<exists>t \<in> set ts. trigger_block_number t = Some n}" "distinct ns"
    "set ns \<subseteq> {from..to}" "mset loaded = mset (map block_at ns)"
    by (rule loaded_blocks [OF scan_range_ok(1) [OF range scan perm] range hashes
          load [unfolded block_hash_by_number_complete [OF to_hash]]])
  note att = attach_triggers_ok [OF attach] and chk = check_range_ok [OF check]
  have blocks: "mset (map ebt_block bts) = mset (map block_at ns)"
    using att chk(2) ns(4) by (metis mset_map)
  have "\<exists>n \<in> set ns. ebt_block bt = block_at n \<and> bt_ptr_number bt = Some n \<and>
      set (ebt_triggers bt) = {t \<in> set ts. trigger_block_number t = Some n}" if bt: "bt \<in> set bts" for bt
  proof -
    from bt have "ebt_block bt \<in> set (map ebt_block bts)" by simp
    then obtain n where n: "n \<in> set ns" "ebt_block bt = block_at n"
      using mset_eq_setD [OF blocks] by auto
    then have num: "light_block_number (ebt_block bt) = Some n" "bt_ptr_number bt = Some n"
      using ns(3) range by (auto simp: block_at_number block_at_ptr bt_ptr_number_def)
    from bt chk(1) att num(1) obtain l where "map_of (?upsert by_block) n = Some l" "sort_triggers l = Some (ebt_triggers bt)"
      by fastforce
    then have "set (ebt_triggers bt) = {t \<in> set ts. trigger_block_number t = Some n}"
      using attached_triggers [OF by_block] sort_triggers_set by fastforce
    with n num show ?thesis by blast
  qed
  from that [OF scan ns(1-3) blocks this chk(4)] show thesis .
qed

lemma blocks_with_triggers_complete:
  assumes range: "0 \<le> from" "from \<le> to" "to \<le> 1073741822"
    and perm: "\<And>xss. mset (done_order xss) = mset xss"
    and ok: "blocks_with_triggers done_order node cfg from to flt = io_ok bts"
  shows "\<exists>ns. sorted_wrt (<) ns \<and> set ns \<subseteq> {from..to} \<and> to \<in> set ns \<and> map ebt_block bts = map block_at ns"
    and "bt \<in> set bts \<Longrightarrow> t \<in> set (ebt_triggers bt) \<Longrightarrow>
      \<exists>n \<in> {from..to}. ebt_block bt = block_at n \<and> chain_trigger hash_at logs_at traces_at n t"
    and "n \<in> {from..to} \<Longrightarrow> chain_trigger hash_at logs_at traces_at n t \<Longrightarrow> wanted flt to t \<Longrightarrow>
      \<exists>bt \<in> set bts. ebt_block bt = block_at n \<and> t \<in> set (ebt_triggers bt)"
proof -
  obtain ts ns where scan: "scan_range done_order node cfg from to flt = io_ok ts"
    and ns: "set ns = insert to {n. \<exists>t \<in> set ts. trigger_block_number t = Some n}" "distinct ns" "set ns \<subseteq> {from..to}"
    and blocks: "mset (map ebt_block bts) = mset (map block_at ns)"
    and each: "\<And>bt. bt \<in> set bts \<Longrightarrow> \<exists>n \<in> set ns. ebt_block bt = block_at n \<and> bt_ptr_number bt = Some n \<and>
       set (ebt_triggers bt) = {t \<in> set ts. trigger_block_number t = Some n}"
    and sorted: "sorted (map (the \<circ> bt_ptr_number) bts)"
    by (rule blocks_of_range [OF range perm ok]) blast
  note found = scan_range_ok [OF range scan perm]
  have number: "trigger_block_number t = Some m" if "m \<in> {from..to}" "chain_trigger hash_at logs_at traces_at m t" for m t
    using chain_trigger_block(1) [of m t] that range by auto
  have block_at_inj: "inj_on block_at (set ns)"
  proof (rule inj_onI)
    have number: "light_block_number (block_at x) = Some x" if "x \<in> set ns" for x
      using that ns(3) range by (intro block_at_number) auto
    fix x y assume xy: "x \<in> set ns" "y \<in> set ns" and eq: "block_at x = block_at y"
    have "Some x = Some y" unfolding number [OF xy(1), symmetric] number [OF xy(2), symmetric] eq ..
    then show "x = y" by simp
  qed
  show "\<exists>ns. sorted_wrt (<) ns \<and> set ns \<subseteq> {from..to} \<and> to \<in> set ns \<and> map ebt_block bts = map block_at ns"
  proof (intro exI conjI)
    let ?ms = "map (the \<circ> bt_ptr_number) bts"
    have num: "ebt_block bt = block_at (the (bt_ptr_number bt)) \<and> the (bt_ptr_number bt) \<in> {from..to}"
      if "bt \<in> set bts" for bt
      using each [OF that] ns(3) by (elim bexE conjE) auto
    then show eq: "map ebt_block bts = map block_at ?ms" by simp
    have "distinct (map block_at ns)" using ns(2) block_at_inj by (simp add: distinct_map)
    then have "distinct (map block_at ?ms)" using blocks eq by (metis mset_eq_imp_distinct_iff)
    then have "distinct ?ms" by (simp only: distinct_map)
    with sorted show "sorted_wrt (<) ?ms" by (simp only: strict_sorted_iff)
    show "set ?ms \<subseteq> {from..to}" using num by auto
    have "block_at to \<in> set (map ebt_block bts)" using mset_eq_setD [OF blocks] ns(1) by simp
    then obtain bt where bt: "bt \<in> set bts" "ebt_block bt = block_at to" by auto
    obtain m where "m \<in> set ns" "block_at m = block_at to" "bt_ptr_number bt = Some m"
      using each [OF bt(1)] bt(2) by auto
    moreover have "to \<in> set ns" using ns(1) by simp
    ultimately have "bt_ptr_number bt = Some to" using block_at_inj by (auto dest: inj_onD)
    with bt(1) show "to \<in> set ?ms" by force
  qed
  show "\<exists>n \<in> {from..to}. ebt_block bt = block_at n \<and> chain_trigger hash_at logs_at traces_at n t"
    if bt: "bt \<in> set bts" "t \<in> set (ebt_triggers bt)"
  proof -
    from each [OF bt(1)] bt(2) obtain n where n: "n \<in> set ns" "ebt_block bt = block_at n" "t \<in> set ts"
      "trigger_block_number t = Some n" by auto
    from found(1) [OF n(3)] obtain m where m: "m \<in> {from..to}" "chain_trigger hash_at logs_at traces_at m t" ..
    with number [OF m] n show ?thesis by auto
  qed
  show "\<exists>bt \<in> set bts. ebt_block bt = block_at n \<and> t \<in> set (ebt_triggers bt)"
    if n: "n \<in> {from..to}" "chain_trigger hash_at logs_at traces_at n t" "wanted flt to t"
  proof -
    have t: "t \<in> set ts" "trigger_block_number t = Some n" using found(2) number n by blast+
    then have "n \<in> set ns" using ns(1) by auto
    then have "block_at n \<in> set (map ebt_block bts)" using mset_eq_setD [OF blocks] by simp
    then obtain bt where bt: "bt \<in> set bts" "ebt_block bt = block_at n" by auto
    obtain m where m: "m \<in> set ns" "block_at m = block_at n"
      "set (ebt_triggers bt) = {t \<in> set ts. trigger_block_number t = Some m}"
      using each [OF bt(1)] bt(2) by auto
    from inj_onD [OF block_at_inj m(2) m(1) \<open>n \<in> set ns\<close>] m(3) t bt show ?thesis by blast
  qed
qed

end

section \<open>A reference node\<close>

text \<open>The node answers every request from the first blocks of a chain; the hash of a block spells its
  number.\<close>

definition ref_hash :: "block_number \<Rightarrow> h256" where
  "ref_hash n = map (\<lambda>i. of_int (n div 256 ^ i)) [0..<32]"

definition ref_block :: "block_number \<Rightarrow> light_block" where
  "ref_block n = \<lparr>lb_hash = Some (ref_hash n), lb_parent_hash = ref_hash (n - 1), lb_number = Some (nat n),
     lb_transactions = []\<rparr>"

definition ref_node :: "(block_number \<Rightarrow> eth_log list) \<Rightarrow> (block_number \<Rightarrow> eth_trace list) \<Rightarrow> block_number \<Rightarrow> eth_node" where
  "ref_node logs_at traces_at head =
     \<lparr>nd_logs = (\<lambda>rd k s e f. Inr (range_logs logs_at f s e)),
      nd_traces = (\<lambda>k s e addrs. Inr (range_traces traces_at addrs s e)),
      nd_block_by_number = (\<lambda>k n. Inr (if 0 \<le> n \<and> n \<le> head then Some (ref_block n) else None)),
      nd_block_by_hash = (\<lambda>k h. Inr (map_option ref_block (find (\<lambda>n. ref_hash n = h) [0..head]))),
      nd_call = (\<lambda>k addr data id. Inl Elapsed), web3_display = (\<lambda>e. []), web3_debug = (\<lambda>e. [])\<rparr>"

definition default_config :: eth_config where
  "default_config = \<lparr>request_retries = 10, trace_stream_step_size = 50, max_event_only_range = 500\<rparr>"

lemma ref_hash_length: "length (ref_hash n) = 32"
  by (simp add: ref_hash_def del: upt_rec_numeral)

lemma ref_hash_nth: "i < 32 \<Longrightarrow> ref_hash n ! i = of_int (n div 256 ^ i)"
  unfolding ref_hash_def by (subst nth_map) (simp_all del: upt_rec_numeral)

lemma four_bytes:
  fixes x :: int
  assumes "0 \<le> x" "x < 4294967296"
  shows "x = x mod 256 + 256 * (x div 256 mod 256) + 65536 * (x div 65536 mod 256) + 16777216 * (x div 16777216 mod 256)"
proof -
  have "x div 65536 = x div 256 div 256" "x div 16777216 = x div 65536 div 256"
    using zdiv_zmult2_eq [of 256 x 256] zdiv_zmult2_eq [of 256 x 65536] by simp_all
  moreover have "x div 16777216 mod 256 = x div 16777216" using assms by auto
  ultimately show ?thesis
    using div_mult_mod_eq [of x 256] div_mult_mod_eq [of "x div 256" 256] div_mult_mod_eq [of "x div 65536" 256]
    by linarith
qed

lemma ref_hash_inj: "inj_on ref_hash {0..1073741822}"
proof (rule inj_onI)
  fix n m assume nm: "n \<in> {0..1073741822}" "m \<in> {0..1073741822}" and eq: "ref_hash n = ref_hash m"
  have byte: "(n div 256 ^ i) mod 256 = (m div 256 ^ i) mod 256" if "i < 32" for i
  proof -
    have "(of_int (n div 256 ^ i) :: u8) = of_int (m div 256 ^ i)"
      unfolding ref_hash_nth [OF that, symmetric] eq ..
    then have "uint (of_int (n div 256 ^ i) :: u8) = uint (of_int (m div 256 ^ i) :: u8)" by simp
    then show ?thesis by (simp add: unsigned_of_int take_bit_eq_mod)
  qed
  have small: "0 < (32 :: nat)" "1 < (32 :: nat)" "2 < (32 :: nat)" "3 < (32 :: nat)" by simp_all
  have powers: "x div 256 ^ 0 = x" "x div 256 ^ 1 = x div 256" "x div 256 ^ 2 = x div 65536"
    "x div 256 ^ 3 = x div 16777216" for x :: int
    by simp_all
  note bytes = byte [OF small(1), unfolded powers] byte [OF small(2), unfolded powers]
    byte [OF small(3), unfolded powers] byte [OF small(4), unfolded powers]
  have "0 \<le> n" "n < 4294967296" "0 \<le> m" "m < 4294967296" using nm by auto
  then show "n = m" using four_bytes [of n, unfolded bytes] four_bytes [of m] by metis
qed

definition sample_logs_at :: "block_number \<Rightarrow> eth_log list" where
  "sample_logs_at n = (if n = 5 then [sample_event_log\<lparr>log_block_number := Some 5,
     log_block_hash := Some (ref_hash 5), log_transaction_hash := Some (ref_hash 5)\<rparr>] else [])"

definition sample_node :: eth_node where
  "sample_node = ref_node sample_logs_at (\<lambda>_. []) 100"

lemma ref_node_by_hash:
  assumes "0 \<le> n" "n \<le> 1073741822" "head \<le> 1073741822"
    and "nd_block_by_hash (ref_node logs_at traces_at head) k (ref_hash n) = Inr (Some b)"
  shows "b = ref_block n"
proof -
  from assms(4) obtain m where m: "find (\<lambda>m. ref_hash m = ref_hash n) [0..head] = Some m" "b = ref_block m"
    by (auto simp: ref_node_def)
  from find_eq_SomeD [OF m(1)] assms have "m \<in> {0..1073741822}" "n \<in> {0..1073741822}" "ref_hash m = ref_hash n" by auto
  with ref_hash_inj m(2) show ?thesis by (auto dest: inj_onD)
qed

interpretation ref: eth_chain sample_node default_config ref_hash ref_block sample_logs_at "\<lambda>_. []"
proof
  show "b = ref_block n" if "0 \<le> n" "n \<le> 1073741822" "nd_block_by_hash sample_node k (ref_hash n) = Inr (Some b)" for n k b
    using that unfolding sample_node_def by (intro ref_node_by_hash) auto
  show "b = ref_block n" if "nd_block_by_number sample_node k n = Inr (Some b)" for k n b
    using that by (simp add: sample_node_def ref_node_def split: if_splits)
  show "log_block_number log = Some (nat n) \<and> log_block_hash log = Some (ref_hash n) \<and> log_transaction_index log \<noteq> None"
    if "log \<in> set (sample_logs_at n)" for log n
    using that by (simp add: sample_logs_at_def sample_event_log_def split: if_splits)
  show "inj_on ref_hash {0..1073741822}" by (rule ref_hash_inj)
qed (simp_all add: sample_node_def ref_node_def default_config_def range_logs_def range_traces_def ref_block_def ref_hash_length)

section \<open>Properties\<close>

text \<open>C6. Against a node that follows its documentation the log stream always returns, never panics,
  and either reports an error of the node or gives exactly the logs of the range that the filter
  asks for, in order and each once, however often the range had to be split.\<close>

theorem log_stream_exact:
  assumes "eth_chain node cfg hash_at block_at logs_at traces_at"
    and "0 \<le> from" "from \<le> to" "to \<le> 1073741822"
  shows "(\<exists>s. log_stream node cfg from to f = io_err (Raised s)) \<or>
    log_stream node cfg from to f = io_ok (range_logs logs_at f from to)"
  by (rule eth_chain.log_stream_complete [OF assms])

theorem log_stream_exact_witness:
  "eth_chain sample_node default_config ref_hash ref_block sample_logs_at (\<lambda>_. []) \<and>
   ((\<exists>s. log_stream sample_node default_config 3 7 \<lparr>contracts = [7], event_signatures = log_topics sample_event_log\<rparr> =
       io_err (Raised s)) \<or>
    log_stream sample_node default_config 3 7 \<lparr>contracts = [7], event_signatures = log_topics sample_event_log\<rparr> =
       io_ok (range_logs sample_logs_at \<lparr>contracts = [7], event_signatures = log_topics sample_event_log\<rparr> 3 7))"
  using log_stream_exact [OF ref.eth_chain_axioms, of 3 7] ref.eth_chain_axioms by simp

text \<open>C5. Against such a node the blocks with triggers of a range are blocks of the chain, in strictly
  ascending order, within the range and ending with its last block; every trigger in a block belongs
  to it, and every log, call or block of the range that the filter asks for is in its block.\<close>

theorem blocks_with_triggers_exact:
  assumes "eth_chain node cfg hash_at block_at logs_at traces_at"
    and "0 \<le> from" "from \<le> to" "to \<le> 1073741822"
    and "\<And>xss. mset (done_order xss) = mset xss"
    and "blocks_with_triggers done_order node cfg from to flt = io_ok bts"
  shows "(\<exists>ns. sorted_wrt (<) ns \<and> set ns \<subseteq> {from..to} \<and> to \<in> set ns \<and> map ebt_block bts = map block_at ns) \<and>
    (\<forall>bt \<in> set bts. \<forall>t \<in> set (ebt_triggers bt).
       \<exists>n \<in> {from..to}. ebt_block bt = block_at n \<and> chain_trigger hash_at logs_at traces_at n t) \<and>
    (\<forall>n \<in> {from..to}. \<forall>t. chain_trigger hash_at logs_at traces_at n t \<longrightarrow> wanted flt to t \<longrightarrow>
       (\<exists>bt \<in> set bts. ebt_block bt = block_at n \<and> t \<in> set (ebt_triggers bt)))"
  using eth_chain.blocks_with_triggers_complete [OF assms(1-4) _ assms(6), OF assms(5)] by blast

definition sample_filter :: trigger_filter where
  "sample_filter = \<lparr>tf_log = [\<lparr>contracts = [7], event_signatures = log_topics sample_event_log\<rparr>],
     tf_call = [], tf_block = block_filter_default\<rparr>"

lemma sample_blocks:
  "\<exists>bts. blocks_with_triggers id sample_node default_config 3 7 sample_filter = io_ok bts \<and>
     map (lb_number \<circ> ebt_block) bts = [Some 5, Some 7]"
proof -
  have "case blocks_with_triggers id sample_node default_config 3 7 sample_filter of
      Some (Inr bts) \<Rightarrow> map (lb_number \<circ> ebt_block) bts = [Some 5, Some 7] | _ \<Rightarrow> False"
    by code_simp
  then show ?thesis by (auto simp: io_ok_def split: option.splits sum.splits)
qed

theorem blocks_with_triggers_exact_witness:
  "\<exists>bts. blocks_with_triggers id sample_node default_config 3 7 sample_filter = io_ok bts \<and>
     (\<exists>bt \<in> set bts. ebt_block bt = ref_block 5 \<and> TLog (hd (sample_logs_at 5)) \<in> set (ebt_triggers bt))"
proof -
  obtain bts where ok: "blocks_with_triggers id sample_node default_config 3 7 sample_filter = io_ok bts"
    using sample_blocks by blast
  have "wanted sample_filter 7 (TLog (hd (sample_logs_at 5)))"
    by (simp add: sample_filter_def sample_logs_at_def sample_event_log_def get_logs_matches_def)
  moreover have "chain_trigger ref_hash sample_logs_at (\<lambda>_. []) 5 (TLog (hd (sample_logs_at 5)))"
    by (simp add: sample_logs_at_def)
  ultimately show ?thesis
    using blocks_with_triggers_exact [OF ref.eth_chain_axioms _ _ _ _ ok] ok by force
qed

end
