(* ===== verification/Eth_Call.thy ===== *)
theory Eth_Call
  imports Eth_Adapter
begin

text \<open>
  Contract calls of the Ethereum adapter: \<open>call\<close> and \<open>contract_call\<close> in
  \<open>chain/ethereum/src/ethereum_adapter.rs\<close>. The functions of \<open>ethabi\<close> and \<open>hex\<close> that they use and the
  lower-casing of a message are the record \<open>call_lib\<close>.
\<close>

record call_lib =
  token_type_check :: "token \<Rightarrow> param_type \<Rightarrow> bool"
  encode_input :: "abi_function \<Rightarrow> token list \<Rightarrow> string + u8 list"
  decode_string_param :: "u8 list \<Rightarrow> string option"
  hex_payload :: "string \<Rightarrow> u8 list option"
  to_lowercase :: "string \<Rightarrow> string"

record ethereum_contract_call =
  cc_address :: address
  cc_block_ptr :: block_ptr
  cc_function :: abi_function
  cc_args :: "token list"

datatype contract_call_error =
    ABIError string
  | TypeError token param_type
  | EncodingError string
  | Web3Error web3_error
  | Revert string
  | CallTimeout

definition geth_eth_call_errors :: "string list" where
  "geth_eth_call_errors =
     [''execution reverted'', ''invalid jump destination'', ''invalid opcode'', ''stack limit reached 1024'']"

definition starts_with :: "string \<Rightarrow> string \<Rightarrow> bool" where
  "starts_with pat s \<longleftrightarrow> take (length pat) s = pat"

definition parity_bad_instruction_fe :: string where "parity_bad_instruction_fe = ''Bad instruction fe''"
definition parity_bad_instruction_fd :: string where "parity_bad_instruction_fd = ''Bad instruction fd''"
definition parity_bad_jump_prefix :: string where "parity_bad_jump_prefix = ''Bad jump''"
definition parity_stack_limit_prefix :: string where "parity_stack_limit_prefix = ''Out of stack''"
definition parity_revert_prefix :: string where "parity_revert_prefix = ''Reverted 0x''"
definition ganache_revert_message :: string where
  "ganache_revert_message = ''VM Exception while processing transaction: revert''"

definition as_solidity_revert_with_reason :: "eth_lib \<Rightarrow> call_lib \<Rightarrow> u8 list \<Rightarrow> string option" where
  "as_solidity_revert_with_reason L C bytes =
     (if 4 \<le> length bytes \<and> take 4 bytes = take 4 (keccak256 L (str_bytes ''Error(string)''))
      then decode_string_param C (drop 4 bytes)
      else None)"

definition is_parity_revert :: "string \<Rightarrow> bool" where
  "is_parity_revert data \<longleftrightarrow>
     starts_with parity_revert_prefix data \<or> starts_with parity_bad_jump_prefix data \<or>
     starts_with parity_stack_limit_prefix data \<or>
     data = parity_bad_instruction_fe \<or> data = parity_bad_instruction_fd"

definition parity_revert_reason :: "eth_lib \<Rightarrow> call_lib \<Rightarrow> string \<Rightarrow> string" where
  "parity_revert_reason L C data =
     (if data = parity_bad_instruction_fe then parity_bad_instruction_fe
      else
        (case Option.bind (hex_payload C (trim_start_matches parity_revert_prefix data))
                (as_solidity_revert_with_reason L C) of
           Some reason \<Rightarrow> reason | None \<Rightarrow> ''no reason''))"

text \<open>The outcome of one \<open>eth_call\<close> request. \<open>env_errors\<close> are the additional messages of the
  environment variable.\<close>

definition call_outcome ::
  "eth_lib \<Rightarrow> call_lib \<Rightarrow> string list \<Rightarrow> web3_error + u8 list \<Rightarrow> contract_call_error + u8 list" where
  "call_outcome L C env_errors result =
     (case result of
        Inr bytes \<Rightarrow> Inr bytes
      | Inl (Rpc rpc_error) \<Rightarrow>
          if list_ex (\<lambda>e. has_substring e (to_lowercase C (rpc_message rpc_error))) (geth_eth_call_errors @ env_errors)
          then Inl (Revert (rpc_message rpc_error))
          else if rpc_code rpc_error = - 32015
          then (case rpc_data rpc_error of
                  Some data \<Rightarrow>
                    if is_parity_revert data then Inl (Revert (parity_revert_reason L C data))
                    else Inl (Web3Error (Rpc rpc_error))
                | None \<Rightarrow> Inl (Web3Error (Rpc rpc_error)))
          else if rpc_code rpc_error = - 32000 \<and> starts_with ganache_revert_message (rpc_message rpc_error)
          then Inl (Revert (rpc_message rpc_error))
          else Inl (Web3Error (Rpc rpc_error))
      | Inl err \<Rightarrow> Inl (Web3Error err))"

fun retry_call :: "contract_call_error + u8 list \<Rightarrow> bool" where
  "retry_call (Inr _) = False"
| "retry_call (Inl (Revert _)) = False"
| "retry_call (Inl _) = True"

definition call_attempt ::
  "eth_lib \<Rightarrow> call_lib \<Rightarrow> string list \<Rightarrow> eth_node \<Rightarrow> address \<Rightarrow> u8 list \<Rightarrow> block_id \<Rightarrow> nat \<Rightarrow>
     contract_call_error timeout_error + u8 list" where
  "call_attempt L C env_errors node addr data block_id k =
     (case nd_call node k addr data block_id of
        Inl Elapsed \<Rightarrow> Inl Elapsed
      | Inl (Inner e) \<Rightarrow> map_err Inner (call_outcome L C env_errors (Inl e))
      | Inr bytes \<Rightarrow> map_err Inner (call_outcome L C env_errors (Inr bytes)))"

text \<open>The block a request is for. \<open>hash_as_h256\<close> panics on a hash that does not have 32 bytes, the
  conversion of a negative number to an unsigned one too.\<close>

definition request_block :: "bool \<Rightarrow> block_ptr \<Rightarrow> block_id option" where
  "request_block supports_eip_1898 ptr =
     (if \<not> supports_eip_1898
      then (if 0 \<le> bp_number ptr then Some (ById_Number (bp_number ptr)) else None)
      else (if length (bp_hash ptr) = 32 then Some (ById_Hash (bp_hash ptr)) else None))"

text \<open>The result and the number of requests made; \<open>None\<close> is a panic or a loop that never ends.\<close>

definition adapter_call ::
  "eth_lib \<Rightarrow> call_lib \<Rightarrow> string list \<Rightarrow> eth_node \<Rightarrow> bool \<Rightarrow> address \<Rightarrow> u8 list \<Rightarrow> block_ptr \<Rightarrow>
     ((contract_call_error + u8 list) \<times> nat) option" where
  "adapter_call L C env_errors node supports_eip_1898 contract_address call_data ptr =
     (case request_block supports_eip_1898 ptr of
        None \<Rightarrow> None
      | Some block_id \<Rightarrow>
          (case run_retry (Predicate retry_call) (Some 10)
                  (call_attempt L C env_errors node contract_address call_data block_id) of
             Inr (Some (Inr bytes, n)) \<Rightarrow> Some (Inr bytes, n)
           | Inr (Some (Inl e, n)) \<Rightarrow> Some (Inl (case into_inner e of Some err \<Rightarrow> err | None \<Rightarrow> CallTimeout), n)
           | _ \<Rightarrow> None))"

definition contract_call ::
  "eth_lib \<Rightarrow> call_lib \<Rightarrow> string list \<Rightarrow> eth_node \<Rightarrow> bool \<Rightarrow> ethereum_contract_call \<Rightarrow>
     ((contract_call_error + token list) \<times> nat) option" where
  "contract_call L C env_errors node supports_eip_1898 call =
     (case find (\<lambda>(token, kind). \<not> token_type_check C token kind)
             (zip (cc_args call) (map ap_kind (fn_inputs (cc_function call)))) of
        Some (token, kind) \<Rightarrow> Some (Inl (TypeError token kind), 0)
      | None \<Rightarrow>
          (case encode_input C (cc_function call) (cc_args call) of
             Inl e \<Rightarrow> Some (Inl (EncodingError e), 0)
           | Inr call_data \<Rightarrow>
               map_option (\<lambda>(r, n).
                 (bind_result r (\<lambda>output.
                    if output = [] then Inl (Revert ''empty response'')
                    else map_err (\<lambda>e. Revert (''failed to decode output: '' @ e))
                           (decode_output L (cc_function call) output)), n))
                 (adapter_call L C env_errors node supports_eip_1898 (cc_address call) call_data (cc_block_ptr call))))"

section \<open>Properties\<close>

text \<open>A reply after which the call is not tried again: data, or an error that is a revert.\<close>

definition final_reply ::
  "eth_lib \<Rightarrow> call_lib \<Rightarrow> string list \<Rightarrow> web3_error timeout_error + u8 list \<Rightarrow> bool" where
  "final_reply L C env_errors reply \<longleftrightarrow>
     (case reply of
        Inr _ \<Rightarrow> True
      | Inl Elapsed \<Rightarrow> False
      | Inl (Inner e) \<Rightarrow> \<exists>msg. call_outcome L C env_errors (Inl e) = Inl (Revert msg))"

text \<open>A call that passes the type check and can be encoded.\<close>

definition encodable :: "call_lib \<Rightarrow> ethereum_contract_call \<Rightarrow> u8 list \<Rightarrow> bool" where
  "encodable C call data \<longleftrightarrow>
     list_all (\<lambda>(token, kind). token_type_check C token kind)
       (zip (cc_args call) (map ap_kind (fn_inputs (cc_function call)))) \<and>
     encode_input C (cc_function call) (cc_args call) = Inr data"

lemma contract_call_encodable:
  assumes "encodable C call data"
  shows "contract_call L C env node eip call =
    map_option (\<lambda>(r, n).
       (bind_result r (\<lambda>output.
          if output = [] then Inl (Revert ''empty response'')
          else map_err (\<lambda>e. Revert (''failed to decode output: '' @ e)) (decode_output L (cc_function call) output)), n))
      (adapter_call L C env node eip (cc_address call) data (cc_block_ptr call))"
proof -
  have "find (\<lambda>(token, kind). \<not> token_type_check C token kind)
      (zip (cc_args call) (map ap_kind (fn_inputs (cc_function call)))) = None"
    using assms by (auto simp: encodable_def find_eq_None list_all_iff)
  with assms show ?thesis by (simp add: contract_call_def encodable_def)
qed

lemma contract_call_refused:
  assumes "\<nexists>data. encodable C call data"
  shows "\<exists>e. contract_call L C env node eip call = Some (Inl e, 0)"
proof (cases "find (\<lambda>(token, kind). \<not> token_type_check C token kind)
    (zip (cc_args call) (map ap_kind (fn_inputs (cc_function call))))")
  case None
  from None have "\<forall>x \<in> set (zip (cc_args call) (map ap_kind (fn_inputs (cc_function call)))).
      case x of (token, kind) \<Rightarrow> token_type_check C token kind"
    unfolding find_eq_None by auto
  with assms have "\<exists>e. encode_input C (cc_function call) (cc_args call) = Inl e"
    by (cases "encode_input C (cc_function call) (cc_args call)") (auto simp: encodable_def list_all_iff)
  with None show ?thesis by (auto simp: contract_call_def)
next
  case (Some x)
  then show ?thesis by (cases x) (simp add: contract_call_def)
qed

lemma call_attempt_success:
  "call_attempt L C env node addr data b k = Inr out \<longleftrightarrow> nd_call node k addr data b = Inr out"
  by (auto simp: call_attempt_def call_outcome_def split: sum.splits timeout_error.splits web3_error.splits option.splits if_splits)

lemma call_outcome_cases:
  obtains b where "call_outcome L C env (Inl e) = Inl (Revert b)" | w where "call_outcome L C env (Inl e) = Inl (Web3Error w)"
proof -
  have "(\<exists>b. call_outcome L C env (Inl e) = Inl (Revert b)) \<or> (\<exists>w. call_outcome L C env (Inl e) = Inl (Web3Error w))"
    by (auto simp: call_outcome_def split: web3_error.split option.split)
  then show thesis using that by blast
qed

lemma final_reply_outcome:
  "is_ok (retry_outcome (Predicate retry_call) (call_attempt L C env node addr data b k)) \<longleftrightarrow>
     final_reply L C env (nd_call node k addr data b)"
proof (cases "nd_call node k addr data b")
  case (Inl x)
  then show ?thesis
  proof (cases x)
    case (Inner e)
    with Inl show ?thesis
      by (cases rule: call_outcome_cases [of L C env e]) (simp_all add: call_attempt_def final_reply_def)
  qed (simp add: call_attempt_def final_reply_def)
qed (simp add: call_attempt_def final_reply_def call_outcome_def)

lemma adapter_call_returns:
  assumes "request_block eip ptr = Some b"
  obtains k r where "adapter_call L C env node eip addr data ptr = Some (r, Suc k)" "k < 10"
    "case call_attempt L C env node addr data b k of
       Inr bytes \<Rightarrow> r = Inr bytes
     | Inl e \<Rightarrow> r = Inl (case into_inner e of Some err \<Rightarrow> err | None \<Rightarrow> CallTimeout)"
    "\<forall>j < k. \<not> final_reply L C env (nd_call node j addr data b)"
    "k = 9 \<or> final_reply L C env (nd_call node k addr data b)"
proof -
  obtain k where k: "k < 10" "run_retry (Predicate retry_call) (Some 10) (call_attempt L C env node addr data b) =
      Inr (Some (call_attempt L C env node addr data b k, k + 1))"
    "\<forall>j < k. \<not> is_ok (retry_outcome (Predicate retry_call) (call_attempt L C env node addr data b j))"
    "k = 10 - 1 \<or> is_ok (retry_outcome (Predicate retry_call) (call_attempt L C env node addr data b k))"
    by (rule run_retry_trace [of 10 "Predicate retry_call" "call_attempt L C env node addr data b"]) simp
  note final = k(3,4) [unfolded final_reply_outcome]
  show thesis using assms k(1,2) final
    by (cases "call_attempt L C env node addr data b k") (auto simp: adapter_call_def intro!: that)
qed

lemma revert_result:
  assumes "case call_attempt L C env node addr data b k of
       Inr bytes \<Rightarrow> r = Inr bytes
     | Inl e \<Rightarrow> r = Inl (case into_inner e of Some err \<Rightarrow> err | None \<Rightarrow> CallTimeout)"
    and "nd_call node k addr data b = Inl (Inner e)" and "call_outcome L C env (Inl e) = Inl x"
  shows "r = Inl x"
  using assms by (simp add: call_attempt_def)

text \<open>C30. A contract call on a block that can be named in a request returns after at most ten requests.
  It makes none when the arguments do not have the parameter types or cannot be encoded, and gives
  tokens only from a non-empty last reply of the node that decodes to them. No request follows data or
  a revert, and fewer than ten requests end with one of them; a revert that ends the call is its
  result.\<close>

theorem contract_call_outcome:
  assumes block: "request_block eip (cc_block_ptr call) = Some b"
  shows "\<exists>r n. contract_call L C env node eip call = Some (r, n) \<and> n \<le> 10 \<and>
     (n = 0 \<longleftrightarrow> (\<nexists>data. encodable C call data)) \<and>
     (\<forall>toks. r = Inr toks \<longrightarrow> (\<exists>data out. encodable C call data \<and> out \<noteq> [] \<and>
        nd_call node (n - 1) (cc_address call) data b = Inr out \<and>
        decode_output L (cc_function call) out = Inr toks)) \<and>
     (\<forall>data. encodable C call data \<longrightarrow>
        (\<forall>j < n - 1. \<not> final_reply L C env (nd_call node j (cc_address call) data b)) \<and>
        (n < 10 \<longrightarrow> final_reply L C env (nd_call node (n - 1) (cc_address call) data b)) \<and>
        (\<forall>e msg. nd_call node (n - 1) (cc_address call) data b = Inl (Inner e) \<longrightarrow>
           call_outcome L C env (Inl e) = Inl (Revert msg) \<longrightarrow> r = Inl (Revert msg)))"
proof (cases "\<exists>data. encodable C call data")
  case False
  then have "\<exists>e. contract_call L C env node eip call = Some (Inl e, 0)"
    by (rule contract_call_refused)
  with False show ?thesis by auto
next
  case True
  then obtain data where data: "encodable C call data" by blast
  have unique: "d = data" if "encodable C call d" for d using that data by (simp add: encodable_def)
  obtain k r where kr: "adapter_call L C env node eip (cc_address call) data (cc_block_ptr call) = Some (r, Suc k)" "k < 10"
    "case call_attempt L C env node (cc_address call) data b k of
       Inr bytes \<Rightarrow> r = Inr bytes
     | Inl e \<Rightarrow> r = Inl (case into_inner e of Some err \<Rightarrow> err | None \<Rightarrow> CallTimeout)"
    "\<forall>j < k. \<not> final_reply L C env (nd_call node j (cc_address call) data b)"
    "k = 9 \<or> final_reply L C env (nd_call node k (cc_address call) data b)"
    by (rule adapter_call_returns [OF block])
  let ?dec = "\<lambda>output. if output = [] then Inl (Revert ''empty response'')
    else map_err (\<lambda>e. Revert (''failed to decode output: '' @ e)) (decode_output L (cc_function call) output)"
  have tokens: "\<exists>out. out \<noteq> [] \<and> nd_call node k (cc_address call) data b = Inr out \<and>
      decode_output L (cc_function call) out = Inr toks" if "bind_result r ?dec = Inr toks" for toks
  proof -
    from that obtain out where out: "r = Inr out" "out \<noteq> []" "decode_output L (cc_function call) out = Inr toks"
      by (auto simp: bind_result_eq_Inr map_err_Inr_iff split: if_splits)
    with kr(3) have "nd_call node k (cc_address call) data b = Inr out"
      by (auto simp: call_attempt_success split: sum.splits)
    with out show ?thesis by blast
  qed
  show ?thesis
  proof (rule exI [of _ "bind_result r ?dec"], rule exI [of _ "Suc k"], intro conjI allI impI)
    show "contract_call L C env node eip call = Some (bind_result r ?dec, Suc k)"
      by (simp add: contract_call_encodable [OF data] kr(1))
    show "Suc k \<le> 10" using kr(2) by simp
    show "Suc k = 0 \<longleftrightarrow> (\<nexists>data. encodable C call data)" using True by simp
    show "\<exists>data out. encodable C call data \<and> out \<noteq> [] \<and>
        nd_call node (Suc k - 1) (cc_address call) data b = Inr out \<and> decode_output L (cc_function call) out = Inr toks"
      if "bind_result r ?dec = Inr toks" for toks
      using tokens [OF that] data by auto
  qed (use kr(4,5) unique revert_result [OF kr(3)] in auto)
qed

text \<open>A node that times out once and then reverts every call.\<close>

definition sample_contract_call :: ethereum_contract_call where
  "sample_contract_call = \<lparr>cc_address = 7, cc_block_ptr = \<lparr>bp_hash = replicate 32 0, bp_number = 5\<rparr>,
     cc_function = \<lparr>fn_name = ''f'', fn_inputs = [], fn_outputs = [], fn_mutability = View\<rparr>, cc_args = []\<rparr>"

definition sample_call_lib :: call_lib where
  "sample_call_lib = \<lparr>token_type_check = (\<lambda>t k. True), encode_input = (\<lambda>f args. Inr (method_id sample_lib (fn_name f))),
     decode_string_param = (\<lambda>bs. None), hex_payload = (\<lambda>s. None), to_lowercase = id\<rparr>"

definition reverting_node :: eth_node where
  "reverting_node = \<lparr>nd_logs = (\<lambda>rd k s e f. Inl Elapsed), nd_traces = (\<lambda>k s e addrs. Inl Elapsed),
      nd_block_by_number = (\<lambda>k n. Inl Elapsed), nd_block_by_hash = (\<lambda>k h. Inl Elapsed),
      nd_call = (\<lambda>k addr data id. if k = 0 then Inl Elapsed
        else Inl (Inner (Rpc \<lparr>rpc_code = 3, rpc_message = ''execution reverted'', rpc_data = None\<rparr>))),
      web3_display = (\<lambda>e. []), web3_debug = (\<lambda>e. [])\<rparr>"

theorem contract_call_outcome_witness:
  "contract_call sample_lib sample_call_lib [] reverting_node True sample_contract_call =
     Some (Inl (Revert ''execution reverted''), 2)"
proof -
  let ?e = "Rpc \<lparr>rpc_code = 3, rpc_message = ''execution reverted'', rpc_data = None\<rparr>"
  have enc: "encodable sample_call_lib sample_contract_call (method_id sample_lib ''f'')"
    by (simp add: encodable_def sample_contract_call_def sample_call_lib_def)
  have out: "call_outcome sample_lib sample_call_lib [] (Inl ?e) = Inl (Revert ''execution reverted'')"
    by (simp add: call_outcome_def geth_eth_call_errors_def sample_call_lib_def)
  have "request_block True (cc_block_ptr sample_contract_call) = Some (ById_Hash (replicate 32 0))"
    by (simp add: request_block_def sample_contract_call_def)
  from contract_call_outcome [OF this, of sample_lib sample_call_lib "[]" reverting_node] enc obtain r n where
    r: "contract_call sample_lib sample_call_lib [] reverting_node True sample_contract_call = Some (r, n)" "n \<noteq> 0"
    "\<forall>j < n - 1. \<not> final_reply sample_lib sample_call_lib [] (nd_call reverting_node j
       (cc_address sample_contract_call) (method_id sample_lib ''f'') (ById_Hash (replicate 32 0)))"
    "n < 10 \<longrightarrow> final_reply sample_lib sample_call_lib [] (nd_call reverting_node (n - 1)
       (cc_address sample_contract_call) (method_id sample_lib ''f'') (ById_Hash (replicate 32 0)))"
    "n \<noteq> 1 \<longrightarrow> r = Inl (Revert ''execution reverted'')"
    using out by (force simp: reverting_node_def)
  have "\<not> 1 < n - 1" using r(3) [rule_format, of 1] out by (auto simp: reverting_node_def final_reply_def)
  moreover have "n \<noteq> 1" using r(4) by (auto simp: reverting_node_def final_reply_def)
  ultimately have "n = 2" using r(2) by simp
  with r show ?thesis by simp
qed

end
