(* ===== verification/Dex_Fees.thy ===== *)
theory Dex_Fees
  imports Prelude
begin

text \<open>
  The fees of the Serum exchange (\<open>serum_dex/fees.rs\<close>).

  Unsigned machine integers are natural numbers, and every \<open>+\<close>, \<open>-\<close> and \<open>*\<close> of the
  code is checked against the width of its type: \<open>None\<close> is the panic of a build with overflow checks. A run
  of the model without a panic is therefore also the run of a build without these checks. A
  \<open>U64F64\<close> is a fixed point number of 128 bits, 64 of them behind the point.

  The theorems give the exact fee and rebate of an amount and the bounds that the exchange relies on: the fee
  of a taker covers the rebates of the maker and of the referrer, and removing the fee from an amount leaves
  enough to pay it.
\<close>

section \<open>Checked arithmetic\<close>

abbreviation u64_max :: nat where
  "u64_max \<equiv> 18446744073709551615"

abbreviation u128_max :: nat where
  "u128_max \<equiv> 340282366920938463463374607431768211455"

definition u64_checked :: "nat \<Rightarrow> nat option" where
  "u64_checked n = (if n \<le> u64_max then Some n else None)"

definition u128_checked :: "nat \<Rightarrow> nat option" where
  "u128_checked n = (if n \<le> u128_max then Some n else None)"

text \<open>\<open>checked_sub\<close>, and \<open>-\<close> under overflow checks.\<close>

definition checked_sub :: "nat \<Rightarrow> nat \<Rightarrow> nat option" where
  "checked_sub a b = (if b \<le> a then Some (a - b) else None)"

lemma u64_checked_Some [simp]: "u64_checked n = Some m \<longleftrightarrow> n \<le> u64_max \<and> m = n"
  by (auto simp: u64_checked_def)

lemma u128_checked_Some [simp]: "u128_checked n = Some m \<longleftrightarrow> n \<le> u128_max \<and> m = n"
  by (auto simp: u128_checked_def)

lemma u64_checked_le [simp]: "n \<le> u64_max \<Longrightarrow> u64_checked n = Some n"
  by simp

lemma u128_checked_le [simp]: "n \<le> u128_max \<Longrightarrow> u128_checked n = Some n"
  by simp

lemma checked_sub_le [simp]: "b \<le> a \<Longrightarrow> checked_sub a b = Some (a - b)"
  by (simp add: checked_sub_def)

lemma checked_sub_Some [simp]: "checked_sub a b = Some c \<longleftrightarrow> b \<le> a \<and> c = a - b"
  by (auto simp: checked_sub_def)

section \<open>Fixed point numbers\<close>

type_synonym u64f64 = nat

abbreviation two64 :: nat where
  "two64 \<equiv> 18446744073709551616"

definition u64f64_one :: u64f64 where
  "u64f64_one = two64"

definition u64f64_add :: "u64f64 \<Rightarrow> u64f64 \<Rightarrow> u64f64 option" where
  "u64f64_add self other = u128_checked (self + other)"

definition u64f64_div :: "u64f64 \<Rightarrow> u64f64 \<Rightarrow> nat option" where
  "u64f64_div self other = (if other = 0 then None else Some (self div other))"

definition mul_u64 :: "u64f64 \<Rightarrow> nat \<Rightarrow> u64f64 option" where
  "mul_u64 self other = u128_checked (self * other)"

text \<open>A cast to \<open>u64\<close> drops the upper bits.\<close>

definition u64f64_floor :: "u64f64 \<Rightarrow> nat" where
  "u64f64_floor self = self div two64 mod two64"

definition frac_part :: "u64f64 \<Rightarrow> nat" where
  "frac_part self = self mod two64"

text \<open>A shift drops the bits that leave the word.\<close>

definition from_int :: "nat \<Rightarrow> u64f64" where
  "from_int n = n * two64 mod (u128_max + 1)"

definition fee_bps :: "nat \<Rightarrow> u64f64" where
  "fee_bps bps = (bps * two64 mod (u128_max + 1)) div 10000"

definition rebate_bps :: "nat \<Rightarrow> u64f64 option" where
  "rebate_bps bps = u128_checked (fee_bps bps + 1)"

section \<open>Fee tiers\<close>

datatype fee_tier = Base | SRM2 | SRM3 | SRM4 | SRM5 | SRM6 | MSRM

definition fee_tier_into :: "fee_tier \<Rightarrow> nat" where
  "fee_tier_into t = (case t of Base \<Rightarrow> 0 | SRM2 \<Rightarrow> 1 | SRM3 \<Rightarrow> 2 | SRM4 \<Rightarrow> 3 | SRM5 \<Rightarrow> 4 | SRM6 \<Rightarrow> 5 | MSRM \<Rightarrow> 6)"

definition fee_tier_try_from :: "nat \<Rightarrow> fee_tier option" where
  "fee_tier_try_from n =
     (if n = 0 then Some Base else if n = 1 then Some SRM2 else if n = 2 then Some SRM3
      else if n = 3 then Some SRM4 else if n = 4 then Some SRM5 else if n = 5 then Some SRM6
      else if n = 6 then Some MSRM else None)"

definition from_srm_and_msrm_balances :: "nat \<Rightarrow> nat \<Rightarrow> fee_tier" where
  "from_srm_and_msrm_balances srm_held msrm_held =
     (let one_srm = 1000000 in
      if 1 \<le> msrm_held then MSRM
      else if one_srm * 1000000 \<le> srm_held then SRM6
      else if one_srm * 100000 \<le> srm_held then SRM5
      else if one_srm * 10000 \<le> srm_held then SRM4
      else if one_srm * 1000 \<le> srm_held then SRM3
      else if one_srm * 100 \<le> srm_held then SRM2
      else Base)"

definition maker_rebate :: "fee_tier \<Rightarrow> nat \<Rightarrow> nat option" where
  "maker_rebate self pc_qty =
     Option.bind (case self of MSRM \<Rightarrow> rebate_bps 5 | _ \<Rightarrow> rebate_bps 3) (\<lambda>rate.
     Option.bind (mul_u64 rate pc_qty) (\<lambda>exact. Some (u64f64_floor exact)))"

definition taker_rate :: "fee_tier \<Rightarrow> u64f64" where
  "taker_rate self =
     (case self of Base \<Rightarrow> fee_bps 22 | SRM2 \<Rightarrow> fee_bps 20 | SRM3 \<Rightarrow> fee_bps 18 | SRM4 \<Rightarrow> fee_bps 16
      | SRM5 \<Rightarrow> fee_bps 14 | SRM6 \<Rightarrow> fee_bps 12 | MSRM \<Rightarrow> fee_bps 10)"

definition taker_fee :: "fee_tier \<Rightarrow> nat \<Rightarrow> nat option" where
  "taker_fee self pc_qty =
     Option.bind (mul_u64 (taker_rate self) pc_qty) (\<lambda>exact_fee.
     u64_checked (u64f64_floor exact_fee + of_bool (frac_part exact_fee \<noteq> 0)))"

definition remove_taker_fee :: "fee_tier \<Rightarrow> nat \<Rightarrow> nat option" where
  "remove_taker_fee self pc_qty_incl_fee =
     Option.bind (u64f64_add u64f64_one (taker_rate self)) (\<lambda>divisor.
     Option.bind (u64f64_div (from_int pc_qty_incl_fee) divisor) u64_checked)"

definition referrer_rebate :: "nat \<Rightarrow> nat" where
  "referrer_rebate amount = amount div 5"

section \<open>The exact amounts\<close>

text \<open>The rates as fractions of \<open>2 ^ 64\<close>.\<close>

definition maker_rate :: "fee_tier \<Rightarrow> nat" where
  "maker_rate t = (if t = MSRM then 9223372036854776 else 5534023222112866)"

lemma taker_rate_values [simp]:
  "taker_rate Base = 40582836962161013"
  "taker_rate SRM2 = 36893488147419103"
  "taker_rate SRM3 = 33204139332677192"
  "taker_rate SRM4 = 29514790517935282"
  "taker_rate SRM5 = 25825441703193372"
  "taker_rate SRM6 = 22136092888451461"
  "taker_rate MSRM = 18446744073709551"
  by (simp_all add: taker_rate_def fee_bps_def)

lemma taker_rate_bounds:
  "18446744073709551 \<le> taker_rate t" "taker_rate t \<le> 40582836962161013"
  by (cases t; simp)+

lemma rebate_rate: "(case t of MSRM \<Rightarrow> rebate_bps 5 | _ \<Rightarrow> rebate_bps 3) = Some (maker_rate t)"
  by (cases t) (simp_all add: rebate_bps_def fee_bps_def maker_rate_def)

lemma ceil_div_general:
  assumes "0 < (k::nat)"
  shows "n div k + of_bool (n mod k \<noteq> 0) = (n + (k - 1)) div k"
proof -
  obtain m r where n: "n = r + k * m" "r < k"
    using assms by (metis add.commute mod_less_divisor mult_div_mod_eq)
  show ?thesis
  proof (cases "r = 0")
    case True
    then have "n + (k - 1) = (k - 1) + k * m" using n by simp
    then have "(n + (k - 1)) div k = m + (k - 1) div k" using assms by (simp only: div_mult_self2)
    moreover have "(k - 1) div k = 0" using assms by simp
    ultimately show ?thesis using n True assms by simp
  next
    case False
    have "n + (k - 1) = (r - 1) + k * (m + 1)" using n False by simp
    then have "(n + (k - 1)) div k = m + 1 + (r - 1) div k" using assms by (simp only: div_mult_self2)
    moreover have "(r - 1) div k = 0" using n by simp
    ultimately show ?thesis using n False assms by simp
  qed
qed

definition fee_of :: "fee_tier \<Rightarrow> nat \<Rightarrow> nat" where
  "fee_of t q = (taker_rate t * q + (two64 - 1)) div two64"

definition rebate_of :: "fee_tier \<Rightarrow> nat \<Rightarrow> nat" where
  "rebate_of t q = maker_rate t * q div two64"

definition net_of :: "fee_tier \<Rightarrow> nat \<Rightarrow> nat" where
  "net_of t q = q * two64 div (two64 + taker_rate t)"

lemma floor_small:
  assumes "n \<le> k * u64_max" "k \<le> 40582836962161013"
  shows "n \<le> u128_max" "u64f64_floor n = n div two64" "n div two64 \<le> k"
proof -
  have "k * u64_max \<le> 40582836962161013 * u64_max" using assms(2) by (rule mult_le_mono1)
  with assms(1) show "n \<le> u128_max" by linarith
  have "n div two64 \<le> (k * two64) div two64"
    using assms(1) by (intro div_le_mono) linarith
  then show le: "n div two64 \<le> k" by simp
  then have "n div two64 < two64" using assms(2) by linarith
  then show "u64f64_floor n = n div two64" unfolding u64f64_floor_def by (rule mod_less)
qed

lemma taker_fee_eq:
  assumes "q \<le> u64_max"
  shows "taker_fee t q = Some (fee_of t q)"
proof -
  define n where "n = taker_rate t * q"
  have "n \<le> taker_rate t * u64_max" unfolding n_def using assms by (rule mult_le_mono2)
  note small = floor_small [OF this taker_rate_bounds(2)]
  have "n div two64 + of_bool (n mod two64 \<noteq> 0) \<le> taker_rate t + 1"
    using small(3) by (intro add_mono) simp_all
  then have "n div two64 + of_bool (n mod two64 \<noteq> 0) \<le> u64_max"
    using taker_rate_bounds(2) [of t] by linarith
  moreover have "fee_of t q = n div two64 + of_bool (n mod two64 \<noteq> 0)"
    unfolding fee_of_def n_def [symmetric] using ceil_div_general [of two64 n] by simp
  moreover have "mul_u64 (taker_rate t) q = Some n"
    unfolding mul_u64_def n_def [symmetric] using small(1) by (rule u128_checked_le)
  ultimately show ?thesis
    unfolding taker_fee_def by (simp only: Option.bind.simps small(2) frac_part_def u64_checked_le)
qed

lemma maker_rebate_eq:
  assumes "q \<le> u64_max"
  shows "maker_rebate t q = Some (rebate_of t q)"
proof -
  define n where "n = maker_rate t * q"
  have "maker_rate t \<le> 40582836962161013" by (simp add: maker_rate_def)
  moreover have "n \<le> maker_rate t * u64_max" unfolding n_def using assms by (rule mult_le_mono2)
  ultimately have small: "n \<le> u128_max" "u64f64_floor n = n div two64"
    using floor_small by blast+
  have "mul_u64 (maker_rate t) q = Some n"
    unfolding mul_u64_def n_def [symmetric] using small(1) by (rule u128_checked_le)
  then show ?thesis
    unfolding maker_rebate_def rebate_of_def n_def [symmetric] rebate_rate
    by (simp only: Option.bind.simps small(2))
qed

lemma remove_taker_fee_eq:
  assumes "q \<le> u64_max"
  shows "remove_taker_fee t q = Some (net_of t q)"
proof -
  have sum: "u64f64_add u64f64_one (taker_rate t) = Some (two64 + taker_rate t)"
    unfolding u64f64_add_def u64f64_one_def using taker_rate_bounds(2) [of t] by (intro u128_checked_le) linarith
  have "q * two64 < u128_max + 1" using assms by linarith
  then have int: "from_int q = q * two64" unfolding from_int_def by (rule mod_less)
  have "q * two64 div (two64 + taker_rate t) \<le> q * two64 div two64"
    by (rule div_le_mono2) simp_all
  then have "net_of t q \<le> q" unfolding net_of_def by simp
  then have "u64_checked (net_of t q) = Some (net_of t q)" using assms by (intro u64_checked_le) linarith
  moreover have "u64f64_div (q * two64) (two64 + taker_rate t) = Some (net_of t q)"
    unfolding u64f64_div_def net_of_def by simp
  ultimately show ?thesis
    unfolding remove_taker_fee_def sum int by (simp only: Option.bind.simps)
qed

section \<open>Bounds\<close>

lemma div_bounds: "n div d * d \<le> n" "0 < d \<Longrightarrow> n < n div d * d + d" for n d :: nat
  using dividend_less_div_times [of d n] by (simp_all only: div_times_less_eq_dividend add.commute)

lemma fee_of_bounds:
  "taker_rate t * q \<le> fee_of t q * two64" "fee_of t q * two64 < taker_rate t * q + two64"
proof -
  define n where "n = taker_rate t * q + (two64 - 1)"
  have e: "n div two64 = fee_of t q" by (simp only: fee_of_def n_def)
  have "n < fee_of t q * two64 + two64" using div_bounds(2) [of two64 n] unfolding e by simp
  then show "taker_rate t * q \<le> fee_of t q * two64" unfolding n_def by simp
  have "fee_of t q * two64 \<le> n" using div_bounds(1) [of n two64] unfolding e .
  then show "fee_of t q * two64 < taker_rate t * q + two64" unfolding n_def by simp
qed

lemma rebate_of_bounds: "rebate_of t q * two64 \<le> 9223372036854776 * q"
proof -
  have "rebate_of t q * two64 \<le> maker_rate t * q"
    unfolding rebate_of_def by (rule div_bounds)
  moreover have "maker_rate t * q \<le> 9223372036854776 * q"
    by (rule mult_le_mono1) (simp add: maker_rate_def)
  ultimately show ?thesis by linarith
qed

lemma net_of_bounds:
  "net_of t q * two64 + taker_rate t * net_of t q \<le> q * two64"
  "q * two64 < net_of t q * two64 + taker_rate t * net_of t q + two64 + taker_rate t"
proof -
  define d where "d = two64 + taker_rate t"
  have e: "q * two64 div d = net_of t q" by (simp only: net_of_def d_def)
  have m: "net_of t q * d = net_of t q * two64 + taker_rate t * net_of t q"
    unfolding d_def distrib_left by (simp only: mult.commute)
  show "net_of t q * two64 + taker_rate t * net_of t q \<le> q * two64"
    using div_bounds(1) [of "q * two64" d] unfolding e m .
  have "0 < d" by (simp add: d_def)
  from div_bounds(2) [OF this, of "q * two64", unfolded e m]
  show "q * two64 < net_of t q * two64 + taker_rate t * net_of t q + two64 + taker_rate t"
    unfolding d_def add.assoc .
qed

text \<open>The fee of the taker exceeds both rebates, and what is left is three basis points up to dust.\<close>

lemma net_fees:
  assumes "0 < q" "q \<le> u64_max"
  shows "rebate_of mt q + referrer_rebate (fee_of tt q) < fee_of tt q"
    and "3 * q < (fee_of tt q - (rebate_of mt q + referrer_rebate (fee_of tt q))) * 10000 + 2 ^ 32"
proof -
  define F where "F = fee_of tt q"
  define R where "R = rebate_of mt q + referrer_rebate F"
  have f: "18446744073709551 * q \<le> F * two64"
    unfolding F_def using fee_of_bounds(1) [of tt q] mult_le_mono1 [OF taker_rate_bounds(1), of q tt] by linarith
  have "5 * referrer_rebate F \<le> F" by (simp add: referrer_rebate_def)
  then have r: "R * 92233720368547758080 \<le> 46116860184273880 * q + F * two64"
    unfolding R_def distrib_right using rebate_of_bounds [of mt q] by linarith
  show lt: "rebate_of mt q + referrer_rebate (fee_of tt q) < fee_of tt q"
    unfolding F_def [symmetric] R_def [symmetric] using f r assms(1) by linarith
  then have "R < F" unfolding R_def F_def .
  then obtain k where k: "F = R + k" using less_imp_add_positive by blast
  have "3 * q < k * 10000 + 4294967296" using f r k assms(2) by linarith
  moreover have "F - R = k" using k by simp
  ultimately show "3 * q < (fee_of tt q - (rebate_of mt q + referrer_rebate (fee_of tt q))) * 10000 + 2 ^ 32"
    unfolding F_def [symmetric] R_def [symmetric] by simp
qed

text \<open>What is left after removing the fee, and its fee, fit into the amount.\<close>

lemma net_of_pays: "net_of t q + fee_of t (net_of t q) \<le> q"
proof -
  have "fee_of t (net_of t q) * two64 < taker_rate t * net_of t q + two64" by (rule fee_of_bounds(2))
  with net_of_bounds(1) [of t q] have "(net_of t q + fee_of t (net_of t q)) * two64 < (q + 1) * two64"
    by simp
  then show ?thesis by simp
qed

lemma net_of_tight: "q \<le> net_of t q + fee_of t (net_of t q) + 1"
proof -
  have "taker_rate t * net_of t q \<le> fee_of t (net_of t q) * two64" by (rule fee_of_bounds(1))
  with net_of_bounds(2) [of q t] taker_rate_bounds(2) [of t]
  have "q * two64 < (net_of t q + fee_of t (net_of t q) + 2) * two64"
    by (simp add: algebra_simps)
  then show ?thesis by simp
qed

lemma fee_of_mono: "p \<le> q \<Longrightarrow> fee_of t p \<le> fee_of t q"
  unfolding fee_of_def by (intro div_le_mono add_le_mono1 mult_le_mono2)

text \<open>Any smaller amount and its fee fit as well: this is what lets a bid pay for what it matches.\<close>

lemma below_net_of_pays:
  assumes "p \<le> net_of t q"
  shows "p + fee_of t p \<le> q"
  using net_of_pays [of t q] fee_of_mono [OF assms, of t] assms by linarith

lemma net_of_le: "net_of t q \<le> q"
  using net_of_pays [of t q] by linarith

lemma fee_of_zero [simp]: "fee_of t 0 = 0"
  by (simp add: fee_of_def)

lemma fee_of_le: "fee_of t q \<le> q"
proof -
  have "taker_rate t * q \<le> 40582836962161013 * q"
    by (rule mult_le_mono1) (rule taker_rate_bounds)
  with fee_of_bounds(2) [of t q] have "fee_of t q * two64 < q * two64 + two64" by linarith
  then have "fee_of t q * two64 < (q + 1) * two64" by simp
  then show ?thesis by simp
qed

lemma rebate_of_le: "rebate_of t q \<le> q"
  using rebate_of_bounds [of t q] by linarith

text \<open>Adding the fee and removing it again is off by at most one.\<close>

lemma add_remove_fee:
  "net_of t (q + fee_of t q) = q \<or> net_of t (q + fee_of t q) = q + 1"
proof -
  let ?n = "net_of t (q + fee_of t q)" and ?r = "taker_rate t"
  have lo: "?r * q \<le> fee_of t q * two64" and hi: "fee_of t q * two64 < ?r * q + two64"
    by (rule fee_of_bounds)+
  have n: "?n * two64 + ?r * ?n \<le> (q + fee_of t q) * two64"
      "(q + fee_of t q) * two64 < ?n * two64 + ?r * ?n + two64 + ?r"
    by (rule net_of_bounds)+
  have "q * (two64 + ?r) < (?n + 1) * (two64 + ?r)"
    using n(2) lo by (simp add: algebra_simps)
  then have "q < ?n + 1" by (rule mult_less_cancel2 [THEN iffD1, THEN conjunct2])
  moreover have "?n * (two64 + ?r) < (q + 2) * (two64 + ?r)"
    using n(1) hi by (simp add: algebra_simps)
  then have "?n < q + 2" by (rule mult_less_cancel2 [THEN iffD1, THEN conjunct2])
  ultimately show ?thesis by linarith
qed

text \<open>C38. The fee of a taker is positive and exceeds the maker's rebate and the referrer's rebate together on
  every amount, for every pair of fee tiers, and what the exchange keeps is at least three basis points up to
  dust; none of the computations overflows.\<close>

theorem positive_net_fees:
  assumes "0 < qty" "qty \<le> u64_max"
  shows "\<exists>fee rebate. taker_fee tt qty = Some fee \<and> maker_rebate mt qty = Some rebate \<and>
           rebate + referrer_rebate fee < fee \<and>
           3 * qty < (fee - (rebate + referrer_rebate fee)) * 10000 + 2 ^ 32"
  using taker_fee_eq [OF assms(2)] maker_rebate_eq [OF assms(2)] net_fees [OF assms] by blast

theorem positive_net_fees_witness:
  "\<exists>fee rebate. taker_fee MSRM 12345 = Some fee \<and> maker_rebate MSRM 12345 = Some rebate \<and>
     rebate + referrer_rebate fee < fee \<and>
     3 * 12345 < (fee - (rebate + referrer_rebate fee)) * 10000 + 2 ^ 32"
  by (rule positive_net_fees) simp_all

text \<open>C39. Removing the taker fee from an amount leaves a quantity whose fee is what was removed or one unit
  less, so a market order can neither cheat the exchange nor fail to pay; and adding a fee and removing it again
  gives the quantity back or one unit more.\<close>

theorem taker_fee_roundtrip:
  assumes "qty \<le> u64_max"
  shows "(\<exists>net fee. remove_taker_fee tier qty = Some net \<and> taker_fee tier net = Some fee \<and>
            (qty = net + fee \<or> qty = net + fee + 1)) \<and>
         (\<exists>fee. taker_fee tier qty = Some fee \<and>
            (qty + fee \<le> u64_max \<longrightarrow> remove_taker_fee tier (qty + fee) \<in> {Some qty, Some (qty + 1)}))"
proof (intro conjI)
  let ?net = "net_of tier qty"
  have "?net \<le> u64_max" using net_of_le [of tier qty] assms by linarith
  moreover have "qty = ?net + fee_of tier ?net \<or> qty = ?net + fee_of tier ?net + 1"
    using net_of_pays [of tier qty] net_of_tight [of qty tier] by linarith
  ultimately show "\<exists>net fee. remove_taker_fee tier qty = Some net \<and> taker_fee tier net = Some fee \<and>
      (qty = net + fee \<or> qty = net + fee + 1)"
    using remove_taker_fee_eq [OF assms] taker_fee_eq by blast
  have "remove_taker_fee tier (qty + fee_of tier qty) \<in> {Some qty, Some (qty + 1)}"
    if "qty + fee_of tier qty \<le> u64_max"
    using add_remove_fee [of tier qty] unfolding remove_taker_fee_eq [OF that] by blast
  then show "\<exists>fee. taker_fee tier qty = Some fee \<and>
      (qty + fee \<le> u64_max \<longrightarrow> remove_taker_fee tier (qty + fee) \<in> {Some qty, Some (qty + 1)})"
    using taker_fee_eq [OF assms] by blast
qed

theorem taker_fee_roundtrip_witness:
  "(\<exists>net fee. remove_taker_fee Base 1000 = Some net \<and> taker_fee Base net = Some fee \<and>
      (1000 = net + fee \<or> 1000 = net + fee + 1)) \<and> remove_taker_fee Base (1000 + 3) \<in> {Some 1000, Some 1001}"
proof -
  have "taker_fee Base 1000 = Some 3" by (simp add: taker_fee_eq fee_of_def)
  then show ?thesis using taker_fee_roundtrip [of 1000 Base] by simp
qed

end
