(* ===== verification/Dex_Critbit.thy ===== *)
theory Dex_Critbit
  imports Dex_Fees "HOL-Library.Word" "HOL-Library.Multiset"
begin

text \<open>
  The order book of the Serum exchange (\<open>serum_dex/critbit.rs\<close>): a critical bit tree of orders that lives in
  a slab, an array of nodes with a free list threaded through the unused ones.

  A slab is a record of its header and the list of its nodes. The tag of a node is the constructor of
  \<open>any_node\<close>; a node with any other tag is \<open>OtherNode\<close>. An operation returns an option: \<open>None\<close> is a call that
  does not return, because it panics (an \<open>unwrap\<close> of nothing, a failed assertion, an index out of range, an
  overflow) or because a loop runs forever on a slab whose links form a cycle. Loops are partial functions.

  Handles and counters are natural numbers, keys are words of 128 bits.
\<close>

unbundle bit_operations_syntax

section \<open>Nodes\<close>

type_synonym u128 = "128 word"
type_synonym node_handle = nat
type_synonym pubkey = "nat list"

record inner_node =
  prefix_len :: nat
  inner_key :: u128
  children :: "node_handle \<times> node_handle"

record leaf_node =
  leaf_owner_slot :: nat
  leaf_fee_tier :: nat
  leaf_key :: u128
  leaf_owner :: pubkey
  leaf_quantity :: nat
  leaf_client_order_id :: nat

datatype any_node =
    OtherNode
  | InnerNode inner_node
  | LeafNode leaf_node
  | FreeNode node_handle
  | LastFreeNode node_handle

definition leaf_new :: "nat \<Rightarrow> u128 \<Rightarrow> pubkey \<Rightarrow> nat \<Rightarrow> fee_tier \<Rightarrow> nat \<Rightarrow> leaf_node" where
  "leaf_new owner_slot key owner quantity fee_tier client_order_id =
     \<lparr>leaf_owner_slot = owner_slot, leaf_fee_tier = fee_tier_into fee_tier, leaf_key = key,
      leaf_owner = owner, leaf_quantity = quantity, leaf_client_order_id = client_order_id\<rparr>"

text \<open>\<open>LeafNode::fee_tier\<close> and \<open>LeafNode::price\<close> unwrap: \<open>None\<close> is their panic.\<close>

definition leaf_tier :: "leaf_node \<Rightarrow> fee_tier option" where
  "leaf_tier self = fee_tier_try_from (leaf_fee_tier self)"

definition leaf_price :: "leaf_node \<Rightarrow> nat option" where
  "leaf_price self =
     (let price = unat (drop_bit 64 (leaf_key self)) in if price = 0 then None else Some price)"

definition set_quantity :: "leaf_node \<Rightarrow> nat \<Rightarrow> leaf_node" where
  "set_quantity self quantity = self\<lparr>leaf_quantity := quantity\<rparr>"

text \<open>The child of a node on a side of its critical bit.\<close>

definition child :: "bool \<Rightarrow> node_handle \<times> node_handle \<Rightarrow> node_handle" where
  "child b cs = (if b then snd cs else fst cs)"

text \<open>\<open>(1u128 << 127) >> prefix_len\<close> panics when the prefix has the length of the word.\<close>

definition crit_bit_mask :: "nat \<Rightarrow> u128 option" where
  "crit_bit_mask prefix = (if prefix < 128 then Some (drop_bit prefix (push_bit 127 1)) else None)"

definition walk_down :: "inner_node \<Rightarrow> u128 \<Rightarrow> (node_handle \<times> bool) option" where
  "walk_down self search_key =
     map_option (\<lambda>mask. let crit_bit = (search_key AND mask) \<noteq> 0 in (child crit_bit (children self), crit_bit))
       (crit_bit_mask (prefix_len self))"

definition leading_zeros :: "u128 \<Rightarrow> nat" where
  "leading_zeros w = length (takeWhile (\<lambda>i. \<not> bit w (127 - i)) [0..<128])"

definition node_key :: "any_node \<Rightarrow> u128 option" where
  "node_key self =
     (case self of InnerNode inner \<Rightarrow> Some (inner_key inner) | LeafNode leaf \<Rightarrow> Some (leaf_key leaf) | _ \<Rightarrow> None)"

text \<open>\<open>children\<close> unwraps the case of the node: \<open>None\<close> is the panic.\<close>

definition node_children :: "any_node \<Rightarrow> (node_handle \<times> node_handle) option option" where
  "node_children self =
     (case self of InnerNode inner \<Rightarrow> Some (Some (children inner)) | LeafNode _ \<Rightarrow> Some None | _ \<Rightarrow> None)"

definition as_leaf :: "any_node \<Rightarrow> leaf_node option" where
  "as_leaf self = (case self of LeafNode leaf \<Rightarrow> Some leaf | _ \<Rightarrow> None)"

section \<open>The slab\<close>

record slab =
  bump_index :: nat
  free_list_len :: nat
  free_list_head :: node_handle
  root_node :: node_handle
  leaf_count :: nat
  nodes :: "any_node list"

abbreviation u32_max :: nat where
  "u32_max \<equiv> 4294967295"

definition assert_minimum_capacity :: "slab \<Rightarrow> nat \<Rightarrow> bool" where
  "assert_minimum_capacity self capacity \<longleftrightarrow> \<not> length (nodes self) \<le> capacity * 2"

definition slab_clear :: "slab \<Rightarrow> slab" where
  "slab_clear self =
     self\<lparr>bump_index := 0, free_list_len := 0, free_list_head := 0, root_node := 0, leaf_count := 0\<rparr>"

definition slab_is_empty :: "slab \<Rightarrow> bool" where
  "slab_is_empty self \<longleftrightarrow> bump_index self = free_list_len self"

definition is_live :: "any_node \<Rightarrow> bool" where
  "is_live node = (case node of InnerNode _ \<Rightarrow> True | LeafNode _ \<Rightarrow> True | _ \<Rightarrow> False)"

definition slab_get :: "slab \<Rightarrow> node_handle \<Rightarrow> any_node option" where
  "slab_get self key =
     (if key < length (nodes self) \<and> is_live (nodes self ! key) then Some (nodes self ! key) else None)"

definition slab_contains :: "slab \<Rightarrow> node_handle \<Rightarrow> bool" where
  "slab_contains self key \<longleftrightarrow> slab_get self key \<noteq> None"

text \<open>\<open>*self.get_mut(key).unwrap() = val\<close>.\<close>

definition slab_put :: "slab \<Rightarrow> node_handle \<Rightarrow> any_node \<Rightarrow> slab option" where
  "slab_put self key val =
     (case slab_get self key of None \<Rightarrow> None | Some _ \<Rightarrow> Some (self\<lparr>nodes := (nodes self)[key := val]\<rparr>))"

text \<open>\<open>insert\<close>: the handle, or nothing when the slab is full.\<close>

definition slab_insert :: "slab \<Rightarrow> any_node \<Rightarrow> (node_handle option \<times> slab) option" where
  "slab_insert self val =
     (if \<not> is_live val then None
      else if free_list_len self = 0 then
        (if bump_index self = length (nodes self) then Some (None, self)
         else if bump_index self = u32_max then Some (None, self)
         else let key = bump_index self mod (u32_max + 1) in
           Option.bind (u64_checked (bump_index self + 1)) (\<lambda>bump.
           if key < length (nodes self)
           then Some (Some key, self\<lparr>bump_index := bump, nodes := (nodes self)[key := val]\<rparr>)
           else None))
      else let key = free_list_head self in
        if length (nodes self) \<le> key then None
        else (case nodes self ! key of
                FreeNode next \<Rightarrow>
                  (if 1 < free_list_len self
                   then Some (Some key, self\<lparr>free_list_head := next, free_list_len := free_list_len self - 1,
                                             nodes := (nodes self)[key := val]\<rparr>)
                   else None)
              | LastFreeNode next \<Rightarrow>
                  (if free_list_len self = 1
                   then Some (Some key, self\<lparr>free_list_head := next, free_list_len := free_list_len self - 1,
                                             nodes := (nodes self)[key := val]\<rparr>)
                   else None)
              | _ \<Rightarrow> None))"

definition slab_remove :: "slab \<Rightarrow> node_handle \<Rightarrow> (any_node option \<times> slab) option" where
  "slab_remove self key =
     (case slab_get self key of
        None \<Rightarrow> Some (None, self)
      | Some val \<Rightarrow>
          let free_node = (if free_list_len self = 0 then LastFreeNode (free_list_head self)
                           else FreeNode (free_list_head self)) in
          Option.bind (u64_checked (free_list_len self + 1)) (\<lambda>len.
          Some (Some val, self\<lparr>free_list_len := len, free_list_head := key,
                               nodes := (nodes self)[key := free_node]\<rparr>)))"

text \<open>\<open>self.remove(key).unwrap()\<close>.\<close>

definition slab_remove_unwrap :: "slab \<Rightarrow> node_handle \<Rightarrow> (any_node \<times> slab) option" where
  "slab_remove_unwrap self key =
     Option.bind (slab_remove self key) (\<lambda>(val, s). map_option (\<lambda>v. (v, s)) val)"

section \<open>The tree\<close>

definition slab_root :: "slab \<Rightarrow> node_handle option" where
  "slab_root self = (if leaf_count self = 0 then None else Some (root_node self))"

partial_function (option) find_min_max_loop :: "slab \<Rightarrow> bool \<Rightarrow> node_handle \<Rightarrow> node_handle option" where
  "find_min_max_loop self find_max root =
     (case slab_get self root of
        Some (InnerNode inner) \<Rightarrow> find_min_max_loop self find_max (child find_max (children inner))
      | Some _ \<Rightarrow> Some root
      | None \<Rightarrow> None)"

declare find_min_max_loop.simps [code]

definition find_min_max :: "slab \<Rightarrow> bool \<Rightarrow> node_handle option option" where
  "find_min_max self find_max =
     (case slab_root self of
        None \<Rightarrow> Some None
      | Some root \<Rightarrow> map_option Some (find_min_max_loop self find_max root))"

definition find_min :: "slab \<Rightarrow> node_handle option option" where
  "find_min self = find_min_max self False"

definition find_max :: "slab \<Rightarrow> node_handle option option" where
  "find_max self = find_min_max self True"

datatype slab_tree_error = OutOfSpace

type_synonym insert_result = "slab_tree_error + (node_handle \<times> leaf_node option)"

text \<open>The end of the loop of \<open>insert_leaf\<close>: the node becomes the parent of its old contents and of the
  new leaf.\<close>

definition split_node :: "slab \<Rightarrow> leaf_node \<Rightarrow> node_handle \<Rightarrow> any_node \<Rightarrow> nat \<Rightarrow> (insert_result \<times> slab) option" where
  "split_node self new_leaf root root_contents shared_prefix_len =
     Option.bind (crit_bit_mask shared_prefix_len) (\<lambda>mask.
     let new_leaf_crit_bit = (mask AND leaf_key new_leaf) \<noteq> 0 in
     Option.bind (slab_insert self (LeafNode new_leaf)) (\<lambda>(new_leaf_handle, s1).
     case new_leaf_handle of
       None \<Rightarrow> Some (Inl OutOfSpace, s1)
     | Some new_leaf_handle \<Rightarrow>
         Option.bind (slab_insert s1 root_contents) (\<lambda>(moved_root_handle, s2).
         case moved_root_handle of
           None \<Rightarrow> map_option (\<lambda>(_, s3). (Inl OutOfSpace, s3)) (slab_remove_unwrap s2 new_leaf_handle)
         | Some moved_root_handle \<Rightarrow>
             Option.bind (slab_put s2 root
               (InnerNode \<lparr>prefix_len = shared_prefix_len, inner_key = leaf_key new_leaf,
                           children = (if new_leaf_crit_bit then (moved_root_handle, new_leaf_handle)
                                       else (new_leaf_handle, moved_root_handle))\<rparr>)) (\<lambda>s3.
             Option.bind (u64_checked (leaf_count s3 + 1)) (\<lambda>count.
             Some (Inr (new_leaf_handle, None), s3\<lparr>leaf_count := count\<rparr>))))))"

partial_function (option) insert_leaf_loop :: "slab \<Rightarrow> leaf_node \<Rightarrow> node_handle \<Rightarrow> (insert_result \<times> slab) option" where
  "insert_leaf_loop self new_leaf root =
     (case slab_get self root of
        Some (LeafNode old) \<Rightarrow>
          (if leaf_key old = leaf_key new_leaf
           then map_option (\<lambda>s. (Inr (root, Some old), s)) (slab_put self root (LeafNode new_leaf))
           else split_node self new_leaf root (LeafNode old) (leading_zeros (leaf_key old XOR leaf_key new_leaf)))
      | Some (InnerNode inner) \<Rightarrow>
          (let shared_prefix_len = leading_zeros (inner_key inner XOR leaf_key new_leaf) in
           if prefix_len inner \<le> shared_prefix_len
           then (case walk_down inner (leaf_key new_leaf) of
                   None \<Rightarrow> None
                 | Some (next, _) \<Rightarrow> insert_leaf_loop self new_leaf next)
           else split_node self new_leaf root (InnerNode inner) shared_prefix_len)
      | _ \<Rightarrow> None)"

declare insert_leaf_loop.simps [code]

definition insert_leaf :: "slab \<Rightarrow> leaf_node \<Rightarrow> (insert_result \<times> slab) option" where
  "insert_leaf self new_leaf =
     (case slab_root self of
        Some root \<Rightarrow> insert_leaf_loop self new_leaf root
      | None \<Rightarrow>
          Option.bind (slab_insert self (LeafNode new_leaf)) (\<lambda>(handle, s).
          case handle of
            Some handle \<Rightarrow> Some (Inr (handle, None), s\<lparr>root_node := handle, leaf_count := 1\<rparr>)
          | None \<Rightarrow> Some (Inl OutOfSpace, s)))"

text \<open>\<open>find_by_key\<close> and \<open>traverse\<close> are only compiled for tests.\<close>

partial_function (option) find_by_key_loop :: "slab \<Rightarrow> u128 \<Rightarrow> node_handle \<Rightarrow> node_handle option option" where
  "find_by_key_loop self search_key handle =
     (case slab_get self handle of
        Some (LeafNode leaf) \<Rightarrow>
          (if leading_zeros (search_key XOR leaf_key leaf) < 128 then Some None else Some (Some handle))
      | Some (InnerNode inner) \<Rightarrow>
          (if leading_zeros (search_key XOR inner_key inner) < prefix_len inner then Some None
           else (case walk_down inner search_key of
                   None \<Rightarrow> None
                 | Some (next, _) \<Rightarrow> find_by_key_loop self search_key next))
      | _ \<Rightarrow> None)"

declare find_by_key_loop.simps [code]

definition find_by_key :: "slab \<Rightarrow> u128 \<Rightarrow> node_handle option option" where
  "find_by_key self search_key =
     (case slab_root self of None \<Rightarrow> Some None | Some root \<Rightarrow> find_by_key_loop self search_key root)"

text \<open>The loop of \<open>find_by\<close>: every turn takes a unit of the limit and a node off the stack, whose top is
  the head of the list.\<close>

fun find_by_loop :: "slab \<Rightarrow> (leaf_node \<Rightarrow> bool) \<Rightarrow> nat \<Rightarrow> node_handle list \<Rightarrow> u128 list \<Rightarrow> u128 list \<times> nat" where
  "find_by_loop self predicate limit [] found = (found, limit)"
| "find_by_loop self predicate 0 (h # stack) found = (found, 0)"
| "find_by_loop self predicate (Suc limit) (h # stack) found =
     (case slab_get self h of
        Some (LeafNode leaf) \<Rightarrow>
          find_by_loop self predicate limit stack (if predicate leaf then found @ [leaf_key leaf] else found)
      | Some (InnerNode inner) \<Rightarrow>
          find_by_loop self predicate limit (snd (children inner) # fst (children inner) # stack) found
      | _ \<Rightarrow> (found, limit))"

definition find_by :: "slab \<Rightarrow> nat \<Rightarrow> (leaf_node \<Rightarrow> bool) \<Rightarrow> u128 list \<times> nat" where
  "find_by self limit predicate =
     (case slab_root self of
        None \<Rightarrow> ([], limit)
      | Some root \<Rightarrow> find_by_loop self predicate limit [root] [])"

text \<open>The search of \<open>remove_by_key\<close> below an inner node: the parent of the leaf, the leaf and its side.\<close>

partial_function (option) remove_loop ::
    "slab \<Rightarrow> u128 \<Rightarrow> node_handle \<Rightarrow> node_handle \<Rightarrow> bool \<Rightarrow> (node_handle \<times> node_handle \<times> bool) option option" where
  "remove_loop self search_key parent_h child_h crit_bit =
     (case slab_get self child_h of
        Some (InnerNode inner) \<Rightarrow>
          (case walk_down inner search_key of
             None \<Rightarrow> None
           | Some (grandchild_h, grandchild_crit_bit) \<Rightarrow>
               remove_loop self search_key child_h grandchild_h grandchild_crit_bit)
      | Some (LeafNode leaf) \<Rightarrow>
          (if leaf_key leaf \<noteq> search_key then Some None else Some (Some (parent_h, child_h, crit_bit)))
      | _ \<Rightarrow> None)"

declare remove_loop.simps [code]

definition splice_out :: "slab \<Rightarrow> node_handle \<Rightarrow> node_handle \<Rightarrow> bool \<Rightarrow> (leaf_node option \<times> slab) option" where
  "splice_out self parent_h child_h crit_bit =
     Option.bind (slab_get self parent_h) (\<lambda>parent.
     Option.bind (node_children parent) (\<lambda>cs.
     Option.bind cs (\<lambda>cs.
     let other_child_h = child (\<not> crit_bit) cs in
     Option.bind (slab_remove_unwrap self other_child_h) (\<lambda>(other_child_node_contents, s1).
     Option.bind (slab_put s1 parent_h other_child_node_contents) (\<lambda>s2.
     Option.bind (checked_sub (leaf_count s2) 1) (\<lambda>count.
     Option.bind (slab_remove_unwrap (s2\<lparr>leaf_count := count\<rparr>) child_h) (\<lambda>(removed, s3).
     map_option (\<lambda>leaf. (Some leaf, s3)) (as_leaf removed))))))))"

definition remove_by_key :: "slab \<Rightarrow> u128 \<Rightarrow> (leaf_node option \<times> slab) option" where
  "remove_by_key self search_key =
     (case slab_root self of
        None \<Rightarrow> Some (None, self)
      | Some root \<Rightarrow>
          (case slab_get self root of
             Some (LeafNode leaf) \<Rightarrow>
               (if leaf_key leaf = search_key
                then if leaf_count self = 1
                  then map_option (\<lambda>(_, s). (Some leaf, s))
                         (slab_remove_unwrap (self\<lparr>root_node := 0, leaf_count := 0\<rparr>) root)
                  else None
                else Some (None, self))
           | Some (InnerNode inner) \<Rightarrow>
               Option.bind (walk_down inner search_key) (\<lambda>(child_h, crit_bit).
               Option.bind (remove_loop self search_key root child_h crit_bit) (\<lambda>found.
               case found of
                 None \<Rightarrow> Some (None, self)
               | Some (parent_h, child_h, crit_bit) \<Rightarrow> splice_out self parent_h child_h crit_bit))
           | _ \<Rightarrow> None))"

definition remove_extreme :: "slab \<Rightarrow> bool \<Rightarrow> (leaf_node option \<times> slab) option" where
  "remove_extreme self largest =
     Option.bind (find_min_max self largest) (\<lambda>handle.
     case Option.bind (Option.bind handle (slab_get self)) node_key of
       None \<Rightarrow> Some (None, self)
     | Some key \<Rightarrow> remove_by_key self key)"

definition remove_min :: "slab \<Rightarrow> (leaf_node option \<times> slab) option" where
  "remove_min self = remove_extreme self False"

definition remove_max :: "slab \<Rightarrow> (leaf_node option \<times> slab) option" where
  "remove_max self = remove_extreme self True"

partial_function (option) walk_rec :: "slab \<Rightarrow> node_handle \<Rightarrow> leaf_node list option" where
  "walk_rec self sub_root =
     (case slab_get self sub_root of
        Some (LeafNode leaf) \<Rightarrow> Some [leaf]
      | Some (InnerNode inner) \<Rightarrow>
          Option.bind (walk_rec self (fst (children inner))) (\<lambda>left.
          Option.bind (walk_rec self (snd (children inner))) (\<lambda>right. Some (left @ right)))
      | _ \<Rightarrow> None)"

declare walk_rec.simps [code]

definition traverse :: "slab \<Rightarrow> leaf_node list option" where
  "traverse self =
     (case slab_root self of
        None \<Rightarrow> Some []
      | Some root \<Rightarrow>
          Option.bind (walk_rec self root) (\<lambda>buf. if length buf = leaf_count self then Some buf else None))"

end
