(* ===== verification/Dex_Bits.thy ===== *)
theory Dex_Bits
  imports Dex_Critbit
begin

text \<open>
  The bits of a key of the order book, counted from the most significant one, and the order they induce:
  facts on words that the proofs about the critical bit tree share.
\<close>

definition kbit :: "u128 \<Rightarrow> nat \<Rightarrow> bool" where
  "kbit w i = bit w (127 - i)"

definition agree :: "nat \<Rightarrow> u128 \<Rightarrow> u128 \<Rightarrow> bool" where
  "agree p a b \<longleftrightarrow> (\<forall>i < p. kbit a i = kbit b i)"

lemma agree_refl [simp]: "agree p a a"
  by (simp add: agree_def)

lemma agree_sym: "agree p a b \<Longrightarrow> agree p b a"
  by (simp add: agree_def)

lemma agree_trans: "agree p a b \<Longrightarrow> agree p b c \<Longrightarrow> agree p a c"
  by (simp add: agree_def)

lemma agree_mono: "agree p a b \<Longrightarrow> q \<le> p \<Longrightarrow> agree q a b"
  by (simp add: agree_def)

lemma agree_all: "agree 128 a b \<longleftrightarrow> a = b"
proof
  assume ag: "agree 128 a b"
  show "a = b"
  proof (rule bit_word_eqI)
    fix n assume "n < LENGTH(128)"
    then have "127 - n < 128" "127 - (127 - n) = n" by auto
    with ag show "bit a n = bit b n"
      unfolding agree_def kbit_def by metis
  qed
qed simp

lemma drop_push_bit_one:
  assumes "p \<le> m" "m < 128"
  shows "drop_bit p (push_bit m (1::u128)) = push_bit (m - p) 1"
  by (rule bit_word_eqI) (use assms in \<open>auto simp: bit_simps\<close>)

lemma mask_bit:
  assumes "p < 128"
  shows "(key AND drop_bit p (push_bit 127 1) \<noteq> (0::u128)) = kbit key p"
    and "(drop_bit p (push_bit 127 1) AND key \<noteq> (0::u128)) = kbit key p"
proof -
  have *: "drop_bit p (push_bit 127 (1::u128)) = push_bit (127 - p) 1"
    using assms by (intro drop_push_bit_one) simp_all
  show "(key AND drop_bit p (push_bit 127 1) \<noteq> (0::u128)) = kbit key p"
    unfolding * kbit_def bit_iff_and_push_bit_not_eq_0 ..
  then show "(drop_bit p (push_bit 127 1) AND key \<noteq> (0::u128)) = kbit key p"
    by (simp only: and.commute)
qed

lemma length_takeWhile_upt:
  "k \<le> length (takeWhile P [0..<n]) \<longleftrightarrow> k \<le> n \<and> (\<forall>i < k. P i)"
proof (induction n)
  case 0
  then show ?case by auto
next
  case (Suc n)
  show ?case
  proof (cases "\<forall>i < n. P i")
    case True
    then have "takeWhile P [0..<n] = [0..<n]" by (simp add: takeWhile_eq_all_conv)
    with True show ?thesis by (auto simp: takeWhile_append less_Suc_eq le_Suc_eq)
  next
    case False
    then obtain j where "j < n" "\<not> P j" by blast
    then have "takeWhile P [0..<Suc n] = takeWhile P [0..<n]"
      by (auto simp: takeWhile_append)
    with Suc \<open>j < n\<close> \<open>\<not> P j\<close> show ?thesis by (auto simp del: upt_Suc)
  qed
qed

lemma le_leading_zeros: "p \<le> leading_zeros (a XOR b) \<longleftrightarrow> p \<le> 128 \<and> agree p a b"
  unfolding leading_zeros_def length_takeWhile_upt agree_def kbit_def
  by (auto simp: bit_xor_iff)

lemma leading_zeros_lt: "a \<noteq> b \<Longrightarrow> leading_zeros (a XOR b) < 128"
  using le_leading_zeros [of 128 a b] agree_all [of a b] by auto

lemma leading_zeros_agree: "agree (leading_zeros (a XOR b)) a b"
  using le_leading_zeros [of "leading_zeros (a XOR b)" a b] by simp

lemma leading_zeros_differ:
  assumes "a \<noteq> b"
  shows "kbit a (leading_zeros (a XOR b)) \<noteq> kbit b (leading_zeros (a XOR b))"
proof
  let ?p = "leading_zeros (a XOR b)"
  assume "kbit a ?p = kbit b ?p"
  then have "agree (Suc ?p) a b"
    using leading_zeros_agree [of a b] by (auto simp: agree_def less_Suc_eq)
  then have "Suc ?p \<le> ?p"
    using leading_zeros_lt [OF assms] le_leading_zeros [of "Suc ?p" a b] by simp
  then show False by simp
qed

lemma agree_less:
  assumes "agree p a b" "\<not> kbit a p" "kbit b p" "p < 128"
  shows "a < b"
proof -
  let ?n = "127 - p"
  have up: "drop_bit (Suc ?n) a = drop_bit (Suc ?n) b"
  proof (rule bit_word_eqI)
    fix m assume "m < LENGTH(128)"
    show "bit (drop_bit (Suc ?n) a) m = bit (drop_bit (Suc ?n) b) m"
    proof (cases "Suc ?n + m < 128")
      case True
      then have "127 - (Suc ?n + m) < p" "127 - (127 - (Suc ?n + m)) = Suc ?n + m" using assms(4) by auto
      with assms(1) have "bit a (Suc ?n + m) = bit b (Suc ?n + m)"
        unfolding agree_def kbit_def by metis
      then show ?thesis by (simp add: bit_drop_bit_eq)
    next
      case False
      then show ?thesis by (auto simp: bit_drop_bit_eq dest: bit_imp_le_length)
    qed
  qed
  have split: "drop_bit ?n (unat w) = 2 * drop_bit (Suc ?n) (unat w) + of_bool (bit (unat w) ?n)" for w :: u128
  proof -
    have "drop_bit (Suc ?n) (unat w) = drop_bit ?n (unat w) div 2"
      by (simp only: drop_bit_eq_div power_Suc2 div_mult2_eq)
    moreover have "of_bool (bit (unat w) ?n) = drop_bit ?n (unat w) mod 2"
      by (simp add: bit_iff_odd_drop_bit mod_2_eq_odd)
    ultimately show ?thesis by simp
  qed
  have "drop_bit (Suc ?n) (unat a) = drop_bit (Suc ?n) (unat b)"
    using up by (metis unat_drop_bit_eq)
  moreover have "\<not> bit (unat a) ?n" "bit (unat b) ?n"
    using assms(2,3) by (simp_all add: kbit_def bit_unsigned_iff)
  ultimately have "drop_bit ?n (unat a) < drop_bit ?n (unat b)"
    using split [of a] split [of b] by simp
  then have "unat a < unat b"
    unfolding drop_bit_eq_div by (metis div_le_mono not_less)
  then show ?thesis by (simp add: word_less_nat_alt)
qed

end
