(* ===== verification/Dex_Slab.thy ===== *)
theory Dex_Slab
  imports Dex_Bits
begin

text \<open>
  The slab as an allocator. The handles below \<open>bump_index\<close> are split into the live ones and the ones on the
  free list; \<open>slab_insert\<close> hands out a handle that is not live, \<open>slab_remove\<close> takes one back, and neither
  fails before the capacity is used up.
\<close>

fun free_chain :: "any_node list \<Rightarrow> node_handle list \<Rightarrow> bool" where
  "free_chain ns [] \<longleftrightarrow> True"
| "free_chain ns [h] \<longleftrightarrow> h < length ns \<and> (\<exists>next. ns ! h = LastFreeNode next)"
| "free_chain ns (h # h' # hs) \<longleftrightarrow> h < length ns \<and> ns ! h = FreeNode h' \<and> free_chain ns (h' # hs)"

definition pool :: "slab \<Rightarrow> node_handle set \<Rightarrow> bool" where
  "pool s live \<longleftrightarrow>
     bump_index s \<le> length (nodes s) \<and> bump_index s \<le> u32_max \<and>
     (\<exists>fs. distinct fs \<and> set fs \<inter> live = {} \<and> set fs \<union> live = {..<bump_index s} \<and>
        free_list_len s = length fs \<and> (fs \<noteq> [] \<longrightarrow> free_list_head s = hd fs) \<and> free_chain (nodes s) fs)"

definition capacity :: "slab \<Rightarrow> nat" where
  "capacity s = min (length (nodes s)) u32_max"

lemma free_chain_update:
  "free_chain ns fs \<Longrightarrow> h \<notin> set fs \<Longrightarrow> free_chain (ns[h := v]) fs"
  by (induction ns fs rule: free_chain.induct) auto

lemma free_chain_tl: "free_chain ns (h # hs) \<Longrightarrow> free_chain ns hs"
  by (cases hs) auto

lemma pool_finite: "pool s live \<Longrightarrow> finite live"
  unfolding pool_def by (metis finite_Un finite_lessThan)

lemma pool_bound: "pool s live \<Longrightarrow> h \<in> live \<Longrightarrow> h < length (nodes s)"
  unfolding pool_def by (metis UnI2 lessThan_iff less_le_trans)

lemma pool_bump: "pool s live \<Longrightarrow> bump_index s \<le> length (nodes s)" "pool s live \<Longrightarrow> bump_index s \<le> u32_max"
  by (simp_all add: pool_def)

lemma pool_card:
  assumes "pool s live"
  shows "card live + free_list_len s = bump_index s"
proof -
  from assms obtain fs where "distinct fs" "set fs \<inter> live = {}" "set fs \<union> live = {..<bump_index s}"
      "free_list_len s = length fs"
    unfolding pool_def by blast
  moreover have "card (set fs \<union> live) = card (set fs) + card live"
    using calculation pool_finite [OF assms] by (intro card_Un_disjoint) auto
  ultimately show ?thesis by (simp add: distinct_card)
qed

lemma pool_le_capacity: "pool s live \<Longrightarrow> card live \<le> capacity s"
  using pool_card [of s live] by (auto simp: capacity_def pool_def)

text \<open>Allocation.\<close>

lemma slab_insert_full:
  assumes "pool s live" "is_live v" "capacity s \<le> card live"
  shows "slab_insert s v = Some (None, s)"
proof -
  have "free_list_len s = 0" "bump_index s = length (nodes s) \<or> bump_index s = u32_max"
    using assms(3) pool_card [OF assms(1)] pool_bump [OF assms(1)] by (auto simp: capacity_def min_def split: if_splits)
  with assms(2) show ?thesis by (auto simp: slab_insert_def)
qed

lemma slab_insert_room:
  assumes "pool s live" "is_live v" "card live < capacity s"
  obtains h s' where "slab_insert s v = Some (Some h, s')" "h \<notin> live" "pool s' (insert h live)"
    "nodes s' = (nodes s)[h := v]" "h < length (nodes s)" "leaf_count s' = leaf_count s" "root_node s' = root_node s"
proof -
  from assms(1) obtain fs where fs: "distinct fs" "set fs \<inter> live = {}" "set fs \<union> live = {..<bump_index s}"
      "free_list_len s = length fs" "fs \<noteq> [] \<longrightarrow> free_list_head s = hd fs" "free_chain (nodes s) fs"
    unfolding pool_def by blast
  note bump = pool_bump [OF assms(1)]
  show thesis
  proof (cases fs)
    case Nil
    let ?h = "bump_index s"
    let ?s = "s\<lparr>bump_index := ?h + 1, nodes := (nodes s)[?h := v]\<rparr>"
    have lt: "?h < length (nodes s)" "?h < u32_max"
      using assms(3) pool_card [OF assms(1)] fs(4) Nil by (auto simp: capacity_def)
    have "slab_insert s v = Some (Some ?h, ?s)"
      using assms(2) lt fs(4) Nil by (simp add: slab_insert_def Let_def)
    moreover have "?h \<notin> live" using fs(3) by auto
    moreover have "pool ?s (insert ?h live)"
      using fs(3) Nil lt fs(4) unfolding pool_def by (auto intro!: exI [of _ "[]"])
    ultimately show thesis using that lt(1) by simp
  next
    case (Cons h hs)
    have h: "h < length (nodes s)" "free_list_head s = h"
      using fs(5,6) Cons by (cases hs; simp)+
    obtain n where n: "(nodes s ! h = FreeNode n \<and> hs \<noteq> [] \<and> n = hd hs) \<or> (nodes s ! h = LastFreeNode n \<and> hs = [])"
      using fs(6) Cons by (cases hs) auto
    define s' where "s' = s\<lparr>free_list_head := n, free_list_len := free_list_len s - 1, nodes := (nodes s)[h := v]\<rparr>"
    have "slab_insert s v = Some (Some h, s')"
      using assms(2) h n fs(4) Cons unfolding s'_def by (auto simp: slab_insert_def Let_def)
    moreover have "h \<notin> live" using fs(2) Cons by auto
    moreover have "pool s' (insert h live)"
    proof -
      have "free_chain ((nodes s)[h := v]) hs"
        using fs(1,6) Cons free_chain_tl by (intro free_chain_update) simp_all
      moreover have "set hs \<union> insert h live = {..<bump_index s}" using fs(3) Cons by auto
      moreover have "distinct hs" "set hs \<inter> insert h live = {}" using fs(1,2) Cons by auto
      moreover have "hs \<noteq> [] \<longrightarrow> n = hd hs" using n by auto
      ultimately show ?thesis
        using bump fs(4) Cons unfolding pool_def s'_def by (auto intro!: exI [of _ hs])
    qed
    ultimately show thesis using that h(1) by (simp add: s'_def)
  qed
qed

text \<open>Release, and changing a live node.\<close>

lemma slab_remove_live:
  assumes "pool s live" "h \<in> live" "is_live (nodes s ! h)"
  obtains s' v where "slab_remove_unwrap s h = Some (nodes s ! h, s')" "pool s' (live - {h})"
    "nodes s' = (nodes s)[h := v]" "leaf_count s' = leaf_count s" "root_node s' = root_node s"
proof -
  from assms(1) obtain fs where fs: "distinct fs" "set fs \<inter> live = {}" "set fs \<union> live = {..<bump_index s}"
      "free_list_len s = length fs" "fs \<noteq> [] \<longrightarrow> free_list_head s = hd fs" "free_chain (nodes s) fs"
    unfolding pool_def by blast
  note bump = pool_bump [OF assms(1)]
  have h: "h < length (nodes s)" using assms(1,2) by (rule pool_bound)
  have notin: "h \<notin> set fs" using fs(2) assms(2) by auto
  let ?v = "if free_list_len s = 0 then LastFreeNode (free_list_head s) else FreeNode (free_list_head s)"
  let ?s = "s\<lparr>free_list_len := free_list_len s + 1, free_list_head := h, nodes := (nodes s)[h := ?v]\<rparr>"
  have "free_list_len s + 1 \<le> u64_max" using pool_card [OF assms(1)] bump by simp
  then have removed: "slab_remove_unwrap s h = Some (nodes s ! h, ?s)"
    using h assms(3) by (simp add: slab_remove_unwrap_def slab_remove_def slab_get_def Let_def)
  have "free_chain ((nodes s)[h := ?v]) (h # fs)"
    using free_chain_update [OF fs(6) notin] fs(4,5) h notin by (cases fs) auto
  moreover have "set (h # fs) \<union> (live - {h}) = {..<bump_index s}" using fs(3) assms(2) by auto
  moreover have "distinct (h # fs)" "set (h # fs) \<inter> (live - {h}) = {}" using fs(1,2) notin by auto
  ultimately have "pool ?s (live - {h})"
    using bump fs(4) unfolding pool_def by (intro conjI exI [of _ "h # fs"]) simp_all
  with removed show thesis using that by simp
qed

lemma pool_update: "pool s live \<Longrightarrow> h \<in> live \<Longrightarrow> pool (s\<lparr>nodes := (nodes s)[h := v]\<rparr>) live"
  unfolding pool_def by (auto intro: free_chain_update)

lemma pool_header [simp]:
  "pool (s\<lparr>leaf_count := n\<rparr>) live = pool s live"
  "pool (s\<lparr>root_node := r\<rparr>) live = pool s live"
  by (simp_all add: pool_def)

lemma slab_put_live:
  "h < length (nodes s) \<Longrightarrow> is_live (nodes s ! h) \<Longrightarrow> slab_put s h v = Some (s\<lparr>nodes := (nodes s)[h := v]\<rparr>)"
  by (simp add: slab_put_def slab_get_def)

lemma capacity_simps [simp]:
  "capacity (s\<lparr>nodes := (nodes s)[h := v]\<rparr>) = capacity s"
  "capacity (s\<lparr>leaf_count := n\<rparr>) = capacity s"
  "capacity (s\<lparr>root_node := r\<rparr>) = capacity s"
  by (simp_all add: capacity_def)

text \<open>A slab whose header is zero, as \<open>clear\<close> leaves it, has nothing allocated.\<close>

lemma pool_clear: "pool (slab_clear s) {}"
  by (auto simp: pool_def slab_clear_def intro: exI [of _ "[]"])

end
