(* ===== verification/Dex_Tree.thy ===== *)
theory Dex_Tree
  imports Dex_Slab
begin

text \<open>
  The tree that a slab represents. A \<open>ctree\<close> is a binary tree whose nodes carry the handle under which the
  slab stores them. The critical bit invariant \<open>crit_ok\<close> says that all keys below an inner node
  share its prefix and that the next bit separates the two subtrees; it makes the leaves from left to right
  sorted by key. Insertion and deletion change the tree at one place on the path of a key: \<open>stop_at\<close> finds the
  place and \<open>graft\<close> replaces it.
\<close>

section \<open>Trees\<close>

datatype ctree =
    CLeaf node_handle leaf_node
  | CNode node_handle nat u128 ctree ctree

fun thandle :: "ctree \<Rightarrow> node_handle" where
  "thandle (CLeaf h x) = h"
| "thandle (CNode h p k l r) = h"

fun tkey :: "ctree \<Rightarrow> u128" where
  "tkey (CLeaf h x) = leaf_key x"
| "tkey (CNode h p k l r) = k"

fun contents :: "ctree \<Rightarrow> any_node" where
  "contents (CLeaf h x) = LeafNode x"
| "contents (CNode h p k l r) = InnerNode \<lparr>prefix_len = p, inner_key = k, children = (thandle l, thandle r)\<rparr>"

fun rehandle :: "node_handle \<Rightarrow> ctree \<Rightarrow> ctree" where
  "rehandle h' (CLeaf h x) = CLeaf h' x"
| "rehandle h' (CNode h p k l r) = CNode h' p k l r"

fun subtrees :: "ctree \<Rightarrow> node_handle list" where
  "subtrees (CLeaf h x) = []"
| "subtrees (CNode h p k l r) = thandle l # subtrees l @ thandle r # subtrees r"

definition handles :: "ctree \<Rightarrow> node_handle list" where
  "handles t = thandle t # subtrees t"

fun leaves :: "ctree \<Rightarrow> leaf_node list" where
  "leaves (CLeaf h x) = [x]"
| "leaves (CNode h p k l r) = leaves l @ leaves r"

fun represents :: "any_node list \<Rightarrow> ctree \<Rightarrow> bool" where
  "represents ns (CLeaf h x) \<longleftrightarrow> h < length ns \<and> ns ! h = LeafNode x"
| "represents ns (CNode h p k l r) \<longleftrightarrow>
     h < length ns \<and> ns ! h = contents (CNode h p k l r) \<and> represents ns l \<and> represents ns r"

fun crit_ok :: "ctree \<Rightarrow> bool" where
  "crit_ok (CLeaf h x) \<longleftrightarrow> True"
| "crit_ok (CNode h p k l r) \<longleftrightarrow> p < 128 \<and> crit_ok l \<and> crit_ok r \<and>
     (\<forall>x \<in> set (leaves l). agree p (leaf_key x) k \<and> \<not> kbit (leaf_key x) p) \<and>
     (\<forall>x \<in> set (leaves r). agree p (leaf_key x) k \<and> kbit (leaf_key x) p)"

lemma handles_simps [simp]:
  "handles (CLeaf h x) = [h]"
  "handles (CNode h p k l r) = h # handles l @ handles r"
  by (simp_all add: handles_def)

lemma thandle_in_handles [simp]: "thandle t \<in> set (handles t)"
  by (simp add: handles_def)

lemma rehandle_simps [simp]:
  "thandle (rehandle h t) = h" "contents (rehandle h t) = contents t" "leaves (rehandle h t) = leaves t"
  "crit_ok (rehandle h t) = crit_ok t" "handles (rehandle h t) = h # subtrees t" "subtrees (rehandle h t) = subtrees t"
  by (cases t; simp add: handles_def)+

lemma leaves_nonempty [simp]: "leaves t \<noteq> []"
  by (induction t) simp_all

lemma length_handles: "Suc (length (handles t)) = 2 * length (leaves t)"
proof (induction t)
  case (CNode h p k l r)
  have "length (handles (CNode h p k l r)) = Suc (length (handles l) + length (handles r))" by simp
  with CNode show ?case by simp
qed simp

lemma represents_root: "represents ns t \<Longrightarrow> thandle t < length ns \<and> ns ! thandle t = contents t"
  by (cases t) simp_all

lemma contents_live [simp]: "is_live (contents t)"
  by (cases t) (simp_all add: is_live_def)

lemma represents_live: "represents ns t \<Longrightarrow> h \<in> set (handles t) \<Longrightarrow> h < length ns \<and> is_live (ns ! h)"
  by (induction t) (auto simp: is_live_def)

lemma represents_cong:
  assumes "represents ns t" "\<And>h. h \<in> set (handles t) \<Longrightarrow> h < length ns' \<and> ns' ! h = ns ! h"
  shows "represents ns' t"
  using assms
proof (induction t)
  case (CLeaf h x)
  then show ?case by simp
next
  case (CNode h p k l r)
  have "represents ns' l" "represents ns' r"
    using CNode.prems by (simp_all add: CNode.IH)
  moreover have "h < length ns' \<and> ns' ! h = ns ! h"
    using CNode.prems(2) [of h] by simp
  ultimately show ?case using CNode.prems(1) by simp
qed

lemma represents_update:
  assumes "represents ns t" "h \<notin> set (handles t)"
  shows "represents (ns[h := v]) t"
proof (rule represents_cong [OF assms(1)])
  fix h' assume "h' \<in> set (handles t)"
  then show "h' < length (ns[h := v]) \<and> ns[h := v] ! h' = ns ! h'"
    using represents_live [OF assms(1)] assms(2) by (cases "h' = h") simp_all
qed

text \<open>A node stored under another handle: its subtrees stay where they are.\<close>

lemma represents_rehandle:
  assumes "represents ns t" "ns' ! h' = contents t" "h' < length ns'"
    and "\<And>h. h \<in> set (subtrees t) \<Longrightarrow> h < length ns' \<and> ns' ! h = ns ! h"
  shows "represents ns' (rehandle h' t)"
proof (cases t)
  case (CNode h p k l r)
  have "represents ns' l" "represents ns' r"
    using assms(1,4) CNode by (auto intro!: represents_cong [of ns] simp: handles_def)
  with assms(2,3) CNode show ?thesis by simp
qed (use assms in simp)

section \<open>Sorted leaves\<close>

abbreviation key_less :: "leaf_node \<Rightarrow> leaf_node \<Rightarrow> bool" where
  "key_less x y \<equiv> leaf_key x < leaf_key y"

lemma crit_ok_sorted: "crit_ok t \<Longrightarrow> sorted_wrt key_less (leaves t)"
proof (induction t)
  case (CNode h p k l r)
  have "leaf_key x < leaf_key y" if "x \<in> set (leaves l)" "y \<in> set (leaves r)" for x y
  proof (rule agree_less)
    have "agree p (leaf_key x) k" "agree p k (leaf_key y)"
      using CNode.prems that by (auto intro: agree_sym)
    then show "agree p (leaf_key x) (leaf_key y)" by (rule agree_trans)
    show "\<not> kbit (leaf_key x) p" "kbit (leaf_key y) p" "p < 128"
      using CNode.prems that by auto
  qed
  with CNode show ?case by (auto simp: sorted_wrt_append)
qed simp

lemma sorted_by_key_distinct: "sorted_wrt key_less xs \<Longrightarrow> distinct (map leaf_key xs)"
  by (induction xs) auto

lemma sorted_by_key_unique:
  assumes "sorted_wrt key_less xs" "sorted_wrt key_less ys" "set xs = set ys"
  shows "xs = ys"
  using assms
proof (induction xs arbitrary: ys)
  case Nil
  then show ?case by simp
next
  case (Cons x xs)
  from Cons.prems(3) obtain y ys' where ys: "ys = y # ys'" by (cases ys) auto
  have "x = y"
  proof (rule ccontr)
    assume "x \<noteq> y"
    then have "x \<in> set ys'" "y \<in> set xs" using Cons.prems(3) ys by auto
    then have "leaf_key x < leaf_key y" "leaf_key y < leaf_key x" using Cons.prems(1,2) ys by auto
    then show False by simp
  qed
  moreover have "x \<notin> set xs" "y \<notin> set ys'" using Cons.prems(1,2) ys by auto
  ultimately have "set xs = set ys'" using Cons.prems(3) ys by auto
  with Cons ys \<open>x = y\<close> show ?case by auto
qed

lemma sorted_by_key_inj:
  "sorted_wrt key_less xs \<Longrightarrow> x \<in> set xs \<Longrightarrow> y \<in> set xs \<Longrightarrow> leaf_key x = leaf_key y \<Longrightarrow> x = y"
  by (drule sorted_by_key_distinct) (metis distinct_map inj_onD)

section \<open>Reading the tree\<close>

lemma slab_get_represents: "represents (nodes s) t \<Longrightarrow> slab_get s (thandle t) = Some (contents t)"
  by (drule represents_root) (simp add: slab_get_def)

lemma walk_down_eq:
  "p < 128 \<Longrightarrow> walk_down \<lparr>prefix_len = p, inner_key = k, children = (a, b)\<rparr> key =
     Some (if kbit key p then b else a, kbit key p)"
  unfolding walk_down_def crit_bit_mask_def child_def by (simp only: if_True option.map inner_node.simps Let_def mask_bit fst_conv snd_conv)

lemma walk_rec_represents: "represents (nodes s) t \<Longrightarrow> walk_rec s (thandle t) = Some (leaves t)"
proof (induction t)
  case (CLeaf h x)
  show ?case
    by (subst walk_rec.simps) (simp only: slab_get_represents [OF CLeaf] contents.simps option.case any_node.case leaves.simps)
next
  case (CNode h p k l r)
  have "walk_rec s (thandle l) = Some (leaves l)" "walk_rec s (thandle r) = Some (leaves r)"
    using CNode by auto
  then show ?case
    by (subst walk_rec.simps) (simp add: slab_get_represents [OF CNode.prems] del: represents.simps thandle.simps)
qed

fun edge :: "bool \<Rightarrow> ctree \<Rightarrow> ctree" where
  "edge b (CLeaf h x) = CLeaf h x"
| "edge b (CNode h p k l r) = edge b (if b then r else l)"

lemma find_min_max_loop_represents:
  "represents (nodes s) t \<Longrightarrow> find_min_max_loop s b (thandle t) = Some (thandle (edge b t))"
proof (induction t)
  case (CLeaf h x)
  show ?case
    by (subst find_min_max_loop.simps) (simp add: slab_get_represents [OF CLeaf] del: represents.simps thandle.simps)
next
  case (CNode h p k l r)
  have "find_min_max_loop s b (thandle (if b then r else l)) = Some (thandle (edge b (if b then r else l)))"
    using CNode by auto
  then show ?case
    by (subst find_min_max_loop.simps)
      (simp add: slab_get_represents [OF CNode.prems] child_def if_distrib [of thandle] del: represents.simps thandle.simps
        split: if_splits)
qed

lemma edge_represents: "represents ns t \<Longrightarrow> represents ns (edge b t)"
  by (induction t) auto

lemma edge_leaf: "\<exists>h x. edge b t = CLeaf h x \<and> x = (if b then last (leaves t) else hd (leaves t))"
  by (induction t) (auto simp: hd_append)

section \<open>Changing a place on the path of a key\<close>

fun stop_at :: "(ctree \<Rightarrow> bool) \<Rightarrow> u128 \<Rightarrow> ctree \<Rightarrow> ctree" where
  "stop_at Q key (CLeaf h x) = CLeaf h x"
| "stop_at Q key (CNode h p k l r) =
     (if Q (CNode h p k l r) then CNode h p k l r else if kbit key p then stop_at Q key r else stop_at Q key l)"

fun graft :: "(ctree \<Rightarrow> bool) \<Rightarrow> u128 \<Rightarrow> (ctree \<Rightarrow> ctree) \<Rightarrow> ctree \<Rightarrow> ctree" where
  "graft Q key f (CLeaf h x) = f (CLeaf h x)"
| "graft Q key f (CNode h p k l r) =
     (if Q (CNode h p k l r) then f (CNode h p k l r)
      else if kbit key p then CNode h p k l (graft Q key f r) else CNode h p k (graft Q key f l) r)"

lemma stop_at_represents: "represents ns t \<Longrightarrow> represents ns (stop_at Q key t)"
  by (induction t) auto

lemma stop_at_crit_ok: "crit_ok t \<Longrightarrow> crit_ok (stop_at Q key t)"
  by (induction t) auto

lemma stop_at_handles: "set (handles (stop_at Q key t)) \<subseteq> set (handles t)"
  by (induction t) auto

lemma stop_at_distinct: "distinct (handles t) \<Longrightarrow> distinct (handles (stop_at Q key t))"
  by (induction t) auto

lemma stop_at_leaves: "set (leaves (stop_at Q key t)) \<subseteq> set (leaves t)"
  by (induction t) auto

lemma graft_handles:
  "mset (handles (graft Q key f t)) + mset (handles (stop_at Q key t)) =
     mset (handles t) + mset (handles (f (stop_at Q key t)))"
  by (induction t) (auto simp: add.assoc add.commute add.left_commute)

lemma graft_leaves:
  "mset (leaves (graft Q key f t)) + mset (leaves (stop_at Q key t)) =
     mset (leaves t) + mset (leaves (f (stop_at Q key t)))"
  by (induction t) (auto simp: add.assoc add.commute add.left_commute)

lemma graft_thandle:
  "thandle (f (stop_at Q key t)) = thandle (stop_at Q key t) \<Longrightarrow> thandle (graft Q key f t) = thandle t"
  by (cases t) auto

lemma graft_represents:
  assumes "represents ns t" "distinct (handles t)"
    and "represents ns' (f (stop_at Q key t))" "thandle (f (stop_at Q key t)) = thandle (stop_at Q key t)"
    and "\<And>h. h \<in> set (handles t) \<Longrightarrow> h \<notin> set (handles (stop_at Q key t)) \<Longrightarrow> h < length ns' \<and> ns' ! h = ns ! h"
  shows "represents ns' (graft Q key f t)"
  using assms
proof (induction t)
  case (CLeaf h x)
  then show ?case by simp
next
  case (CNode h p k l r)
  show ?case
  proof (cases "Q (CNode h p k l r)")
    case True
    with CNode.prems show ?thesis by simp
  next
    case False
    define c o' where "c = (if kbit key p then r else l)" and "o' = (if kbit key p then l else r)"
    have st: "stop_at Q key (CNode h p k l r) = stop_at Q key c" using False by (simp add: c_def)
    have sub: "set (handles (stop_at Q key c)) \<subseteq> set (handles c)" by (rule stop_at_handles)
    have sib: "x \<notin> set (handles c)" if "x \<in> set (handles o') \<or> x = h" for x
      using CNode.prems(2) that by (auto simp: c_def o'_def split: if_splits)
    have keep: "x < length ns' \<and> ns' ! x = ns ! x" if "x \<in> set (handles o') \<or> x = h" for x
      using CNode.prems(5) [of x] that sib [OF that] sub unfolding st
      by (auto simp: o'_def split: if_splits)
    have rest: "represents ns' o'"
    proof (rule represents_cong [of ns])
      show "represents ns o'" using CNode.prems(1) by (simp add: o'_def)
    qed (use keep in blast)
    have grafted: "represents ns' (graft Q key f c)"
    proof -
      have "represents ns c" "distinct (handles c)" using CNode.prems(1,2) by (simp_all add: c_def)
      moreover have "x < length ns' \<and> ns' ! x = ns ! x"
        if "x \<in> set (handles c)" "x \<notin> set (handles (stop_at Q key c))" for x
        using CNode.prems(5) [of x] that unfolding st by (simp add: c_def split: if_splits)
      ultimately show ?thesis
        using CNode.IH CNode.prems(3,4) unfolding st by (cases "kbit key p") (simp_all add: c_def)
    qed
    have head: "thandle (graft Q key f c) = thandle c"
      using CNode.prems(4) unfolding st by (rule graft_thandle)
    from keep [of h] have "h < length ns' \<and> ns' ! h = contents (CNode h p k l r)"
      using CNode.prems(1) by simp
    with rest grafted head False show ?thesis
      by (cases "kbit key p") (simp_all add: c_def o'_def)
  qed
qed

text \<open>A graft keeps the critical bit invariant if its leaves come from the replaced subtree or have a key that
  agrees with every node on the path.\<close>

definition follows :: "(ctree \<Rightarrow> bool) \<Rightarrow> u128 \<Rightarrow> bool" where
  "follows Q key \<longleftrightarrow> (\<forall>h p k l r. \<not> Q (CNode h p k l r) \<longrightarrow> agree p key k)"

lemma followsD: "follows Q key \<Longrightarrow> \<not> Q (CNode h p k l r) \<Longrightarrow> agree p key k"
  unfolding follows_def by blast

lemma graft_crit_ok:
  assumes "crit_ok t" "crit_ok (f (stop_at Q key t))"
    and "\<And>x. x \<in> set (leaves (f (stop_at Q key t))) \<Longrightarrow> x \<notin> set (leaves (stop_at Q key t)) \<Longrightarrow>
           leaf_key x = key \<and> follows Q key"
  shows "crit_ok (graft Q key f t) \<and>
         (\<forall>x \<in> set (leaves (graft Q key f t)). x \<in> set (leaves t) \<or>
            leaf_key x = key \<and> follows Q key)"
  using assms
proof (induction t)
  case (CLeaf h x)
  then show ?case by auto
next
  case (CNode h p k l r)
  show ?case
  proof (cases "Q (CNode h p k l r)")
    case True
    with CNode.prems show ?thesis by auto
  next
    case False
    define c where "c = (if kbit key p then r else l)"
    have st: "stop_at Q key (CNode h p k l r) = stop_at Q key c" using False by (simp add: c_def)
    let ?new = "\<lambda>x. leaf_key x = key \<and> follows Q key"
    have IH: "crit_ok (graft Q key f c) \<and> (\<forall>x \<in> set (leaves (graft Q key f c)). x \<in> set (leaves c) \<or> ?new x)"
    proof (cases "kbit key p")
      case True
      then have "c = r" by (simp add: c_def)
      moreover have "crit_ok r" using CNode.prems(1) by simp
      ultimately show ?thesis using CNode.IH(2) CNode.prems(2,3) unfolding st by blast
    next
      case False
      then have "c = l" by (simp add: c_def)
      moreover have "crit_ok l" using CNode.prems(1) by simp
      ultimately show ?thesis using CNode.IH(1) CNode.prems(2,3) unfolding st by blast
    qed
    have new: "agree p (leaf_key x) k" "kbit (leaf_key x) p = kbit key p"
      if "x \<in> set (leaves (graft Q key f c))" for x
    proof -
      have "x \<in> set (leaves c) \<or> ?new x" using IH that by blast
      then show "agree p (leaf_key x) k" "kbit (leaf_key x) p = kbit key p"
        using CNode.prems(1) False by (auto simp: c_def dest: followsD split: if_splits)
    qed
    show ?thesis
      using CNode.prems(1) IH new False by (cases "kbit key p") (auto simp: c_def)
  qed
qed

end
