(* ===== verification/Dex_Book.thy ===== *)
theory Dex_Book
  imports Dex_Tree
begin

text \<open>
  The order book as an ordered map. A slab that represents a tree holds the orders of \<open>slab_orders\<close>, sorted by
  key; \<open>insert_leaf\<close>, \<open>remove_by_key\<close>, \<open>find_min\<close>, \<open>find_max\<close> and \<open>find_by\<close> are the operations of
  a sorted list of orders with distinct keys. The locale \<open>order_store\<close> states this contract, the slab is an
  instance of it.
\<close>

section \<open>Slabs that hold a tree\<close>

definition tree_handles :: "ctree option \<Rightarrow> node_handle list" where
  "tree_handles t = (case t of None \<Rightarrow> [] | Some t \<Rightarrow> handles t)"

definition tree_leaves :: "ctree option \<Rightarrow> leaf_node list" where
  "tree_leaves t = (case t of None \<Rightarrow> [] | Some t \<Rightarrow> leaves t)"

lemma tree_handles_simps [simp]:
  "tree_handles None = []" "tree_handles (Some t) = handles t"
  "tree_leaves None = []" "tree_leaves (Some t) = leaves t"
  by (simp_all add: tree_handles_def tree_leaves_def)

definition slab_tree :: "slab \<Rightarrow> ctree option \<Rightarrow> bool" where
  "slab_tree s t \<longleftrightarrow>
     pool s (set (tree_handles t)) \<and> distinct (tree_handles t) \<and> leaf_count s = length (tree_leaves t) \<and>
     (case t of None \<Rightarrow> True | Some t \<Rightarrow> root_node s = thandle t \<and> represents (nodes s) t \<and> crit_ok t)"

definition slab_ok :: "slab \<Rightarrow> bool" where
  "slab_ok s \<longleftrightarrow> (\<exists>t. slab_tree s t)"

definition slab_orders :: "slab \<Rightarrow> leaf_node list" where
  "slab_orders s = the (traverse s)"

lemma slab_tree_SomeD:
  assumes "slab_tree s (Some t)"
  shows "pool s (set (handles t))" "distinct (handles t)" "leaf_count s = length (leaves t)"
    "root_node s = thandle t" "represents (nodes s) t" "crit_ok t" "slab_root s = Some (thandle t)"
  using assms by (simp_all add: slab_tree_def slab_root_def)

lemma slab_tree_NoneD:
  "slab_tree s None \<Longrightarrow> pool s {} \<and> leaf_count s = 0 \<and> slab_root s = None"
  by (simp add: slab_tree_def slab_root_def)

lemma traverse_tree: "slab_tree s t \<Longrightarrow> traverse s = Some (tree_leaves t)"
  by (cases t) (auto simp: traverse_def slab_tree_SomeD walk_rec_represents dest: slab_tree_NoneD)

lemma slab_orders_tree: "slab_tree s t \<Longrightarrow> slab_orders s = tree_leaves t"
  by (simp add: slab_orders_def traverse_tree)

lemma slab_orders_sorted: "slab_ok s \<Longrightarrow> sorted_wrt key_less (slab_orders s)"
proof -
  assume "slab_ok s"
  then obtain t where t: "slab_tree s t" by (auto simp: slab_ok_def)
  then show ?thesis by (cases t) (auto simp: slab_orders_tree slab_tree_SomeD crit_ok_sorted)
qed

lemma tree_card: "slab_tree s t \<Longrightarrow> card (set (tree_handles t)) = length (tree_handles t)"
  by (simp add: distinct_card slab_tree_def)

section \<open>Insertion\<close>

definition stop_insert :: "u128 \<Rightarrow> ctree \<Rightarrow> bool" where
  "stop_insert key t =
     (case t of CLeaf _ _ \<Rightarrow> True | CNode h p k l r \<Rightarrow> leading_zeros (k XOR key) < p)"

abbreviation spot :: "u128 \<Rightarrow> ctree \<Rightarrow> ctree" where
  "spot key t \<equiv> stop_at (stop_insert key) key t"

text \<open>What \<open>insert_leaf\<close> does at the place where its loop stops.\<close>

definition insert_at :: "slab \<Rightarrow> leaf_node \<Rightarrow> ctree \<Rightarrow> (insert_result \<times> slab) option" where
  "insert_at s new u =
     (case u of
        CLeaf h x \<Rightarrow>
          (if leaf_key x = leaf_key new
           then map_option (\<lambda>s. (Inr (h, Some x), s)) (slab_put s h (LeafNode new))
           else split_node s new h (contents u) (leading_zeros (tkey u XOR leaf_key new)))
      | CNode h p k l r \<Rightarrow> split_node s new h (contents u) (leading_zeros (tkey u XOR leaf_key new)))"

lemma insert_leaf_loop_eq:
  assumes "represents (nodes s) t" "crit_ok t"
  shows "insert_leaf_loop s new (thandle t) = insert_at s new (spot (leaf_key new) t)"
  using assms
proof (induction t)
  case (CLeaf h x)
  show ?case
    by (subst insert_leaf_loop.simps) (simp add: slab_get_represents [OF CLeaf(1)] insert_at_def del: represents.simps thandle.simps, simp)
next
  case (CNode h p k l r)
  have p: "p < 128" using CNode.prems by simp
  have step: "insert_leaf_loop s new (thandle (CNode h p k l r)) =
      (if p \<le> leading_zeros (k XOR leaf_key new)
       then insert_leaf_loop s new (if kbit (leaf_key new) p then thandle r else thandle l)
       else split_node s new h (contents (CNode h p k l r)) (leading_zeros (k XOR leaf_key new)))"
    by (subst insert_leaf_loop.simps)
      (simp add: slab_get_represents [OF CNode.prems(1)] walk_down_eq [OF p] del: represents.simps thandle.simps, simp)
  show ?case
  proof (cases "p \<le> leading_zeros (k XOR leaf_key new)")
    case True
    then show ?thesis using CNode.IH CNode.prems unfolding step by (auto simp: stop_insert_def)
  next
    case False
    then show ?thesis unfolding step by (simp add: stop_insert_def insert_at_def)
  qed
qed

lemma spot_stops: "stop_insert key (spot key t)"
  by (induction t) (auto simp: stop_insert_def)

lemma spot_member:
  "crit_ok t \<Longrightarrow> x \<in> set (leaves t) \<Longrightarrow> leaf_key x = key \<Longrightarrow> \<exists>h. spot key t = CLeaf h x"
proof (induction t)
  case (CLeaf h y)
  then show ?case by simp
next
  case (CNode h p k l r)
  have "agree p key k" "p < 128" using CNode.prems by auto
  then have "p \<le> leading_zeros (k XOR key)" using le_leading_zeros [of p k key] by (auto intro: agree_sym)
  moreover have "kbit key p \<Longrightarrow> x \<in> set (leaves r)" "\<not> kbit key p \<Longrightarrow> x \<in> set (leaves l)"
    using CNode.prems by auto
  ultimately show ?case using CNode by (auto simp: stop_insert_def)
qed

text \<open>The keys below the place where the loop stops share a prefix with the new key and differ in the next bit.\<close>

lemma spot_split:
  assumes "crit_ok u" "stop_insert key u" "key \<notin> leaf_key ` set (leaves u)"
  defines "p \<equiv> leading_zeros (tkey u XOR key)"
  shows "p < 128" "\<And>x. x \<in> set (leaves u) \<Longrightarrow> agree p (leaf_key x) key \<and> kbit (leaf_key x) p \<noteq> kbit key p"
proof -
  have *: "p < 128 \<and> (\<forall>x \<in> set (leaves u). agree p (leaf_key x) (tkey u) \<and> kbit (leaf_key x) p = kbit (tkey u) p)
      \<and> tkey u \<noteq> key"
  proof (cases u)
    case (CLeaf h x)
    with assms(3) have "tkey u \<noteq> key" by auto
    with CLeaf show ?thesis unfolding p_def by (auto intro: leading_zeros_lt)
  next
    case (CNode h q k l r)
    have "p < q" using assms(2) CNode by (simp add: stop_insert_def p_def)
    moreover have "q < 128" using assms(1) CNode by simp
    moreover have "agree q (leaf_key x) k" if "x \<in> set (leaves u)" for x using assms(1) that CNode by auto
    moreover have "k \<noteq> key"
    proof
      assume "k = key"
      then have "128 \<le> p" unfolding p_def using CNode le_leading_zeros [of 128 k key] by simp
      with \<open>p < q\<close> \<open>q < 128\<close> show False by simp
    qed
    ultimately show ?thesis using CNode by (auto simp: agree_def)
  qed
  then show "p < 128" by blast
  show "agree p (leaf_key x) key \<and> kbit (leaf_key x) p \<noteq> kbit key p" if "x \<in> set (leaves u)" for x
    using * that leading_zeros_agree [of "tkey u" key] leading_zeros_differ [of "tkey u" key]
    unfolding p_def [symmetric] by (meson agree_trans)
qed

definition branch :: "leaf_node \<Rightarrow> node_handle \<Rightarrow> node_handle \<Rightarrow> ctree \<Rightarrow> ctree" where
  "branch new hn hm u =
     (let p = leading_zeros (tkey u XOR leaf_key new) in
      if kbit (leaf_key new) p then CNode (thandle u) p (leaf_key new) (rehandle hm u) (CLeaf hn new)
      else CNode (thandle u) p (leaf_key new) (CLeaf hn new) (rehandle hm u))"

lemma branch_simps [simp]:
  "thandle (branch new hn hm u) = thandle u"
  "mset (handles (branch new hn hm u)) = mset (hn # hm # handles u)"
  "mset (leaves (branch new hn hm u)) = add_mset new (mset (leaves u))"
  by (simp_all add: branch_def Let_def handles_def)

lemma branch_crit_ok:
  assumes "crit_ok u" "stop_insert (leaf_key new) u" "leaf_key new \<notin> leaf_key ` set (leaves u)"
  shows "crit_ok (branch new hn hm u)"
  using spot_split [OF assms] assms(1) by (auto simp: branch_def Let_def)

text \<open>The reference: insertion into, deletion from and search in a list of orders sorted by key.\<close>

definition ord_insert :: "leaf_node \<Rightarrow> leaf_node list \<Rightarrow> leaf_node list" where
  "ord_insert new xs =
     filter (\<lambda>x. leaf_key x < leaf_key new) xs @ new # filter (\<lambda>x. leaf_key new < leaf_key x) xs"

definition ord_delete :: "u128 \<Rightarrow> leaf_node list \<Rightarrow> leaf_node list" where
  "ord_delete key xs = filter (\<lambda>x. leaf_key x \<noteq> key) xs"

definition ord_find :: "u128 \<Rightarrow> leaf_node list \<Rightarrow> leaf_node option" where
  "ord_find key xs = List.find (\<lambda>x. leaf_key x = key) xs"

lemma ord_insert_set: "set (ord_insert new xs) = insert new {x \<in> set xs. leaf_key x \<noteq> leaf_key new}"
  by (auto simp: ord_insert_def)

lemma sorted_filter_keys: "sorted_wrt key_less xs \<Longrightarrow> sorted_wrt key_less (filter P xs)"
  by (induction xs) auto

lemma ord_insert_sorted: "sorted_wrt key_less xs \<Longrightarrow> sorted_wrt key_less (ord_insert new xs)"
  by (auto simp: ord_insert_def sorted_wrt_append sorted_filter_keys)

lemma ord_delete_set: "set (ord_delete key xs) = {x \<in> set xs. leaf_key x \<noteq> key}"
  by (auto simp: ord_delete_def)

lemma ord_delete_sorted: "sorted_wrt key_less xs \<Longrightarrow> sorted_wrt key_less (ord_delete key xs)"
  by (simp add: ord_delete_def sorted_filter_keys)

lemma ord_find_Some:
  "sorted_wrt key_less xs \<Longrightarrow> ord_find key xs = Some x \<longleftrightarrow> x \<in> set xs \<and> leaf_key x = key"
proof -
  assume sorted: "sorted_wrt key_less xs"
  show ?thesis
  proof
    assume "ord_find key xs = Some x"
    then show "x \<in> set xs \<and> leaf_key x = key" unfolding ord_find_def by (rule find_eq_SomeD)
  next
    assume x: "x \<in> set xs \<and> leaf_key x = key"
    then obtain y where y: "ord_find key xs = Some y"
      unfolding ord_find_def by (cases "List.find (\<lambda>x. leaf_key x = key) xs") (auto simp: find_eq_None)
    then have "y \<in> set xs \<and> leaf_key y = key" unfolding ord_find_def by (rule find_eq_SomeD)
    with x y sorted show "ord_find key xs = Some x" using sorted_by_key_inj by metis
  qed
qed

lemma ord_find_None: "ord_find key xs = None \<longleftrightarrow> key \<notin> leaf_key ` set xs"
  by (auto simp: ord_find_def find_eq_None)

lemma ord_insert_length:
  "sorted_wrt key_less xs \<Longrightarrow>
     length (ord_insert new xs) = (if ord_find (leaf_key new) xs = None then Suc (length xs) else length xs)"
proof (induction xs)
  case (Cons x xs)
  have "\<forall>y \<in> set xs. leaf_key x < leaf_key y" using Cons.prems by simp
  then have "leaf_key x = leaf_key new \<Longrightarrow> filter (\<lambda>y. leaf_key y < leaf_key new) xs = [] \<and> filter (\<lambda>y. leaf_key new < leaf_key y) xs = xs"
    by (auto simp: filter_empty_conv filter_id_conv)
  with Cons show ?case by (auto simp: ord_insert_def ord_find_def)
qed (simp add: ord_insert_def ord_find_def)

text \<open>The tree after an insertion, read from the multiset of its leaves.\<close>

lemma tree_orders_insert:
  assumes "crit_ok t" "crit_ok t'" "set (leaves t') = insert new {x \<in> set (leaves t). leaf_key x \<noteq> leaf_key new}"
  shows "leaves t' = ord_insert new (leaves t)"
  using assms by (intro sorted_by_key_unique) (auto intro: crit_ok_sorted ord_insert_sorted simp: ord_insert_set)

lemma follows_insert: "follows (stop_insert key) key"
  unfolding follows_def stop_insert_def by (auto simp: not_less le_leading_zeros intro: agree_sym)

lemma sorted_by_key_remove:
  assumes "sorted_wrt key_less xs" "x \<in> set xs"
  shows "set (remove1 x xs) = {y \<in> set xs. leaf_key y \<noteq> leaf_key x}"
proof -
  have "distinct xs" using sorted_by_key_distinct [OF assms(1)] by (simp add: distinct_map)
  then have "set (remove1 x xs) = set xs - {x}" by (rule set_remove1_eq)
  also have "\<dots> = {y \<in> set xs. leaf_key y \<noteq> leaf_key x}"
    using sorted_by_key_inj [OF assms(1) _ assms(2)] by blast
  finally show ?thesis .
qed

lemma insert_clobber:
  assumes t: "slab_tree s (Some t)" and x: "x \<in> set (leaves t)" "leaf_key x = leaf_key new"
  obtains h s' t' where "insert_leaf s new = Some (Inr (h, Some x), s')" "slab_tree s' (Some t')"
    "leaves t' = ord_insert new (leaves t)" "nodes s' = (nodes s)[h := LeafNode new]" "h < length (nodes s)"
proof -
  note td = slab_tree_SomeD [OF t]
  let ?Q = "stop_insert (leaf_key new)"
  obtain h where u: "spot (leaf_key new) t = CLeaf h x" using spot_member [OF td(6) x] by blast
  define t' where "t' = graft ?Q (leaf_key new) (\<lambda>_. CLeaf h new) t"
  define s' where "s' = s\<lparr>nodes := (nodes s)[h := LeafNode new]\<rparr>"
  have h: "h \<in> set (handles t)" using stop_at_handles [of ?Q "leaf_key new" t] u by simp
  have live: "h < length (nodes s)" "is_live (nodes s ! h)" using represents_live [OF td(5) h] by auto
  have eval: "insert_leaf s new = Some (Inr (h, Some x), s')"
    using live x(2) by (simp add: insert_leaf_def td(7) insert_leaf_loop_eq [OF td(5,6)] u insert_at_def slab_put_live s'_def)
  have hs: "mset (handles t') = mset (handles t)"
    using graft_handles [of ?Q "leaf_key new" "\<lambda>_. CLeaf h new" t] u by (simp add: t'_def)
  have ls: "mset (leaves t') + {#x#} = mset (leaves t) + {#new#}"
    using graft_leaves [of ?Q "leaf_key new" "\<lambda>_. CLeaf h new" t] u by (simp add: t'_def)
  have "mset (leaves t) + {#new#} = mset (new # remove1 x (leaves t)) + {#x#}" using x(1) by simp
  with ls have "mset (leaves t') + {#x#} = mset (new # remove1 x (leaves t)) + {#x#}" by (rule trans)
  then have "mset (leaves t') = mset (new # remove1 x (leaves t))" by (simp only: add_right_cancel)
  from mset_eq_setD [OF this] have "set (leaves t') = insert new (set (remove1 x (leaves t)))" by simp
  then have set': "set (leaves t') = insert new {y \<in> set (leaves t). leaf_key y \<noteq> leaf_key new}"
    unfolding sorted_by_key_remove [OF crit_ok_sorted [OF td(6)] x(1)] x(2) .
  have ok: "crit_ok t'"
    using graft_crit_ok [OF td(6), of "\<lambda>_. CLeaf h new" ?Q "leaf_key new"] follows_insert by (simp add: t'_def)
  have "represents (nodes s') t'"
    unfolding t'_def using td(5,2)
  proof (rule graft_represents)
    show "represents (nodes s') ((\<lambda>_. CLeaf h new) (spot (leaf_key new) t))" using live by (simp add: s'_def)
    show "thandle ((\<lambda>_. CLeaf h new) (spot (leaf_key new) t)) = thandle (spot (leaf_key new) t)" by (simp add: u)
    show "h' < length (nodes s') \<and> nodes s' ! h' = nodes s ! h'"
      if "h' \<in> set (handles t)" "h' \<notin> set (handles (spot (leaf_key new) t))" for h'
      using represents_live [OF td(5) that(1)] that(2) unfolding u by (simp add: s'_def)
  qed
  moreover have "thandle t' = thandle t" unfolding t'_def by (rule graft_thandle) (simp add: u)
  moreover have "pool s' (set (handles t'))"
    using pool_update [OF td(1) h] mset_eq_setD [OF hs] by (simp add: s'_def)
  moreover have "length (leaves t') = length (leaves t)"
    using arg_cong [OF ls, of size] by simp
  ultimately have "slab_tree s' (Some t')"
    using ok td(2-4) mset_eq_imp_distinct_iff [OF hs] by (simp add: slab_tree_def s'_def)
  then show thesis using that eval tree_orders_insert [OF td(6) ok set'] live(1) by (simp add: s'_def)
qed

text \<open>A new key: two nodes are needed, and the order stays out of the book when they are not there.\<close>

lemma split_node_full:
  assumes "pool s live" "is_live c" "p < 128" "capacity s < card live + 2"
  obtains s' where "split_node s new h c p = Some (Inl OutOfSpace, s')" "pool s' live" "leaf_count s' = leaf_count s"
    "root_node s' = root_node s" "length (nodes s') = length (nodes s)" "\<And>i. i \<in> live \<Longrightarrow> nodes s' ! i = nodes s ! i"
proof -
  have leaf: "is_live (LeafNode new)" by (simp add: is_live_def)
  show thesis
  proof (cases "card live < capacity s")
    case True
    obtain hn s1 where s1: "slab_insert s (LeafNode new) = Some (Some hn, s1)" "hn \<notin> live"
        "pool s1 (insert hn live)" "nodes s1 = (nodes s)[hn := LeafNode new]" "hn < length (nodes s)"
        "leaf_count s1 = leaf_count s" "root_node s1 = root_node s"
      using slab_insert_room [OF assms(1) leaf True] by blast
    have "capacity s1 \<le> card (insert hn live)"
      using assms(4) s1(2,4) pool_finite [OF assms(1)] by (simp add: capacity_def)
    with s1(3) assms(2) have full: "slab_insert s1 c = Some (None, s1)" by (rule slab_insert_full)
    have "is_live (nodes s1 ! hn)" using s1(4,5) leaf by simp
    then obtain s2 v where s2: "slab_remove_unwrap s1 hn = Some (nodes s1 ! hn, s2)" "pool s2 (insert hn live - {hn})"
        "nodes s2 = (nodes s1)[hn := v]" "leaf_count s2 = leaf_count s1" "root_node s2 = root_node s1"
      using slab_remove_live [OF s1(3)] by blast
    have "split_node s new h c p = Some (Inl OutOfSpace, s2)"
      using assms(3) s1(1) full s2(1) by (simp add: split_node_def crit_bit_mask_def Let_def)
    moreover have "insert hn live - {hn} = live" using s1(2) by auto
    moreover have "nodes s2 ! i = nodes s ! i" if "i \<in> live" for i
      using that s1(2,4) s2(3) by (cases "i = hn") simp_all
    ultimately show thesis using that s1 s2 by simp
  next
    case False
    then have "slab_insert s (LeafNode new) = Some (None, s)"
      using slab_insert_full [OF assms(1) leaf] by simp
    then have "split_node s new h c p = Some (Inl OutOfSpace, s)"
      using assms(3) by (simp add: split_node_def crit_bit_mask_def Let_def)
    then show thesis using that assms(1) by simp
  qed
qed

lemma split_node_eq:
  assumes "p < 128"
  shows "split_node s new h c p =
     Option.bind (slab_insert s (LeafNode new)) (\<lambda>(new_leaf_handle, s1).
     case new_leaf_handle of
       None \<Rightarrow> Some (Inl OutOfSpace, s1)
     | Some hn \<Rightarrow>
         Option.bind (slab_insert s1 c) (\<lambda>(moved_root_handle, s2).
         case moved_root_handle of
           None \<Rightarrow> map_option (\<lambda>(_, s3). (Inl OutOfSpace, s3)) (slab_remove_unwrap s2 hn)
         | Some hm \<Rightarrow>
             Option.bind (slab_put s2 h
               (InnerNode \<lparr>prefix_len = p, inner_key = leaf_key new,
                           children = (if kbit (leaf_key new) p then (hm, hn) else (hn, hm))\<rparr>)) (\<lambda>s3.
             Option.bind (u64_checked (leaf_count s3 + 1)) (\<lambda>count.
             Some (Inr (hn, None), s3\<lparr>leaf_count := count\<rparr>)))))"
  unfolding split_node_def crit_bit_mask_def
  by (simp only: assms if_True Option.bind.simps Let_def mask_bit [OF assms])

lemma split_node_room:
  assumes "pool s live" "is_live c" "p < 128" "card live + 2 \<le> capacity s" "h \<in> live" "is_live (nodes s ! h)"
    "leaf_count s < u64_max"
  obtains hn hm s' where "split_node s new h c p = Some (Inr (hn, None), s')" "pool s' (insert hm (insert hn live))"
    "hn \<notin> live" "hm \<notin> insert hn live" "leaf_count s' = Suc (leaf_count s)" "root_node s' = root_node s"
    "hn < length (nodes s)" "hm < length (nodes s)"
    "nodes s' = (nodes s)[hn := LeafNode new, hm := c,
       h := InnerNode \<lparr>prefix_len = p, inner_key = leaf_key new,
              children = (if kbit (leaf_key new) p then (hm, hn) else (hn, hm))\<rparr>]"
proof -
  have leaf: "is_live (LeafNode new)" by (simp add: is_live_def)
  have "card live < capacity s" using assms(4) by simp
  then obtain hn s1 where s1: "slab_insert s (LeafNode new) = Some (Some hn, s1)" "hn \<notin> live"
      "pool s1 (insert hn live)" "nodes s1 = (nodes s)[hn := LeafNode new]" "hn < length (nodes s)"
      "leaf_count s1 = leaf_count s" "root_node s1 = root_node s"
    using slab_insert_room [OF assms(1) leaf] by blast
  have "card (insert hn live) < capacity s1"
    using assms(4) s1(2,4) pool_finite [OF assms(1)] by (simp add: capacity_def)
  then obtain hm s2 where s2: "slab_insert s1 c = Some (Some hm, s2)" "hm \<notin> insert hn live"
      "pool s2 (insert hm (insert hn live))" "nodes s2 = (nodes s1)[hm := c]" "hm < length (nodes s1)"
      "leaf_count s2 = leaf_count s1" "root_node s2 = root_node s1"
    using slab_insert_room [OF s1(3) assms(2)] by blast
  let ?i = "InnerNode \<lparr>prefix_len = p, inner_key = leaf_key new,
              children = (if kbit (leaf_key new) p then (hm, hn) else (hn, hm))\<rparr>"
  have h: "h \<noteq> hn" "h \<noteq> hm" "h < length (nodes s)" using assms(1,5) s1(2) s2(2) pool_bound by blast+
  have put: "slab_put s2 h ?i = Some (s2\<lparr>nodes := (nodes s2)[h := ?i]\<rparr>)"
    using h assms(6) s1(4) s2(4) by (intro slab_put_live) simp_all
  let ?s = "s2\<lparr>nodes := (nodes s2)[h := ?i], leaf_count := Suc (leaf_count s)\<rparr>"
  have "split_node s new h c p = Some (Inr (hn, None), ?s)"
    using assms(3,7) s1(1,6) s2(1,6) put
    unfolding split_node_eq [OF assms(3)] by (simp split del: if_split)
  moreover have "pool ?s (insert hm (insert hn live))"
    using pool_update [OF s2(3), of h ?i] assms(5) by simp
  ultimately show thesis using that s1 s2 by simp
qed

lemma spot_props:
  fixes key :: u128
  assumes "slab_tree s (Some t)"
  defines "u \<equiv> spot key t"
  shows "represents (nodes s) u" "crit_ok u" "stop_insert key u" "set (handles u) \<subseteq> set (handles t)"
    "distinct (handles u)" "thandle u \<in> set (handles t)" "is_live (nodes s ! thandle u)"
proof -
  note td = slab_tree_SomeD [OF assms(1)]
  show r: "represents (nodes s) u" unfolding u_def using td(5) by (rule stop_at_represents)
  show "crit_ok u" unfolding u_def using td(6) by (rule stop_at_crit_ok)
  show "stop_insert key u" unfolding u_def by (rule spot_stops)
  show sub: "set (handles u) \<subseteq> set (handles t)" unfolding u_def by (rule stop_at_handles)
  show "distinct (handles u)" unfolding u_def using td(2) by (rule stop_at_distinct)
  show "thandle u \<in> set (handles t)" using sub thandle_in_handles by blast
  show "is_live (nodes s ! thandle u)" using represents_root [OF r] by simp
qed

lemma insert_leaf_split:
  assumes "slab_tree s (Some t)" "leaf_key new \<notin> leaf_key ` set (leaves t)"
  defines "u \<equiv> spot (leaf_key new) t"
  shows "insert_leaf s new = split_node s new (thandle u) (contents u) (leading_zeros (tkey u XOR leaf_key new))"
    and "leading_zeros (tkey u XOR leaf_key new) < 128" and "leaf_key new \<notin> leaf_key ` set (leaves u)"
proof -
  note td = slab_tree_SomeD [OF assms(1)]
  show new: "leaf_key new \<notin> leaf_key ` set (leaves u)"
    using assms(2) stop_at_leaves [of "stop_insert (leaf_key new)" "leaf_key new" t] unfolding u_def by blast
  have "insert_leaf s new = insert_at s new u"
    unfolding u_def by (simp add: insert_leaf_def td(7) insert_leaf_loop_eq [OF td(5,6)])
  also have "\<dots> = split_node s new (thandle u) (contents u) (leading_zeros (tkey u XOR leaf_key new))"
    using new by (cases u) (auto simp: insert_at_def)
  finally show "insert_leaf s new = split_node s new (thandle u) (contents u) (leading_zeros (tkey u XOR leaf_key new))" .
  show "leading_zeros (tkey u XOR leaf_key new) < 128"
    using spot_split(1) [OF spot_props(2,3) [OF assms(1)]] new unfolding u_def by blast
qed

lemma insert_new_full:
  assumes "slab_tree s (Some t)" "leaf_key new \<notin> leaf_key ` set (leaves t)" "capacity s < length (handles t) + 2"
  obtains s' where "insert_leaf s new = Some (Inl OutOfSpace, s')" "slab_tree s' (Some t)" "capacity s' = capacity s"
proof -
  note td = slab_tree_SomeD [OF assms(1)]
  have "card (set (handles t)) = length (handles t)" using td(2) by (rule distinct_card)
  then obtain s' where s': "insert_leaf s new = Some (Inl OutOfSpace, s')" "pool s' (set (handles t))"
      "leaf_count s' = leaf_count s" "root_node s' = root_node s" "length (nodes s') = length (nodes s)"
      "\<And>i. i \<in> set (handles t) \<Longrightarrow> nodes s' ! i = nodes s ! i"
    using split_node_full [OF td(1) contents_live insert_leaf_split(2) [OF assms(1,2)]] assms(3)
    unfolding insert_leaf_split(1) [OF assms(1,2)] by metis
  moreover have "represents (nodes s') t"
    using td(5) by (rule represents_cong) (use s'(5,6) represents_live [OF td(5)] in simp)
  ultimately have "slab_tree s' (Some t)" using td by (simp add: slab_tree_def)
  with s'(1,5) show thesis using that by (simp add: capacity_def)
qed

lemma insert_new_room:
  assumes t: "slab_tree s (Some t)" and new: "leaf_key new \<notin> leaf_key ` set (leaves t)"
    and room: "length (handles t) + 2 \<le> capacity s"
  obtains h s' t' where "insert_leaf s new = Some (Inr (h, None), s')" "slab_tree s' (Some t')"
    "leaves t' = ord_insert new (leaves t)" "capacity s' = capacity s" "slab_get s' h = Some (LeafNode new)"
proof -
  note td = slab_tree_SomeD [OF t]
  let ?Q = "stop_insert (leaf_key new)"
  define u where "u = spot (leaf_key new) t"
  define p where "p = leading_zeros (tkey u XOR leaf_key new)"
  note up = spot_props [OF t, of "leaf_key new", folded u_def]
  note split = insert_leaf_split [OF t new, folded u_def, folded p_def]
  have card: "card (set (handles t)) = length (handles t)" using td(2) by (rule distinct_card)
  have "length (leaves t) \<le> length (handles t)" using length_handles [of t] by simp
  then have count: "leaf_count s < u64_max" using room td(3) by (simp add: capacity_def)
  obtain hn hm s' where s': "insert_leaf s new = Some (Inr (hn, None), s')"
      "pool s' (insert hm (insert hn (set (handles t))))" "hn \<notin> set (handles t)" "hm \<notin> insert hn (set (handles t))"
      "leaf_count s' = Suc (leaf_count s)" "root_node s' = root_node s" "hn < length (nodes s)" "hm < length (nodes s)"
      "nodes s' = (nodes s)[hn := LeafNode new, hm := contents u,
         thandle u := InnerNode \<lparr>prefix_len = p, inner_key = leaf_key new,
              children = (if kbit (leaf_key new) p then (hm, hn) else (hn, hm))\<rparr>]"
    using split_node_room [OF td(1) contents_live split(2) _ up(6,7) count] room card
    unfolding split(1) by metis
  define t' where "t' = graft ?Q (leaf_key new) (branch new hn hm) t"
  have ne: "thandle u \<noteq> hn" "thandle u \<noteq> hm" "hm \<noteq> hn" using s'(3,4) up(6) by auto
  have sub: "h \<notin> {hn, hm, thandle u} \<and> h \<in> set (handles t)" if "h \<in> set (subtrees u)" for h
    using that up(4,5) s'(3,4) by (auto simp: handles_def)
  have keep: "h < length (nodes s') \<and> nodes s' ! h = nodes s ! h"
    if "h \<in> set (handles t)" "h \<noteq> thandle u" for h
    using that represents_live [OF td(5) that(1)] s'(3,4) unfolding s'(9)
    by (cases "h = hn"; cases "h = hm") simp_all
  have len: "length (nodes s') = length (nodes s)" by (simp add: s'(9))
  have root_u: "thandle u < length (nodes s)" using represents_root [OF up(1)] by simp
  have at: "nodes s' ! hn = LeafNode new" "nodes s' ! hm = contents u"
      "nodes s' ! thandle u = InnerNode \<lparr>prefix_len = p, inner_key = leaf_key new,
              children = (if kbit (leaf_key new) p then (hm, hn) else (hn, hm))\<rparr>"
    using ne s'(7,8) root_u unfolding s'(9) by simp_all
  have moved: "represents (nodes s') (rehandle hm u)"
    by (rule represents_rehandle [OF up(1)]) (use at s'(8) len keep sub in auto)
  have rep_branch: "represents (nodes s') (branch new hn hm u)"
    using moved at root_u s'(7) len by (simp add: branch_def p_def Let_def)
  have rep: "represents (nodes s') t'"
    unfolding t'_def using td(5,2)
  proof (rule graft_represents)
    show "represents (nodes s') (branch new hn hm (spot (leaf_key new) t))" using rep_branch by (simp only: u_def)
    show "thandle (branch new hn hm (spot (leaf_key new) t)) = thandle (spot (leaf_key new) t)" by simp
    show "h < length (nodes s') \<and> nodes s' ! h = nodes s ! h"
      if "h \<in> set (handles t)" "h \<notin> set (handles (spot (leaf_key new) t))" for h
      using that(1) by (rule keep) (use that(2) u_def thandle_in_handles in blast)
  qed
  have "mset (handles t') + mset (handles u) = mset (hn # hm # handles t) + mset (handles u)"
    using graft_handles [of ?Q "leaf_key new" "branch new hn hm" t] unfolding t'_def u_def by simp
  then have hs: "mset (handles t') = mset (hn # hm # handles t)" by (simp only: add_right_cancel)
  have "mset (leaves t') + mset (leaves u) = mset (new # leaves t) + mset (leaves u)"
    using graft_leaves [of ?Q "leaf_key new" "branch new hn hm" t] unfolding t'_def u_def by simp
  then have ls: "mset (leaves t') = mset (new # leaves t)" by (simp only: add_right_cancel)
  have ok: "crit_ok t'"
  proof -
    have "crit_ok (branch new hn hm u)" using up(2,3) split(3) by (rule branch_crit_ok)
    moreover have "x = new" if "x \<in> set (leaves (branch new hn hm u))" "x \<notin> set (leaves u)" for x
      using that by (auto simp: branch_def Let_def split: if_splits)
    ultimately show ?thesis
      using graft_crit_ok [OF td(6), of "branch new hn hm" ?Q "leaf_key new"] follows_insert
      unfolding t'_def u_def by blast
  qed
  have "set (leaves t') = insert new {x \<in> set (leaves t). leaf_key x \<noteq> leaf_key new}"
  proof -
    have "leaf_key x \<noteq> leaf_key new" if "x \<in> set (leaves t)" for x using that new by (metis imageI)
    then show ?thesis using mset_eq_setD [OF ls] by auto
  qed
  then have "leaves t' = ord_insert new (leaves t)" using tree_orders_insert [OF td(6) ok] by blast
  moreover have "slab_tree s' (Some t')"
  proof -
    have "thandle t' = thandle t" unfolding t'_def by (rule graft_thandle) simp
    moreover have "set (handles t') = insert hm (insert hn (set (handles t)))" using mset_eq_setD [OF hs] by auto
    moreover have "distinct (handles t')"
      using mset_eq_imp_distinct_iff [OF hs] td(2) s'(3,4) by simp
    moreover have "length (leaves t') = Suc (length (leaves t))" using mset_eq_length [OF ls] by simp
    ultimately show ?thesis using s'(2,5,6) td(3,4) rep ok by (simp add: slab_tree_def)
  qed
  moreover have "slab_get s' hn = Some (LeafNode new)" using at(1) s'(7) len by (simp add: slab_get_def is_live_def)
  ultimately show thesis using that s'(1) len by (simp add: capacity_def)
qed

lemma insert_first:
  assumes "slab_tree s None"
  obtains (full) "insert_leaf s new = Some (Inl OutOfSpace, s)" "capacity s = 0"
  | (room) h s' where "insert_leaf s new = Some (Inr (h, None), s')" "slab_tree s' (Some (CLeaf h new))"
      "0 < capacity s" "capacity s' = capacity s" "slab_get s' h = Some (LeafNode new)"
proof -
  have s: "pool s {}" "leaf_count s = 0" "slab_root s = None" using slab_tree_NoneD [OF assms] by auto
  have leaf: "is_live (LeafNode new)" by (simp add: is_live_def)
  show thesis
  proof (cases "capacity s = 0")
    case True
    then have "slab_insert s (LeafNode new) = Some (None, s)" using slab_insert_full [OF s(1) leaf] by simp
    then show thesis using full True by (simp add: insert_leaf_def s(3))
  next
    case False
    then have "card {} < capacity s" by simp
    then obtain h s' where s': "slab_insert s (LeafNode new) = Some (Some h, s')" "pool s' (insert h {})"
        "nodes s' = (nodes s)[h := LeafNode new]" "h < length (nodes s)"
      by (rule slab_insert_room [OF s(1) leaf])
    let ?s = "s'\<lparr>root_node := h, leaf_count := 1\<rparr>"
    have "insert_leaf s new = Some (Inr (h, None), ?s)" by (simp add: insert_leaf_def s(3) s'(1))
    moreover have "slab_tree ?s (Some (CLeaf h new))" using s' by (simp add: slab_tree_def)
    moreover have "slab_get ?s h = Some (LeafNode new)" "capacity ?s = capacity s"
      using s' leaf by (simp_all add: slab_get_def capacity_def)
    ultimately show thesis using room False by blast
  qed
qed

lemma insert_leaf_correct:
  assumes "slab_ok s"
  obtains (full) s' where "insert_leaf s new = Some (Inl OutOfSpace, s')" "slab_ok s'" "capacity s' = capacity s"
      "slab_orders s' = slab_orders s" "ord_find (leaf_key new) (slab_orders s) = None"
      "capacity s < 2 * length (slab_orders s) + 1"
  | (room) h s' where "insert_leaf s new = Some (Inr (h, ord_find (leaf_key new) (slab_orders s)), s')"
      "slab_ok s'" "capacity s' = capacity s" "slab_orders s' = ord_insert new (slab_orders s)"
      "slab_get s' h = Some (LeafNode new)"
      "ord_find (leaf_key new) (slab_orders s) \<noteq> None \<or> 2 * length (slab_orders s) + 1 \<le> capacity s"
proof -
  from assms obtain t where t: "slab_tree s t" by (auto simp: slab_ok_def)
  note orders = slab_orders_tree [OF t]
  show thesis
  proof (cases t)
    case None
    then have none: "slab_tree s None" "slab_orders s = []" using t orders by simp_all
    from none(1) show thesis
    proof (cases rule: insert_first [where new = new])
      case full
      then show thesis using that(1) assms none(2) by (simp add: ord_find_def)
    next
      case (room h s')
      then have "slab_ok s'" "slab_orders s' = ord_insert new (slab_orders s)"
        using slab_orders_tree [OF room(2)] none(2) by (auto simp: slab_ok_def ord_insert_def)
      with room none(2) show thesis using that(2) by (simp add: ord_find_def)
    qed
  next
    case (Some t1)
    then have t1: "slab_tree s (Some t1)" "slab_orders s = leaves t1" using t orders by simp_all
    note td = slab_tree_SomeD [OF t1(1)]
    note len = length_handles [of t1]
    show thesis
    proof (cases "ord_find (leaf_key new) (leaves t1)")
      case None
      then have new: "leaf_key new \<notin> leaf_key ` set (leaves t1)" by (simp add: ord_find_None)
      show thesis
      proof (cases "length (handles t1) + 2 \<le> capacity s")
        case True
        obtain h s' t' where "insert_leaf s new = Some (Inr (h, None), s')" "slab_tree s' (Some t')"
            "leaves t' = ord_insert new (leaves t1)" "capacity s' = capacity s" "slab_get s' h = Some (LeafNode new)"
          using insert_new_room [OF t1(1) new True] by blast
        then show thesis
          using room None t1(2) True len slab_orders_tree [of s' "Some t'"] by (auto simp: slab_ok_def)
      next
        case False
        then obtain s' where "insert_leaf s new = Some (Inl OutOfSpace, s')" "slab_tree s' (Some t1)"
            "capacity s' = capacity s"
          using insert_new_full [OF t1(1) new] by auto
        then show thesis
          using full None t1(2) False len slab_orders_tree [of s' "Some t1"] by (auto simp: slab_ok_def)
      qed
    next
      case (Some x)
      then have x: "x \<in> set (leaves t1)" "leaf_key x = leaf_key new"
        using ord_find_Some [OF crit_ok_sorted [OF td(6)]] by auto
      obtain h s' t' where s': "insert_leaf s new = Some (Inr (h, Some x), s')" "slab_tree s' (Some t')"
          "leaves t' = ord_insert new (leaves t1)" "nodes s' = (nodes s)[h := LeafNode new]" "h < length (nodes s)"
        using insert_clobber [OF t1(1) x] by blast
      then have "slab_get s' h = Some (LeafNode new)" "capacity s' = capacity s"
        by (simp_all add: slab_get_def is_live_def capacity_def)
      with s' show thesis
        using room Some t1(2) slab_orders_tree [of s' "Some t'"] by (auto simp: slab_ok_def)
    qed
  qed
qed

end
