(* ===== verification/Dex_Orders.thy ===== *)
theory Dex_Orders
  imports Dex_Book
begin

text \<open>
  Removal, the best orders and the search for the orders of an owner, and the contract of the order book as a
  locale: a store of orders sorted by key, of bounded capacity. The slab is an instance of it, and the
  matching engine relies on its laws only.
\<close>

section \<open>The best orders\<close>

lemma find_min_max_correct:
  assumes "slab_ok s"
  obtains (empty) "find_min_max s b = Some None" "slab_orders s = []"
  | (found) h x where "find_min_max s b = Some (Some h)" "slab_orders s \<noteq> []"
      "x = (if b then last (slab_orders s) else hd (slab_orders s))" "slab_get s h = Some (LeafNode x)"
proof -
  from assms obtain t where t: "slab_tree s t" by (auto simp: slab_ok_def)
  show thesis
  proof (cases t)
    case None
    then show thesis
      using t empty slab_orders_tree [OF t] by (simp add: find_min_max_def slab_tree_NoneD)
  next
    case (Some t1)
    then have t1: "slab_tree s (Some t1)" "slab_orders s = leaves t1" using t slab_orders_tree [OF t] by simp_all
    note td = slab_tree_SomeD [OF t1(1)]
    obtain h x where e: "edge b t1 = CLeaf h x" "x = (if b then last (leaves t1) else hd (leaves t1))"
      using edge_leaf by blast
    have "slab_get s (thandle (edge b t1)) = Some (contents (edge b t1))"
      using edge_represents [OF td(5)] by (rule slab_get_represents)
    moreover have "find_min_max s b = Some (Some (thandle (edge b t1)))"
      by (simp add: find_min_max_def td(7) find_min_max_loop_represents [OF td(5)])
    ultimately show thesis using found e t1(2) by simp
  qed
qed

section \<open>Removal\<close>

text \<open>The search of \<open>remove_by_key\<close> stops at the inner node whose child on the side of the key is a leaf.\<close>

fun is_leaf :: "ctree \<Rightarrow> bool" where
  "is_leaf (CLeaf h x) = True"
| "is_leaf (CNode h p k l r) = False"

definition stop_remove :: "u128 \<Rightarrow> ctree \<Rightarrow> bool" where
  "stop_remove key t =
     (case t of CLeaf _ _ \<Rightarrow> True | CNode h p k l r \<Rightarrow> is_leaf (if kbit key p then r else l))"

lemma stop_remove_node: "stop_remove key (CNode h p k l r) = is_leaf (if kbit key p then r else l)"
  by (simp add: stop_remove_def)

abbreviation joint :: "u128 \<Rightarrow> ctree \<Rightarrow> ctree" where
  "joint key t \<equiv> stop_at (stop_remove key) key t"

lemma joint_node:
  "\<not> is_leaf t \<Longrightarrow> \<exists>h p k l r h' x. joint key t = CNode h p k l r \<and> (if kbit key p then r else l) = CLeaf h' x"
proof (induction t)
  case (CNode h p k l r)
  show ?case
  proof (cases "is_leaf (if kbit key p then r else l)")
    case True
    then obtain h' x where "(if kbit key p then r else l) = CLeaf h' x" by (cases "if kbit key p then r else l") auto
    with True show ?thesis by (simp add: stop_remove_node)
  next
    case False
    then show ?thesis using CNode.IH by (cases "kbit key p") (simp_all add: stop_remove_node)
  qed
qed simp

lemma joint_member:
  "crit_ok t \<Longrightarrow> x \<in> set (leaves t) \<Longrightarrow> leaf_key x = key \<Longrightarrow> x \<in> set (leaves (joint key t))"
proof (induction t)
  case (CNode h p k l r)
  have "kbit key p \<Longrightarrow> x \<in> set (leaves r)" "\<not> kbit key p \<Longrightarrow> x \<in> set (leaves l)"
    using CNode.prems by auto
  with CNode show ?case by auto
qed simp

lemma remove_loop_eq:
  assumes "represents (nodes s) t" "crit_ok t" "t = CNode h p k l r"
    and "joint key t = CNode h1 p1 k1 l1 r1" "(if kbit key p1 then r1 else l1) = CLeaf hc x"
  shows "remove_loop s key h (if kbit key p then thandle r else thandle l) (kbit key p) =
     (if leaf_key x \<noteq> key then Some None else Some (Some (h1, hc, kbit key p1)))"
  using assms
proof (induction t arbitrary: h p k l r)
  case (CLeaf h' y)
  then show ?case by simp
next
  case (CNode h0 p0 k0 l0 r0)
  then have eqs: "h0 = h" "p0 = p" "k0 = k" "l0 = l" "r0 = r" by simp_all
  define c where "c = (if kbit key p then r else l)"
  have rc: "represents (nodes s) c" "crit_ok c" using CNode.prems(1-3) by (simp_all add: c_def)
  have hc: "(if kbit key p then thandle r else thandle l) = thandle c" by (simp add: c_def)
  show ?case
  proof (cases c)
    case (CLeaf h' y)
    then have "h1 = h" "p1 = p" "l1 = l" "r1 = r" using CNode.prems(3,4) by (auto simp: stop_remove_node c_def)
    with CLeaf CNode.prems(5) have "c = CLeaf hc x" "y = x" "h' = hc" by (auto simp: c_def split: if_splits)
    moreover have "slab_get s (thandle c) = Some (contents c)" using rc(1) by (rule slab_get_represents)
    ultimately show ?thesis
      unfolding hc using \<open>h1 = h\<close> \<open>p1 = p\<close> by (subst remove_loop.simps) simp
  next
    case cn: (CNode h' p' k' l' r')
    have j: "joint key c = CNode h1 p1 k1 l1 r1"
      using CNode.prems(3,4) cn by (auto simp: stop_remove_node c_def split: if_splits)
    have "remove_loop s key h' (if kbit key p' then thandle r' else thandle l') (kbit key p') =
        (if leaf_key x \<noteq> key then Some None else Some (Some (h1, hc, kbit key p1)))"
    proof (cases "kbit key p")
      case True
      then have "r = CNode h' p' k' l' r'" using cn by (simp add: c_def)
      then show ?thesis using CNode.IH(2) rc j CNode.prems(5) cn eqs by simp
    next
      case False
      then have "l = CNode h' p' k' l' r'" using cn by (simp add: c_def)
      then show ?thesis using CNode.IH(1) rc j CNode.prems(5) cn eqs by simp
    qed
    moreover have "slab_get s (thandle c) = Some (contents c)" using rc(1) by (rule slab_get_represents)
    moreover have "p' < 128" using rc(2) cn by simp
    ultimately show ?thesis
      unfolding hc by (subst remove_loop.simps) (simp add: cn walk_down_eq split del: if_split)
  qed
qed

lemma splice_out_eval:
  assumes "pool s live" "represents (nodes s) u" "u = CNode h p k l r" "distinct (handles u)" "set (handles u) \<subseteq> live"
    and "(if b then r else l) = CLeaf hc x" "other = (if b then l else r)" "0 < leaf_count s"
  obtains s' v v' where "splice_out s h hc b = Some (Some x, s')" "pool s' (live - {thandle other} - {hc})"
    "nodes s' = (nodes s)[thandle other := v, h := contents other, hc := v']"
    "leaf_count s' = leaf_count s - 1" "root_node s' = root_node s"
proof -
  have reps: "represents (nodes s) l" "represents (nodes s) r" "represents (nodes s) other" using assms(2,3,7) by auto
  have hs: "h \<in> live" "thandle other \<in> live" "hc \<in> live" "h \<noteq> thandle other" "hc \<noteq> thandle other" "hc \<noteq> h"
    using assms(3-7) thandle_in_handles [of l] thandle_in_handles [of r] by (auto split: if_splits)
  have bounds: "h < length (nodes s)" "hc < length (nodes s)" "thandle other < length (nodes s)"
    using hs pool_bound [OF assms(1)] by auto
  have at: "nodes s ! h = contents u" "nodes s ! hc = LeafNode x" "nodes s ! thandle other = contents other"
    using assms(2,3,6) represents_root [OF reps(3)] by (auto split: if_splits)
  have live_other: "is_live (nodes s ! thandle other)" using at(3) by simp
  obtain s1 v where s1: "slab_remove_unwrap s (thandle other) = Some (contents other, s1)"
      "pool s1 (live - {thandle other})" "nodes s1 = (nodes s)[thandle other := v]"
      "leaf_count s1 = leaf_count s" "root_node s1 = root_node s"
    using slab_remove_live [OF assms(1) hs(2) live_other] unfolding at(3) by blast
  define s2 where "s2 = s1\<lparr>nodes := (nodes s1)[h := contents other], leaf_count := leaf_count s - 1\<rparr>"
  have put: "slab_put s1 h (contents other) = Some (s1\<lparr>nodes := (nodes s1)[h := contents other]\<rparr>)"
    using bounds(1) hs(4) at(1) s1(3) by (intro slab_put_live) simp_all
  have pool2: "pool s2 (live - {thandle other})"
    using pool_update [OF s1(2), of h "contents other"] hs(1,4) by (simp add: s2_def)
  have leaf: "nodes s2 ! hc = LeafNode x" using at(2) hs(5,6) s1(3) by (simp add: s2_def)
  have "is_live (nodes s2 ! hc)" unfolding leaf by (simp add: is_live_def)
  moreover have "hc \<in> live - {thandle other}" using hs(3,5) by simp
  ultimately obtain s3 v' where s3: "slab_remove_unwrap s2 hc = Some (LeafNode x, s3)"
      "pool s3 (live - {thandle other} - {hc})" "nodes s3 = (nodes s2)[hc := v']"
      "leaf_count s3 = leaf_count s2" "root_node s3 = root_node s2"
    using slab_remove_live [OF pool2] unfolding leaf [symmetric] by metis
  have "slab_get s h = Some (contents u)" using at(1) bounds(1) by (simp add: slab_get_def)
  moreover have "child (\<not> b) (thandle l, thandle r) = thandle other" by (simp add: child_def assms(7))
  ultimately have "splice_out s h hc b = Some (Some x, s3)"
    using s1(1,4) put s3(1) assms(3,8) unfolding s2_def
    by (simp add: splice_out_def node_children_def as_leaf_def Let_def)
  with s1(3,5) s3 show thesis using that by (simp add: s2_def)
qed

lemma remove_inner:
  assumes t: "slab_tree s (Some t)" and node: "\<not> is_leaf t" and x: "x \<in> set (leaves t)"
  obtains s' t' where "remove_by_key s (leaf_key x) = Some (Some x, s')" "slab_tree s' (Some t')"
    "leaves t' = ord_delete (leaf_key x) (leaves t)" "length (nodes s') = length (nodes s)"
proof -
  note td = slab_tree_SomeD [OF t]
  let ?key = "leaf_key x" and ?Q = "stop_remove (leaf_key x)"
  obtain h p k l r hc y where u: "joint ?key t = CNode h p k l r" "(if kbit ?key p then r else l) = CLeaf hc y"
    using joint_node [OF node] by blast
  define u where "u = joint ?key t"
  have un: "u = CNode h p k l r" using u(1) by (simp add: u_def)
  define other where "other = (if kbit ?key p then l else r)"
  have up: "represents (nodes s) u" "crit_ok u" "distinct (handles u)" "set (handles u) \<subseteq> set (handles t)"
    unfolding u_def using td stop_at_represents stop_at_crit_ok stop_at_distinct stop_at_handles by blast+
  have y: "y = x"
  proof -
    have "x \<in> set (leaves u)" unfolding u_def using td(6) x by (rule joint_member) simp
    then have "x \<in> set (leaves (if kbit ?key p then r else l))" using up(2) un by auto
    then show ?thesis using u(2) by simp
  qed
  obtain h0 p0 k0 l0 r0 where tn: "t = CNode h0 p0 k0 l0 r0" using node by (cases t) auto
  have pos: "0 < leaf_count s" using td(3) by simp
  obtain s' v v' where s': "splice_out s h hc (kbit ?key p) = Some (Some x, s')"
      "pool s' (set (handles t) - {thandle other} - {hc})"
      "nodes s' = (nodes s)[thandle other := v, h := contents other, hc := v']"
      "leaf_count s' = leaf_count s - 1" "root_node s' = root_node s"
    using splice_out_eval [OF td(1) up(1) un up(3,4) u(2) [unfolded y] other_def pos] by blast
  have search: "remove_loop s ?key h0 (if kbit ?key p0 then thandle r0 else thandle l0) (kbit ?key p0) =
      Some (Some (h, hc, kbit ?key p))"
    using remove_loop_eq [OF td(5,6) tn u(1) u(2)] y by simp
  have p0: "p0 < 128" using td(6) tn by simp
  have eval: "remove_by_key s ?key = Some (Some x, s')"
    unfolding remove_by_key_def td(7) option.case slab_get_represents [OF td(5)]
    using search s'(1) walk_down_eq [OF p0] by (simp add: tn)
  define t' where "t' = graft ?Q ?key (\<lambda>_. rehandle h other) t"
  have hu: "mset (handles u) = mset (h # hc # handles other)"
    using un u(2) by (auto simp: other_def split: if_splits)
  have "mset (handles t') + mset (hc # handles other) + {#h#} = mset (handles t) + mset (subtrees other) + {#h#}"
    using graft_handles [of ?Q ?key "\<lambda>_. rehandle h other" t] hu
    unfolding t'_def u_def [symmetric] by (simp add: ac_simps)
  then have "mset (hc # thandle other # handles t') + mset (subtrees other) = mset (handles t) + mset (subtrees other)"
    by (simp add: handles_def)
  then have hs: "mset (handles t) = mset (hc # thandle other # handles t')" by (simp only: add_right_cancel)
  have "mset (leaves u) = mset (leaves other) + {#x#}"
    using un u(2) y by (auto simp: other_def split: if_splits)
  then have "mset (leaves t') + {#x#} + mset (leaves other) = mset (leaves t) + mset (leaves other)"
    using graft_leaves [of ?Q ?key "\<lambda>_. rehandle h other" t] unfolding t'_def u_def [symmetric] by (simp add: ac_simps)
  then have ls: "mset (leaves t) = mset (x # leaves t')" by simp
  have ok: "crit_ok t'"
  proof -
    have "crit_ok (rehandle h other)" using up(2) un by (simp add: other_def)
    moreover have "z \<in> set (leaves u)" if "z \<in> set (leaves (rehandle h other))" for z
      using that un by (auto simp: other_def split: if_splits)
    ultimately show ?thesis
      using graft_crit_ok [OF td(6), of "\<lambda>_. rehandle h other" ?Q ?key] unfolding t'_def u_def by blast
  qed
  have dist: "distinct (hc # thandle other # handles t')" using td(2) mset_eq_imp_distinct_iff [OF hs] by blast
  have in_u: "h \<in> set (handles u)" "hc \<in> set (handles u)" "thandle other \<in> set (handles u)"
    "set (subtrees other) \<subseteq> set (handles u)"
    using mset_eq_setD [OF hu] by (auto simp: handles_def)
  have "distinct (h # hc # handles other)" using up(3) mset_eq_imp_distinct_iff [OF hu] by blast
  then have sub: "i \<noteq> h \<and> i \<noteq> hc \<and> i \<noteq> thandle other" if "i \<in> set (subtrees other)" for i
    using that by (auto simp: handles_def)
  have ne: "h \<noteq> hc" "h \<noteq> thandle other" using \<open>distinct (h # hc # handles other)\<close> by (auto simp: handles_def)
  have keep: "i < length (nodes s') \<and> nodes s' ! i = nodes s ! i"
    if "i \<in> set (handles t)" "i \<noteq> h" "i \<noteq> hc" "i \<noteq> thandle other" for i
    using that represents_live [OF td(5) that(1)] by (simp add: s'(3))
  have h: "h < length (nodes s')" "nodes s' ! h = contents other"
    using ne represents_live [OF td(5), of h] in_u(1) up(4) by (auto simp: s'(3))
  have rep: "represents (nodes s') t'"
    unfolding t'_def using td(5,2)
  proof (rule graft_represents)
    have "represents (nodes s) other" using up(1) un by (simp add: other_def)
    then show "represents (nodes s') ((\<lambda>_. rehandle h other) (joint ?key t))"
      using h(2,1)
    proof (rule represents_rehandle)
      fix i assume "i \<in> set (subtrees other)"
      then show "i < length (nodes s') \<and> nodes s' ! i = nodes s ! i"
        using sub in_u(4) up(4) by (intro keep) auto
    qed
    show "thandle ((\<lambda>_. rehandle h other) (joint ?key t)) = thandle (joint ?key t)" using u(1) by simp
    show "i < length (nodes s') \<and> nodes s' ! i = nodes s ! i"
      if "i \<in> set (handles t)" "i \<notin> set (handles (joint ?key t))" for i
      using that(1) by (rule keep) (use that(2) in_u u_def in blast)+
  qed
  have "leaves t' = ord_delete ?key (leaves t)"
  proof (rule sorted_by_key_unique)
    have "mset (leaves t') = mset (remove1 x (leaves t))" using ls by simp
    from mset_eq_setD [OF this] show "set (leaves t') = set (ord_delete ?key (leaves t))"
      using sorted_by_key_remove [OF crit_ok_sorted [OF td(6)] x] by (simp add: ord_delete_set)
  qed (use ok td(6) crit_ok_sorted ord_delete_sorted in blast)+
  moreover have "slab_tree s' (Some t')"
  proof -
    have "thandle t' = thandle t" unfolding t'_def by (rule graft_thandle) (simp add: u(1))
    moreover have "set (handles t) - {thandle other} - {hc} = set (handles t')"
      using mset_eq_setD [OF hs] dist by auto
    moreover have "length (leaves t) = Suc (length (leaves t'))" using mset_eq_length [OF ls] by simp
    ultimately show ?thesis using s'(2,4,5) td(3,4) rep ok dist by (simp add: slab_tree_def)
  qed
  moreover have "length (nodes s') = length (nodes s)" by (simp add: s'(3))
  ultimately show thesis using that eval by blast
qed

lemma remove_absent:
  assumes "slab_tree s (Some t)" "key \<notin> leaf_key ` set (leaves t)"
  shows "remove_by_key s key = Some (None, s)"
proof -
  note td = slab_tree_SomeD [OF assms(1)]
  show ?thesis
  proof (cases t)
    case (CLeaf h x)
    then show ?thesis
      using assms(2) unfolding remove_by_key_def td(7) option.case slab_get_represents [OF td(5)] by auto
  next
    case (CNode h p k l r)
    then have node: "\<not> is_leaf t" and p: "p < 128" using td(6) by auto
    obtain h1 p1 k1 l1 r1 hc y where u: "joint key t = CNode h1 p1 k1 l1 r1"
        "(if kbit key p1 then r1 else l1) = CLeaf hc y"
      using joint_node [OF node] by blast
    have "y \<in> set (leaves (joint key t))" using u by (cases "kbit key p1") auto
    then have "leaf_key y \<noteq> key" using assms(2) stop_at_leaves [of "stop_remove key" key t] by blast
    then show ?thesis
      using remove_loop_eq [OF td(5,6) CNode u] walk_down_eq [OF p]
      unfolding remove_by_key_def td(7) option.case slab_get_represents [OF td(5)] by (simp add: CNode)
  qed
qed

lemma remove_by_key_correct:
  assumes "slab_ok s"
  obtains s' where "remove_by_key s key = Some (ord_find key (slab_orders s), s')" "slab_ok s'"
    "slab_orders s' = ord_delete key (slab_orders s)" "capacity s' = capacity s"
proof -
  from assms obtain t where t: "slab_tree s t" by (auto simp: slab_ok_def)
  show thesis
  proof (cases t)
    case None
    then have "remove_by_key s key = Some (None, s)" "slab_orders s = []"
      using t slab_orders_tree [OF t] by (simp_all add: remove_by_key_def slab_tree_NoneD)
    then show thesis using that assms by (simp add: ord_find_def ord_delete_def)
  next
    case (Some t1)
    then have t1: "slab_tree s (Some t1)" "slab_orders s = leaves t1" using t slab_orders_tree [OF t] by simp_all
    note td = slab_tree_SomeD [OF t1(1)]
    show thesis
    proof (cases "ord_find key (leaves t1)")
      case None
      then have "key \<notin> leaf_key ` set (leaves t1)" by (simp add: ord_find_None)
      moreover from this have "ord_delete key (leaves t1) = leaves t1" by (auto simp: ord_delete_def filter_id_conv)
      ultimately show thesis using that assms remove_absent [OF t1(1)] None t1(2) by metis
    next
      case (Some x)
      then have x: "x \<in> set (leaves t1)" "leaf_key x = key"
        using ord_find_Some [OF crit_ok_sorted [OF td(6)]] by auto
      show thesis
      proof (cases "is_leaf t1")
        case False
        obtain s' t' where s': "remove_by_key s key = Some (Some x, s')" "slab_tree s' (Some t')"
            "leaves t' = ord_delete key (leaves t1)" "length (nodes s') = length (nodes s)"
          using remove_inner [OF t1(1) False x(1)] x(2) by metis
        have "slab_ok s'" using s'(2) by (auto simp: slab_ok_def)
        moreover have "slab_orders s' = ord_delete key (slab_orders s)"
          using s'(3) slab_orders_tree [OF s'(2)] t1(2) by simp
        moreover have "capacity s' = capacity s" using s'(4) by (simp add: capacity_def)
        ultimately show thesis using that s'(1) Some t1(2) by simp
      next
        case True
        then obtain h where l: "t1 = CLeaf h x" using x(1) by (cases t1) auto
        let ?s = "s\<lparr>root_node := 0, leaf_count := 0\<rparr>"
        have p: "pool ?s {h}" using td(1) l by simp
        have at: "is_live (nodes ?s ! h)" "nodes ?s ! h = LeafNode x" using td(5) l by (simp_all add: is_live_def)
        obtain s' v where s': "slab_remove_unwrap ?s h = Some (LeafNode x, s')" "pool s' ({h} - {h})"
            "nodes s' = (nodes ?s)[h := v]" "leaf_count s' = leaf_count ?s"
          using slab_remove_live [OF p singletonI at(1)] unfolding at(2) by blast
        have "remove_by_key s key = Some (Some x, s')"
          using s'(1) td(3) l x(2)
          unfolding remove_by_key_def td(7) option.case slab_get_represents [OF td(5)] by simp
        moreover have none: "slab_tree s' None" using s'(2,4) by (simp add: slab_tree_def)
        moreover have "ord_delete key (slab_orders s) = []" using t1(2) l x(2) by (simp add: ord_delete_def)
        moreover have "capacity s' = capacity s" using s'(3) by (simp add: capacity_def)
        ultimately show thesis
          using that Some t1(2) slab_orders_tree [OF none] by (auto simp: slab_ok_def)
      qed
    qed
  qed
qed

section \<open>Searching the orders of an owner\<close>

lemma find_by_loop_represents:
  assumes "\<forall>t \<in> set ts. represents (nodes s) t" "sum_list (map (\<lambda>t. length (handles t)) ts) \<le> limit"
  shows "find_by_loop s P limit (map thandle ts) found =
     (found @ map leaf_key (filter P (concat (map (\<lambda>t. rev (leaves t)) ts))),
      limit - sum_list (map (\<lambda>t. length (handles t)) ts))"
  using assms
proof (induction limit arbitrary: ts found)
  case 0
  then show ?case by (cases ts) (auto simp: handles_def)
next
  case (Suc limit)
  show ?case
  proof (cases ts)
    case Nil
    then show ?thesis by simp
  next
    case (Cons t us)
    note get = slab_get_represents [of s t]
    show ?thesis
    proof (cases t)
      case (CLeaf h x)
      then show ?thesis
        using Suc.prems Cons get Suc.IH [of us] by simp
    next
      case (CNode h p k l r)
      have "find_by_loop s P limit (map thandle (r # l # us)) found =
          (found @ map leaf_key (filter P (concat (map (\<lambda>t. rev (leaves t)) (r # l # us)))),
           limit - sum_list (map (\<lambda>t. length (handles t)) (r # l # us)))"
        using Suc.prems Cons CNode by (intro Suc.IH) auto
      then show ?thesis using Suc.prems Cons CNode get by (simp add: ac_simps)
    qed
  qed
qed

lemma find_by_loop_sound:
  assumes "\<forall>t \<in> set ts. represents (nodes s) t"
  shows "set (fst (find_by_loop s P limit (map thandle ts) found)) \<subseteq>
     set found \<union> leaf_key ` {x. P x \<and> (\<exists>t \<in> set ts. x \<in> set (leaves t))}"
  using assms
proof (induction limit arbitrary: ts found)
  case 0
  then show ?case by (cases ts) auto
next
  case (Suc limit)
  show ?case
  proof (cases ts)
    case Nil
    then show ?thesis by simp
  next
    case (Cons t us)
    note get = slab_get_represents [of s t]
    show ?thesis
    proof (cases t)
      case (CLeaf h x)
      define found' where "found' = (if P x then found @ [leaf_key x] else found)"
      have "set (fst (find_by_loop s P limit (map thandle us) found')) \<subseteq>
          set found' \<union> leaf_key ` {x. P x \<and> (\<exists>t \<in> set us. x \<in> set (leaves t))}"
        using Suc.prems Cons by (intro Suc.IH) auto
      then show ?thesis using Suc.prems Cons CLeaf get by (auto simp: found'_def split: if_splits)
    next
      case (CNode h p k l r)
      have "set (fst (find_by_loop s P limit (map thandle (r # l # us)) found)) \<subseteq>
          set found \<union> leaf_key ` {x. P x \<and> (\<exists>t \<in> set (r # l # us). x \<in> set (leaves t))}"
        using Suc.prems Cons CNode by (intro Suc.IH) auto
      moreover have "{x. P x \<and> (\<exists>t \<in> set (r # l # us). x \<in> set (leaves t))} = {x. P x \<and> (\<exists>t \<in> set ts. x \<in> set (leaves t))}"
        using Cons CNode by auto
      ultimately show ?thesis using Suc.prems Cons CNode get by simp
    qed
  qed
qed

text \<open>With a limit of twice the number of orders every order is visited, from the largest key to the
  smallest; with any limit only keys of matching orders are found.\<close>

lemma find_by_complete:
  assumes "slab_ok s" "2 * length (slab_orders s) \<le> limit"
  shows "fst (find_by s limit P) = map leaf_key (filter P (rev (slab_orders s)))"
proof -
  from assms obtain t where t: "slab_tree s t" by (auto simp: slab_ok_def)
  show ?thesis
  proof (cases t)
    case None
    then show ?thesis using t slab_orders_tree [OF t] by (simp add: find_by_def slab_tree_NoneD)
  next
    case (Some t1)
    then have t1: "slab_tree s (Some t1)" "slab_orders s = leaves t1" using t slab_orders_tree [OF t] by simp_all
    note td = slab_tree_SomeD [OF t1(1)]
    have "length (handles t1) \<le> limit" using assms(2) length_handles [of t1] t1(2) by simp
    then have "find_by_loop s P limit (map thandle [t1]) [] =
        ([] @ map leaf_key (filter P (concat (map (\<lambda>t. rev (leaves t)) [t1]))),
         limit - sum_list (map (\<lambda>t. length (handles t)) [t1]))"
      using td(5) by (intro find_by_loop_represents) simp_all
    then show ?thesis by (simp add: find_by_def td(7) t1(2))
  qed
qed

lemma find_by_sound:
  assumes "slab_ok s"
  shows "set (fst (find_by s limit P)) \<subseteq> leaf_key ` {x \<in> set (slab_orders s). P x}"
proof -
  from assms obtain t where t: "slab_tree s t" by (auto simp: slab_ok_def)
  show ?thesis
  proof (cases t)
    case None
    then show ?thesis using t by (simp add: find_by_def slab_tree_NoneD)
  next
    case (Some t1)
    then have t1: "slab_tree s (Some t1)" "slab_orders s = leaves t1" using t slab_orders_tree [OF t] by simp_all
    note td = slab_tree_SomeD [OF t1(1)]
    show ?thesis
      using find_by_loop_sound [of "[t1]" s P limit "[]"] td(5) by (auto simp: find_by_def td(7) t1(2))
  qed
qed

section \<open>Changing the best order in place\<close>

lemma stop_insert_node: "stop_insert key (CNode h p k l r) = (leading_zeros (k XOR key) < p)"
  by (simp add: stop_insert_def)

lemma edge_spot:
  "crit_ok t \<Longrightarrow> edge b t = CLeaf h x \<Longrightarrow> spot (leaf_key x) t = CLeaf h x \<and> x \<in> set (leaves t)"
proof (induction t)
  case (CNode h' p k l r)
  define c where "c = (if b then r else l)"
  have c: "spot (leaf_key x) c = CLeaf h x" "x \<in> set (leaves c)"
    using CNode by (auto simp: c_def split: if_splits)
  have x: "agree p (leaf_key x) k" "kbit (leaf_key x) p = b" "p < 128"
    using CNode.prems(1) c(2) by (auto simp: c_def split: if_splits)
  then have "p \<le> leading_zeros (k XOR leaf_key x)" using le_leading_zeros [of p k "leaf_key x"] agree_sym by simp
  with x(2) c show ?case by (auto simp: stop_insert_node c_def split: if_splits)
qed simp

text \<open>Writing a leaf with the same key over the best order is the insertion of that leaf.\<close>

lemma put_best:
  assumes "slab_ok s" "find_min_max s b = Some (Some h)" "slab_get s h = Some (LeafNode x)" "leaf_key y = leaf_key x"
  obtains s' where "slab_put s h (LeafNode y) = Some s'" "slab_ok s'" "capacity s' = capacity s"
    "slab_orders s' = ord_insert y (slab_orders s)"
proof -
  from assms obtain t where t: "slab_tree s t" by (auto simp: slab_ok_def)
  moreover have "t \<noteq> None"
    using t assms(2) by (cases t) (simp_all add: find_min_max_def slab_tree_NoneD)
  ultimately obtain t1 where t1: "slab_tree s (Some t1)" "slab_orders s = leaves t1"
    using slab_orders_tree [OF t] by auto
  note td = slab_tree_SomeD [OF t1(1)]
  obtain h' x' where e: "edge b t1 = CLeaf h' x'" using edge_leaf by blast
  have "h' = h" using assms(2) e by (simp add: find_min_max_def td(7) find_min_max_loop_represents [OF td(5)])
  moreover have "slab_get s h' = Some (LeafNode x')"
    using slab_get_represents [OF edge_represents [OF td(5)], of b] e by simp
  ultimately have "x' = x" "edge b t1 = CLeaf h x" using assms(3) e by simp_all
  with edge_spot [OF td(6)] have sp: "spot (leaf_key x) t1 = CLeaf h x" "x \<in> set (leaves t1)" by blast+
  obtain s' t' k where s': "insert_leaf s y = Some (Inr (k, Some x), s')" "slab_tree s' (Some t')"
      "leaves t' = ord_insert y (leaves t1)" "nodes s' = (nodes s)[k := LeafNode y]"
    using insert_clobber [OF t1(1) sp(2) assms(4) [symmetric]] by blast
  have "insert_leaf s y = map_option (\<lambda>s. (Inr (h, Some x), s)) (slab_put s h (LeafNode y))"
    using assms(4) sp(1) by (simp add: insert_leaf_def td(7) insert_leaf_loop_eq [OF td(5,6)] insert_at_def)
  with s'(1) have "slab_put s h (LeafNode y) = Some s'" by (auto split: option.splits)
  moreover have "slab_orders s' = ord_insert y (slab_orders s)"
    using slab_orders_tree [OF s'(2)] s'(3) t1(2) by simp
  ultimately show thesis using that s'(2,4) by (auto simp: slab_ok_def capacity_def)
qed

section \<open>The contract of the order book\<close>

locale order_store =
  fixes ok :: "'s \<Rightarrow> bool" and orders :: "'s \<Rightarrow> leaf_node list" and cap :: "'s \<Rightarrow> nat"
    and ins :: "'s \<Rightarrow> leaf_node \<Rightarrow> (insert_result \<times> 's) option"
    and rem :: "'s \<Rightarrow> u128 \<Rightarrow> (leaf_node option \<times> 's) option"
    and best :: "'s \<Rightarrow> bool \<Rightarrow> node_handle option option"
    and get :: "'s \<Rightarrow> node_handle \<Rightarrow> any_node option"
    and put :: "'s \<Rightarrow> node_handle \<Rightarrow> any_node \<Rightarrow> 's option"
  assumes sorted: "ok s \<Longrightarrow> sorted_wrt key_less (orders s)"
    and fits: "ok s \<Longrightarrow> 2 * length (orders s) \<le> cap s + 1"
    and ins_full: "ok s \<Longrightarrow> ord_find (leaf_key x) (orders s) = None \<Longrightarrow> cap s < 2 * length (orders s) + 1 \<Longrightarrow>
      \<exists>s'. ins s x = Some (Inl OutOfSpace, s') \<and> ok s' \<and> orders s' = orders s \<and> cap s' = cap s"
    and ins_room: "ok s \<Longrightarrow> ord_find (leaf_key x) (orders s) \<noteq> None \<or> 2 * length (orders s) + 1 \<le> cap s \<Longrightarrow>
      \<exists>h s'. ins s x = Some (Inr (h, ord_find (leaf_key x) (orders s)), s') \<and> ok s' \<and>
        orders s' = ord_insert x (orders s) \<and> cap s' = cap s"
    and rem: "ok s \<Longrightarrow> \<exists>s'. rem s key = Some (ord_find key (orders s), s') \<and> ok s' \<and>
        orders s' = ord_delete key (orders s) \<and> cap s' = cap s"
    and best_none: "ok s \<Longrightarrow> orders s = [] \<Longrightarrow> best s b = Some None"
    and best_some: "ok s \<Longrightarrow> orders s \<noteq> [] \<Longrightarrow> \<exists>h. best s b = Some (Some h) \<and>
        get s h = Some (LeafNode (if b then last (orders s) else hd (orders s)))"
    and put: "ok s \<Longrightarrow> best s b = Some (Some h) \<Longrightarrow> get s h = Some (LeafNode x) \<Longrightarrow> leaf_key y = leaf_key x \<Longrightarrow>
      \<exists>s'. put s h (LeafNode y) = Some s' \<and> ok s' \<and> orders s' = ord_insert y (orders s) \<and> cap s' = cap s"
begin

text \<open>The extreme order and what is left without it.\<close>

lemma extreme_find:
  assumes "ok s" "orders s \<noteq> []"
  shows "ord_find (leaf_key (if b then last (orders s) else hd (orders s))) (orders s) =
     Some (if b then last (orders s) else hd (orders s))"
  using assms by (subst ord_find_Some) (auto simp: sorted)

lemma delete_length:
  "ok s \<Longrightarrow> ord_find key (orders s) = Some x \<Longrightarrow> length (ord_delete key (orders s)) + 1 = length (orders s)"
proof -
  assume a: "ok s" "ord_find key (orders s) = Some x"
  have x: "x \<in> set (orders s)" "leaf_key x = key" using ord_find_Some [OF sorted [OF a(1)]] a(2) by auto
  have "ord_delete key (orders s) = filter (\<lambda>y. y \<noteq> x) (orders s)"
    unfolding ord_delete_def using sorted_by_key_inj [OF sorted [OF a(1)] _ x(1)] x(2) by (intro filter_cong) auto
  also have "\<dots> = remove1 x (orders s)"
    using sorted_by_key_distinct [OF sorted [OF a(1)]]
    by (simp add: distinct_map distinct_remove1_removeAll removeAll_filter_not_eq neq_commute)
  finally have "ord_delete key (orders s) = remove1 x (orders s)" .
  with x(1) show ?thesis by (simp add: length_remove1) (metis Suc_pred length_pos_if_in_set)
qed

text \<open>A full book takes a new order after its extreme order has left it.\<close>

lemma boot_then_insert:
  assumes "ok s" "ord_find (leaf_key x) (orders s) = None" "cap s < 2 * length (orders s) + 1" "orders s \<noteq> []"
  obtains y s1 h s2 where "y = (if b then last (orders s) else hd (orders s))"
    "rem s (leaf_key y) = Some (Some y, s1)" "ok s1" "orders s1 = ord_delete (leaf_key y) (orders s)" "cap s1 = cap s"
    "ins s1 x = Some (Inr (h, None), s2)" "ok s2" "orders s2 = ord_insert x (ord_delete (leaf_key y) (orders s))"
    "cap s2 = cap s"
proof -
  define y where "y = (if b then last (orders s) else hd (orders s))"
  have found: "ord_find (leaf_key y) (orders s) = Some y" unfolding y_def using assms(1,4) by (rule extreme_find)
  obtain s1 where s1: "rem s (leaf_key y) = Some (Some y, s1)" "ok s1"
      "orders s1 = ord_delete (leaf_key y) (orders s)" "cap s1 = cap s"
    using rem [OF assms(1), of "leaf_key y"] found by auto
  have none: "ord_find (leaf_key x) (orders s1) = None"
    using assms(2) unfolding s1(3) by (auto simp: ord_find_None ord_delete_def)
  have "2 * length (orders s1) + 1 \<le> cap s1"
    using delete_length [OF assms(1) found] fits [OF assms(1)] assms(4) s1(3,4) by simp
  then obtain h s2 where "ins s1 x = Some (Inr (h, None), s2)" "ok s2" "orders s2 = ord_insert x (orders s1)" "cap s2 = cap s1"
    using ins_room [OF s1(2), of x] none by auto
  with s1 show thesis using that [OF y_def] by simp
qed

end

interpretation slab: order_store slab_ok slab_orders capacity insert_leaf remove_by_key find_min_max slab_get slab_put
proof
  fix s x assume ok: "slab_ok s"
  show "sorted_wrt key_less (slab_orders s)" using ok by (rule slab_orders_sorted)
  from ok obtain t where t: "slab_tree s t" by (auto simp: slab_ok_def)
  show "2 * length (slab_orders s) \<le> capacity s + 1"
  proof (cases t)
    case None
    then show ?thesis using slab_orders_tree [OF t] by simp
  next
    case (Some t1)
    then have "length (handles t1) \<le> capacity s"
      using pool_le_capacity [of s "set (tree_handles t)"] tree_card [OF t] t by (simp add: slab_tree_def)
    then show ?thesis using slab_orders_tree [OF t] Some length_handles [of t1] by simp
  qed
  show "\<exists>s'. insert_leaf s x = Some (Inl OutOfSpace, s') \<and> slab_ok s' \<and> slab_orders s' = slab_orders s \<and> capacity s' = capacity s"
    if "ord_find (leaf_key x) (slab_orders s) = None" "capacity s < 2 * length (slab_orders s) + 1"
    using ok by (rule insert_leaf_correct [where new = x]) (use that in auto)
  show "\<exists>h s'. insert_leaf s x = Some (Inr (h, ord_find (leaf_key x) (slab_orders s)), s') \<and> slab_ok s' \<and>
      slab_orders s' = ord_insert x (slab_orders s) \<and> capacity s' = capacity s"
    if "ord_find (leaf_key x) (slab_orders s) \<noteq> None \<or> 2 * length (slab_orders s) + 1 \<le> capacity s"
    using ok by (rule insert_leaf_correct [where new = x]) (use that in auto)
  show "\<exists>s'. remove_by_key s key = Some (ord_find key (slab_orders s), s') \<and> slab_ok s' \<and>
      slab_orders s' = ord_delete key (slab_orders s) \<and> capacity s' = capacity s" for key
    using ok by (rule remove_by_key_correct) blast
  show "find_min_max s b = Some None" if "slab_orders s = []" for b
    using ok by (rule find_min_max_correct [where b = b]) (use that in auto)
  show "\<exists>h. find_min_max s b = Some (Some h) \<and>
      slab_get s h = Some (LeafNode (if b then last (slab_orders s) else hd (slab_orders s)))"
    if "slab_orders s \<noteq> []" for b
    using ok by (rule find_min_max_correct [where b = b]) (use that in auto)
  show "\<exists>s'. slab_put s h (LeafNode y) = Some s' \<and> slab_ok s' \<and> slab_orders s' = ord_insert y (slab_orders s) \<and> capacity s' = capacity s"
    if "find_min_max s b = Some (Some h)" "slab_get s h = Some (LeafNode x)" "leaf_key y = leaf_key x" for b h y
    using put_best [OF ok that] by blast
qed

lemma remove_extreme_correct:
  fixes b :: bool
  assumes "slab_ok s" "slab_orders s \<noteq> []"
  defines "y \<equiv> (if b then last (slab_orders s) else hd (slab_orders s))"
  shows "remove_extreme s b = remove_by_key s (leaf_key y)"
  using slab.best_some [OF assms(1,2), of b]
  by (auto simp: remove_extreme_def node_key_def y_def)

section \<open>Sequences of operations\<close>

text \<open>The operations of the tree in any order, on the slab and on the sorted list of its orders.\<close>

datatype book_op = OpInsert leaf_node | OpRemove u128 | OpBest bool | OpRemoveBest bool

datatype book_out = Full | Replaced "leaf_node option" | Removed "leaf_node option" | Best "leaf_node option"

definition slab_step :: "book_op \<Rightarrow> slab \<Rightarrow> (book_out \<times> slab) option" where
  "slab_step op s =
     (case op of
        OpInsert x \<Rightarrow> map_option (\<lambda>(r, s'). (case r of Inl OutOfSpace \<Rightarrow> Full | Inr (_, old) \<Rightarrow> Replaced old, s'))
          (insert_leaf s x)
      | OpRemove key \<Rightarrow> map_option (\<lambda>(r, s'). (Removed r, s')) (remove_by_key s key)
      | OpBest b \<Rightarrow> map_option (\<lambda>h. (Best (Option.bind (Option.bind h (slab_get s)) as_leaf), s))
          (if b then find_max s else find_min s)
      | OpRemoveBest b \<Rightarrow> map_option (\<lambda>(r, s'). (Removed r, s')) (if b then remove_max s else remove_min s))"

definition list_best :: "bool \<Rightarrow> leaf_node list \<Rightarrow> leaf_node option" where
  "list_best b xs = (if xs = [] then None else Some (if b then last xs else hd xs))"

definition list_step :: "nat \<Rightarrow> book_op \<Rightarrow> leaf_node list \<Rightarrow> book_out \<times> leaf_node list" where
  "list_step limit op xs =
     (case op of
        OpInsert x \<Rightarrow>
          (if ord_find (leaf_key x) xs = None \<and> limit < 2 * length xs + 1 then (Full, xs)
           else (Replaced (ord_find (leaf_key x) xs), ord_insert x xs))
      | OpRemove key \<Rightarrow> (Removed (ord_find key xs), ord_delete key xs)
      | OpBest b \<Rightarrow> (Best (list_best b xs), xs)
      | OpRemoveBest b \<Rightarrow>
          (Removed (list_best b xs), case list_best b xs of None \<Rightarrow> xs | Some y \<Rightarrow> ord_delete (leaf_key y) xs))"

fun run_slab :: "book_op list \<Rightarrow> slab \<Rightarrow> (book_out list \<times> slab) option" where
  "run_slab [] s = Some ([], s)"
| "run_slab (op # ops) s =
     Option.bind (slab_step op s) (\<lambda>(out, s1). map_option (\<lambda>(outs, s2). (out # outs, s2)) (run_slab ops s1))"

fun run_list :: "nat \<Rightarrow> book_op list \<Rightarrow> leaf_node list \<Rightarrow> book_out list \<times> leaf_node list" where
  "run_list limit [] xs = ([], xs)"
| "run_list limit (op # ops) xs =
     (let (out, ys) = list_step limit op xs; (outs, zs) = run_list limit ops ys in (out # outs, zs))"

lemma slab_step_correct:
  assumes "slab_ok s"
  obtains out s' where "slab_step op s = Some (out, s')" "slab_ok s'" "capacity s' = capacity s"
    "list_step (capacity s) op (slab_orders s) = (out, slab_orders s')"
proof (cases op)
  case (OpInsert x)
  show thesis
  proof (cases "ord_find (leaf_key x) (slab_orders s) = None \<and> capacity s < 2 * length (slab_orders s) + 1")
    case True
    then show thesis using slab.ins_full [OF assms, of x] that OpInsert by (auto simp: slab_step_def list_step_def)
  next
    case False
    then have "ord_find (leaf_key x) (slab_orders s) \<noteq> None \<or> 2 * length (slab_orders s) + 1 \<le> capacity s" by auto
    then obtain h s' where "insert_leaf s x = Some (Inr (h, ord_find (leaf_key x) (slab_orders s)), s')" "slab_ok s'"
        "slab_orders s' = ord_insert x (slab_orders s)" "capacity s' = capacity s"
      using slab.ins_room [OF assms] by blast
    then show thesis using that False OpInsert by (auto simp: slab_step_def list_step_def)
  qed
next
  case (OpRemove key)
  then show thesis using slab.rem [OF assms, of key] that by (auto simp: slab_step_def list_step_def)
next
  case (OpBest b)
  show thesis
  proof (cases "slab_orders s = []")
    case True
    then have "find_min_max s b = Some None" using slab.best_none [OF assms] by blast
    then show thesis
      using that OpBest True assms by (cases b) (simp_all add: slab_step_def list_step_def find_min_def find_max_def list_best_def)
  next
    case False
    then obtain h where "find_min_max s b = Some (Some h)"
        "slab_get s h = Some (LeafNode (if b then last (slab_orders s) else hd (slab_orders s)))"
      using slab.best_some [OF assms] by blast
    then show thesis
      using that OpBest False assms
      by (cases b) (simp_all add: slab_step_def list_step_def find_min_def find_max_def list_best_def as_leaf_def)
  qed
next
  case (OpRemoveBest b)
  have step: "slab_step op s = map_option (\<lambda>(r, s'). (Removed r, s')) (remove_extreme s b)"
    by (simp add: OpRemoveBest slab_step_def remove_min_def remove_max_def)
  show thesis
  proof (cases "slab_orders s = []")
    case True
    then have "remove_extreme s b = Some (None, s)" using slab.best_none [OF assms] by (simp add: remove_extreme_def)
    then show thesis using that True assms unfolding step by (simp add: OpRemoveBest list_step_def list_best_def)
  next
    case False
    define y where "y = (if b then last (slab_orders s) else hd (slab_orders s))"
    have "ord_find (leaf_key y) (slab_orders s) = Some y" unfolding y_def using assms False by (rule slab.extreme_find)
    then obtain s' where "remove_extreme s b = Some (Some y, s')" "slab_ok s'"
        "slab_orders s' = ord_delete (leaf_key y) (slab_orders s)" "capacity s' = capacity s"
      using slab.rem [OF assms, of "leaf_key y"] remove_extreme_correct [OF assms False, of b] by (auto simp: y_def)
    then show thesis
      using that False unfolding step by (auto simp: OpRemoveBest list_step_def list_best_def y_def)
  qed
qed

lemma run_slab_correct:
  assumes "slab_ok s"
  shows "\<exists>outs s'. run_slab ops s = Some (outs, s') \<and> slab_ok s' \<and>
           run_list (capacity s) ops (slab_orders s) = (outs, slab_orders s')"
  using assms
proof (induction ops arbitrary: s)
  case Nil
  then show ?case by simp
next
  case (Cons op ops)
  obtain out s1 where s1: "slab_step op s = Some (out, s1)" "slab_ok s1" "capacity s1 = capacity s"
      "list_step (capacity s) op (slab_orders s) = (out, slab_orders s1)"
    using slab_step_correct [OF Cons.prems] by blast
  obtain outs s' where "run_slab ops s1 = Some (outs, s')" "slab_ok s'"
      "run_list (capacity s) ops (slab_orders s1) = (outs, slab_orders s')"
    using Cons.IH [OF s1(2)] s1(3) by auto
  with s1 show ?case by simp
qed

lemma slab_clear_ok: "slab_ok (slab_clear s)" "slab_orders (slab_clear s) = []" "capacity (slab_clear s) = capacity s"
proof -
  have t: "slab_tree (slab_clear s) None"
    using pool_clear by (simp add: slab_tree_def) (simp add: slab_clear_def)
  then show "slab_ok (slab_clear s)" by (auto simp: slab_ok_def)
  show "slab_orders (slab_clear s) = []" using slab_orders_tree [OF t] by simp
  show "capacity (slab_clear s) = capacity s" by (simp add: capacity_def slab_clear_def)
qed

text \<open>C34. The critical bit tree refines a list of orders sorted by key: every sequence of insertions, removals
  and queries for the best order returns on a well formed slab, without a panic and without looping, and gives
  the results and the orders that the sorted list gives; an insertion is refused exactly when the key is new and
  the slab has no room for two more nodes.\<close>

theorem slab_refines_sorted_list:
  assumes "slab_ok s"
  shows "\<exists>outs s'. run_slab ops s = Some (outs, s') \<and> slab_ok s' \<and> traverse s' = Some (slab_orders s') \<and>
           run_list (capacity s) ops (slab_orders s) = (outs, slab_orders s')"
proof -
  obtain outs s' where r: "run_slab ops s = Some (outs, s')" "slab_ok s'"
      "run_list (capacity s) ops (slab_orders s) = (outs, slab_orders s')"
    using run_slab_correct [OF assms] by blast
  then have "traverse s' = Some (slab_orders s')" by (auto simp: slab_ok_def slab_orders_tree traverse_tree)
  with r show ?thesis by blast
qed

definition sample_leaf :: "u128 \<Rightarrow> nat \<Rightarrow> leaf_node" where
  "sample_leaf key quantity = leaf_new 0 key [1, 0, 0, 0] quantity Base 0"

definition sample_slab :: slab where
  "sample_slab = \<lparr>bump_index = 0, free_list_len = 0, free_list_head = 0, root_node = 0, leaf_count = 0,
                  nodes = replicate 4 OtherNode\<rparr>"

lemma sample_slab_ok: "slab_ok sample_slab" "slab_orders sample_slab = []" "capacity sample_slab = 4"
proof -
  have "sample_slab = slab_clear sample_slab" by (simp add: sample_slab_def slab_clear_def)
  then show "slab_ok sample_slab" "slab_orders sample_slab = []" using slab_clear_ok(1,2) [of sample_slab] by simp_all
  show "capacity sample_slab = 4" by (simp add: sample_slab_def capacity_def)
qed

theorem slab_refines_sorted_list_witness:
  "slab_ok sample_slab \<and>
   (\<exists>s'. run_slab [OpInsert (sample_leaf 5 10), OpInsert (sample_leaf 3 20), OpInsert (sample_leaf 9 1), OpBest True,
                  OpRemoveBest False] sample_slab =
        Some ([Replaced None, Replaced None, Full, Best (Some (sample_leaf 5 10)), Removed (Some (sample_leaf 3 20))], s') \<and>
      slab_orders s' = [sample_leaf 5 10])"
  using slab_refines_sorted_list [OF sample_slab_ok(1),
      of "[OpInsert (sample_leaf 5 10), OpInsert (sample_leaf 3 20), OpInsert (sample_leaf 9 1), OpBest True, OpRemoveBest False]"]
    sample_slab_ok
  by (auto simp: list_step_def ord_find_def ord_insert_def ord_delete_def list_best_def sample_leaf_def leaf_new_def)

text \<open>C35. The bounded search for the orders of an owner only finds orders of that owner, and with a limit of
  twice the number of orders in the book it finds all of them, the largest key first.\<close>

theorem find_by_finds_orders:
  assumes "slab_ok s"
  shows "set (fst (find_by s limit P)) \<subseteq> leaf_key ` {x \<in> set (slab_orders s). P x} \<and>
         (2 * length (slab_orders s) \<le> limit \<longrightarrow>
            fst (find_by s limit P) = map leaf_key (filter P (rev (slab_orders s))))"
  using find_by_sound [OF assms] find_by_complete [OF assms] by blast

theorem find_by_finds_orders_witness:
  "\<exists>s. slab_ok s \<and> slab_orders s = [sample_leaf 3 20, sample_leaf 5 10] \<and>
     fst (find_by s 4 (\<lambda>x. leaf_quantity x = 20)) = [3]"
proof -
  obtain s where "slab_ok s" "slab_orders s = [sample_leaf 3 20, sample_leaf 5 10]"
    using run_slab_correct [OF sample_slab_ok(1), of "[OpInsert (sample_leaf 5 10), OpInsert (sample_leaf 3 20)]"] sample_slab_ok
    by (auto simp: list_step_def ord_find_def ord_insert_def sample_leaf_def leaf_new_def)
  then show ?thesis
    using find_by_finds_orders [of s 4 "\<lambda>x. leaf_quantity x = 20"] by (auto simp: sample_leaf_def leaf_new_def)
qed

end
