(* ===== verification/Dex_Error.thy ===== *)
theory Dex_Error
  imports Dex_Orders
begin

text \<open>
  The errors of the Serum exchange (\<open>serum_dex/error.rs\<close>) and the results of its operations. An operation
  returns \<open>(dex_error + 'a) option\<close>: \<open>None\<close> for a call that does not return (a panic, an infinite loop),
  \<open>Some (Inl e)\<close> for an error, with which the transaction is rolled back, so that no state comes with it.
\<close>

section \<open>Error codes\<close>

datatype (plugins only:) dex_error_code =
    InvalidMarketFlags | InvalidAskFlags | InvalidBidFlags | InvalidQueueLength | OwnerAccountNotProvided
    | ConsumeEventsQueueFailure | WrongCoinVault | WrongPcVault | WrongCoinMint | WrongPcMint
    | CoinVaultProgramId | PcVaultProgramId | CoinMintProgramId | PcMintProgramId | WrongCoinMintSize
    | WrongPcMintSize | WrongCoinVaultSize | WrongPcVaultSize | UninitializedVault | UninitializedMint
    | CoinMintUninitialized | PcMintUninitialized | WrongMint | WrongVaultOwner | VaultHasDelegate
    | AlreadyInitialized | WrongAccountDataAlignment | WrongAccountDataPaddingLength
    | WrongAccountHeadPadding | WrongAccountTailPadding | RequestQueueEmpty | EventQueueTooSmall
    | SlabTooSmall | BadVaultSignerNonce | InsufficientFunds | SplAccountProgramId | SplAccountLen
    | WrongFeeDiscountAccountOwner | WrongFeeDiscountMint | CoinPayerProgramId | PcPayerProgramId
    | ClientIdNotFound | TooManyOpenOrders | FakeErrorSoWeDontChangeNumbers | BorrowError
    | WrongOrdersAccount | WrongBidsAccount | WrongAsksAccount | WrongRequestQueueAccount
    | WrongEventQueueAccount | RequestQueueFull | EventQueueFull | MarketIsDisabled | WrongSigner
    | TransferFailed | ClientOrderIdIsZero | WrongRentSysvarAccount | RentNotProvided
    | OrdersNotRentExempt | OrderNotFound | OrderNotYours | WouldSelfTrade | InvalidOpenOrdersAuthority
    | Unknown | AssertionErrorCode

definition error_code_into :: "dex_error_code \<Rightarrow> nat" where
  "error_code_into c =
     (case c of
      InvalidMarketFlags \<Rightarrow> 0 | InvalidAskFlags \<Rightarrow> 1
      | InvalidBidFlags \<Rightarrow> 2 | InvalidQueueLength \<Rightarrow> 3
      | OwnerAccountNotProvided \<Rightarrow> 4 | ConsumeEventsQueueFailure \<Rightarrow> 5
      | WrongCoinVault \<Rightarrow> 6 | WrongPcVault \<Rightarrow> 7 | WrongCoinMint \<Rightarrow> 8
      | WrongPcMint \<Rightarrow> 9 | CoinVaultProgramId \<Rightarrow> 10
      | PcVaultProgramId \<Rightarrow> 11 | CoinMintProgramId \<Rightarrow> 12
      | PcMintProgramId \<Rightarrow> 13 | WrongCoinMintSize \<Rightarrow> 14
      | WrongPcMintSize \<Rightarrow> 15 | WrongCoinVaultSize \<Rightarrow> 16
      | WrongPcVaultSize \<Rightarrow> 17 | UninitializedVault \<Rightarrow> 18
      | UninitializedMint \<Rightarrow> 19 | CoinMintUninitialized \<Rightarrow> 20
      | PcMintUninitialized \<Rightarrow> 21 | WrongMint \<Rightarrow> 22
      | WrongVaultOwner \<Rightarrow> 23 | VaultHasDelegate \<Rightarrow> 24
      | AlreadyInitialized \<Rightarrow> 25 | WrongAccountDataAlignment \<Rightarrow> 26
      | WrongAccountDataPaddingLength \<Rightarrow> 27 | WrongAccountHeadPadding \<Rightarrow> 28
      | WrongAccountTailPadding \<Rightarrow> 29 | RequestQueueEmpty \<Rightarrow> 30
      | EventQueueTooSmall \<Rightarrow> 31 | SlabTooSmall \<Rightarrow> 32
      | BadVaultSignerNonce \<Rightarrow> 33 | InsufficientFunds \<Rightarrow> 34
      | SplAccountProgramId \<Rightarrow> 35 | SplAccountLen \<Rightarrow> 36
      | WrongFeeDiscountAccountOwner \<Rightarrow> 37 | WrongFeeDiscountMint \<Rightarrow> 38
      | CoinPayerProgramId \<Rightarrow> 39 | PcPayerProgramId \<Rightarrow> 40
      | ClientIdNotFound \<Rightarrow> 41 | TooManyOpenOrders \<Rightarrow> 42
      | FakeErrorSoWeDontChangeNumbers \<Rightarrow> 43 | BorrowError \<Rightarrow> 44
      | WrongOrdersAccount \<Rightarrow> 45 | WrongBidsAccount \<Rightarrow> 46
      | WrongAsksAccount \<Rightarrow> 47 | WrongRequestQueueAccount \<Rightarrow> 48
      | WrongEventQueueAccount \<Rightarrow> 49 | RequestQueueFull \<Rightarrow> 50
      | EventQueueFull \<Rightarrow> 51 | MarketIsDisabled \<Rightarrow> 52
      | WrongSigner \<Rightarrow> 53 | TransferFailed \<Rightarrow> 54
      | ClientOrderIdIsZero \<Rightarrow> 55 | WrongRentSysvarAccount \<Rightarrow> 56
      | RentNotProvided \<Rightarrow> 57 | OrdersNotRentExempt \<Rightarrow> 58
      | OrderNotFound \<Rightarrow> 59 | OrderNotYours \<Rightarrow> 60 | WouldSelfTrade \<Rightarrow> 61
      | InvalidOpenOrdersAuthority \<Rightarrow> 62 | Unknown \<Rightarrow> 1000
      | AssertionErrorCode \<Rightarrow> 1001)"

definition all_error_codes :: "dex_error_code list" where
  "all_error_codes = [
    InvalidMarketFlags, InvalidAskFlags, InvalidBidFlags, InvalidQueueLength, OwnerAccountNotProvided
    , ConsumeEventsQueueFailure, WrongCoinVault, WrongPcVault, WrongCoinMint, WrongPcMint
    , CoinVaultProgramId, PcVaultProgramId, CoinMintProgramId, PcMintProgramId, WrongCoinMintSize
    , WrongPcMintSize, WrongCoinVaultSize, WrongPcVaultSize, UninitializedVault, UninitializedMint
    , CoinMintUninitialized, PcMintUninitialized, WrongMint, WrongVaultOwner, VaultHasDelegate
    , AlreadyInitialized, WrongAccountDataAlignment, WrongAccountDataPaddingLength
    , WrongAccountHeadPadding, WrongAccountTailPadding, RequestQueueEmpty, EventQueueTooSmall
    , SlabTooSmall, BadVaultSignerNonce, InsufficientFunds, SplAccountProgramId, SplAccountLen
    , WrongFeeDiscountAccountOwner, WrongFeeDiscountMint, CoinPayerProgramId, PcPayerProgramId
    , ClientIdNotFound, TooManyOpenOrders, FakeErrorSoWeDontChangeNumbers, BorrowError
    , WrongOrdersAccount, WrongBidsAccount, WrongAsksAccount, WrongRequestQueueAccount
    , WrongEventQueueAccount, RequestQueueFull, EventQueueFull, MarketIsDisabled, WrongSigner
    , TransferFailed, ClientOrderIdIsZero, WrongRentSysvarAccount, RentNotProvided, OrdersNotRentExempt
    , OrderNotFound, OrderNotYours, WouldSelfTrade, InvalidOpenOrdersAuthority, Unknown
    , AssertionErrorCode]"

text \<open>\<open>FromPrimitive\<close>: the code with this number, the default for any other number.\<close>

definition error_code_from :: "nat \<Rightarrow> dex_error_code" where
  "error_code_from n =
     (case List.find (\<lambda>c. error_code_into c = n) all_error_codes of Some c \<Rightarrow> c | None \<Rightarrow> AssertionErrorCode)"

datatype source_file_id = StateFile | MatchingFile | CritbitFile

definition file_id_into :: "source_file_id \<Rightarrow> nat" where
  "file_id_into f = (case f of StateFile \<Rightarrow> 1 | MatchingFile \<Rightarrow> 2 | CritbitFile \<Rightarrow> 3)"

text \<open>The errors of \<open>solana_program\<close> that the sources name.\<close>

datatype program_error = Custom nat | InvalidArgument | OtherProgramError nat

datatype dex_error = ProgramErr program_error | ErrorCode dex_error_code

text \<open>An assertion error carries the line, cut to 16 bits, and the file.\<close>

definition assertion_error_into :: "nat \<Rightarrow> source_file_id \<Rightarrow> nat" where
  "assertion_error_into line fid = line mod 65536 + file_id_into fid * 16777216"

definition assertion_error :: "source_file_id \<Rightarrow> nat \<Rightarrow> dex_error" where
  "assertion_error fid line = ProgramErr (Custom (assertion_error_into line fid))"

definition program_error_from :: "dex_error \<Rightarrow> program_error" where
  "program_error_from e = (case e of ProgramErr e \<Rightarrow> e | ErrorCode c \<Rightarrow> Custom (error_code_into c))"

section \<open>Results\<close>

type_synonym 'a dex = "(dex_error + 'a) option"

definition dex_ok :: "'a \<Rightarrow> 'a dex" where
  "dex_ok x = Some (Inr x)"

definition dex_fail :: "dex_error_code \<Rightarrow> 'a dex" where
  "dex_fail c = Some (Inl (ErrorCode c))"

definition dex_bind :: "'a dex \<Rightarrow> ('a \<Rightarrow> 'b dex) \<Rightarrow> 'b dex" where
  "dex_bind r f = (case r of None \<Rightarrow> None | Some (Inl e) \<Rightarrow> Some (Inl e) | Some (Inr x) \<Rightarrow> f x)"

text \<open>A value that may panic, and an assertion of the \<open>check_assert!\<close> macros.\<close>

definition unwrap :: "'a option \<Rightarrow> 'a dex" where
  "unwrap x = map_option Inr x"

definition check_assert :: "source_file_id \<Rightarrow> nat \<Rightarrow> bool \<Rightarrow> unit dex" where
  "check_assert fid line b = (if b then dex_ok () else Some (Inl (assertion_error fid line)))"

lemma dex_bind_simps [simp]:
  "dex_bind None f = None" "dex_bind (Some (Inl e)) f = Some (Inl e)" "dex_bind (Some (Inr x)) f = f x"
  "dex_bind (dex_ok x) f = f x" "dex_bind (dex_fail c) f = dex_fail c"
  by (simp_all add: dex_bind_def dex_ok_def dex_fail_def)

lemma dex_bind_eq_ok:
  "dex_bind r f = Some (Inr y) \<longleftrightarrow> (\<exists>x. r = Some (Inr x) \<and> f x = Some (Inr y))"
  by (auto simp: dex_bind_def split: option.splits sum.splits)

lemma unwrap_simps [simp]: "unwrap None = None" "unwrap (Some x) = Some (Inr x)"
  by (simp_all add: unwrap_def)

lemma unwrap_eq_ok: "unwrap x = Some (Inr y) \<longleftrightarrow> x = Some y"
  by (auto simp: unwrap_def)

lemma check_assert_eq_ok: "check_assert fid line b = Some (Inr u) \<longleftrightarrow> b"
  by (auto simp: check_assert_def dex_ok_def)

lemma check_assert_True [simp]: "check_assert fid line True = Some (Inr ())"
  by (simp add: check_assert_def dex_ok_def)

lemma dex_ok_eq: "dex_ok x = Some (Inr y) \<longleftrightarrow> x = y" "dex_fail c \<noteq> Some (Inr y)"
  by (auto simp: dex_ok_def dex_fail_def)

lemmas dex_result = dex_bind_eq_ok unwrap_eq_ok check_assert_eq_ok dex_ok_eq

lemma dex_bind_cong [fundef_cong]:
  "r = r' \<Longrightarrow> (\<And>x. r' = Some (Inr x) \<Longrightarrow> f x = g x) \<Longrightarrow> dex_bind r f = dex_bind r' g"
  by (auto simp: dex_bind_def split: option.splits sum.splits)

section \<open>Codes\<close>

lemma all_error_codes_complete: "c \<in> set all_error_codes"
  by (cases c) (simp_all add: all_error_codes_def)

lemma error_code_into_inj: "error_code_into c = error_code_into c' \<Longrightarrow> c = c'"
proof -
  have "distinct (map error_code_into all_error_codes)" by (simp add: all_error_codes_def error_code_into_def)
  then have "inj_on error_code_into (set all_error_codes)" by (simp add: distinct_map)
  then show "error_code_into c = error_code_into c' \<Longrightarrow> c = c'"
    using all_error_codes_complete by (auto dest: inj_onD)
qed

lemma error_code_into_le: "error_code_into c \<le> 1001"
  by (cases c) (simp_all add: error_code_into_def)

text \<open>C40. A client that sees the number of a custom program error can tell an error code from a failed
  assertion: reading the number of an error code back gives the code, and the number of an assertion is none of
  an error code and determines the file and the line.\<close>

theorem error_numbers_unambiguous:
  "error_code_from (error_code_into c) = c \<and>
   assertion_error_into line fid \<noteq> error_code_into c \<and>
   assertion_error_into line fid div 16777216 = file_id_into fid \<and>
   assertion_error_into line fid mod 16777216 = line mod 65536"
proof -
  have "List.find (\<lambda>c'. error_code_into c' = error_code_into c) all_error_codes \<noteq> None"
    using all_error_codes_complete [of c] by (auto simp: find_eq_None)
  then obtain c' where c': "List.find (\<lambda>c'. error_code_into c' = error_code_into c) all_error_codes = Some c'" by blast
  have "error_code_into c' = error_code_into c" using find_eq_SomeD [OF c'] by (rule conjunct2)
  then have "c' = c" by (rule error_code_into_inj)
  with c' have "error_code_from (error_code_into c) = c" by (simp add: error_code_from_def)
  moreover have "file_id_into fid \<ge> 1" by (cases fid) (simp_all add: file_id_into_def)
  then have "1001 < assertion_error_into line fid" unfolding assertion_error_into_def by (simp add: trans_less_add2)
  then have "assertion_error_into line fid \<noteq> error_code_into c" using error_code_into_le [of c] by simp
  moreover have small: "line mod 65536 < 16777216" by (rule less_trans [of _ 65536]) simp_all
  moreover have "assertion_error_into line fid div 16777216 = file_id_into fid"
    unfolding assertion_error_into_def by (simp only: div_mult_self1 [of 16777216, simplified] div_less [OF small] add_0_right)
  moreover have "assertion_error_into line fid mod 16777216 = line mod 65536"
    unfolding assertion_error_into_def by (subst mod_mult_self1) (rule mod_less [OF small])
  ultimately show ?thesis by blast
qed

end
