(* ===== verification/Dex_Queue.thy ===== *)
theory Dex_Queue
  imports Dex_Error
begin

text \<open>
  The queues of the Serum exchange and what they hold (\<open>serum_dex/state.rs\<close>): a ring buffer with a header,
  the packed requests and events and their views. The header is an argument of the queue, as in the code: the
  trait \<open>QueueHeader\<close> is a record of its operations, with one instance for requests and one for events, and
  the locale \<open>queue_header\<close> states what the queue relies on. The ring buffer refines a list.
\<close>

section \<open>Sides and kinds of orders\<close>

datatype side = Bid | Ask

datatype order_type = Limit | ImmediateOrCancel | PostOnly

datatype self_trade_behavior = DecrementTake | CancelProvide | AbortTransaction

definition self_trade_into :: "self_trade_behavior \<Rightarrow> nat" where
  "self_trade_into b = (case b of DecrementTake \<Rightarrow> 0 | CancelProvide \<Rightarrow> 1 | AbortTransaction \<Rightarrow> 2)"

definition self_trade_try_from :: "nat \<Rightarrow> self_trade_behavior option" where
  "self_trade_try_from n =
     (if n = 0 then Some DecrementTake else if n = 1 then Some CancelProvide
      else if n = 2 then Some AbortTransaction else None)"

text \<open>\<open>NonZeroU64::new\<close> and \<open>map_or(0, NonZeroU64::get)\<close>.\<close>

definition nonzero :: "nat \<Rightarrow> nat option" where
  "nonzero n = (if n = 0 then None else Some n)"

definition get_or_zero :: "nat option \<Rightarrow> nat" where
  "get_or_zero n = (case n of None \<Rightarrow> 0 | Some n \<Rightarrow> n)"

lemma nonzero_get_or_zero: "n \<noteq> Some 0 \<Longrightarrow> nonzero (get_or_zero n) = n"
  by (cases n) (simp_all add: nonzero_def get_or_zero_def)

section \<open>Ring buffers\<close>

record 'h header_ops =
  hdr_head :: "'h \<Rightarrow> nat"
  hdr_set_head :: "nat \<Rightarrow> 'h \<Rightarrow> 'h"
  hdr_count :: "'h \<Rightarrow> nat"
  hdr_set_count :: "nat \<Rightarrow> 'h \<Rightarrow> 'h"
  incr_event_id :: "'h \<Rightarrow> 'h option"
  decr_event_id :: "nat \<Rightarrow> 'h \<Rightarrow> 'h option"

record ('h, 'i) queue =
  header :: 'h
  buf :: "'i list"

definition q_len :: "'h header_ops \<Rightarrow> ('h, 'i) queue \<Rightarrow> nat" where
  "q_len H self = hdr_count H (header self)"

definition q_full :: "'h header_ops \<Rightarrow> ('h, 'i) queue \<Rightarrow> bool" where
  "q_full H self \<longleftrightarrow> hdr_count H (header self) = length (buf self)"

definition q_empty :: "'h header_ops \<Rightarrow> ('h, 'i) queue \<Rightarrow> bool" where
  "q_empty H self \<longleftrightarrow> hdr_count H (header self) = 0"

text \<open>The result of \<open>push_back\<close> is the value itself when the queue is full.\<close>

definition push_back :: "'h header_ops \<Rightarrow> ('h, 'i) queue \<Rightarrow> 'i \<Rightarrow> ('i option \<times> ('h, 'i) queue) option" where
  "push_back H self val =
     (if q_full H self then Some (Some val, self)
      else Option.bind (u64_checked (hdr_head H (header self) + hdr_count H (header self))) (\<lambda>end.
        if length (buf self) = 0 then None
        else let slot = end mod length (buf self) in
          Option.bind (u64_checked (hdr_count H (header self) + 1)) (\<lambda>count.
          Option.bind (incr_event_id H (hdr_set_count H count (header self))) (\<lambda>h.
          Some (None, self\<lparr>header := h, buf := (buf self)[slot := val]\<rparr>)))))"

definition peek_front :: "'h header_ops \<Rightarrow> ('h, 'i) queue \<Rightarrow> 'i option option" where
  "peek_front H self =
     (if q_empty H self then Some None
      else if hdr_head H (header self) < length (buf self)
      then Some (Some (buf self ! hdr_head H (header self))) else None)"

definition pop_front :: "'h header_ops \<Rightarrow> ('h, 'i) queue \<Rightarrow> ('i option \<times> ('h, 'i) queue) option" where
  "pop_front H self =
     (if q_empty H self then Some (None, self)
      else let head = hdr_head H (header self) in
        if head < length (buf self) then
          let h = hdr_set_count H (hdr_count H (header self) - 1) (header self) in
          Option.bind (u64_checked (hdr_head H h + 1)) (\<lambda>next.
          Some (Some (buf self ! head), self\<lparr>header := hdr_set_head H (next mod length (buf self)) h\<rparr>))
        else None)"

definition revert_pushes :: "'h header_ops \<Rightarrow> ('h, 'i) queue \<Rightarrow> nat \<Rightarrow> ('h, 'i) queue dex" where
  "revert_pushes H self desired_len =
     dex_bind (check_assert StateFile 790 (desired_len \<le> hdr_count H (header self))) (\<lambda>_.
     let len_diff = hdr_count H (header self) - desired_len in
     dex_bind (unwrap (decr_event_id H len_diff (hdr_set_count H desired_len (header self)))) (\<lambda>h.
     dex_ok (self\<lparr>header := h\<rparr>)))"

text \<open>\<open>iter\<close>: the items from the front to the back, \<open>None\<close> when an index is out of range.\<close>

fun iter_from :: "'h header_ops \<Rightarrow> ('h, 'i) queue \<Rightarrow> nat \<Rightarrow> nat \<Rightarrow> 'i list option" where
  "iter_from H self index 0 = Some []"
| "iter_from H self index (Suc n) =
     (if length (buf self) = 0 then None
      else Option.bind (u64_checked (hdr_head H (header self) + index)) (\<lambda>i.
        map_option (\<lambda>rest. buf self ! (i mod length (buf self)) # rest) (iter_from H self (index + 1) n)))"

definition q_iter :: "'h header_ops \<Rightarrow> ('h, 'i) queue \<Rightarrow> 'i list option" where
  "q_iter H self = iter_from H self 0 (q_len H self)"

record request_queue_header =
  rq_account_flags :: "64 word"
  rq_head :: nat
  rq_count :: nat
  next_seq_num :: nat

record event_queue_header =
  eq_account_flags :: "64 word"
  eq_head :: nat
  eq_count :: nat
  seq_num :: nat

definition request_header :: "request_queue_header header_ops" where
  "request_header =
     \<lparr>hdr_head = rq_head, hdr_set_head = (\<lambda>n h. h\<lparr>rq_head := n\<rparr>), hdr_count = rq_count,
      hdr_set_count = (\<lambda>n h. h\<lparr>rq_count := n\<rparr>), incr_event_id = Some, decr_event_id = (\<lambda>n. Some)\<rparr>"

definition event_header :: "event_queue_header header_ops" where
  "event_header =
     \<lparr>hdr_head = eq_head, hdr_set_head = (\<lambda>n h. h\<lparr>eq_head := n\<rparr>), hdr_count = eq_count,
      hdr_set_count = (\<lambda>n h. h\<lparr>eq_count := n\<rparr>),
      incr_event_id = (\<lambda>h. map_option (\<lambda>n. h\<lparr>seq_num := n\<rparr>) (u64_checked (seq_num h + 1))),
      decr_event_id = (\<lambda>n h. map_option (\<lambda>m. h\<lparr>seq_num := m\<rparr>) (checked_sub (seq_num h) n))\<rparr>"

section \<open>Order numbers\<close>

definition u64_word :: "nat \<Rightarrow> u128" where
  "u64_word n = of_nat (n mod two64)"

text \<open>\<open>gen_seq_num\<close> and \<open>gen_order_id\<close>: the price in the upper half, the sequence number, or its complement
  for a bid, in the lower half.\<close>

definition gen_seq_num :: "request_queue_header \<Rightarrow> (nat \<times> request_queue_header) option" where
  "gen_seq_num h = map_option (\<lambda>n. (next_seq_num h, h\<lparr>next_seq_num := n\<rparr>)) (u64_checked (next_seq_num h + 1))"

definition gen_order_id :: "request_queue_header \<Rightarrow> nat \<Rightarrow> side \<Rightarrow> (u128 \<times> request_queue_header) option" where
  "gen_order_id h limit_price side =
     map_option (\<lambda>(seq, h').
       (push_bit 64 (u64_word limit_price) OR u64_word (case side of Bid \<Rightarrow> u64_max - seq | Ask \<Rightarrow> seq), h'))
       (gen_seq_num h)"

section \<open>The ring buffer refines a list\<close>

definition q_ok :: "'h header_ops \<Rightarrow> ('h, 'i) queue \<Rightarrow> bool" where
  "q_ok H q \<longleftrightarrow>
     hdr_count H (header q) \<le> length (buf q) \<and> 2 * length (buf q) \<le> u64_max \<and>
     (if buf q = [] then hdr_head H (header q) = 0 else hdr_head H (header q) < length (buf q))"

definition q_items :: "'h header_ops \<Rightarrow> ('h, 'i) queue \<Rightarrow> 'i list" where
  "q_items H q =
     map (\<lambda>i. buf q ! ((hdr_head H (header q) + i) mod length (buf q))) [0..<hdr_count H (header q)]"

lemma wrap_index:
  "h < n \<Longrightarrow> i < n \<Longrightarrow> (h + i) mod n = (if h + i < n then h + i else h + i - n)" for h i n :: nat
  by (simp add: mod_if)

lemma wrap_inj: "h < n \<Longrightarrow> i < n \<Longrightarrow> j < n \<Longrightarrow> (h + i) mod n = (h + j) mod n \<Longrightarrow> i = j" for h i j n :: nat
  by (simp add: wrap_index split: if_splits)

lemma wrap_Suc: "(Suc h mod n + i) mod n = Suc (h + i) mod n" for h i n :: nat
  using mod_add_left_eq [of "Suc h" n i] by simp

locale queue_header =
  fixes H :: "'h header_ops" and spare :: "'h \<Rightarrow> nat \<Rightarrow> bool"
  assumes set_head: "hdr_head H (hdr_set_head H n h) = n" "hdr_count H (hdr_set_head H n h) = hdr_count H h"
    and set_count: "hdr_count H (hdr_set_count H n h) = n" "hdr_head H (hdr_set_count H n h) = hdr_head H h"
    and incr: "spare h (Suc n) \<Longrightarrow> \<exists>h'. incr_event_id H h = Some h' \<and> hdr_head H h' = hdr_head H h \<and>
        hdr_count H h' = hdr_count H h \<and> spare h' n"
    and decr: "decr_event_id H n h = Some h' \<Longrightarrow> hdr_head H h' = hdr_head H h \<and> hdr_count H h' = hdr_count H h"
    and spare_set: "spare (hdr_set_head H m h) n = spare h n" "spare (hdr_set_count H m h) n = spare h n"
    and spare_less: "spare h (Suc n) \<Longrightarrow> spare h n"
begin

lemma push_full: "q_full H q \<Longrightarrow> push_back H q v = Some (Some v, q)"
  by (simp add: push_back_def)

lemma push_room:
  assumes "q_ok H q" "\<not> q_full H q" "spare (header q) (Suc n)"
  obtains q' where "push_back H q v = Some (None, q')" "q_ok H q'" "q_items H q' = q_items H q @ [v]"
    "spare (header q') n" "length (buf q') = length (buf q)"
proof -
  let ?h = "hdr_head H (header q)" and ?c = "hdr_count H (header q)" and ?n = "length (buf q)"
  have c: "?c < ?n" using assms(1,2) by (simp add: q_ok_def q_full_def)
  then have ne: "buf q \<noteq> []" by auto
  have h: "?h < ?n" using assms(1) ne by (simp add: q_ok_def)
  have room: "2 * ?n \<le> u64_max" using assms(1) by (simp add: q_ok_def)
  obtain h' where h': "incr_event_id H (hdr_set_count H (?c + 1) (header q)) = Some h'" "hdr_head H h' = ?h"
      "hdr_count H h' = ?c + 1" "spare h' n"
    using incr [of "hdr_set_count H (?c + 1) (header q)" n] assms(3) set_count spare_set by auto
  define q' where "q' = q\<lparr>header := h', buf := (buf q)[(?h + ?c) mod ?n := v]\<rparr>"
  have "push_back H q v = Some (None, q')"
    using assms(2) ne c h room h'(1) by (simp add: push_back_def q'_def Let_def)
  moreover have "q_ok H q'" using assms(1) c h h'(2,3) ne by (simp add: q_ok_def q'_def)
  moreover have "q_items H q' = q_items H q @ [v]"
  proof -
    have "(buf q)[(?h + ?c) mod ?n := v] ! ((?h + i) mod ?n) = buf q ! ((?h + i) mod ?n)" if "i < ?c" for i
    proof -
      have "(?h + ?c) mod ?n \<noteq> (?h + i) mod ?n" using wrap_inj [OF h, of ?c i] that c by auto
      then show ?thesis by simp
    qed
    moreover have "(buf q)[(?h + ?c) mod ?n := v] ! ((?h + ?c) mod ?n) = v" using ne by simp
    ultimately show ?thesis by (simp add: q_items_def q'_def h'(2,3))
  qed
  ultimately show thesis using that h'(4) by (simp add: q'_def)
qed

lemma peek: "q_ok H q \<Longrightarrow> peek_front H q = Some (case q_items H q of [] \<Rightarrow> None | x # _ \<Rightarrow> Some x)"
proof -
  assume ok: "q_ok H q"
  show ?thesis
  proof (cases "hdr_count H (header q)")
    case 0
    then show ?thesis by (simp add: peek_front_def q_empty_def q_items_def)
  next
    case (Suc n)
    then have "buf q \<noteq> []" using ok by (auto simp: q_ok_def)
    then have "hdr_head H (header q) < length (buf q)" using ok by (simp add: q_ok_def)
    then show ?thesis using Suc by (simp add: peek_front_def q_empty_def q_items_def upt_conv_Cons del: upt_Suc)
  qed
qed

lemma pop:
  assumes "q_ok H q"
  obtains (empty) "pop_front H q = Some (None, q)" "q_items H q = []"
  | (some) x xs q' where "q_items H q = x # xs" "pop_front H q = Some (Some x, q')" "q_ok H q'" "q_items H q' = xs"
      "\<forall>n. spare (header q) n \<longrightarrow> spare (header q') n" "length (buf q') = length (buf q)"
proof -
  let ?h = "hdr_head H (header q)" and ?n = "length (buf q)"
  show thesis
  proof (cases "hdr_count H (header q)")
    case 0
    then show thesis using empty by (simp add: pop_front_def q_empty_def q_items_def)
  next
    case (Suc m)
    then have ne: "buf q \<noteq> []" using assms(1) by (auto simp: q_ok_def)
    then have h: "?h < ?n" using assms(1) by (simp add: q_ok_def)
    have room: "?h + 1 \<le> u64_max" using assms(1) h by (simp add: q_ok_def)
    define q' where "q' = q\<lparr>header := hdr_set_head H ((?h + 1) mod ?n) (hdr_set_count H m (header q))\<rparr>"
    have "pop_front H q = Some (Some (buf q ! ?h), q')"
      using Suc h room by (simp add: pop_front_def q_empty_def q'_def Let_def set_count)
    moreover have "q_ok H q'"
      using assms(1) Suc ne by (simp add: q_ok_def q'_def set_head set_count)
    moreover have "q_items H q = buf q ! ?h # q_items H q'"
      using Suc h by (simp add: q_items_def q'_def set_head set_count upt_conv_Cons wrap_Suc map_Suc_upt [symmetric]
          del: upt_Suc)
    moreover have "\<forall>n. spare (header q) n \<longrightarrow> spare (header q') n" by (simp add: q'_def spare_set)
    ultimately show thesis using some by (simp add: q'_def)
  qed
qed

lemma revert:
  assumes "q_ok H q" "revert_pushes H q n = Some (Inr q')"
  shows "q_ok H q' \<and> n \<le> length (q_items H q) \<and> q_items H q' = take n (q_items H q)"
proof -
  obtain h where n: "n \<le> hdr_count H (header q)" and
      h: "decr_event_id H (hdr_count H (header q) - n) (hdr_set_count H n (header q)) = Some h" "q' = q\<lparr>header := h\<rparr>"
    using assms(2) by (auto simp: revert_pushes_def dex_result Let_def)
  from decr [OF h(1)] have "hdr_head H h = hdr_head H (header q)" "hdr_count H h = n" by (simp_all add: set_count)
  with n h(2) assms(1) show ?thesis by (auto simp: q_ok_def q_items_def take_map min_def)
qed

end

lemma q_iter_items:
  assumes "q_ok H q"
  shows "q_iter H q = Some (q_items H q)"
proof -
  let ?h = "hdr_head H (header q)" and ?n = "length (buf q)"
  have "iter_from H q k m = Some (map (\<lambda>i. buf q ! ((?h + i) mod ?n)) [k..<k + m])"
    if "k + m \<le> ?n" for k m
    using that
  proof (induction m arbitrary: k)
    case 0
    then show ?case by simp
  next
    case (Suc m)
    then have ne: "buf q \<noteq> []" by auto
    then have "?h + k \<le> u64_max" using assms Suc.prems by (simp add: q_ok_def)
    then show ?case using Suc.IH [of "k + 1"] Suc.prems ne by (simp add: upt_conv_Cons del: upt_Suc)
  qed
  from this [of 0 "hdr_count H (header q)"] assms show ?thesis
    by (simp add: q_iter_def q_len_def q_items_def q_ok_def)
qed

interpretation rq: queue_header request_header "\<lambda>h n. True"
  by unfold_locales (auto simp: request_header_def)

interpretation eq: queue_header event_header "\<lambda>h n. seq_num h + n \<le> u64_max"
  by unfold_locales (auto simp: event_header_def)

text \<open>Sequences of operations on the ring buffer and on the list of its items.\<close>

datatype 'i queue_op = Push 'i | Pop | Peek

datatype 'i queue_out = Pushed bool | Front "'i option"

definition queue_step :: "'h header_ops \<Rightarrow> 'i queue_op \<Rightarrow> ('h, 'i) queue \<Rightarrow> ('i queue_out \<times> ('h, 'i) queue) option" where
  "queue_step H op q =
     (case op of
        Push x \<Rightarrow> map_option (\<lambda>(r, q'). (Pushed (r = None), q')) (push_back H q x)
      | Pop \<Rightarrow> map_option (\<lambda>(r, q'). (Front r, q')) (pop_front H q)
      | Peek \<Rightarrow> map_option (\<lambda>r. (Front r, q)) (peek_front H q))"

fun run_queue :: "'h header_ops \<Rightarrow> 'i queue_op list \<Rightarrow> ('h, 'i) queue \<Rightarrow> ('i queue_out list \<times> ('h, 'i) queue) option" where
  "run_queue H [] q = Some ([], q)"
| "run_queue H (op # ops) q =
     Option.bind (queue_step H op q) (\<lambda>(out, q1). map_option (\<lambda>(outs, q2). (out # outs, q2)) (run_queue H ops q1))"

fun run_items :: "nat \<Rightarrow> 'i queue_op list \<Rightarrow> 'i list \<Rightarrow> 'i queue_out list \<times> 'i list" where
  "run_items n [] xs = ([], xs)"
| "run_items n (Push x # ops) xs =
     (let (outs, ys) = run_items n ops (if length xs < n then xs @ [x] else xs)
      in (Pushed (length xs < n) # outs, ys))"
| "run_items n (Pop # ops) xs =
     (let (outs, ys) = run_items n ops (tl xs) in (Front (if xs = [] then None else Some (hd xs)) # outs, ys))"
| "run_items n (Peek # ops) xs =
     (let (outs, ys) = run_items n ops xs in (Front (if xs = [] then None else Some (hd xs)) # outs, ys))"

lemma run_queue_correct:
  assumes "queue_header H spare" "q_ok H q" "spare (header q) (length ops)"
  shows "\<exists>outs q'. run_queue H ops q = Some (outs, q') \<and> q_ok H q' \<and>
           run_items (length (buf q)) ops (q_items H q) = (outs, q_items H q')"
  using assms(2,3)
proof (induction ops arbitrary: q)
  case Nil
  then show ?case by simp
next
  case (Cons op ops)
  have spare: "spare (header q) (length ops)"
    using Cons.prems(2) queue_header.spare_less [OF assms(1)] by auto
  have len: "length (q_items H q) = hdr_count H (header q)" by (simp add: q_items_def)
  have count: "hdr_count H (header q) \<le> length (buf q)" using Cons.prems(1) by (simp add: q_ok_def)
  show ?case
  proof (cases op)
    case (Push x)
    show ?thesis
    proof (cases "q_full H q")
      case True
      then show ?thesis
        using Cons.IH [OF Cons.prems(1) spare] Push len
        by (auto simp: queue_step_def queue_header.push_full [OF assms(1)] q_full_def)
    next
      case False
      then obtain q' where q': "push_back H q x = Some (None, q')" "q_ok H q'" "q_items H q' = q_items H q @ [x]"
          "spare (header q') (length ops)" "length (buf q') = length (buf q)"
        using queue_header.push_room [OF assms(1) Cons.prems(1) False, of "length ops"] Cons.prems(2) by auto
      then show ?thesis
        using Cons.IH [OF q'(2,4)] Push len False count by (auto simp: queue_step_def q_full_def)
    qed
  next
    case Pop
    consider (empty) "pop_front H q = Some (None, q)" "q_items H q = []"
      | (some) x xs q' where "q_items H q = x # xs" "pop_front H q = Some (Some x, q')" "q_ok H q'" "q_items H q' = xs"
          "spare (header q') (length ops)" "length (buf q') = length (buf q)"
      using queue_header.pop [OF assms(1) Cons.prems(1)] spare by metis
    then show ?thesis
    proof cases
      case empty
      then show ?thesis using Cons.IH [OF Cons.prems(1) spare] Pop by (auto simp: queue_step_def)
    next
      case (some x xs q')
      then show ?thesis using Cons.IH [OF some(3,5)] Pop by (auto simp: queue_step_def)
    qed
  next
    case Peek
    then show ?thesis
      using Cons.IH [OF Cons.prems(1) spare] queue_header.peek [OF assms(1) Cons.prems(1)]
      by (auto simp: queue_step_def split: list.splits)
  qed
qed

text \<open>C36. The ring buffer of the request and event queues refines a bounded list: every sequence of pushes, pops
  and peeks returns without a panic and gives the results and the contents of the list, in the order they were
  pushed, across any number of turns around the buffer; a push is refused exactly when the buffer is full.\<close>

theorem queue_refines_list:
  assumes "queue_header H spare" "q_ok H q" "spare (header q) (length ops)"
  shows "\<exists>outs q'. run_queue H ops q = Some (outs, q') \<and> q_iter H q' = Some (q_items H q') \<and>
           run_items (length (buf q)) ops (q_items H q) = (outs, q_items H q')"
proof -
  obtain outs q' where "run_queue H ops q = Some (outs, q')" "q_ok H q'"
      "run_items (length (buf q)) ops (q_items H q) = (outs, q_items H q')"
    using run_queue_correct [OF assms] by blast
  then show ?thesis using q_iter_items by blast
qed

theorem queue_refines_list_witness:
  "\<exists>q'. run_queue event_header [Push ''a'', Push ''b'', Push ''c'', Pop, Push ''c'', Peek]
      \<lparr>header = \<lparr>eq_account_flags = 0, eq_head = 1, eq_count = 0, seq_num = 7\<rparr>, buf = [''x'', ''y'']\<rparr> =
    Some ([Pushed True, Pushed True, Pushed False, Front (Some ''a''), Pushed True, Front (Some ''b'')], q') \<and>
    q_iter event_header q' = Some [''b'', ''c'']"
proof -
  let ?q = "\<lparr>header = \<lparr>eq_account_flags = 0, eq_head = 1, eq_count = 0, seq_num = 7\<rparr>, buf = [''x'', ''y'']\<rparr>"
  have "q_ok event_header ?q" "q_items event_header ?q = []" by (simp_all add: q_ok_def q_items_def event_header_def)
  then show ?thesis
    using queue_refines_list [OF eq.queue_header_axioms, of ?q "[Push ''a'', Push ''b'', Push ''c'', Pop, Push ''c'', Peek]"]
    by auto
qed

section \<open>Price and time priority\<close>

text \<open>\<open>extract_price_from_order_id\<close>.\<close>

definition extract_price_from_order_id :: "u128 \<Rightarrow> nat" where
  "extract_price_from_order_id order_id = unat (drop_bit 64 order_id) mod two64"

definition id_word :: "nat \<Rightarrow> nat \<Rightarrow> u128" where
  "id_word price low = push_bit 64 (u64_word price) OR u64_word low"

lemma unat_u64_word: "n \<le> u64_max \<Longrightarrow> unat (u64_word n) = n"
proof -
  assume n: "n \<le> u64_max"
  then have "n mod two64 = n" by simp
  moreover have "unat (of_nat n :: u128) = n"
    using n by (simp add: unat_of_nat)
  ultimately show ?thesis by (simp add: u64_word_def)
qed

lemma unat_id_word:
  assumes "price \<le> u64_max" "low \<le> u64_max"
  shows "unat (id_word price low) = price * two64 + low"
proof -
  have disj: "\<not> bit (push_bit 64 (u64_word price)) n \<or> \<not> bit (u64_word low) n" for n
  proof (cases "n < 64")
    case True
    then show ?thesis by (simp add: bit_simps)
  next
    case False
    have "unat (u64_word low) < 2 ^ 64" using unat_u64_word [OF assms(2)] assms(2) by simp
    then have "\<not> bit (unat (u64_word low)) n"
      using False by (metis bit_take_bit_iff not_less take_bit_nat_eq_self)
    then show ?thesis by (simp add: bit_unsigned_iff)
  qed
  have "id_word price low = push_bit 64 (u64_word price) + u64_word low"
    unfolding id_word_def using disj by (intro disjunctive_add [symmetric]) auto
  moreover have "unat (push_bit 64 (u64_word price)) = price * two64"
  proof -
    have "unat (push_bit 64 (u64_word price)) = take_bit 128 (push_bit 64 (unat (u64_word price)))"
      by (simp add: unsigned_push_bit_eq)
    also have "\<dots> = take_bit 128 (price * two64)"
      by (simp add: unat_u64_word [OF assms(1)] push_bit_eq_mult)
    also have "\<dots> = price * two64" using assms(1) by (intro take_bit_nat_eq_self) simp
    finally show ?thesis .
  qed
  moreover have "price * two64 + low < 2 ^ 128" using assms by simp
  ultimately show ?thesis
    using unat_u64_word [OF assms(2)] by (simp add: unat_word_ariths)
qed

lemma id_word_price:
  assumes "price \<le> u64_max" "low \<le> u64_max"
  shows "unat (drop_bit 64 (id_word price low)) = price" "extract_price_from_order_id (id_word price low) = price"
proof -
  have "unat (drop_bit 64 (id_word price low)) = (price * two64 + low) div two64"
    unfolding unat_drop_bit_eq unat_id_word [OF assms] by (simp add: drop_bit_eq_div)
  also have "\<dots> = price" using assms(2) by simp
  finally show "unat (drop_bit 64 (id_word price low)) = price" .
  then show "extract_price_from_order_id (id_word price low) = price"
    using assms(1) by (simp add: extract_price_from_order_id_def)
qed

lemma lex_less:
  "b \<le> u64_max \<Longrightarrow> d \<le> u64_max \<Longrightarrow> a * two64 + b < c * two64 + d \<longleftrightarrow> a < c \<or> a = c \<and> b < d" for a b c d :: nat
  by (cases a c rule: linorder_cases) auto

lemma gen_order_id_eq:
  "gen_order_id h price side = Some (k, h') \<longleftrightarrow>
     next_seq_num h + 1 \<le> u64_max \<and> h' = h\<lparr>next_seq_num := next_seq_num h + 1\<rparr> \<and>
     k = id_word price (case side of Bid \<Rightarrow> u64_max - next_seq_num h | Ask \<Rightarrow> next_seq_num h)"
  by (auto simp: gen_order_id_def gen_seq_num_def id_word_def)

text \<open>C37. Order identifiers sort by price and time: the price can be read back from an identifier, among the asks
  the smaller identifier has the lower price or is the earlier order at the same price, and among the bids the
  larger identifier has the higher price or is the earlier order at the same price.\<close>

theorem order_ids_price_time:
  assumes "price \<le> u64_max" "price' \<le> u64_max" "next_seq_num h < next_seq_num h'"
    and "gen_order_id h price side = Some (k, h1)" "gen_order_id h' price' side = Some (k', h1')"
  shows "extract_price_from_order_id k = price \<and>
         (case side of
            Ask \<Rightarrow> (k < k' \<longleftrightarrow> price \<le> price')
          | Bid \<Rightarrow> (k' < k \<longleftrightarrow> price' \<le> price))"
proof -
  have seq: "next_seq_num h \<le> u64_max" "next_seq_num h' \<le> u64_max" using assms(4,5) by (auto simp: gen_order_id_eq)
  show ?thesis
  proof (cases side)
    case Bid
    have k: "k = id_word price (u64_max - next_seq_num h)" "k' = id_word price' (u64_max - next_seq_num h')"
      using assms(4,5) Bid by (auto simp: gen_order_id_eq)
    have low: "u64_max - next_seq_num h \<le> u64_max" "u64_max - next_seq_num h' \<le> u64_max" by simp_all
    have "k' < k \<longleftrightarrow> price' < price \<or> price' = price \<and> u64_max - next_seq_num h' < u64_max - next_seq_num h"
      unfolding k word_less_nat_alt unat_id_word [OF assms(1) low(1)] unat_id_word [OF assms(2) low(2)]
      using low(2,1) by (rule lex_less)
    with assms(3) seq have "k' < k \<longleftrightarrow> price' \<le> price" by linarith
    then show ?thesis using Bid id_word_price(2) [OF assms(1) low(1)] by (simp add: k(1))
  next
    case Ask
    have k: "k = id_word price (next_seq_num h)" "k' = id_word price' (next_seq_num h')"
      using assms(4,5) Ask by (auto simp: gen_order_id_eq)
    have "k < k' \<longleftrightarrow> price < price' \<or> price = price' \<and> next_seq_num h < next_seq_num h'"
      unfolding k word_less_nat_alt unat_id_word [OF assms(1) seq(1)] unat_id_word [OF assms(2) seq(2)]
      using seq by (rule lex_less)
    with assms(3) have "k < k' \<longleftrightarrow> price \<le> price'" by linarith
    then show ?thesis using Ask id_word_price(2) [OF assms(1) seq(1)] by (simp add: k(1))
  qed
qed

theorem order_ids_price_time_witness:
  "\<exists>k h1 k' h2.
     gen_order_id \<lparr>rq_account_flags = 0, rq_head = 0, rq_count = 0, next_seq_num = 4\<rparr> 100 Bid = Some (k, h1) \<and>
     gen_order_id h1 100 Bid = Some (k', h2) \<and> extract_price_from_order_id k = 100 \<and> k' < k"
proof -
  let ?h = "\<lparr>rq_account_flags = 0, rq_head = 0, rq_count = 0, next_seq_num = 4\<rparr>"
  obtain k h1 where h1: "gen_order_id ?h 100 Bid = Some (k, h1)" by (simp add: gen_order_id_def gen_seq_num_def)
  then have seq: "next_seq_num h1 = 5" by (auto simp: gen_order_id_eq)
  then obtain k' h2 where h2: "gen_order_id h1 100 Bid = Some (k', h2)" by (simp add: gen_order_id_def gen_seq_num_def)
  show ?thesis using order_ids_price_time [OF _ _ _ h1 h2] h1 h2 seq by auto
qed

end
