(* ===== verification/Dex_Events.thy ===== *)
theory Dex_Events
  imports Dex_Queue
begin

text \<open>
  The packed requests and events of the Serum exchange and their views (\<open>serum_dex/state.rs\<close>). A packed record
  stores the kind of the view in a byte of flags and absent identifiers as zero; \<open>as_view\<close> checks the flags.
  The round trips say that packing loses nothing.
\<close>

unbundle bit_operations_syntax

type_synonym u8 = "8 word"

text \<open>\<open>BitFlags::contains\<close>.\<close>

definition has_flags :: "u8 \<Rightarrow> u8 \<Rightarrow> bool" where
  "has_flags flags f \<longleftrightarrow> flags AND f = f"

section \<open>Requests\<close>

definition RequestFlag_NewOrder :: u8 where "RequestFlag_NewOrder = 0x01"
definition RequestFlag_CancelOrder :: u8 where "RequestFlag_CancelOrder = 0x02"
definition RequestFlag_Bid :: u8 where "RequestFlag_Bid = 0x04"
definition RequestFlag_PostOnly :: u8 where "RequestFlag_PostOnly = 0x08"
definition RequestFlag_ImmediateOrCancel :: u8 where "RequestFlag_ImmediateOrCancel = 0x10"
definition RequestFlag_all :: u8 where "RequestFlag_all = 0x3f"

record request =
  request_flags :: u8
  req_owner_slot :: nat
  req_fee_tier :: nat
  req_self_trade_behavior :: nat
  max_coin_qty_or_cancel_id :: nat
  req_native_pc_qty_locked :: nat
  req_order_id :: u128
  req_owner :: pubkey
  req_client_order_id :: nat

record new_order_view =
  no_side :: side
  no_order_type :: order_type
  no_owner_slot :: nat
  no_fee_tier :: fee_tier
  no_order_id :: u128
  no_max_coin_qty :: nat
  no_native_pc_qty_locked :: "nat option"
  no_owner :: pubkey
  no_client_order_id :: "nat option"
  no_self_trade_behavior :: self_trade_behavior

record cancel_order_view =
  co_side :: side
  co_order_id :: u128
  co_cancel_id :: nat
  co_expected_owner_slot :: nat
  co_expected_owner :: pubkey
  co_client_order_id :: "nat option"

datatype request_view = NewOrder new_order_view | CancelOrder cancel_order_view

definition request_new :: "request_view \<Rightarrow> request" where
  "request_new view =
     (case view of
        NewOrder o' \<Rightarrow>
          \<lparr>request_flags = RequestFlag_NewOrder OR (if no_side o' = Bid then RequestFlag_Bid else 0) OR
             (case no_order_type o' of PostOnly \<Rightarrow> RequestFlag_PostOnly
              | ImmediateOrCancel \<Rightarrow> RequestFlag_ImmediateOrCancel | Limit \<Rightarrow> 0),
           req_owner_slot = no_owner_slot o', req_fee_tier = fee_tier_into (no_fee_tier o'),
           req_self_trade_behavior = self_trade_into (no_self_trade_behavior o'),
           max_coin_qty_or_cancel_id = no_max_coin_qty o',
           req_native_pc_qty_locked = get_or_zero (no_native_pc_qty_locked o'),
           req_order_id = no_order_id o', req_owner = no_owner o',
           req_client_order_id = get_or_zero (no_client_order_id o')\<rparr>
      | CancelOrder c \<Rightarrow>
          \<lparr>request_flags = RequestFlag_CancelOrder OR (if co_side c = Bid then RequestFlag_Bid else 0),
           req_owner_slot = co_expected_owner_slot c, req_fee_tier = 0, req_self_trade_behavior = 0,
           max_coin_qty_or_cancel_id = co_cancel_id c, req_native_pc_qty_locked = 0,
           req_order_id = co_order_id c, req_owner = co_expected_owner c,
           req_client_order_id = get_or_zero (co_client_order_id c)\<rparr>)"

definition request_as_view :: "request \<Rightarrow> request_view dex" where
  "request_as_view self =
     (let flags = request_flags self in
      if flags AND RequestFlag_all \<noteq> flags then None
      else let side = (if has_flags flags RequestFlag_Bid then Bid else Ask) in
      if has_flags flags RequestFlag_NewOrder then
        dex_bind (check_assert StateFile 1008 (has_flags (RequestFlag_NewOrder OR RequestFlag_Bid OR
          RequestFlag_PostOnly OR RequestFlag_ImmediateOrCancel) flags)) (\<lambda>_.
        let post_only = has_flags flags RequestFlag_PostOnly;
            ioc = has_flags flags RequestFlag_ImmediateOrCancel in
        dex_bind (if post_only \<and> ioc then None
                  else dex_ok (if post_only then PostOnly else if ioc then ImmediateOrCancel else Limit)) (\<lambda>order_type.
        dex_bind (case fee_tier_try_from (req_fee_tier self) of
                    None \<Rightarrow> Some (Inl (assertion_error StateFile 1017)) | Some t \<Rightarrow> dex_ok t) (\<lambda>fee_tier.
        dex_bind (case self_trade_try_from (req_self_trade_behavior self) of
                    None \<Rightarrow> Some (Inl (assertion_error StateFile 1020)) | Some b \<Rightarrow> dex_ok b) (\<lambda>self_trade.
        dex_bind (unwrap (nonzero (max_coin_qty_or_cancel_id self))) (\<lambda>max_coin_qty.
        dex_ok (NewOrder
          \<lparr>no_side = side, no_order_type = order_type, no_owner_slot = req_owner_slot self, no_fee_tier = fee_tier,
           no_order_id = req_order_id self, no_max_coin_qty = max_coin_qty,
           no_native_pc_qty_locked = nonzero (req_native_pc_qty_locked self), no_owner = req_owner self,
           no_client_order_id = nonzero (req_client_order_id self), no_self_trade_behavior = self_trade\<rparr>))))))
      else
        dex_bind (check_assert StateFile 1034 (has_flags flags RequestFlag_CancelOrder)) (\<lambda>_.
        dex_bind (check_assert StateFile 1039 (has_flags (RequestFlag_CancelOrder OR RequestFlag_Bid) flags)) (\<lambda>_.
        dex_ok (CancelOrder
          \<lparr>co_side = side, co_order_id = req_order_id self, co_cancel_id = max_coin_qty_or_cancel_id self,
           co_expected_owner_slot = req_owner_slot self, co_expected_owner = req_owner self,
           co_client_order_id = nonzero (req_client_order_id self)\<rparr>))))"

section \<open>Events\<close>

definition EventFlag_Fill :: u8 where "EventFlag_Fill = 0x1"
definition EventFlag_Out :: u8 where "EventFlag_Out = 0x2"
definition EventFlag_Bid :: u8 where "EventFlag_Bid = 0x4"
definition EventFlag_Maker :: u8 where "EventFlag_Maker = 0x8"
definition EventFlag_ReleaseFunds :: u8 where "EventFlag_ReleaseFunds = 0x10"
definition EventFlag_all :: u8 where "EventFlag_all = 0x1f"

definition event_flag_from_side :: "side \<Rightarrow> u8" where
  "event_flag_from_side s = (case s of Bid \<Rightarrow> EventFlag_Bid | Ask \<Rightarrow> 0)"

definition event_flags_to_side :: "u8 \<Rightarrow> side" where
  "event_flags_to_side flags = (if has_flags flags EventFlag_Bid then Bid else Ask)"

record event =
  event_flags :: u8
  ev_owner_slot :: nat
  ev_fee_tier :: nat
  native_qty_released :: nat
  ev_native_qty_paid :: nat
  ev_native_fee_or_rebate :: nat
  ev_order_id :: u128
  ev_owner :: pubkey
  ev_client_order_id :: nat

record fill_view =
  f_side :: side
  f_maker :: bool
  f_native_qty_paid :: nat
  f_native_qty_received :: nat
  f_native_fee_or_rebate :: nat
  f_order_id :: u128
  f_owner :: pubkey
  f_owner_slot :: nat
  f_fee_tier :: fee_tier
  f_client_order_id :: "nat option"

record out_view =
  o_side :: side
  o_release_funds :: bool
  o_native_qty_unlocked :: nat
  o_native_qty_still_locked :: nat
  o_order_id :: u128
  o_owner :: pubkey
  o_owner_slot :: nat
  o_client_order_id :: "nat option"

datatype event_view = Fill fill_view | Out out_view

definition event_new :: "event_view \<Rightarrow> event" where
  "event_new view =
     (case view of
        Fill f \<Rightarrow>
          \<lparr>event_flags = event_flag_from_side (f_side f) OR EventFlag_Fill OR (if f_maker f then EventFlag_Maker else 0),
           ev_owner_slot = f_owner_slot f, ev_fee_tier = fee_tier_into (f_fee_tier f),
           native_qty_released = f_native_qty_received f, ev_native_qty_paid = f_native_qty_paid f,
           ev_native_fee_or_rebate = f_native_fee_or_rebate f, ev_order_id = f_order_id f, ev_owner = f_owner f,
           ev_client_order_id = get_or_zero (f_client_order_id f)\<rparr>
      | Out o' \<Rightarrow>
          \<lparr>event_flags = event_flag_from_side (o_side o') OR EventFlag_Out OR
             (if o_release_funds o' then EventFlag_ReleaseFunds else 0),
           ev_owner_slot = o_owner_slot o', ev_fee_tier = 0,
           native_qty_released = o_native_qty_unlocked o', ev_native_qty_paid = o_native_qty_still_locked o',
           ev_native_fee_or_rebate = 0, ev_order_id = o_order_id o', ev_owner = o_owner o',
           ev_client_order_id = get_or_zero (o_client_order_id o')\<rparr>)"

definition event_as_view :: "event \<Rightarrow> event_view dex" where
  "event_as_view self =
     (let flags = event_flags self in
      if flags AND EventFlag_all \<noteq> flags then None
      else let side = event_flags_to_side flags in
      if has_flags flags EventFlag_Fill then
        dex_bind (check_assert StateFile 1231 (has_flags (EventFlag_Fill OR EventFlag_Bid OR EventFlag_Maker) flags)) (\<lambda>_.
        dex_bind (case fee_tier_try_from (ev_fee_tier self) of
                    None \<Rightarrow> Some (Inl (assertion_error StateFile 1244)) | Some t \<Rightarrow> dex_ok t) (\<lambda>fee_tier.
        dex_ok (Fill
          \<lparr>f_side = side, f_maker = has_flags flags EventFlag_Maker, f_native_qty_paid = ev_native_qty_paid self,
           f_native_qty_received = native_qty_released self, f_native_fee_or_rebate = ev_native_fee_or_rebate self,
           f_order_id = ev_order_id self, f_owner = ev_owner self, f_owner_slot = ev_owner_slot self,
           f_fee_tier = fee_tier, f_client_order_id = nonzero (ev_client_order_id self)\<rparr>)))
      else
        dex_bind (check_assert StateFile 1252 (has_flags (EventFlag_Out OR EventFlag_Bid OR EventFlag_ReleaseFunds) flags)) (\<lambda>_.
        dex_ok (Out
          \<lparr>o_side = side, o_release_funds = has_flags flags EventFlag_ReleaseFunds,
           o_native_qty_unlocked = native_qty_released self, o_native_qty_still_locked = ev_native_qty_paid self,
           o_order_id = ev_order_id self, o_owner = ev_owner self, o_owner_slot = ev_owner_slot self,
           o_client_order_id = nonzero (ev_client_order_id self)\<rparr>)))"

definition view_side :: "event_view \<Rightarrow> side" where
  "view_side view = (case view of Fill f \<Rightarrow> f_side f | Out o' \<Rightarrow> o_side o')"

type_synonym request_queue = "(request_queue_header, request) queue"
type_synonym event_queue = "(event_queue_header, event) queue"

text \<open>\<open>event_q.push_back(Event::new(view)).map_err(|_| DexErrorCode::EventQueueFull)?\<close>.\<close>

definition push_event :: "event_queue \<Rightarrow> event_view \<Rightarrow> event_queue dex" where
  "push_event event_q view =
     dex_bind (unwrap (push_back event_header event_q (event_new view))) (\<lambda>(rejected, q).
     if rejected = None then dex_ok q else dex_fail EventQueueFull)"

section \<open>Round trips\<close>

lemma fee_tier_roundtrip [simp]: "fee_tier_try_from (fee_tier_into t) = Some t"
  by (cases t) (simp_all add: fee_tier_into_def fee_tier_try_from_def)

lemma self_trade_roundtrip [simp]: "self_trade_try_from (self_trade_into b) = Some b"
  by (cases b) (simp_all add: self_trade_into_def self_trade_try_from_def)

lemmas flag_defs =
  RequestFlag_NewOrder_def RequestFlag_CancelOrder_def RequestFlag_Bid_def RequestFlag_PostOnly_def
  RequestFlag_ImmediateOrCancel_def RequestFlag_all_def EventFlag_Fill_def EventFlag_Out_def EventFlag_Bid_def
  EventFlag_Maker_def EventFlag_ReleaseFunds_def EventFlag_all_def has_flags_def event_flag_from_side_def
  event_flags_to_side_def

lemma event_as_view_new:
  assumes "case view of Fill f \<Rightarrow> f_client_order_id f \<noteq> Some 0 | Out o' \<Rightarrow> o_client_order_id o' \<noteq> Some 0"
  shows "event_as_view (event_new view) = Some (Inr view)"
proof (cases view)
  case (Fill f)
  then show ?thesis
    using assms nonzero_get_or_zero
    by (cases "f_side f"; cases "f_maker f") (simp_all add: event_as_view_def event_new_def flag_defs dex_ok_def)
next
  case (Out o')
  then show ?thesis
    using assms nonzero_get_or_zero
    by (cases "o_side o'"; cases "o_release_funds o'") (simp_all add: event_as_view_def event_new_def flag_defs dex_ok_def)
qed

lemma request_as_view_new:
  assumes "case view of
      NewOrder o' \<Rightarrow> no_max_coin_qty o' \<noteq> 0 \<and> no_native_pc_qty_locked o' \<noteq> Some 0 \<and> no_client_order_id o' \<noteq> Some 0
    | CancelOrder c \<Rightarrow> co_client_order_id c \<noteq> Some 0"
  shows "request_as_view (request_new view) = Some (Inr view)"
proof (cases view)
  case (NewOrder o')
  then show ?thesis
    using assms nonzero_get_or_zero
    by (cases "no_side o'"; cases "no_order_type o'")
      (simp_all add: request_as_view_def request_new_def flag_defs dex_ok_def Let_def nonzero_def)
next
  case (CancelOrder c)
  then show ?thesis
    using assms nonzero_get_or_zero
    by (cases "co_side c") (simp_all add: request_as_view_def request_new_def flag_defs dex_ok_def)
qed

end
