(* ===== verification/Dex_Open_Orders.thy ===== *)
theory Dex_Open_Orders
  imports Dex_Events
begin

text \<open>
  The account of open orders of a trader (\<open>OpenOrders\<close> of \<open>serum_dex/state.rs\<close>): two balances per currency and a
  table of 128 order slots, whose free slots and whose sides are the bits of two 128-bit words. The table refines a
  partial map from slots to orders.
\<close>

unbundle bit_operations_syntax

type_synonym u64 = "64 word"

section \<open>Account flags\<close>

definition AccountFlag_Initialized :: u64 where "AccountFlag_Initialized = push_bit 0 1"
definition AccountFlag_Market :: u64 where "AccountFlag_Market = push_bit 1 1"
definition AccountFlag_OpenOrders :: u64 where "AccountFlag_OpenOrders = push_bit 2 1"
definition AccountFlag_RequestQueue :: u64 where "AccountFlag_RequestQueue = push_bit 3 1"
definition AccountFlag_EventQueue :: u64 where "AccountFlag_EventQueue = push_bit 4 1"
definition AccountFlag_Bids :: u64 where "AccountFlag_Bids = push_bit 5 1"
definition AccountFlag_Asks :: u64 where "AccountFlag_Asks = push_bit 6 1"
definition AccountFlag_Disabled :: u64 where "AccountFlag_Disabled = push_bit 7 1"
definition AccountFlag_Closed :: u64 where "AccountFlag_Closed = push_bit 8 1"
definition AccountFlag_Permissioned :: u64 where "AccountFlag_Permissioned = push_bit 9 1"
definition AccountFlag_CrankAuthorityRequired :: u64 where "AccountFlag_CrankAuthorityRequired = push_bit 10 1"

text \<open>\<open>BitFlags::from_bits\<close>: an error when a bit is not the bit of a flag.\<close>

definition account_flags_from_bits :: "u64 \<Rightarrow> u64 option" where
  "account_flags_from_bits bits = (if bits AND 0x7ff = bits then Some bits else None)"

lemmas account_flag_defs =
  AccountFlag_Initialized_def AccountFlag_Market_def AccountFlag_OpenOrders_def AccountFlag_RequestQueue_def
  AccountFlag_EventQueue_def AccountFlag_Bids_def AccountFlag_Asks_def AccountFlag_Disabled_def AccountFlag_Closed_def
  AccountFlag_Permissioned_def AccountFlag_CrankAuthorityRequired_def account_flags_from_bits_def

section \<open>The account\<close>

record open_orders =
  oo_account_flags :: u64
  oo_market :: pubkey
  oo_owner :: pubkey
  native_coin_free :: nat
  native_coin_total :: nat
  native_pc_free :: nat
  native_pc_total :: nat
  free_slot_bits :: u128
  is_bid_bits :: u128
  oo_orders :: "u128 list"
  client_order_ids :: "nat list"
  oo_referrer_rebates_accrued :: nat

definition oo_check_flags :: "open_orders \<Rightarrow> unit dex" where
  "oo_check_flags self =
     (case account_flags_from_bits (oo_account_flags self) of
        None \<Rightarrow> dex_fail InvalidMarketFlags
      | Some flags \<Rightarrow>
          if flags \<noteq> (AccountFlag_Initialized OR AccountFlag_OpenOrders) then dex_fail WrongOrdersAccount else dex_ok ())"

definition oo_init :: "open_orders \<Rightarrow> pubkey \<Rightarrow> pubkey \<Rightarrow> open_orders dex" where
  "oo_init self market owner =
     dex_bind (check_assert StateFile 573 (oo_account_flags self = 0)) (\<lambda>_.
     dex_ok (self\<lparr>oo_account_flags := AccountFlag_Initialized OR AccountFlag_OpenOrders, oo_market := market,
       oo_owner := owner, native_coin_total := 0, native_coin_free := 0, native_pc_total := 0, native_pc_free := 0,
       free_slot_bits := - 1\<rparr>))"

text \<open>The movements of funds; \<open>None\<close> is the panic of \<open>unwrap\<close> and \<open>assert!\<close>.\<close>

definition credit_locked_coin :: "open_orders \<Rightarrow> nat \<Rightarrow> open_orders option" where
  "credit_locked_coin self amount =
     map_option (\<lambda>n. self\<lparr>native_coin_total := n\<rparr>) (u64_checked (native_coin_total self + amount))"

definition credit_locked_pc :: "open_orders \<Rightarrow> nat \<Rightarrow> open_orders option" where
  "credit_locked_pc self amount =
     map_option (\<lambda>n. self\<lparr>native_pc_total := n\<rparr>) (u64_checked (native_pc_total self + amount))"

definition lock_free_coin :: "open_orders \<Rightarrow> nat \<Rightarrow> open_orders option" where
  "lock_free_coin self amount =
     map_option (\<lambda>n. self\<lparr>native_coin_free := n\<rparr>) (checked_sub (native_coin_free self) amount)"

definition lock_free_pc :: "open_orders \<Rightarrow> nat \<Rightarrow> open_orders option" where
  "lock_free_pc self amount =
     map_option (\<lambda>n. self\<lparr>native_pc_free := n\<rparr>) (checked_sub (native_pc_free self) amount)"

definition unlock_coin :: "open_orders \<Rightarrow> nat \<Rightarrow> open_orders option" where
  "unlock_coin self amount =
     Option.bind (u64_checked (native_coin_free self + amount)) (\<lambda>n.
     if n \<le> native_coin_total self then Some (self\<lparr>native_coin_free := n\<rparr>) else None)"

definition unlock_pc :: "open_orders \<Rightarrow> nat \<Rightarrow> open_orders option" where
  "unlock_pc self amount =
     Option.bind (u64_checked (native_pc_free self + amount)) (\<lambda>n.
     if n \<le> native_pc_total self then Some (self\<lparr>native_pc_free := n\<rparr>) else None)"

section \<open>The slots\<close>

text \<open>\<open>1u128 << slot\<close>, an overflow when the slot is not below 128.\<close>

definition slot_bit :: "nat \<Rightarrow> u128" where
  "slot_bit slot = push_bit slot 1"

definition slot_mask :: "nat \<Rightarrow> u128 option" where
  "slot_mask slot = (if slot < 128 then Some (slot_bit slot) else None)"

definition slot_is_free :: "open_orders \<Rightarrow> nat \<Rightarrow> bool option" where
  "slot_is_free self slot = map_option (\<lambda>mask. free_slot_bits self AND mask \<noteq> 0) (slot_mask slot)"

definition trailing_zeros :: "u128 \<Rightarrow> nat" where
  "trailing_zeros w = length (takeWhile (\<lambda>i. \<not> bit w i) [0..<128])"

text \<open>\<open>iter_filled_slots\<close>: the iterator takes the lowest set bit away until no bit is left.\<close>

lemma le_trailing_zeros: "k \<le> trailing_zeros w \<longleftrightarrow> k \<le> 128 \<and> (\<forall>i < k. \<not> bit w i)"
  unfolding trailing_zeros_def by (rule length_takeWhile_upt)

lemma u128_eqI: "(\<And>i. i < 128 \<Longrightarrow> bit a i = bit b i) \<Longrightarrow> a = (b :: u128)"
  by (rule bit_word_eqI) simp

lemma trailing_zeros_lt: "w \<noteq> 0 \<Longrightarrow> trailing_zeros w < 128"
  using le_trailing_zeros [of 128 w] u128_eqI [of w 0] by fastforce

lemma below_trailing_zeros: "i < trailing_zeros w \<Longrightarrow> \<not> bit w i"
  using le_trailing_zeros [of "trailing_zeros w" w] by simp

lemma bit_trailing_zeros: "w \<noteq> 0 \<Longrightarrow> bit w (trailing_zeros w)"
  using le_trailing_zeros [of "Suc (trailing_zeros w)" w] trailing_zeros_lt [of w] below_trailing_zeros [of _ w]
  by (auto simp: less_Suc_eq)

lemma bit_set_slot: "slot < 128 \<Longrightarrow> bit (w OR slot_bit slot :: u128) i \<longleftrightarrow> bit w i \<or> i = slot"
  by (auto simp: slot_bit_def bit_simps)

lemma bit_clear_slot: "slot < 128 \<Longrightarrow> bit (w AND NOT (slot_bit slot) :: u128) i \<longleftrightarrow> bit w i \<and> i \<noteq> slot"
  by (auto simp: slot_bit_def bit_simps dest: bit_imp_le_length)

lemma and_slot: "slot < 128 \<Longrightarrow> (w AND slot_bit slot :: u128) \<noteq> 0 \<longleftrightarrow> bit w slot"
proof -
  assume "slot < 128"
  have "(w AND slot_bit slot = 0) \<longleftrightarrow> \<not> bit w slot"
  proof
    assume "w AND slot_bit slot = 0"
    then have "\<not> bit (w AND slot_bit slot) slot" by simp
    with \<open>slot < 128\<close> show "\<not> bit w slot" by (simp add: slot_bit_def bit_simps)
  next
    assume "\<not> bit w slot"
    then show "w AND slot_bit slot = 0" by (intro u128_eqI) (auto simp: slot_bit_def bit_simps)
  qed
  then show ?thesis by simp
qed

lemma clear_slot_less:
  assumes "bit w slot"
  shows "unat (w AND NOT (slot_bit slot) :: u128) < unat w"
proof -
  have "w AND NOT (slot_bit slot) \<noteq> w"
    using assms bit_clear_slot [of slot w slot] bit_imp_le_length [OF assms] by auto
  moreover have "w AND NOT (slot_bit slot) \<le> w" by (rule word_and_le2)
  ultimately show ?thesis by (simp add: word_less_nat_alt [symmetric])
qed

function iter_bits :: "u128 \<Rightarrow> nat list" where
  "iter_bits bits =
     (if bits = 0 then [] else trailing_zeros bits # iter_bits (bits AND NOT (slot_bit (trailing_zeros bits))))"
  by pat_completeness auto

termination
  by (relation "measure unat") (simp_all add: clear_slot_less bit_trailing_zeros)

declare iter_bits.simps [simp del]

definition iter_filled_slots :: "open_orders \<Rightarrow> nat list" where
  "iter_filled_slots self = iter_bits (NOT (free_slot_bits self))"

definition slot_side :: "open_orders \<Rightarrow> nat \<Rightarrow> side option option" where
  "slot_side self slot =
     map_option (\<lambda>mask.
       if free_slot_bits self AND mask \<noteq> 0 then None
       else if is_bid_bits self AND mask \<noteq> 0 then Some Bid
       else Some Ask) (slot_mask slot)"

text \<open>An access to one of the two arrays of 128 elements.\<close>

definition at_slot :: "'a list \<Rightarrow> nat \<Rightarrow> 'a option" where
  "at_slot xs slot = (if slot < length xs then Some (xs ! slot) else None)"

fun filter_client_ids :: "open_orders \<Rightarrow> nat list \<Rightarrow> (nat \<times> u128 \<times> side) list option" where
  "filter_client_ids self [] = Some []"
| "filter_client_ids self (slot # slots) =
     Option.bind (at_slot (client_order_ids self) slot) (\<lambda>client_id.
     if client_id = 0 then filter_client_ids self slots
     else Option.bind (at_slot (oo_orders self) slot) (\<lambda>order_id.
       Option.bind (Option.bind (slot_side self slot) id) (\<lambda>side.
       map_option (\<lambda>rest. (client_id, order_id, side) # rest) (filter_client_ids self slots))))"

definition orders_with_client_ids :: "open_orders \<Rightarrow> (nat \<times> u128 \<times> side) list option" where
  "orders_with_client_ids self = filter_client_ids self (iter_filled_slots self)"

definition remove_order :: "open_orders \<Rightarrow> nat \<Rightarrow> open_orders dex" where
  "remove_order self slot =
     dex_bind (check_assert StateFile 671 (slot < 128)) (\<lambda>_.
     dex_bind (unwrap (slot_is_free self slot)) (\<lambda>free.
     dex_bind (check_assert StateFile 672 (\<not> free)) (\<lambda>_.
     dex_bind (unwrap (slot_mask slot)) (\<lambda>mask.
     dex_ok (self\<lparr>oo_orders := (oo_orders self)[slot := 0], client_order_ids := (client_order_ids self)[slot := 0],
       free_slot_bits := free_slot_bits self OR mask, is_bid_bits := is_bid_bits self AND NOT mask\<rparr>)))))"

definition add_order :: "open_orders \<Rightarrow> u128 \<Rightarrow> side \<Rightarrow> (nat \<times> open_orders) dex" where
  "add_order self order_id side =
     (if free_slot_bits self = 0 then dex_fail TooManyOpenOrders
      else let slot = trailing_zeros (free_slot_bits self) in
        dex_bind (unwrap (slot_is_free self slot)) (\<lambda>free.
        dex_bind (check_assert StateFile 688 free) (\<lambda>_.
        dex_bind (unwrap (slot_mask slot)) (\<lambda>mask.
        dex_ok (slot, self\<lparr>free_slot_bits := free_slot_bits self AND NOT mask,
          is_bid_bits := (case side of Bid \<Rightarrow> is_bid_bits self OR mask | Ask \<Rightarrow> is_bid_bits self AND NOT mask),
          oo_orders := (oo_orders self)[slot := order_id]\<rparr>)))))"

section \<open>The table of slots\<close>

definition oo_ok :: "open_orders \<Rightarrow> bool" where
  "oo_ok self \<longleftrightarrow>
     length (oo_orders self) = 128 \<and> length (client_order_ids self) = 128 \<and>
     (\<forall>i < 128. bit (free_slot_bits self) i \<longrightarrow> oo_orders self ! i = 0 \<and> client_order_ids self ! i = 0) \<and>
     native_coin_free self \<le> native_coin_total self \<and> native_coin_total self \<le> u64_max \<and>
     native_pc_free self \<le> native_pc_total self \<and> native_pc_total self \<le> u64_max \<and>
     oo_referrer_rebates_accrued self \<le> u64_max"

definition oo_slots :: "open_orders \<Rightarrow> nat \<Rightarrow> (side \<times> u128 \<times> nat) option" where
  "oo_slots self i =
     (if i < 128 \<and> \<not> bit (free_slot_bits self) i
      then Some (if bit (is_bid_bits self) i then Bid else Ask, oo_orders self ! i, client_order_ids self ! i) else None)"

lemma slot_side_eq: "slot < 128 \<Longrightarrow> slot_side self slot = Some (map_option fst (oo_slots self slot))"
  by (simp add: slot_side_def slot_mask_def and_slot oo_slots_def)

lemma iter_bits_eq: "iter_bits bits = filter (bit bits) [0..<128]"
proof (induction bits rule: iter_bits.induct)
  case (1 bits)
  show ?case
  proof (cases "bits = 0")
    case False
    define n where "n = trailing_zeros bits"
    define rest where "rest = bits AND NOT (slot_bit n)"
    have n: "n < 128" "bit bits n" "\<And>i. i < n \<Longrightarrow> \<not> bit bits i"
      using False trailing_zeros_lt bit_trailing_zeros below_trailing_zeros by (simp_all add: n_def)
    have split: "[0..<128] = [0..<n] @ n # [Suc n..<128]"
      using n(1) by (simp add: upt_conv_Cons [symmetric] upt_add_eq_append [symmetric] del: upt_Suc) (metis le_add_diff_inverse less_imp_le_nat upt_add_eq_append zero_le)
    have "filter (bit rest) [0..<128] = filter (bit bits) [Suc n..<128]"
      unfolding split using n by (auto simp: rest_def bit_clear_slot filter_empty_conv intro!: filter_cong)
    moreover have "filter (bit bits) [0..<128] = n # filter (bit bits) [Suc n..<128]"
      unfolding split using n by (auto simp: filter_empty_conv)
    ultimately show ?thesis
      using 1 False by (subst iter_bits.simps) (simp add: n_def [symmetric] rest_def [symmetric])
  qed (simp add: iter_bits.simps)
qed

lemma iter_filled_slots_eq: "iter_filled_slots self = filter (\<lambda>i. oo_slots self i \<noteq> None) [0..<128]"
  unfolding iter_filled_slots_def iter_bits_eq
  by (rule filter_cong) (simp_all add: oo_slots_def bit_not_iff)

lemma add_order_full: "free_slot_bits self = 0 \<longleftrightarrow> (\<forall>i < 128. oo_slots self i \<noteq> None)"
  using u128_eqI [of "free_slot_bits self" 0] by (auto simp: oo_slots_def)

lemma add_order_correct:
  assumes "oo_ok self" "\<exists>i < 128. oo_slots self i = None"
  obtains slot self' where "add_order self k side = Some (Inr (slot, self'))" "slot < 128" "oo_slots self slot = None"
    "\<And>i. i < slot \<Longrightarrow> oo_slots self i \<noteq> None" "oo_ok self'" "oo_slots self' = (oo_slots self)(slot \<mapsto> (side, k, 0))"
    "self' = self\<lparr>free_slot_bits := free_slot_bits self', is_bid_bits := is_bid_bits self', oo_orders := oo_orders self'\<rparr>"
proof -
  define slot where "slot = trailing_zeros (free_slot_bits self)"
  have nz: "free_slot_bits self \<noteq> 0" using assms(2) add_order_full [of self] by auto
  then have slot: "slot < 128" "bit (free_slot_bits self) slot" "\<And>i. i < slot \<Longrightarrow> \<not> bit (free_slot_bits self) i"
    using trailing_zeros_lt bit_trailing_zeros below_trailing_zeros by (simp_all add: slot_def)
  define self' where "self' = self\<lparr>free_slot_bits := free_slot_bits self AND NOT (slot_bit slot),
    is_bid_bits := (case side of Bid \<Rightarrow> is_bid_bits self OR slot_bit slot | Ask \<Rightarrow> is_bid_bits self AND NOT (slot_bit slot)),
    oo_orders := (oo_orders self)[slot := k]\<rparr>"
  have "add_order self k side = Some (Inr (slot, self'))"
    using nz slot(1,2)
    by (simp add: add_order_def slot_def [symmetric] slot_is_free_def slot_mask_def and_slot self'_def dex_ok_def)
  moreover have "oo_ok self'"
    using assms(1) slot(1) by (auto simp: oo_ok_def self'_def bit_clear_slot nth_list_update)
  moreover have "oo_slots self' = (oo_slots self)(slot \<mapsto> (side, k, 0))"
    using assms(1) slot
    by (cases side) (auto simp: oo_slots_def self'_def oo_ok_def bit_clear_slot bit_set_slot fun_eq_iff nth_list_update)
  moreover have "oo_slots self slot = None" "\<And>i. i < slot \<Longrightarrow> oo_slots self i \<noteq> None"
    using slot by (auto simp: oo_slots_def)
  ultimately show thesis using that slot(1) by (simp add: self'_def)
qed

lemma remove_order_eq:
  assumes "slot < 128" "oo_slots self slot \<noteq> None"
  defines "self' \<equiv> self\<lparr>oo_orders := (oo_orders self)[slot := 0], client_order_ids := (client_order_ids self)[slot := 0],
    free_slot_bits := free_slot_bits self OR slot_bit slot, is_bid_bits := is_bid_bits self AND NOT (slot_bit slot)\<rparr>"
  shows "remove_order self slot = Some (Inr self')" "oo_ok self \<Longrightarrow> oo_ok self'"
    "oo_ok self \<Longrightarrow> oo_slots self' = (oo_slots self)(slot := None)"
proof -
  have "\<not> bit (free_slot_bits self) slot" using assms(1,2) by (auto simp: oo_slots_def split: if_splits)
  then show "remove_order self slot = Some (Inr self')"
    using assms(1) by (simp add: remove_order_def slot_is_free_def slot_mask_def and_slot self'_def dex_ok_def)
  show "oo_ok self'" if "oo_ok self"
    using that assms(1) by (auto simp: oo_ok_def self'_def bit_set_slot nth_list_update)
  show "oo_slots self' = (oo_slots self)(slot := None)" if "oo_ok self"
    using that assms(1) by (auto simp: oo_slots_def self'_def oo_ok_def bit_clear_slot bit_set_slot fun_eq_iff nth_list_update)
qed

end
