(* ===== verification/Dex_Matching.thy ===== *)
theory Dex_Matching
  imports Dex_Open_Orders
begin

text \<open>
  The matching engine of the Serum exchange (\<open>serum_dex/matching.rs\<close>): new orders, cancellations and the removal
  of all orders of an account. The order book, the event queue and the proceeds of the request are threaded through
  the operations as one state. Every product, sum and difference of 64-bit numbers is checked.
\<close>

section \<open>State\<close>

record market_state =
  ms_account_flags :: u64
  own_address :: pubkey
  vault_signer_nonce :: nat
  coin_mint :: pubkey
  pc_mint :: pubkey
  coin_vault :: pubkey
  coin_deposits_total :: nat
  coin_fees_accrued :: nat
  pc_vault :: pubkey
  pc_deposits_total :: nat
  pc_fees_accrued :: nat
  pc_dust_threshold :: nat
  ms_req_q :: pubkey
  ms_event_q :: pubkey
  ms_bids :: pubkey
  ms_asks :: pubkey
  coin_lot_size :: nat
  pc_lot_size :: nat
  fee_rate_bps :: nat
  referrer_rebates_accrued :: nat

record order_book_state =
  bids :: slab
  asks :: slab
  market_state :: market_state

record request_proceeds =
  coin_unlocked :: nat
  native_pc_unlocked :: nat
  coin_credit :: nat
  native_pc_credit :: nat
  coin_debit :: nat
  native_pc_debit :: nat

definition proceeds_zero :: request_proceeds where
  "proceeds_zero = \<lparr>coin_unlocked = 0, native_pc_unlocked = 0, coin_credit = 0, native_pc_credit = 0, coin_debit = 0,
     native_pc_debit = 0\<rparr>"

record order_remaining =
  coin_qty_remaining :: nat
  native_pc_qty_remaining :: "nat option"

text \<open>What an operation of the engine changes: \<open>&mut self\<close>, \<open>event_q\<close> and \<open>proceeds\<close>.\<close>

record engine =
  ob :: order_book_state
  evq :: event_queue
  proceeds :: request_proceeds

section \<open>Checked arithmetic\<close>

definition mul64 :: "nat \<Rightarrow> nat \<Rightarrow> nat dex" where
  "mul64 a b = unwrap (u64_checked (a * b))"

definition add64 :: "nat \<Rightarrow> nat \<Rightarrow> nat dex" where
  "add64 a b = unwrap (u64_checked (a + b))"

definition sub64 :: "nat \<Rightarrow> nat \<Rightarrow> nat dex" where
  "sub64 a b = unwrap (checked_sub a b)"

definition div64 :: "nat \<Rightarrow> nat \<Rightarrow> nat dex" where
  "div64 a b = (if b = 0 then None else dex_ok (a div b))"

text \<open>\<open>a * b * c\<close>.\<close>

definition mul64_3 :: "nat \<Rightarrow> nat \<Rightarrow> nat \<Rightarrow> nat dex" where
  "mul64_3 a b c = dex_bind (mul64 a b) (\<lambda>x. mul64 x c)"

section \<open>Access to the engine\<close>

definition orders_mut :: "order_book_state \<Rightarrow> side \<Rightarrow> slab" where
  "orders_mut self side = (case side of Bid \<Rightarrow> bids self | Ask \<Rightarrow> asks self)"

definition set_orders :: "engine \<Rightarrow> side \<Rightarrow> slab \<Rightarrow> engine" where
  "set_orders e side s =
     e\<lparr>ob := (case side of Bid \<Rightarrow> (ob e)\<lparr>bids := s\<rparr> | Ask \<Rightarrow> (ob e)\<lparr>asks := s\<rparr>)\<rparr>"

definition find_bbo :: "order_book_state \<Rightarrow> side \<Rightarrow> node_handle option option" where
  "find_bbo self side = (case side of Bid \<Rightarrow> find_max (bids self) | Ask \<Rightarrow> find_min (asks self))"

text \<open>\<open>get_mut(h).unwrap().as_leaf_mut().unwrap()\<close>, and a write through that reference.\<close>

definition leaf_at :: "slab \<Rightarrow> node_handle \<Rightarrow> leaf_node dex" where
  "leaf_at s h = unwrap (Option.bind (slab_get s h) as_leaf)"

definition write_leaf :: "engine \<Rightarrow> side \<Rightarrow> node_handle \<Rightarrow> leaf_node \<Rightarrow> engine dex" where
  "write_leaf e side h x =
     dex_bind (unwrap (slab_put (orders_mut (ob e) side) h (LeafNode x))) (\<lambda>s. dex_ok (set_orders e side s))"

text \<open>\<open>remove_by_key(id).unwrap()\<close>.\<close>

definition remove_order_id :: "engine \<Rightarrow> side \<Rightarrow> u128 \<Rightarrow> engine dex" where
  "remove_order_id e side order_id =
     dex_bind (unwrap (remove_by_key (orders_mut (ob e) side) order_id)) (\<lambda>(x, s).
     if x = None then None else dex_ok (set_orders e side s))"

text \<open>\<open>insert_leaf(leaf).unwrap()\<close>.\<close>

definition insert_unwrap :: "slab \<Rightarrow> leaf_node \<Rightarrow> slab dex" where
  "insert_unwrap s leaf =
     dex_bind (unwrap (insert_leaf s leaf)) (\<lambda>(res, s). case res of Inr _ \<Rightarrow> dex_ok s | Inl _ \<Rightarrow> None)"

definition emit :: "engine \<Rightarrow> event_view \<Rightarrow> engine dex" where
  "emit e view = dex_bind (push_event (evq e) view) (\<lambda>q. dex_ok (e\<lparr>evq := q\<rparr>))"

text \<open>The increments of the proceeds, with \<open>checked_add(..).unwrap()\<close>.\<close>

definition release_coin :: "engine \<Rightarrow> nat \<Rightarrow> engine dex" where
  "release_coin e n = dex_bind (add64 (coin_unlocked (proceeds e)) n) (\<lambda>m. dex_ok (e\<lparr>proceeds := (proceeds e)\<lparr>coin_unlocked := m\<rparr>\<rparr>))"

definition release_native_pc :: "engine \<Rightarrow> nat \<Rightarrow> engine dex" where
  "release_native_pc e n =
     dex_bind (add64 (native_pc_unlocked (proceeds e)) n) (\<lambda>m. dex_ok (e\<lparr>proceeds := (proceeds e)\<lparr>native_pc_unlocked := m\<rparr>\<rparr>))"

definition credit_coin :: "engine \<Rightarrow> nat \<Rightarrow> engine dex" where
  "credit_coin e n = dex_bind (add64 (coin_credit (proceeds e)) n) (\<lambda>m. dex_ok (e\<lparr>proceeds := (proceeds e)\<lparr>coin_credit := m\<rparr>\<rparr>))"

definition credit_native_pc :: "engine \<Rightarrow> nat \<Rightarrow> engine dex" where
  "credit_native_pc e n =
     dex_bind (add64 (native_pc_credit (proceeds e)) n) (\<lambda>m. dex_ok (e\<lparr>proceeds := (proceeds e)\<lparr>native_pc_credit := m\<rparr>\<rparr>))"

definition debit_coin :: "engine \<Rightarrow> nat \<Rightarrow> engine dex" where
  "debit_coin e n = dex_bind (add64 (coin_debit (proceeds e)) n) (\<lambda>m. dex_ok (e\<lparr>proceeds := (proceeds e)\<lparr>coin_debit := m\<rparr>\<rparr>))"

definition debit_native_pc :: "engine \<Rightarrow> nat \<Rightarrow> engine dex" where
  "debit_native_pc e n =
     dex_bind (add64 (native_pc_debit (proceeds e)) n) (\<lambda>m. dex_ok (e\<lparr>proceeds := (proceeds e)\<lparr>native_pc_debit := m\<rparr>\<rparr>))"

text \<open>The end of both matching functions: the fees of a trade leave the deposits.\<close>

definition book_fees :: "engine \<Rightarrow> nat \<Rightarrow> nat \<Rightarrow> engine dex" where
  "book_fees e native_taker_fee accum_maker_rebates =
     dex_bind (sub64 native_taker_fee accum_maker_rebates) (\<lambda>net_before.
     let rebate = referrer_rebate native_taker_fee; ms = market_state (ob e) in
     dex_bind (sub64 net_before rebate) (\<lambda>net.
     dex_bind (add64 (referrer_rebates_accrued ms) rebate) (\<lambda>r.
     dex_bind (add64 (pc_fees_accrued ms) net) (\<lambda>f.
     dex_bind (sub64 (pc_deposits_total ms) net_before) (\<lambda>d.
     dex_ok (e\<lparr>ob := (ob e)\<lparr>market_state := ms\<lparr>referrer_rebates_accrued := r, pc_fees_accrued := f, pc_deposits_total := d\<rparr>\<rparr>\<rparr>))))))"

section \<open>New asks\<close>

record new_ask_params =
  na_max_qty :: nat
  na_limit_price :: nat
  na_order_id :: u128
  na_owner :: pubkey
  na_owner_slot :: nat
  na_fee_tier :: fee_tier
  na_post_only :: bool
  na_post_allowed :: bool
  na_client_order_id :: nat
  na_self_trade_behavior :: self_trade_behavior

text \<open>How the body of the matching loop ends: it returns, or it breaks with \<open>done\<close> and \<open>crossed\<close>, the quantity
  left, the price of the fill and the rebates.\<close>

record loop_break =
  lb_done :: bool
  lb_crossed :: bool
  lb_qty :: nat
  lb_price :: nat
  lb_rebates :: nat

datatype loop_exit = Return "order_remaining option" | Break loop_break

definition self_trade_qtys :: "self_trade_behavior \<Rightarrow> nat \<Rightarrow> nat \<Rightarrow> (nat \<times> nat) dex" where
  "self_trade_qtys behavior trade_qty provide_qty =
     (case behavior of
        DecrementTake \<Rightarrow> dex_ok (trade_qty, trade_qty)
      | CancelProvide \<Rightarrow> dex_ok (provide_qty, 0)
      | AbortTransaction \<Rightarrow> dex_fail WouldSelfTrade)"

definition ask_self_trade ::
  "new_ask_params \<Rightarrow> engine \<Rightarrow> node_handle \<Rightarrow> leaf_node \<Rightarrow> nat \<Rightarrow> nat \<Rightarrow> nat \<Rightarrow> (loop_exit \<times> engine) dex" where
  "ask_self_trade p e h best trade_price trade_qty unfilled_qty =
     (let ms = market_state (ob e) in
      dex_bind (self_trade_qtys (na_self_trade_behavior p) trade_qty (leaf_quantity best)) (\<lambda>(cancelled_provide, cancelled_take).
      dex_bind (sub64 (leaf_quantity best) cancelled_provide) (\<lambda>remaining_provide.
      dex_bind (mul64_3 cancelled_provide trade_price (pc_lot_size ms)) (\<lambda>unlocked.
      dex_bind (mul64_3 remaining_provide trade_price (pc_lot_size ms)) (\<lambda>still_locked.
      dex_bind (emit e (Out \<lparr>o_side = Bid, o_release_funds = True, o_native_qty_unlocked = unlocked,
        o_native_qty_still_locked = still_locked, o_order_id = leaf_key best, o_owner = leaf_owner best,
        o_owner_slot = leaf_owner_slot best, o_client_order_id = nonzero (leaf_client_order_id best)\<rparr>)) (\<lambda>e.
      dex_bind (if remaining_provide = 0 then remove_order_id e Bid (leaf_key best)
                else write_leaf e Bid h (set_quantity best remaining_provide)) (\<lambda>e.
      dex_bind (sub64 unfilled_qty cancelled_take) (\<lambda>unfilled.
      dex_bind (mul64 cancelled_take (coin_lot_size ms)) (\<lambda>take_unlocked.
      dex_bind (emit e (Out \<lparr>o_side = Ask, o_release_funds = False, o_native_qty_unlocked = take_unlocked,
        o_native_qty_still_locked = unfilled, o_order_id = na_order_id p, o_owner = na_owner p,
        o_owner_slot = na_owner_slot p, o_client_order_id = nonzero (na_client_order_id p)\<rparr>)) (\<lambda>e.
      dex_bind (release_coin e cancelled_take) (\<lambda>e.
      dex_ok (Return (map_option (\<lambda>n. \<lparr>coin_qty_remaining = n, native_pc_qty_remaining = None\<rparr>) (nonzero unfilled)), e))))))))))))"

definition ask_fill ::
  "new_ask_params \<Rightarrow> engine \<Rightarrow> node_handle \<Rightarrow> leaf_node \<Rightarrow> nat \<Rightarrow> nat \<Rightarrow> nat \<Rightarrow> (loop_exit \<times> engine) dex" where
  "ask_fill p e h best trade_price trade_qty unfilled_qty =
     (let ms = market_state (ob e) in
      dex_bind (unwrap (leaf_tier best)) (\<lambda>maker_fee_tier.
      dex_bind (mul64_3 trade_qty trade_price (pc_lot_size ms)) (\<lambda>native_maker_pc_qty.
      dex_bind (unwrap (maker_rebate maker_fee_tier native_maker_pc_qty)) (\<lambda>native_maker_rebate.
      dex_bind (sub64 native_maker_pc_qty native_maker_rebate) (\<lambda>paid.
      dex_bind (mul64 trade_qty (coin_lot_size ms)) (\<lambda>received.
      dex_bind (emit e (Fill \<lparr>f_side = Bid, f_maker = True, f_native_qty_paid = paid, f_native_qty_received = received,
        f_native_fee_or_rebate = native_maker_rebate, f_order_id = leaf_key best, f_owner = leaf_owner best,
        f_owner_slot = leaf_owner_slot best, f_fee_tier = maker_fee_tier,
        f_client_order_id = nonzero (leaf_client_order_id best)\<rparr>)) (\<lambda>e.
      dex_bind (sub64 (leaf_quantity best) trade_qty) (\<lambda>left.
      dex_bind (write_leaf e Bid h (set_quantity best left)) (\<lambda>e.
      dex_bind (sub64 unfilled_qty trade_qty) (\<lambda>unfilled.
      dex_bind (mul64 trade_qty trade_price) (\<lambda>accum_fill_price.
      dex_bind (if left = 0 then
          dex_bind (emit e (Out \<lparr>o_side = Bid, o_release_funds = True, o_native_qty_unlocked = 0,
            o_native_qty_still_locked = 0, o_order_id = leaf_key best, o_owner = leaf_owner best,
            o_owner_slot = leaf_owner_slot best, o_client_order_id = nonzero (leaf_client_order_id best)\<rparr>)) (\<lambda>e.
          remove_order_id e Bid (leaf_key best))
        else dex_ok e) (\<lambda>e.
      dex_ok (Break \<lparr>lb_done = False, lb_crossed = True, lb_qty = unfilled, lb_price = accum_fill_price,
        lb_rebates = native_maker_rebate\<rparr>, e)))))))))))))"

definition ask_match :: "new_ask_params \<Rightarrow> engine \<Rightarrow> (loop_exit \<times> engine) dex" where
  "ask_match p e =
     dex_bind (unwrap (find_bbo (ob e) Bid)) (\<lambda>best_bid_h.
     let stop = (\<lambda>crossed. dex_ok (Break \<lparr>lb_done = True, lb_crossed = crossed, lb_qty = na_max_qty p, lb_price = 0,
       lb_rebates = 0\<rparr>, e)) in
     case best_bid_h of
       None \<Rightarrow> stop False
     | Some h \<Rightarrow>
         dex_bind (leaf_at (orders_mut (ob e) Bid) h) (\<lambda>best.
         dex_bind (unwrap (leaf_price best)) (\<lambda>trade_price.
         let crossed = na_limit_price p \<le> trade_price in
         if \<not> crossed \<or> na_post_only p then stop crossed
         else let trade_qty = min (leaf_quantity best) (na_max_qty p) in
           if trade_qty = 0 then stop crossed
           else if na_owner p = leaf_owner best
           then ask_self_trade p e h best trade_price trade_qty (na_max_qty p)
           else ask_fill p e h best trade_price trade_qty (na_max_qty p))))"

text \<open>A new offer is posted; when the book is full the least aggressive offer is booted out first.\<close>

definition post_ask :: "engine \<Rightarrow> leaf_node \<Rightarrow> engine dex" where
  "post_ask e new_order =
     dex_bind (unwrap (insert_leaf (asks (ob e)) new_order)) (\<lambda>(res, offers).
     case res of
       Inr _ \<Rightarrow> dex_ok (set_orders e Ask offers)
     | Inl OutOfSpace \<Rightarrow>
         dex_bind (unwrap (remove_max offers)) (\<lambda>(order, offers).
         dex_bind (unwrap order) (\<lambda>order.
         dex_bind (mul64 (leaf_quantity order) (coin_lot_size (market_state (ob e)))) (\<lambda>unlocked.
         dex_bind (emit e (Out \<lparr>o_side = Ask, o_release_funds = True, o_native_qty_unlocked = unlocked,
           o_native_qty_still_locked = 0, o_order_id = leaf_key order, o_owner = leaf_owner order,
           o_owner_slot = leaf_owner_slot order, o_client_order_id = nonzero (leaf_client_order_id order)\<rparr>)) (\<lambda>e.
         dex_bind (insert_unwrap offers new_order) (\<lambda>offers. dex_ok (set_orders e Ask offers)))))))"

text \<open>The proceeds, the event and the fees of the taker after the loop.\<close>

definition ask_settle :: "new_ask_params \<Rightarrow> engine \<Rightarrow> loop_break \<Rightarrow> engine dex" where
  "ask_settle p e b =
     (let ms = market_state (ob e) in
      dex_bind (mul64 (lb_price b) (pc_lot_size ms)) (\<lambda>native_taker_pc_qty.
      dex_bind (unwrap (taker_fee (na_fee_tier p) native_taker_pc_qty)) (\<lambda>native_taker_fee.
      dex_bind (sub64 native_taker_pc_qty native_taker_fee) (\<lambda>net_taker_pc_qty.
      dex_bind (sub64 (na_max_qty p) (lb_qty b)) (\<lambda>coin_lots_traded.
      dex_bind (credit_native_pc e net_taker_pc_qty) (\<lambda>e.
      dex_bind (debit_coin e coin_lots_traded) (\<lambda>e.
      dex_bind (if 0 < native_taker_pc_qty then
          dex_bind (mul64 coin_lots_traded (coin_lot_size ms)) (\<lambda>paid.
          emit e (Fill \<lparr>f_side = Ask, f_maker = False, f_native_qty_paid = paid, f_native_qty_received = net_taker_pc_qty,
            f_native_fee_or_rebate = native_taker_fee, f_order_id = na_order_id p, f_owner = na_owner p,
            f_owner_slot = na_owner_slot p, f_fee_tier = na_fee_tier p,
            f_client_order_id = nonzero (na_client_order_id p)\<rparr>))
        else dex_ok e) (\<lambda>e.
      book_fees e native_taker_fee (lb_rebates b)))))))))"

text \<open>The rest of the order is matched in the next round, posted or released.\<close>

definition ask_place :: "new_ask_params \<Rightarrow> engine \<Rightarrow> loop_break \<Rightarrow> (order_remaining option \<times> engine) dex" where
  "ask_place p e b =
     (let unfilled_qty = lb_qty b in
      if \<not> lb_done b \<and> unfilled_qty \<noteq> 0 then
        dex_ok (Some \<lparr>coin_qty_remaining = unfilled_qty, native_pc_qty_remaining = None\<rparr>, e)
      else if na_post_allowed p \<and> \<not> lb_crossed b \<and> 0 < unfilled_qty then
        dex_bind (post_ask e (leaf_new (na_owner_slot p) (na_order_id p) (na_owner p) unfilled_qty (na_fee_tier p)
          (na_client_order_id p))) (\<lambda>e.
        dex_ok (None, e))
      else
        dex_bind (release_coin e unfilled_qty) (\<lambda>e.
        dex_bind (mul64 unfilled_qty (coin_lot_size (market_state (ob e)))) (\<lambda>unlocked.
        dex_bind (emit e (Out \<lparr>o_side = Ask, o_release_funds = False, o_native_qty_unlocked = unlocked,
          o_native_qty_still_locked = 0, o_order_id = na_order_id p, o_owner = na_owner p,
          o_owner_slot = na_owner_slot p, o_client_order_id = nonzero (na_client_order_id p)\<rparr>)) (\<lambda>e.
        dex_ok (None, e)))))"

definition new_ask :: "new_ask_params \<Rightarrow> engine \<Rightarrow> (order_remaining option \<times> engine) dex" where
  "new_ask p e =
     dex_bind (ask_match p e) (\<lambda>(exit, e).
     case exit of Return r \<Rightarrow> dex_ok (r, e) | Break b \<Rightarrow> dex_bind (ask_settle p e b) (\<lambda>e. ask_place p e b))"

section \<open>New bids\<close>

record new_bid_params =
  nb_max_coin_qty :: nat
  nb_native_pc_qty_locked :: nat
  nb_limit_price :: "nat option"
  nb_order_id :: u128
  nb_owner :: pubkey
  nb_owner_slot :: nat
  nb_fee_tier :: fee_tier
  nb_post_only :: bool
  nb_post_allowed :: bool
  nb_client_order_id :: nat
  nb_self_trade_behavior :: self_trade_behavior

definition bid_self_trade ::
  "new_bid_params \<Rightarrow> engine \<Rightarrow> node_handle \<Rightarrow> leaf_node \<Rightarrow> nat \<Rightarrow> nat \<Rightarrow> (loop_exit \<times> engine) dex" where
  "bid_self_trade p e h best trade_price trade_qty =
     (let ms = market_state (ob e); locked = nb_native_pc_qty_locked p in
      dex_bind (self_trade_qtys (nb_self_trade_behavior p) trade_qty (leaf_quantity best)) (\<lambda>(cancelled_provide, cancelled_take).
      dex_bind (sub64 (leaf_quantity best) cancelled_provide) (\<lambda>remaining_provide.
      dex_bind (mul64 cancelled_provide (coin_lot_size ms)) (\<lambda>unlocked.
      dex_bind (mul64 remaining_provide (coin_lot_size ms)) (\<lambda>still_locked.
      dex_bind (emit e (Out \<lparr>o_side = Ask, o_release_funds = True, o_native_qty_unlocked = unlocked,
        o_native_qty_still_locked = still_locked, o_order_id = leaf_key best, o_owner = leaf_owner best,
        o_owner_slot = leaf_owner_slot best, o_client_order_id = nonzero (leaf_client_order_id best)\<rparr>)) (\<lambda>e.
      dex_bind (if remaining_provide = 0 then remove_order_id e Ask (leaf_key best)
                else write_leaf e Ask h (set_quantity best remaining_provide)) (\<lambda>e.
      dex_bind (mul64_3 cancelled_take trade_price (pc_lot_size ms)) (\<lambda>taker_unlocked.
      dex_bind (sub64 locked taker_unlocked) (\<lambda>taker_still_locked.
      dex_bind (sub64 (nb_max_coin_qty p) cancelled_take) (\<lambda>coin_left.
      let order_remaining = (if coin_left = 0 \<or> taker_still_locked = 0 then None
            else Some \<lparr>coin_qty_remaining = coin_left, native_pc_qty_remaining = Some taker_still_locked\<rparr>);
          (qty_unlocked, qty_still_locked) =
            (case order_remaining of Some _ \<Rightarrow> (taker_unlocked, taker_still_locked) | None \<Rightarrow> (locked, 0)) in
      dex_bind (release_native_pc e qty_unlocked) (\<lambda>e.
      dex_bind (emit e (Out \<lparr>o_side = Bid, o_release_funds = False, o_native_qty_unlocked = qty_unlocked,
        o_native_qty_still_locked = qty_still_locked, o_order_id = nb_order_id p, o_owner = nb_owner p,
        o_owner_slot = nb_owner_slot p, o_client_order_id = nonzero (nb_client_order_id p)\<rparr>)) (\<lambda>e.
      dex_ok (Return order_remaining, e)))))))))))))"

definition bid_fill ::
  "new_bid_params \<Rightarrow> engine \<Rightarrow> node_handle \<Rightarrow> leaf_node \<Rightarrow> nat \<Rightarrow> nat \<Rightarrow> nat \<Rightarrow> (loop_exit \<times> engine) dex" where
  "bid_fill p e h best trade_price trade_qty pc_qty_remaining =
     (let ms = market_state (ob e) in
      dex_bind (unwrap (leaf_tier best)) (\<lambda>maker_fee_tier.
      dex_bind (mul64_3 trade_qty trade_price (pc_lot_size ms)) (\<lambda>native_maker_pc_qty.
      dex_bind (unwrap (maker_rebate maker_fee_tier native_maker_pc_qty)) (\<lambda>native_maker_rebate.
      dex_bind (mul64 trade_qty (coin_lot_size ms)) (\<lambda>paid.
      dex_bind (add64 native_maker_pc_qty native_maker_rebate) (\<lambda>received.
      dex_bind (emit e (Fill \<lparr>f_side = Ask, f_maker = True, f_native_qty_paid = paid, f_native_qty_received = received,
        f_native_fee_or_rebate = native_maker_rebate, f_order_id = leaf_key best, f_owner = leaf_owner best,
        f_owner_slot = leaf_owner_slot best, f_fee_tier = maker_fee_tier,
        f_client_order_id = nonzero (leaf_client_order_id best)\<rparr>)) (\<lambda>e.
      dex_bind (sub64 (leaf_quantity best) trade_qty) (\<lambda>left.
      dex_bind (write_leaf e Ask h (set_quantity best left)) (\<lambda>e.
      dex_bind (sub64 (nb_max_coin_qty p) trade_qty) (\<lambda>coin_left.
      dex_bind (mul64 trade_qty trade_price) (\<lambda>price.
      dex_bind (sub64 pc_qty_remaining price) (\<lambda>pc_left.
      dex_bind (if left = 0 then
          dex_bind (emit e (Out \<lparr>o_side = Ask, o_release_funds = True, o_native_qty_unlocked = 0,
            o_native_qty_still_locked = 0, o_order_id = leaf_key best, o_owner = leaf_owner best,
            o_owner_slot = leaf_owner_slot best, o_client_order_id = nonzero (leaf_client_order_id best)\<rparr>)) (\<lambda>e.
          remove_order_id e Ask (leaf_key best))
        else dex_ok e) (\<lambda>e.
      dex_ok (Break \<lparr>lb_done = False, lb_crossed = True, lb_qty = coin_left, lb_price = pc_left,
        lb_rebates = native_maker_rebate\<rparr>, e))))))))))))))"

text \<open>For a bid the break carries the price lots that are left.\<close>

definition bid_match :: "new_bid_params \<Rightarrow> nat \<Rightarrow> engine \<Rightarrow> (loop_exit \<times> engine) dex" where
  "bid_match p max_pc_qty e =
     dex_bind (unwrap (find_bbo (ob e) Ask)) (\<lambda>best_offer_h.
     let stop = (\<lambda>crossed. dex_ok (Break \<lparr>lb_done = True, lb_crossed = crossed, lb_qty = nb_max_coin_qty p,
       lb_price = max_pc_qty, lb_rebates = 0\<rparr>, e)) in
     case best_offer_h of
       None \<Rightarrow> stop False
     | Some h \<Rightarrow>
         dex_bind (leaf_at (orders_mut (ob e) Ask) h) (\<lambda>best.
         dex_bind (unwrap (leaf_price best)) (\<lambda>trade_price.
         let crossed = (case nb_limit_price p of None \<Rightarrow> True | Some limit_price \<Rightarrow> trade_price \<le> limit_price) in
         if \<not> crossed \<or> nb_post_only p then stop crossed
         else let trade_qty = min (min (leaf_quantity best) (nb_max_coin_qty p)) (max_pc_qty div trade_price) in
           if trade_qty = 0 then stop crossed
           else if nb_owner p = leaf_owner best
           then bid_self_trade p e h best trade_price trade_qty
           else bid_fill p e h best trade_price trade_qty max_pc_qty)))"

text \<open>A new bid is posted; when the book is full the least aggressive bid is booted out first.\<close>

definition post_bid :: "engine \<Rightarrow> leaf_node \<Rightarrow> engine dex" where
  "post_bid e new_leaf =
     dex_bind (unwrap (insert_leaf (bids (ob e)) new_leaf)) (\<lambda>(res, bs).
     case res of
       Inr _ \<Rightarrow> dex_ok (set_orders e Bid bs)
     | Inl OutOfSpace \<Rightarrow>
         dex_bind (unwrap (remove_min bs)) (\<lambda>(order, bs).
         dex_bind (unwrap order) (\<lambda>order.
         dex_bind (unwrap (leaf_price order)) (\<lambda>price.
         dex_bind (mul64_3 (leaf_quantity order) price (pc_lot_size (market_state (ob e)))) (\<lambda>unlocked.
         dex_bind (emit e (Out \<lparr>o_side = Bid, o_release_funds = True, o_native_qty_unlocked = unlocked,
           o_native_qty_still_locked = 0, o_order_id = leaf_key order, o_owner = leaf_owner order,
           o_owner_slot = leaf_owner_slot order, o_client_order_id = nonzero (leaf_client_order_id order)\<rparr>)) (\<lambda>e.
         dex_bind (insert_unwrap bs new_leaf) (\<lambda>bs. dex_ok (set_orders e Bid bs))))))))"

text \<open>What is posted and stays locked of the rest of a bid, and the rest is released.\<close>

definition bid_post :: "new_bid_params \<Rightarrow> engine \<Rightarrow> loop_break \<Rightarrow> nat \<Rightarrow> (order_remaining option \<times> engine) dex" where
  "bid_post p e b pc_left =
     (let ms = market_state (ob e) in
      dex_bind (case nb_limit_price p of
          Some price \<Rightarrow>
            if nb_post_allowed p \<and> \<not> lb_crossed b then
              dex_bind (div64 pc_left (pc_lot_size ms)) (\<lambda>lots.
              dex_bind (div64 lots price) (\<lambda>affordable.
              let coin_qty_to_post = min (lb_qty b) affordable in
              dex_bind (mul64 coin_qty_to_post price) (\<lambda>pc_qty. dex_ok (coin_qty_to_post, pc_qty))))
            else dex_ok (0, 0)
        | None \<Rightarrow> dex_ok (0, 0)) (\<lambda>(coin_qty_to_post, pc_qty_to_keep_locked).
      dex_bind (mul64 pc_qty_to_keep_locked (pc_lot_size ms)) (\<lambda>still_locked.
      dex_bind (sub64 pc_left still_locked) (\<lambda>unlocked.
      dex_bind (release_native_pc e unlocked) (\<lambda>e.
      dex_bind (emit e (Out \<lparr>o_side = Bid, o_release_funds = False, o_native_qty_unlocked = unlocked,
        o_native_qty_still_locked = still_locked, o_order_id = nb_order_id p, o_owner = nb_owner p,
        o_owner_slot = nb_owner_slot p, o_client_order_id = nonzero (nb_client_order_id p)\<rparr>)) (\<lambda>e.
      dex_bind (if 0 < pc_qty_to_keep_locked then
          post_bid e (leaf_new (nb_owner_slot p) (nb_order_id p) (nb_owner p) coin_qty_to_post (nb_fee_tier p)
            (nb_client_order_id p))
        else dex_ok e) (\<lambda>e.
      dex_ok (None, e))))))))"

text \<open>The proceeds, the event and the fees of the taker after the loop, and what is left of the locked funds.\<close>

definition bid_settle :: "new_bid_params \<Rightarrow> nat \<Rightarrow> engine \<Rightarrow> loop_break \<Rightarrow> (nat \<times> engine) dex" where
  "bid_settle p max_pc_qty e b =
     (let ms = market_state (ob e) in
      dex_bind (sub64 max_pc_qty (lb_price b)) (\<lambda>pc_lots.
      dex_bind (mul64 pc_lots (pc_lot_size ms)) (\<lambda>native_accum_fill_price.
      dex_bind (unwrap (taker_fee (nb_fee_tier p) native_accum_fill_price)) (\<lambda>native_taker_fee.
      dex_bind (sub64 (nb_native_pc_qty_locked p) native_accum_fill_price) (\<lambda>x.
      dex_bind (sub64 x native_taker_fee) (\<lambda>pc_left.
      dex_bind (sub64 (nb_max_coin_qty p) (lb_qty b)) (\<lambda>coin_lots_received.
      dex_bind (add64 native_accum_fill_price native_taker_fee) (\<lambda>native_pc_paid.
      dex_bind (credit_coin e coin_lots_received) (\<lambda>e.
      dex_bind (debit_native_pc e native_pc_paid) (\<lambda>e.
      dex_bind (if 0 < native_accum_fill_price then
          dex_bind (mul64 coin_lots_received (coin_lot_size ms)) (\<lambda>received.
          emit e (Fill \<lparr>f_side = Bid, f_maker = False, f_native_qty_paid = native_pc_paid, f_native_qty_received = received,
            f_native_fee_or_rebate = native_taker_fee, f_order_id = nb_order_id p, f_owner = nb_owner p,
            f_owner_slot = nb_owner_slot p, f_fee_tier = nb_fee_tier p,
            f_client_order_id = nonzero (nb_client_order_id p)\<rparr>))
        else dex_ok e) (\<lambda>e.
      dex_bind (book_fees e native_taker_fee (lb_rebates b)) (\<lambda>e.
      dex_ok (pc_left, e)))))))))))))"

definition bid_place :: "new_bid_params \<Rightarrow> engine \<Rightarrow> loop_break \<Rightarrow> nat \<Rightarrow> (order_remaining option \<times> engine) dex" where
  "bid_place p e b pc_left =
     (if \<not> lb_done b \<and> lb_qty b \<noteq> 0 \<and> pc_left \<noteq> 0 then
        dex_ok (Some \<lparr>coin_qty_remaining = lb_qty b, native_pc_qty_remaining = Some pc_left\<rparr>, e)
      else bid_post p e b pc_left)"

definition new_bid :: "new_bid_params \<Rightarrow> engine \<Rightarrow> (order_remaining option \<times> engine) dex" where
  "new_bid p e =
     dex_bind (if nb_post_allowed p then check_assert MatchingFile 630 (nb_limit_price p \<noteq> None) else dex_ok ()) (\<lambda>_.
     dex_bind (unwrap (remove_taker_fee (nb_fee_tier p) (nb_native_pc_qty_locked p))) (\<lambda>net.
     dex_bind (div64 net (pc_lot_size (market_state (ob e)))) (\<lambda>max_pc_qty.
     dex_bind (bid_match p max_pc_qty e) (\<lambda>(exit, e).
     case exit of Return r \<Rightarrow> dex_ok (r, e) | Break b \<Rightarrow> dex_bind (bid_settle p max_pc_qty e b) (\<lambda>(pc_left, e). bid_place p e b pc_left)))))"

section \<open>New orders\<close>

record new_order_params =
  np_side :: side
  np_order_type :: order_type
  np_order_id :: u128
  np_owner :: pubkey
  np_owner_slot :: nat
  np_fee_tier :: fee_tier
  np_max_coin_qty :: nat
  np_native_pc_qty_locked :: "nat option"
  np_client_order_id :: nat
  np_self_trade_behavior :: self_trade_behavior

text \<open>One call of \<open>new_bid\<close> or \<open>new_ask\<close> from the loop of \<open>new_order\<close>.\<close>

definition order_round ::
  "new_order_params \<Rightarrow> bool \<Rightarrow> bool \<Rightarrow> nat \<Rightarrow> nat option \<Rightarrow> engine \<Rightarrow> (order_remaining option \<times> engine) dex" where
  "order_round p post_only post_allowed max_coin_qty native_pc_qty_locked e =
     (let limit_price = extract_price_from_order_id (np_order_id p) in
      case np_side p of
        Bid \<Rightarrow>
          dex_bind (unwrap native_pc_qty_locked) (\<lambda>locked.
          new_bid \<lparr>nb_max_coin_qty = max_coin_qty, nb_native_pc_qty_locked = locked, nb_limit_price = nonzero limit_price,
            nb_order_id = np_order_id p, nb_owner = np_owner p, nb_owner_slot = np_owner_slot p,
            nb_fee_tier = np_fee_tier p, nb_post_only = post_only, nb_post_allowed = post_allowed,
            nb_client_order_id = np_client_order_id p, nb_self_trade_behavior = np_self_trade_behavior p\<rparr> e)
      | Ask \<Rightarrow>
          if native_pc_qty_locked \<noteq> None then None
          else dex_bind (unwrap (nonzero limit_price)) (\<lambda>limit_price.
          new_ask \<lparr>na_max_qty = max_coin_qty, na_limit_price = limit_price, na_order_id = np_order_id p,
            na_owner = np_owner p, na_owner_slot = np_owner_slot p, na_fee_tier = np_fee_tier p,
            na_post_only = post_only, na_post_allowed = post_allowed, na_client_order_id = np_client_order_id p,
            na_self_trade_behavior = np_self_trade_behavior p\<rparr> e))"

text \<open>The loop of \<open>new_order\<close>; each round takes one from the limit, and the round without a limit only posts.\<close>

fun new_order_loop ::
  "new_order_params \<Rightarrow> bool \<Rightarrow> bool \<Rightarrow> nat \<Rightarrow> nat \<Rightarrow> nat option \<Rightarrow> engine \<Rightarrow>
     (order_remaining option \<times> nat \<times> engine) dex" where
  "new_order_loop p post_only post_allowed 0 max_coin_qty native_pc_qty_locked e =
     dex_bind (order_round p True True max_coin_qty native_pc_qty_locked e) (\<lambda>(r, e). dex_ok (r, 0, e))"
| "new_order_loop p post_only post_allowed (Suc limit) max_coin_qty native_pc_qty_locked e =
     dex_bind (order_round p post_only post_allowed max_coin_qty native_pc_qty_locked e) (\<lambda>(r, e).
     case r of
       None \<Rightarrow> dex_ok (None, limit, e)
     | Some r \<Rightarrow> new_order_loop p post_only post_allowed limit (coin_qty_remaining r) (native_pc_qty_remaining r) e)"

definition new_order :: "new_order_params \<Rightarrow> nat \<Rightarrow> engine \<Rightarrow> (order_remaining option \<times> nat \<times> engine) dex" where
  "new_order p limit e =
     (let (post_only, post_allowed) =
        (case np_order_type p of Limit \<Rightarrow> (False, True) | ImmediateOrCancel \<Rightarrow> (False, False) | PostOnly \<Rightarrow> (True, True)) in
      new_order_loop p post_only post_allowed limit (np_max_coin_qty p) (np_native_pc_qty_locked p) e)"

section \<open>Cancellations\<close>

definition leaf_native_qty :: "market_state \<Rightarrow> side \<Rightarrow> leaf_node \<Rightarrow> nat dex" where
  "leaf_native_qty ms side leaf =
     (case side of
        Bid \<Rightarrow> dex_bind (unwrap (leaf_price leaf)) (\<lambda>price. mul64_3 (leaf_quantity leaf) price (pc_lot_size ms))
      | Ask \<Rightarrow> mul64 (leaf_quantity leaf) (coin_lot_size ms))"

definition cancel_leaf_node ::
  "engine \<Rightarrow> leaf_node \<Rightarrow> side \<Rightarrow> open_orders \<Rightarrow> pubkey \<Rightarrow> u128 \<Rightarrow> (open_orders \<times> engine) dex" where
  "cancel_leaf_node e leaf side open_orders address order_id =
     (if leaf_owner leaf \<noteq> address then dex_fail OrderNotYours
      else let slot = leaf_owner_slot leaf in
        dex_bind (unwrap (at_slot (oo_orders open_orders) slot)) (\<lambda>order_in_slot.
        dex_bind (check_assert MatchingFile 964 (order_id = order_in_slot)) (\<lambda>_.
        dex_bind (unwrap (slot_side open_orders slot)) (\<lambda>side_of_slot.
        dex_bind (check_assert MatchingFile 965 (Some side = side_of_slot)) (\<lambda>_.
        dex_bind (leaf_native_qty (market_state (ob e)) side leaf) (\<lambda>unlocked.
        dex_bind (unwrap (case side of Bid \<Rightarrow> unlock_pc open_orders unlocked | Ask \<Rightarrow> unlock_coin open_orders unlocked)) (\<lambda>oo.
        dex_bind (emit e (Out \<lparr>o_side = side, o_release_funds = False, o_native_qty_unlocked = unlocked,
          o_native_qty_still_locked = 0, o_order_id = order_id, o_owner = address, o_owner_slot = slot,
          o_client_order_id = nonzero (leaf_client_order_id leaf)\<rparr>)) (\<lambda>e.
        dex_ok (oo, e)))))))))"

definition cancel_order_v2 ::
  "engine \<Rightarrow> side \<Rightarrow> pubkey \<Rightarrow> open_orders \<Rightarrow> u128 \<Rightarrow> (open_orders \<times> engine) dex" where
  "cancel_order_v2 e side address open_orders order_id =
     dex_bind (unwrap (remove_by_key (orders_mut (ob e) side) order_id)) (\<lambda>(leaf, s).
     case leaf of
       None \<Rightarrow> dex_fail OrderNotFound
     | Some leaf \<Rightarrow> cancel_leaf_node (set_orders e side s) leaf side open_orders address order_id)"

text \<open>The cancellation of a request; an order of somebody else is put back.\<close>

definition cancel_order :: "engine \<Rightarrow> side \<Rightarrow> u128 \<Rightarrow> pubkey \<Rightarrow> nat \<Rightarrow> nat option \<Rightarrow> engine dex" where
  "cancel_order e side order_id owner owner_slot client_order_id =
     dex_bind (unwrap (remove_by_key (orders_mut (ob e) side) order_id)) (\<lambda>(leaf, s).
     case leaf of
       None \<Rightarrow> dex_ok (set_orders e side s)
     | Some leaf \<Rightarrow>
         if leaf_owner leaf = owner \<and> leaf_owner_slot leaf = owner_slot then
           dex_bind (if client_order_id \<noteq> None \<and> client_order_id \<noteq> Some (leaf_client_order_id leaf) then None
                     else dex_ok ()) (\<lambda>_.
           dex_bind (leaf_native_qty (market_state (ob e)) side leaf) (\<lambda>unlocked.
           emit (set_orders e side s) (Out \<lparr>o_side = side, o_release_funds = True, o_native_qty_unlocked = unlocked,
             o_native_qty_still_locked = 0, o_order_id = order_id, o_owner = owner, o_owner_slot = owner_slot,
             o_client_order_id = nonzero (leaf_client_order_id leaf)\<rparr>)))
         else dex_bind (insert_unwrap s leaf) (\<lambda>s. dex_ok (set_orders e side s)))"

definition process_orderbook_request :: "request_view \<Rightarrow> nat \<Rightarrow> engine \<Rightarrow> (request_view option \<times> nat \<times> engine) dex" where
  "process_orderbook_request request limit e =
     (case request of
        NewOrder r \<Rightarrow>
          dex_bind (new_order \<lparr>np_side = no_side r, np_order_type = no_order_type r, np_order_id = no_order_id r,
            np_owner = no_owner r, np_owner_slot = no_owner_slot r, np_fee_tier = no_fee_tier r,
            np_max_coin_qty = no_max_coin_qty r, np_native_pc_qty_locked = no_native_pc_qty_locked r,
            np_client_order_id = get_or_zero (no_client_order_id r),
            np_self_trade_behavior = no_self_trade_behavior r\<rparr> limit e) (\<lambda>(left, limit, e).
          dex_ok (map_option (\<lambda>left. NewOrder (r\<lparr>no_max_coin_qty := coin_qty_remaining left,
            no_native_pc_qty_locked := native_pc_qty_remaining left\<rparr>)) left, limit, e))
      | CancelOrder c \<Rightarrow>
          dex_bind (sub64 limit 1) (\<lambda>limit.
          dex_bind (cancel_order e (co_side c) (co_order_id c) (co_expected_owner c) (co_expected_owner_slot c)
            (co_client_order_id c)) (\<lambda>e.
          dex_ok (None, limit, e))))"

text \<open>\<open>remove_all\<close>: the orders of an account leave the book, at most \<open>limit\<close> nodes of both trees being visited.\<close>

fun remove_keys :: "slab \<Rightarrow> u128 list \<Rightarrow> (leaf_node list \<times> slab) option" where
  "remove_keys s [] = Some ([], s)"
| "remove_keys s (k # ks) =
     Option.bind (remove_by_key s k) (\<lambda>(x, s).
     map_option (\<lambda>(xs, s). (case x of None \<Rightarrow> xs | Some x \<Rightarrow> x # xs, s)) (remove_keys s ks))"

definition remove_all :: "engine \<Rightarrow> pubkey \<Rightarrow> nat \<Rightarrow> ((leaf_node list \<times> leaf_node list) \<times> engine) dex" where
  "remove_all e address limit =
     (let (ask_keys, limit) = find_by (asks (ob e)) limit (\<lambda>x. leaf_owner x = address);
          (bid_keys, limit) = find_by (bids (ob e)) limit (\<lambda>x. leaf_owner x = address) in
      dex_bind (unwrap (remove_keys (bids (ob e)) bid_keys)) (\<lambda>(bids_removed, bs).
      dex_bind (unwrap (remove_keys (asks (ob e)) ask_keys)) (\<lambda>(asks_removed, as).
      dex_ok ((bids_removed, asks_removed), e\<lparr>ob := (ob e)\<lparr>bids := bs, asks := as\<rparr>\<rparr>))))"

end
