(* ===== verification/Dex_Process.thy ===== *)
theory Dex_Process
  imports Dex_Matching
begin

text \<open>
  The processors of the instructions of the Serum exchange (\<open>serum_dex/state.rs\<close>), on arguments that are already
  parsed: new orders, the consumption of events, cancellations, settlement, pruning, the sweep of fees and the
  switches of an account and of a market. Transfers of tokens are a parameter, the SPL token program.
\<close>

section \<open>The token program\<close>

text \<open>The balances of the token accounts, and the two things that the sources use of \<open>spl_token\<close>: a transfer and the
  number of its error for insufficient funds.\<close>

type_synonym amounts = "pubkey \<Rightarrow> nat"

record spl_token =
  spl_transfer :: "pubkey \<Rightarrow> pubkey \<Rightarrow> pubkey \<Rightarrow> nat \<Rightarrow> amounts \<Rightarrow> program_error + amounts"
  insufficient_funds_code :: nat

definition send_from_vault :: "spl_token \<Rightarrow> nat \<Rightarrow> pubkey \<Rightarrow> pubkey \<Rightarrow> pubkey \<Rightarrow> amounts \<Rightarrow> amounts dex" where
  "send_from_vault spl native_amount recipient vault vault_signer bal =
     (case spl_transfer spl vault recipient vault_signer native_amount bal of
        Inl _ \<Rightarrow> dex_fail TransferFailed
      | Inr bal \<Rightarrow> dex_ok bal)"

section \<open>New orders\<close>

record new_order_instruction_v3 =
  ni_side :: side
  ni_limit_price :: nat
  ni_max_coin_qty :: nat
  ni_max_native_pc_qty_including_fees :: nat
  ni_self_trade_behavior :: self_trade_behavior
  ni_order_type :: order_type
  ni_client_order_id :: nat
  ni_limit :: nat

record new_order_v3_args =
  v3_instruction :: new_order_instruction_v3
  v3_open_orders :: open_orders
  v3_open_orders_address :: pubkey
  v3_owner :: pubkey
  v3_req_q :: request_queue
  v3_event_q :: event_queue
  v3_order_book_state :: order_book_state
  v3_payer :: pubkey
  v3_coin_vault :: pubkey
  v3_pc_vault :: pubkey
  v3_fee_tier :: fee_tier

text \<open>The funds of the order are locked: first what is free in the account, the rest is the deposit.\<close>

definition lock_bid_funds :: "new_order_v3_args \<Rightarrow> amounts \<Rightarrow> (nat \<times> new_order_v3_args) dex" where
  "lock_bid_funds a bal =
     (let lock_qty_native = ni_max_native_pc_qty_including_fees (v3_instruction a);
          oo = v3_open_orders a; b = v3_order_book_state a; ms = market_state b;
          free_qty_to_lock = min lock_qty_native (native_pc_free oo);
          deposit_amount = lock_qty_native - free_qty_to_lock in
      if bal (v3_payer a) < deposit_amount then dex_fail InsufficientFunds
      else dex_bind (unwrap (lock_free_pc oo free_qty_to_lock)) (\<lambda>oo.
        dex_bind (unwrap (credit_locked_pc oo deposit_amount)) (\<lambda>oo.
        dex_bind (add64 (pc_deposits_total ms) deposit_amount) (\<lambda>total.
        dex_ok (deposit_amount, a\<lparr>v3_open_orders := oo,
          v3_order_book_state := b\<lparr>market_state := ms\<lparr>pc_deposits_total := total\<rparr>\<rparr>\<rparr>)))))"

definition lock_ask_funds :: "new_order_v3_args \<Rightarrow> amounts \<Rightarrow> (nat \<times> new_order_v3_args) dex" where
  "lock_ask_funds a bal =
     (let oo = v3_open_orders a; b = v3_order_book_state a; ms = market_state b in
      case u64_checked (ni_max_coin_qty (v3_instruction a) * coin_lot_size ms) of
        None \<Rightarrow> dex_fail InsufficientFunds
      | Some lock_qty_native \<Rightarrow>
          let free_qty_to_lock = min lock_qty_native (native_coin_free oo);
              deposit_amount = lock_qty_native - free_qty_to_lock in
          if bal (v3_payer a) < deposit_amount then dex_fail InsufficientFunds
          else dex_bind (unwrap (lock_free_coin oo free_qty_to_lock)) (\<lambda>oo.
            dex_bind (unwrap (credit_locked_coin oo deposit_amount)) (\<lambda>oo.
            dex_bind (add64 (coin_deposits_total ms) deposit_amount) (\<lambda>total.
            dex_ok (deposit_amount, a\<lparr>v3_open_orders := oo,
              v3_order_book_state := b\<lparr>market_state := ms\<lparr>coin_deposits_total := total\<rparr>\<rparr>\<rparr>)))))"

text \<open>The order gets its identifier and a slot of the account.\<close>

definition assign_slot :: "new_order_v3_args \<Rightarrow> (u128 \<times> nat \<times> new_order_v3_args) dex" where
  "assign_slot a =
     (let i = v3_instruction a; q = v3_req_q a in
      dex_bind (unwrap (gen_order_id (header q) (ni_limit_price i) (ni_side i))) (\<lambda>(order_id, h).
      dex_bind (add_order (v3_open_orders a) order_id (ni_side i)) (\<lambda>(owner_slot, oo).
      dex_ok (order_id, owner_slot, a\<lparr>v3_req_q := q\<lparr>header := h\<rparr>,
        v3_open_orders := oo\<lparr>client_order_ids := (client_order_ids oo)[owner_slot := ni_client_order_id i]\<rparr>\<rparr>))))"

definition apply_proceeds :: "nat \<Rightarrow> request_proceeds \<Rightarrow> open_orders \<Rightarrow> open_orders dex" where
  "apply_proceeds lot pr oo =
     dex_bind (mul64 (coin_unlocked pr) lot) (\<lambda>native_coin_unlocked.
     dex_bind (mul64 (coin_credit pr) lot) (\<lambda>native_coin_credit.
     dex_bind (mul64 (coin_debit pr) lot) (\<lambda>native_coin_debit.
     dex_bind (unwrap (credit_locked_coin oo native_coin_credit)) (\<lambda>oo.
     dex_bind (unwrap (unlock_coin oo native_coin_credit)) (\<lambda>oo.
     dex_bind (unwrap (unlock_coin oo native_coin_unlocked)) (\<lambda>oo.
     dex_bind (unwrap (credit_locked_pc oo (native_pc_credit pr))) (\<lambda>oo.
     dex_bind (unwrap (unlock_pc oo (native_pc_credit pr))) (\<lambda>oo.
     dex_bind (unwrap (unlock_pc oo (native_pc_unlocked pr))) (\<lambda>oo.
     dex_bind (sub64 (native_coin_total oo) native_coin_debit) (\<lambda>coin.
     dex_bind (sub64 (native_pc_total oo) (native_pc_debit pr)) (\<lambda>pc.
     let oo = oo\<lparr>native_coin_total := coin, native_pc_total := pc\<rparr> in
     dex_bind (check_assert StateFile 2964 (native_coin_free oo \<le> native_coin_total oo)) (\<lambda>_.
     dex_bind (check_assert StateFile 2965 (native_pc_free oo \<le> native_pc_total oo)) (\<lambda>_.
     dex_ok oo)))))))))))))"

definition deposit_error :: "spl_token \<Rightarrow> program_error \<Rightarrow> dex_error_code" where
  "deposit_error spl err =
     (case err of
        Custom i \<Rightarrow> if i = insufficient_funds_code spl then InsufficientFunds else TransferFailed
      | _ \<Rightarrow> TransferFailed)"

definition deposit :: "spl_token \<Rightarrow> pubkey \<Rightarrow> pubkey \<Rightarrow> pubkey \<Rightarrow> nat \<Rightarrow> amounts \<Rightarrow> amounts dex" where
  "deposit spl payer deposit_vault owner deposit_amount bal =
     (if deposit_amount = 0 then dex_ok bal
      else case spl_transfer spl payer deposit_vault owner deposit_amount bal of
          Inl err \<Rightarrow> dex_fail (deposit_error spl err)
        | Inr bal' \<Rightarrow>
            dex_bind (check_assert StateFile 3006 (Some deposit_amount = checked_sub (bal' deposit_vault) (bal deposit_vault))) (\<lambda>_.
            dex_ok bal'))"

definition process_new_order_v3 :: "spl_token \<Rightarrow> new_order_v3_args \<Rightarrow> amounts \<Rightarrow> (new_order_v3_args \<times> amounts) dex" where
  "process_new_order_v3 spl a bal =
     (let i = v3_instruction a in
      dex_bind (check_assert StateFile 2855 (rq_count (header (v3_req_q a)) = 0)) (\<lambda>_.
      dex_bind (case ni_side i of Bid \<Rightarrow> lock_bid_funds a bal | Ask \<Rightarrow> lock_ask_funds a bal) (\<lambda>(deposit_amount, a).
      dex_bind (assign_slot a) (\<lambda>(order_id, owner_slot, a).
      dex_bind (process_orderbook_request
          (NewOrder \<lparr>no_side = ni_side i, no_order_type = ni_order_type i, no_owner_slot = owner_slot,
             no_fee_tier = v3_fee_tier a, no_order_id = order_id, no_max_coin_qty = ni_max_coin_qty i,
             no_native_pc_qty_locked =
               (case ni_side i of Bid \<Rightarrow> Some (ni_max_native_pc_qty_including_fees i) | Ask \<Rightarrow> None),
             no_owner = v3_open_orders_address a, no_client_order_id = nonzero (ni_client_order_id i),
             no_self_trade_behavior = ni_self_trade_behavior i\<rparr>)
          (ni_limit i) \<lparr>ob = v3_order_book_state a, evq = v3_event_q a, proceeds = proceeds_zero\<rparr>) (\<lambda>(unfilled, limit, e).
      dex_bind (check_assert StateFile 2928 (unfilled = None)) (\<lambda>_.
      dex_bind (apply_proceeds (coin_lot_size (market_state (ob e))) (proceeds e) (v3_open_orders a)) (\<lambda>oo.
      dex_bind (deposit spl (v3_payer a) (case ni_side i of Bid \<Rightarrow> v3_pc_vault a | Ask \<Rightarrow> v3_coin_vault a)
          (v3_owner a) deposit_amount bal) (\<lambda>bal.
      dex_ok (a\<lparr>v3_open_orders := oo, v3_event_q := evq e, v3_order_book_state := ob e\<rparr>, bal)))))))))"

section \<open>The consumption of events\<close>

definition check_client_id :: "open_orders \<Rightarrow> nat \<Rightarrow> nat option \<Rightarrow> unit dex" where
  "check_client_id oo slot client_order_id =
     (case client_order_id of
        None \<Rightarrow> dex_ok ()
      | Some client_id \<Rightarrow>
          dex_bind (unwrap (at_slot (client_order_ids oo) slot)) (\<lambda>c. if client_id = c then dex_ok () else None))"

definition consume_fill :: "fill_view \<Rightarrow> open_orders \<Rightarrow> open_orders dex" where
  "consume_fill f oo =
     dex_bind (if f_maker f then
         (case f_side f of
            Bid \<Rightarrow>
              dex_bind (sub64 (native_pc_total oo) (f_native_qty_paid f)) (\<lambda>pc_total.
              dex_bind (add64 (native_coin_total oo) (f_native_qty_received f)) (\<lambda>coin_total.
              dex_bind (add64 (native_coin_free oo) (f_native_qty_received f)) (\<lambda>coin_free.
              dex_bind (add64 (native_pc_free oo) (f_native_fee_or_rebate f)) (\<lambda>pc_free.
              dex_ok (oo\<lparr>native_pc_total := pc_total, native_coin_total := coin_total, native_coin_free := coin_free,
                native_pc_free := pc_free\<rparr>)))))
          | Ask \<Rightarrow>
              dex_bind (sub64 (native_coin_total oo) (f_native_qty_paid f)) (\<lambda>coin_total.
              dex_bind (add64 (native_pc_total oo) (f_native_qty_received f)) (\<lambda>pc_total.
              dex_bind (add64 (native_pc_free oo) (f_native_qty_received f)) (\<lambda>pc_free.
              dex_ok (oo\<lparr>native_coin_total := coin_total, native_pc_total := pc_total, native_pc_free := pc_free\<rparr>)))))
       else
         dex_bind (add64 (oo_referrer_rebates_accrued oo) (referrer_rebate (f_native_fee_or_rebate f))) (\<lambda>r.
         dex_ok (oo\<lparr>oo_referrer_rebates_accrued := r\<rparr>))) (\<lambda>oo.
     dex_bind (check_client_id oo (f_owner_slot f) (f_client_order_id f)) (\<lambda>_.
     dex_ok oo))"

definition consume_out :: "out_view \<Rightarrow> open_orders \<Rightarrow> open_orders dex" where
  "consume_out u oo =
     dex_bind (case o_side u of
         Bid \<Rightarrow>
           dex_bind (if o_release_funds u then add64 (native_pc_free oo) (o_native_qty_unlocked u)
                     else dex_ok (native_pc_free oo)) (\<lambda>n.
           dex_bind (check_assert StateFile 2805 (n \<le> native_pc_total oo)) (\<lambda>_. dex_ok (oo\<lparr>native_pc_free := n\<rparr>)))
       | Ask \<Rightarrow>
           dex_bind (if o_release_funds u then add64 (native_coin_free oo) (o_native_qty_unlocked u)
                     else dex_ok (native_coin_free oo)) (\<lambda>n.
           dex_bind (check_assert StateFile 2813 (n \<le> native_coin_total oo)) (\<lambda>_. dex_ok (oo\<lparr>native_coin_free := n\<rparr>)))) (\<lambda>oo.
     dex_bind (check_client_id oo (o_owner_slot u) (o_client_order_id u)) (\<lambda>_.
     if o_native_qty_still_locked u = 0 then remove_order oo (o_owner_slot u) else dex_ok oo))"

text \<open>The body of the loop for the account of the event's owner.\<close>

definition consume_event :: "event \<Rightarrow> open_orders \<Rightarrow> open_orders dex" where
  "consume_event event oo =
     dex_bind (check_assert StateFile 2743 (ev_owner_slot event < 128)) (\<lambda>_.
     dex_bind (event_as_view event) (\<lambda>view.
     dex_bind (unwrap (slot_side oo (ev_owner_slot event))) (\<lambda>side_of_slot.
     dex_bind (check_assert StateFile 2744 (side_of_slot = Some (view_side view))) (\<lambda>_.
     dex_bind (unwrap (at_slot (oo_orders oo) (ev_owner_slot event))) (\<lambda>order_in_slot.
     dex_bind (check_assert StateFile 2745 (order_in_slot = ev_order_id event)) (\<lambda>_.
     case view of Fill f \<Rightarrow> consume_fill f oo | Out u \<Rightarrow> consume_out u oo))))))"

text \<open>\<open>binary_search_by_key\<close>: the index of the key in a sorted slice.\<close>

function binary_search_from :: "'k::linorder list \<Rightarrow> 'k \<Rightarrow> nat \<Rightarrow> nat \<Rightarrow> nat option" where
  "binary_search_from ks k left right =
     (if left < right \<and> right \<le> length ks then
        let mid = left + (right - left) div 2 in
        if ks ! mid < k then binary_search_from ks k (mid + 1) right
        else if k < ks ! mid then binary_search_from ks k left mid
        else Some mid
      else None)"
  by pat_completeness auto

termination
  by (relation "measure (\<lambda>(ks, k, left, right). right - left)") auto

declare binary_search_from.simps [simp del]

definition binary_search :: "'k::linorder list \<Rightarrow> 'k \<Rightarrow> nat option" where
  "binary_search ks k = binary_search_from ks k 0 (length ks)"

text \<open>The loop of \<open>process_consume_events\<close>: accounts are loaded from and stored into a state.\<close>

fun consume_events_loop ::
  "(pubkey \<Rightarrow> 's \<Rightarrow> open_orders dex) \<Rightarrow> (pubkey \<Rightarrow> open_orders \<Rightarrow> 's \<Rightarrow> 's) \<Rightarrow> pubkey list \<Rightarrow> nat \<Rightarrow> 's \<Rightarrow> event_queue \<Rightarrow>
     ('s \<times> event_queue) dex" where
  "consume_events_loop load_orders store_orders accounts 0 s event_q = dex_ok (s, event_q)"
| "consume_events_loop load_orders store_orders accounts (Suc limit) s event_q =
     dex_bind (unwrap (peek_front event_header event_q)) (\<lambda>front.
     case front of
       None \<Rightarrow> dex_ok (s, event_q)
     | Some event \<Rightarrow>
         dex_bind (event_as_view event) (\<lambda>_.
         case binary_search accounts (ev_owner event) of
           None \<Rightarrow> dex_ok (s, event_q)
         | Some i \<Rightarrow>
             let address = accounts ! i in
             dex_bind (load_orders address s) (\<lambda>oo.
             dex_bind (consume_event event oo) (\<lambda>oo.
             dex_bind (unwrap (pop_front event_header event_q)) (\<lambda>(popped, event_q).
             if popped = None then dex_fail ConsumeEventsQueueFailure
             else consume_events_loop load_orders store_orders accounts limit (store_orders address oo s) event_q)))))"

section \<open>Settlement, fees and switches\<close>

record settle_funds_args =
  sf_market :: market_state
  sf_open_orders :: open_orders
  sf_coin_vault :: pubkey
  sf_pc_vault :: pubkey
  sf_coin_wallet :: pubkey
  sf_pc_wallet :: pubkey
  sf_vault_signer :: pubkey
  sf_referrer :: "pubkey option"

definition process_settle_funds :: "spl_token \<Rightarrow> settle_funds_args \<Rightarrow> amounts \<Rightarrow> (settle_funds_args \<times> amounts) dex" where
  "process_settle_funds spl a bal =
     (let oo = sf_open_orders a; ms = sf_market a;
          native_coin_amount = native_coin_free oo; native_pc_amount = native_pc_free oo;
          rebates = oo_referrer_rebates_accrued oo in
      dex_bind (sub64 (coin_deposits_total ms) native_coin_amount) (\<lambda>coin_deposits.
      dex_bind (sub64 (pc_deposits_total ms) native_pc_amount) (\<lambda>pc_deposits.
      dex_bind (sub64 (native_coin_total oo) native_coin_amount) (\<lambda>coin_total.
      dex_bind (sub64 (native_pc_total oo) native_pc_amount) (\<lambda>pc_total.
      dex_bind (send_from_vault spl native_coin_amount (sf_coin_wallet a) (sf_coin_vault a) (sf_vault_signer a) bal) (\<lambda>bal.
      dex_bind (send_from_vault spl native_pc_amount (sf_pc_wallet a) (sf_pc_vault a) (sf_vault_signer a) bal) (\<lambda>bal.
      dex_bind (if sf_referrer a \<noteq> None \<and> 0 < rebates then
          dex_bind (send_from_vault spl rebates (the (sf_referrer a)) (sf_pc_vault a) (sf_vault_signer a) bal) (\<lambda>bal.
          dex_ok (pc_fees_accrued ms, bal))
        else dex_bind (add64 (pc_fees_accrued ms) rebates) (\<lambda>fees. dex_ok (fees, bal))) (\<lambda>(fees, bal).
      dex_bind (sub64 (referrer_rebates_accrued ms) rebates) (\<lambda>market_rebates.
      dex_ok (a\<lparr>sf_market := ms\<lparr>coin_deposits_total := coin_deposits, pc_deposits_total := pc_deposits,
          pc_fees_accrued := fees, referrer_rebates_accrued := market_rebates\<rparr>,
        sf_open_orders := oo\<lparr>native_coin_free := 0, native_pc_free := 0, native_coin_total := coin_total,
          native_pc_total := pc_total, oo_referrer_rebates_accrued := 0\<rparr>\<rparr>, bal))))))))))"

definition process_sweep_fees ::
  "spl_token \<Rightarrow> pubkey \<Rightarrow> pubkey \<Rightarrow> pubkey \<Rightarrow> market_state \<Rightarrow> amounts \<Rightarrow> (market_state \<times> amounts) dex" where
  "process_sweep_fees spl vault fee_receiver vault_signer ms bal =
     dex_bind (send_from_vault spl (pc_fees_accrued ms) fee_receiver vault vault_signer bal) (\<lambda>bal.
     dex_ok (ms\<lparr>pc_fees_accrued := 0\<rparr>, bal))"

definition process_disable_market :: "market_state \<Rightarrow> market_state" where
  "process_disable_market ms = ms\<lparr>ms_account_flags := ms_account_flags ms OR AccountFlag_Disabled\<rparr>"

text \<open>The lamports of the account go to the destination; the result is the account and the two balances.\<close>

definition process_close_open_orders :: "open_orders \<Rightarrow> nat \<Rightarrow> nat \<Rightarrow> (open_orders \<times> nat \<times> nat) dex" where
  "process_close_open_orders oo lamports dest_lamports =
     dex_bind (add64 dest_lamports lamports) (\<lambda>dest. dex_ok (oo\<lparr>oo_account_flags := AccountFlag_Closed\<rparr>, 0, dest))"

section \<open>Cancellations\<close>

definition process_cancel_order_v2 ::
  "side \<Rightarrow> u128 \<Rightarrow> pubkey \<Rightarrow> open_orders \<Rightarrow> order_book_state \<Rightarrow> event_queue \<Rightarrow> (open_orders \<times> order_book_state \<times> event_queue) dex" where
  "process_cancel_order_v2 side order_id address oo b event_q =
     dex_bind (cancel_order_v2 \<lparr>ob = b, evq = event_q, proceeds = proceeds_zero\<rparr> side address oo order_id) (\<lambda>(oo, e).
     dex_ok (oo, ob e, evq e))"

definition process_cancel_order_by_client_id_v2 ::
  "nat \<Rightarrow> pubkey \<Rightarrow> open_orders \<Rightarrow> order_book_state \<Rightarrow> event_queue \<Rightarrow> (open_orders \<times> order_book_state \<times> event_queue) dex" where
  "process_cancel_order_by_client_id_v2 client_order_id address oo b event_q =
     dex_bind (unwrap (orders_with_client_ids oo)) (\<lambda>entries.
     case List.find (\<lambda>entry. client_order_id = fst entry) entries of
       None \<Rightarrow> dex_fail ClientIdNotFound
     | Some (_, order_id, side) \<Rightarrow> process_cancel_order_v2 side order_id address oo b event_q)"

fun cancel_leaves :: "side \<Rightarrow> pubkey \<Rightarrow> leaf_node list \<Rightarrow> open_orders \<Rightarrow> engine \<Rightarrow> (open_orders \<times> engine) dex" where
  "cancel_leaves side address [] oo e = dex_ok (oo, e)"
| "cancel_leaves side address (leaf # rest) oo e =
     dex_bind (unwrap (at_slot (oo_orders oo) (leaf_owner_slot leaf))) (\<lambda>order_id.
     dex_bind (cancel_leaf_node e leaf side oo address order_id) (\<lambda>(oo, e).
     cancel_leaves side address rest oo e))"

definition process_prune ::
  "nat \<Rightarrow> pubkey \<Rightarrow> open_orders \<Rightarrow> order_book_state \<Rightarrow> event_queue \<Rightarrow> (open_orders \<times> order_book_state \<times> event_queue) dex" where
  "process_prune limit address oo b event_q =
     dex_bind (remove_all \<lparr>ob = b, evq = event_q, proceeds = proceeds_zero\<rparr> address limit) (\<lambda>((bids_removed, asks_removed), e).
     dex_bind (cancel_leaves Bid address bids_removed oo e) (\<lambda>(oo, e).
     dex_bind (cancel_leaves Ask address asks_removed oo e) (\<lambda>(oo, e).
     dex_ok (oo, ob e, evq e))))"

end
