(* ===== verification/Dex_Engine.thy ===== *)
theory Dex_Engine
  imports Dex_Matching
begin

text \<open>
  What the matching engine changes, seen through the lists of orders of both sides of the book, the list of
  pending events and the proceeds. Every operation that succeeds is described by its effect on these.
\<close>

section \<open>Observations\<close>

definition bid_list :: "engine \<Rightarrow> leaf_node list" where
  "bid_list e = slab_orders (bids (ob e))"

definition ask_list :: "engine \<Rightarrow> leaf_node list" where
  "ask_list e = slab_orders (asks (ob e))"

definition views_of :: "event list \<Rightarrow> event_view list" where
  "views_of evs = concat (map (\<lambda>ev. case event_as_view ev of Some (Inr v) \<Rightarrow> [v] | _ \<Rightarrow> []) evs)"

definition pending_of :: "event_queue \<Rightarrow> event_view list" where
  "pending_of q = views_of (q_items event_header q)"

abbreviation pending :: "engine \<Rightarrow> event_view list" where
  "pending e \<equiv> pending_of (evq e)"

text \<open>The views whose packing can be read back.\<close>

definition view_ok :: "event_view \<Rightarrow> bool" where
  "view_ok view = (case view of Fill f \<Rightarrow> f_client_order_id f \<noteq> Some 0 | Out o' \<Rightarrow> o_client_order_id o' \<noteq> Some 0)"

definition queue_ok :: "event_queue \<Rightarrow> bool" where
  "queue_ok q \<longleftrightarrow> q_ok event_header q \<and> (\<forall>ev \<in> set (q_items event_header q). \<exists>v. view_ok v \<and> ev = event_new v)"

definition price_of :: "leaf_node \<Rightarrow> nat" where
  "price_of x = unat (drop_bit 64 (leaf_key x))"

definition leaf_ok :: "leaf_node \<Rightarrow> bool" where
  "leaf_ok x \<longleftrightarrow> 0 < leaf_quantity x \<and> 0 < price_of x \<and> leaf_tier x \<noteq> None"

definition lots_ok :: "market_state \<Rightarrow> bool" where
  "lots_ok ms \<longleftrightarrow> 0 < coin_lot_size ms \<and> 0 < pc_lot_size ms"

text \<open>The invariant of the engine: both trees and the queue are well formed, orders are live, and the book is not
  crossed.\<close>

definition uncrossed :: "engine \<Rightarrow> bool" where
  "uncrossed e \<longleftrightarrow> (\<forall>b \<in> set (bid_list e). \<forall>a \<in> set (ask_list e). price_of b < price_of a)"

definition engine_ok :: "engine \<Rightarrow> bool" where
  "engine_ok e \<longleftrightarrow>
     slab_ok (bids (ob e)) \<and> slab_ok (asks (ob e)) \<and> queue_ok (evq e) \<and> lots_ok (market_state (ob e)) \<and>
     (\<forall>x \<in> set (bid_list e) \<union> set (ask_list e). leaf_ok x) \<and> uncrossed e"

section \<open>Arithmetic\<close>

named_theorems arith64 \<open>results of checked arithmetic\<close>

lemma mul64_ok [arith64]: "mul64 a b = Some (Inr c) \<longleftrightarrow> a * b \<le> u64_max \<and> c = a * b"
  by (auto simp: mul64_def dex_result)

lemma add64_ok [arith64]: "add64 a b = Some (Inr c) \<longleftrightarrow> a + b \<le> u64_max \<and> c = a + b"
  by (auto simp: add64_def dex_result)

lemma sub64_ok [arith64]: "sub64 a b = Some (Inr c) \<longleftrightarrow> b \<le> a \<and> c = a - b"
  by (auto simp: sub64_def dex_result)

lemma div64_ok [arith64]: "div64 a b = Some (Inr c) \<longleftrightarrow> b \<noteq> 0 \<and> c = a div b"
  by (auto simp: div64_def dex_result)

lemma mul64_3_ok [arith64]: "mul64_3 a b c = Some (Inr d) \<longleftrightarrow> a * b \<le> u64_max \<and> a * b * c \<le> u64_max \<and> d = a * b * c"
  by (auto simp: mul64_3_def dex_result arith64)

lemma nonzero_not_zero [simp]: "nonzero n \<noteq> Some 0"
  by (simp add: nonzero_def)

lemma leaf_price_ok: "leaf_price x = Some p \<longleftrightarrow> p = price_of x \<and> 0 < p"
  by (auto simp: leaf_price_def price_of_def Let_def)

lemma price_of_set_quantity [simp]: "price_of (set_quantity x q) = price_of x" "leaf_key (set_quantity x q) = leaf_key x"
  "leaf_owner (set_quantity x q) = leaf_owner x" "leaf_owner_slot (set_quantity x q) = leaf_owner_slot x"
  "leaf_quantity (set_quantity x q) = q" "leaf_tier (set_quantity x q) = leaf_tier x"
  "leaf_client_order_id (set_quantity x q) = leaf_client_order_id x"
  by (simp_all add: set_quantity_def price_of_def leaf_tier_def)

section \<open>Steps\<close>

lemma views_of_simps [simp]:
  "views_of [] = []" "views_of (xs @ ys) = views_of xs @ views_of ys"
  "view_ok v \<Longrightarrow> views_of [event_new v] = [v]" "view_ok v \<Longrightarrow> views_of (event_new v # evs) = v # views_of evs"
  using event_as_view_new [of v] by (simp_all add: views_of_def view_ok_def)

lemma push_event_ok:
  assumes "push_event q v = Some (Inr q')" "queue_ok q" "view_ok v"
  shows "queue_ok q'" "pending_of q' = pending_of q @ [v]" "length (buf q') = length (buf q)"
proof -
  have push: "push_back event_header q (event_new v) = Some (None, q')"
    using assms(1) by (auto simp: push_event_def dex_result split: if_splits)
  then have room: "\<not> q_full event_header q" "seq_num (header q) + Suc 0 \<le> u64_max"
    by (auto simp: push_back_def event_header_def Let_def split: if_splits Option.bind_splits)
  have ok: "q_ok event_header q" using assms(2) by (simp add: queue_ok_def)
  obtain q2 where "push_back event_header q (event_new v) = Some (None, q2)" "q_ok event_header q2"
      "q_items event_header q2 = q_items event_header q @ [event_new v]" "length (buf q2) = length (buf q)"
    using eq.push_room [OF ok room(1), of 0 "event_new v"] room(2) by auto
  with push assms(2,3) show "queue_ok q'" "pending_of q' = pending_of q @ [v]" "length (buf q') = length (buf q)"
    by (auto simp: queue_ok_def pending_of_def)
qed

lemma emit_ok:
  assumes "emit e v = Some (Inr e')" "queue_ok (evq e)" "view_ok v"
  shows "ob e' = ob e" "proceeds e' = proceeds e" "pending e' = pending e @ [v]" "queue_ok (evq e')"
  using assms push_event_ok by (auto simp: emit_def dex_result)

lemma set_orders_obs [simp]:
  "bids (ob (set_orders e Bid s)) = s" "asks (ob (set_orders e Bid s)) = asks (ob e)"
  "asks (ob (set_orders e Ask s)) = s" "bids (ob (set_orders e Ask s)) = bids (ob e)"
  "market_state (ob (set_orders e side s)) = market_state (ob e)"
  "evq (set_orders e side s) = evq e" "proceeds (set_orders e side s) = proceeds e"
  by (simp_all add: set_orders_def split: side.splits)

lemma orders_mut_simps [simp]: "orders_mut b Bid = bids b" "orders_mut b Ask = asks b"
  by (simp_all add: orders_mut_def)

abbreviation side_list :: "engine \<Rightarrow> side \<Rightarrow> leaf_node list" where
  "side_list e side \<equiv> slab_orders (orders_mut (ob e) side)"

text \<open>The other side of the book, the market, the events and the proceeds stay as they are.\<close>

definition only_orders :: "side \<Rightarrow> engine \<Rightarrow> engine \<Rightarrow> bool" where
  "only_orders side e e' \<longleftrightarrow>
     slab_ok (orders_mut (ob e') side) \<and>
     (case side of Bid \<Rightarrow> asks (ob e') = asks (ob e) | Ask \<Rightarrow> bids (ob e') = bids (ob e)) \<and>
     market_state (ob e') = market_state (ob e) \<and> evq e' = evq e \<and> proceeds e' = proceeds e"

lemma set_orders_only: "slab_ok s \<Longrightarrow> only_orders side e (set_orders e side s)"
  "orders_mut (ob (set_orders e side s)) side = s"
  by (cases side; simp add: only_orders_def)+

lemma remove_order_id_ok:
  assumes "remove_order_id e side k = Some (Inr e')" "slab_ok (orders_mut (ob e) side)"
  shows "side_list e' side = ord_delete k (side_list e side)" "ord_find k (side_list e side) \<noteq> None" "only_orders side e e'"
proof -
  obtain s where s: "remove_by_key (orders_mut (ob e) side) k = Some (ord_find k (side_list e side), s)" "slab_ok s"
      "slab_orders s = ord_delete k (side_list e side)"
    using slab.rem [OF assms(2)] by blast
  with assms(1) have "e' = set_orders e side s" "ord_find k (side_list e side) \<noteq> None"
    by (auto simp: remove_order_id_def dex_result split: if_splits)
  with s(2,3) show "side_list e' side = ord_delete k (side_list e side)" "ord_find k (side_list e side) \<noteq> None"
    "only_orders side e e'" by (simp_all add: set_orders_only)
qed

text \<open>The best order of a side.\<close>

definition best_of :: "side \<Rightarrow> leaf_node list \<Rightarrow> leaf_node" where
  "best_of side xs = (case side of Bid \<Rightarrow> last xs | Ask \<Rightarrow> hd xs)"

lemma best_in: "xs \<noteq> [] \<Longrightarrow> best_of side xs \<in> set xs"
  by (simp add: best_of_def split: side.splits)

lemma find_bbo_eq: "find_bbo b side = find_min_max (orders_mut b side) (side = Bid)"
  by (simp add: find_bbo_def find_max_def find_min_def split: side.splits)

lemma find_bbo_ok:
  assumes "find_bbo (ob e) side = Some r" "slab_ok (orders_mut (ob e) side)"
  shows "r = None \<longleftrightarrow> side_list e side = []"
    and "r = Some h \<Longrightarrow> slab_get (orders_mut (ob e) side) h = Some (LeafNode (best_of side (side_list e side)))"
  using assms slab.best_none [OF assms(2), of "side = Bid"] slab.best_some [OF assms(2), of "side = Bid"]
  by (cases "side_list e side = []"; cases side; fastforce simp: find_bbo_eq best_of_def)+

lemma write_leaf_ok:
  assumes "write_leaf e side h y = Some (Inr e')" "slab_ok (orders_mut (ob e) side)" "find_bbo (ob e) side = Some (Some h)"
    and "leaf_key y = leaf_key (best_of side (side_list e side))"
  shows "side_list e' side = ord_insert y (side_list e side)" "only_orders side e e'"
proof -
  let ?s = "orders_mut (ob e) side"
  have "find_min_max ?s (side = Bid) = Some (Some h)" using assms(3) by (simp add: find_bbo_eq)
  from slab.put [OF assms(2) this find_bbo_ok(2) [OF assms(3,2) refl] assms(4)]
  obtain s where s: "slab_put ?s h (LeafNode y) = Some s" "slab_ok s" "slab_orders s = ord_insert y (slab_orders ?s)"
    by blast
  with assms(1) have "e' = set_orders e side s" by (simp add: write_leaf_def dex_result)
  with s show "side_list e' side = ord_insert y (side_list e side)" "only_orders side e e'"
    by (simp_all add: set_orders_only)
qed

end
