(* ===== verification/Dex_Ledger.thy ===== *)
theory Dex_Ledger
  imports Dex_Engine
begin

text \<open>
  The books of the exchange: what an order on the book locks, what a pending event will do to the account of its
  owner when it is consumed, and the quantities that a step of the engine conserves.
\<close>

section \<open>What orders and events stand for\<close>

definition side_unit :: "market_state \<Rightarrow> side \<Rightarrow> leaf_node \<Rightarrow> nat" where
  "side_unit ms side x = (case side of Bid \<Rightarrow> price_of x * pc_lot_size ms | Ask \<Rightarrow> coin_lot_size ms)"

definition side_worth :: "market_state \<Rightarrow> side \<Rightarrow> leaf_node \<Rightarrow> nat" where
  "side_worth ms side x = leaf_quantity x * side_unit ms side x"

text \<open>The changes of a total when an event is consumed: only the fills of makers change totals.\<close>

definition coin_in :: "event_view \<Rightarrow> nat" where
  "coin_in v = (case v of Fill f \<Rightarrow> if f_maker f \<and> f_side f = Bid then f_native_qty_received f else 0 | Out _ \<Rightarrow> 0)"

definition coin_out :: "event_view \<Rightarrow> nat" where
  "coin_out v = (case v of Fill f \<Rightarrow> if f_maker f \<and> f_side f = Ask then f_native_qty_paid f else 0 | Out _ \<Rightarrow> 0)"

definition pc_in :: "event_view \<Rightarrow> nat" where
  "pc_in v = (case v of Fill f \<Rightarrow> if f_maker f \<and> f_side f = Ask then f_native_qty_received f else 0 | Out _ \<Rightarrow> 0)"

definition pc_out :: "event_view \<Rightarrow> nat" where
  "pc_out v = (case v of Fill f \<Rightarrow> if f_maker f \<and> f_side f = Bid then f_native_qty_paid f else 0 | Out _ \<Rightarrow> 0)"

text \<open>The funds locked by an order of a side that stop being locked, and the referrer's rebate of a taker.\<close>

definition view_locked :: "side \<Rightarrow> event_view \<Rightarrow> nat" where
  "view_locked side v =
     (case v of
        Fill f \<Rightarrow> if f_maker f \<and> f_side f = side
                  then f_native_qty_paid f + (if side = Bid then f_native_fee_or_rebate f else 0) else 0
      | Out u \<Rightarrow> if o_side u = side \<and> o_release_funds u then o_native_qty_unlocked u else 0)"

definition taker_rebate :: "event_view \<Rightarrow> nat" where
  "taker_rebate v = (case v of Fill f \<Rightarrow> if f_maker f then 0 else referrer_rebate (f_native_fee_or_rebate f) | Out _ \<Rightarrow> 0)"

definition view_owner :: "event_view \<Rightarrow> pubkey" where
  "view_owner v = (case v of Fill f \<Rightarrow> f_owner f | Out u \<Rightarrow> o_owner u)"

lemmas view_defs = coin_in_def coin_out_def pc_in_def pc_out_def view_locked_def taker_rebate_def view_owner_def

section \<open>Sums\<close>

abbreviation total :: "('a \<Rightarrow> nat) \<Rightarrow> 'a list \<Rightarrow> nat" where
  "total f xs \<equiv> sum_list (map f xs)"

definition owned :: "('a \<Rightarrow> pubkey) \<Rightarrow> pubkey \<Rightarrow> ('a \<Rightarrow> nat) \<Rightarrow> 'a \<Rightarrow> nat" where
  "owned own w f x = (if own x = w then f x else 0)"

lemma mset_ord_insert: "mset (ord_insert y xs) = add_mset y (mset (ord_delete (leaf_key y) xs))"
proof (induction xs)
  case (Cons x xs)
  then show ?case
    by (cases "leaf_key x" "leaf_key y" rule: linorder_cases) (auto simp: ord_insert_def ord_delete_def)
qed (simp add: ord_insert_def ord_delete_def)

lemma total_mset: "mset xs = mset ys \<Longrightarrow> total f xs = total f ys"
  by (metis mset_map sum_mset_sum_list)

lemma total_insert: "total f (ord_insert y xs) = f y + total f (ord_delete (leaf_key y) xs)"
  using total_mset [of "ord_insert y xs" "y # ord_delete (leaf_key y) xs" f] by (simp add: mset_ord_insert)

lemma total_delete:
  assumes "sorted_wrt key_less xs" "x \<in> set xs"
  shows "total f xs = f x + total f (ord_delete (leaf_key x) xs)"
  using assms
proof (induction xs)
  case (Cons y xs)
  show ?case
  proof (cases "x = y")
    case True
    have "ord_delete (leaf_key x) xs = xs"
      using Cons.prems(1) True by (auto simp: ord_delete_def filter_id_conv)
    with True show ?thesis by (simp add: ord_delete_def)
  next
    case False
    then have "x \<in> set xs" using Cons.prems(2) by simp
    moreover from this have "leaf_key y \<noteq> leaf_key x" using Cons.prems(1) by auto
    ultimately show ?thesis using Cons by (simp add: ord_delete_def)
  qed
qed simp

lemma delete_absent: "ord_find k xs = None \<Longrightarrow> ord_delete k xs = xs"
  by (auto simp: ord_find_None ord_delete_def filter_id_conv)

text \<open>The best order of a side loses part of its quantity, or leaves the book.\<close>

definition reduce_best :: "side \<Rightarrow> nat \<Rightarrow> leaf_node list \<Rightarrow> leaf_node list" where
  "reduce_best side n xs =
     (let best = best_of side xs; left = leaf_quantity best - n in
      if left = 0 then ord_delete (leaf_key best) xs else ord_insert (set_quantity best left) xs)"

lemma total_reduce_best:
  assumes "sorted_wrt key_less xs" "xs \<noteq> []" "f (set_quantity (best_of side xs) 0) = 0"
  shows "total f (reduce_best side n xs) + f (best_of side xs) =
    total f xs + f (set_quantity (best_of side xs) (leaf_quantity (best_of side xs) - n))"
  using total_delete [OF assms(1) best_in [OF assms(2)], of f side] assms(3)
  by (simp add: reduce_best_def Let_def total_insert)

lemma set_reduce_best:
  assumes "x \<in> set (reduce_best side n xs)" "xs \<noteq> []"
  shows "\<exists>y \<in> set xs. leaf_key x = leaf_key y \<and> leaf_owner x = leaf_owner y \<and> leaf_owner_slot x = leaf_owner_slot y \<and>
    leaf_tier x = leaf_tier y \<and> leaf_client_order_id x = leaf_client_order_id y \<and> (0 < leaf_quantity y \<longrightarrow> 0 < leaf_quantity x)"
  using assms best_in [OF assms(2), of side]
  by (auto simp: reduce_best_def Let_def ord_insert_set ord_delete_set split: if_splits)

section \<open>Locked funds and conservation\<close>

definition locked :: "side \<Rightarrow> engine \<Rightarrow> pubkey \<Rightarrow> nat" where
  "locked side e w =
     total (owned leaf_owner w (side_worth (market_state (ob e)) side)) (side_list e side) +
     total (owned view_owner w (view_locked side)) (pending e)"

text \<open>What the taker has given up for the order so far: the funds still to be matched, those paid and those
  released.\<close>

definition spent_coin :: "engine \<Rightarrow> nat \<Rightarrow> nat" where
  "spent_coin e q = (q + coin_debit (proceeds e) + coin_unlocked (proceeds e)) * coin_lot_size (market_state (ob e))"

definition spent_pc :: "engine \<Rightarrow> nat \<Rightarrow> nat" where
  "spent_pc e l = l + native_pc_debit (proceeds e) + native_pc_unlocked (proceeds e)"

text \<open>The parts of the market that the engine never changes.\<close>

definition same_market :: "market_state \<Rightarrow> market_state \<Rightarrow> bool" where
  "same_market ms ms' \<longleftrightarrow>
     ms\<lparr>pc_deposits_total := 0, pc_fees_accrued := 0, referrer_rebates_accrued := 0\<rparr> =
     ms'\<lparr>pc_deposits_total := 0, pc_fees_accrued := 0, referrer_rebates_accrued := 0\<rparr>"

text \<open>A step of the engine for the taker \<open>t\<close>, whose order has \<open>q\<close> coin lots and \<open>l\<close> units of the price currency
  left to match before it and \<open>q'\<close> and \<open>l'\<close> after it.\<close>

definition conserves :: "pubkey \<Rightarrow> nat \<Rightarrow> nat \<Rightarrow> engine \<Rightarrow> nat \<Rightarrow> nat \<Rightarrow> engine \<Rightarrow> bool" where
  "conserves t q l e q' l' e' \<longleftrightarrow>
     (let ms = market_state (ob e); ms' = market_state (ob e'); pr = proceeds e; pr' = proceeds e';
          lot = coin_lot_size ms in
      same_market ms ms' \<and>
      (\<forall>w. locked Ask e' w + (if w = t then spent_coin e' q' else 0) = locked Ask e w + (if w = t then spent_coin e q else 0)) \<and>
      (\<forall>w. locked Bid e' w + (if w = t then spent_pc e' l' else 0) = locked Bid e w + (if w = t then spent_pc e l else 0)) \<and>
      total coin_in (pending e') + coin_debit pr * lot = total coin_in (pending e) + coin_debit pr' * lot \<and>
      total coin_out (pending e') + coin_credit pr * lot = total coin_out (pending e) + coin_credit pr' * lot \<and>
      pc_deposits_total ms' + total pc_out (pending e') + total pc_in (pending e) + native_pc_credit pr + native_pc_debit pr' =
        pc_deposits_total ms + total pc_out (pending e) + total pc_in (pending e') + native_pc_credit pr' + native_pc_debit pr \<and>
      pc_deposits_total ms' + pc_fees_accrued ms' + referrer_rebates_accrued ms' =
        pc_deposits_total ms + pc_fees_accrued ms + referrer_rebates_accrued ms \<and>
      referrer_rebates_accrued ms' + total taker_rebate (pending e) = referrer_rebates_accrued ms + total taker_rebate (pending e'))"

lemma same_market_lots: "same_market ms ms' \<Longrightarrow> coin_lot_size ms' = coin_lot_size ms"
  "same_market ms ms' \<Longrightarrow> pc_lot_size ms' = pc_lot_size ms"
  unfolding same_market_def by (drule arg_cong [of _ _ coin_lot_size], simp) (drule arg_cong [of _ _ pc_lot_size], simp)

lemma same_market_trans: "same_market a b \<Longrightarrow> same_market b c \<Longrightarrow> same_market a c"
  by (simp add: same_market_def)

lemma conserves_refl: "conserves t q l e q l e"
  by (simp add: conserves_def same_market_def Let_def)

lemma conserves_trans:
  assumes "conserves t q l e q1 l1 e1" "conserves t q1 l1 e1 q2 l2 e2"
  shows "conserves t q l e q2 l2 e2"
proof -
  have m: "same_market (market_state (ob e)) (market_state (ob e1))" "same_market (market_state (ob e1)) (market_state (ob e2))"
    using assms by (simp_all add: conserves_def Let_def)
  note a = assms(1) [unfolded conserves_def Let_def]
  note b = assms(2) [unfolded conserves_def Let_def same_market_lots(1) [OF m(1)]]
  have "locked Ask e2 w + (if w = t then spent_coin e2 q2 else 0) = locked Ask e w + (if w = t then spent_coin e q else 0)"
    "locked Bid e2 w + (if w = t then spent_pc e2 l2 else 0) = locked Bid e w + (if w = t then spent_pc e l else 0)" for w
    using a b by presburger+
  moreover have "same_market (market_state (ob e)) (market_state (ob e2))" using m by (rule same_market_trans)
  ultimately show ?thesis
    unfolding conserves_def Let_def by (intro conjI allI) (assumption | insert a b, elim conjE, linarith)+
qed

lemma same_market_worth: "same_market ms ms' \<Longrightarrow> side_worth ms' = side_worth ms"
  by (auto simp: fun_eq_iff side_worth_def side_unit_def same_market_lots split: side.splits)

end
