(* ===== verification/Dex_Trades.thy ===== *)
theory Dex_Trades
  imports Dex_Ledger
begin

text \<open>
  The effect of the parts of \<open>new_ask\<close> and \<open>new_bid\<close> that succeed: the orders taken from the book, the events, the
  proceeds and the fees.
\<close>

abbreviation maker_fill :: "side \<Rightarrow> leaf_node \<Rightarrow> fee_tier \<Rightarrow> nat \<Rightarrow> nat \<Rightarrow> nat \<Rightarrow> event_view" where
  "maker_fill side x tier paid received rebate \<equiv>
     Fill \<lparr>f_side = side, f_maker = True, f_native_qty_paid = paid, f_native_qty_received = received,
       f_native_fee_or_rebate = rebate, f_order_id = leaf_key x, f_owner = leaf_owner x,
       f_owner_slot = leaf_owner_slot x, f_fee_tier = tier, f_client_order_id = nonzero (leaf_client_order_id x)\<rparr>"

abbreviation leaf_out :: "side \<Rightarrow> leaf_node \<Rightarrow> nat \<Rightarrow> nat \<Rightarrow> event_view" where
  "leaf_out side x unlocked still_locked \<equiv>
     Out \<lparr>o_side = side, o_release_funds = True, o_native_qty_unlocked = unlocked,
       o_native_qty_still_locked = still_locked, o_order_id = leaf_key x, o_owner = leaf_owner x,
       o_owner_slot = leaf_owner_slot x, o_client_order_id = nonzero (leaf_client_order_id x)\<rparr>"

lemma view_ok_simps [simp]:
  "view_ok (Fill f) \<longleftrightarrow> f_client_order_id f \<noteq> Some 0" "view_ok (Out u) \<longleftrightarrow> o_client_order_id u \<noteq> Some 0"
  by (simp_all add: view_ok_def)

lemma delete_insert:
  assumes "sorted_wrt key_less xs"
  shows "ord_delete (leaf_key y) (ord_insert y xs) = ord_delete (leaf_key y) xs"
  using assms by (intro sorted_by_key_unique) (auto simp: ord_delete_sorted ord_insert_sorted ord_delete_set ord_insert_set)

section \<open>The maker's side\<close>

text \<open>A step that takes \<open>n\<close> lots from the best order of a side and adds events; the other side stays as it is.\<close>

definition took :: "side \<Rightarrow> nat \<Rightarrow> event_view list \<Rightarrow> engine \<Rightarrow> engine \<Rightarrow> bool" where
  "took side n vs e e' \<longleftrightarrow>
     side_list e' side = reduce_best side n (side_list e side) \<and> slab_ok (orders_mut (ob e') side) \<and>
     (\<forall>s. s \<noteq> side \<longrightarrow> orders_mut (ob e') s = orders_mut (ob e) s) \<and>
     pending e' = pending e @ vs \<and> queue_ok (evq e')"

text \<open>A step that only adds events, as far as the book and the queue are concerned.\<close>

definition emitted :: "event_view list \<Rightarrow> engine \<Rightarrow> engine \<Rightarrow> bool" where
  "emitted vs e e' \<longleftrightarrow>
     (\<forall>s. orders_mut (ob e') s = orders_mut (ob e) s) \<and> pending e' = pending e @ vs \<and> queue_ok (evq e')"

abbreviation same_money :: "engine \<Rightarrow> engine \<Rightarrow> bool" where
  "same_money e e' \<equiv> market_state (ob e') = market_state (ob e) \<and> proceeds e' = proceeds e"

lemma emitted_emit: "emit e v = Some (Inr e') \<Longrightarrow> queue_ok (evq e) \<Longrightarrow> view_ok v \<Longrightarrow> emitted [v] e e' \<and> same_money e e'"
  using emit_ok by (simp add: emitted_def)

lemma took_emitted: "took side n vs e e1 \<Longrightarrow> emitted us e1 e2 \<Longrightarrow> took side n (vs @ us) e e2"
  by (simp add: took_def emitted_def)

lemma emitted_trans: "emitted vs e e1 \<Longrightarrow> emitted us e1 e2 \<Longrightarrow> emitted (vs @ us) e e2"
  by (simp add: emitted_def)

lemma emitted_proceeds [simp]: "emitted vs e (e'\<lparr>proceeds := pr\<rparr>) = emitted vs e e'" "emitted vs (e\<lparr>proceeds := pr\<rparr>) e' = emitted vs e e'"
  by (simp_all add: emitted_def)

lemma all_side: "(\<forall>s. P s) \<longleftrightarrow> P Bid \<and> P Ask"
  by (metis side.exhaust)

lemma only_orders_eq:
  "only_orders side e e' \<longleftrightarrow> slab_ok (orders_mut (ob e') side) \<and> (\<forall>s. s \<noteq> side \<longrightarrow> orders_mut (ob e') s = orders_mut (ob e) s) \<and>
     market_state (ob e') = market_state (ob e) \<and> evq e' = evq e \<and> proceeds e' = proceeds e"
  by (cases side) (simp_all add: only_orders_def all_side)

text \<open>The events of a maker are emitted before, between and after the changes of the order.\<close>

lemma took_self_trade:
  assumes "emit e v = Some (Inr e1)" "queue_ok (evq e)" "view_ok v" "slab_ok (orders_mut (ob e) side)"
    and "find_bbo (ob e) side = Some (Some h)" "best = best_of side (side_list e side)" "n \<le> leaf_quantity best"
    and "(if leaf_quantity best - n = 0 then remove_order_id e1 side (leaf_key best)
          else write_leaf e1 side h (set_quantity best (leaf_quantity best - n))) = Some (Inr e2)"
  shows "took side n [v] e e2 \<and> same_money e e2"
proof -
  note em = emit_ok [OF assms(1-3)]
  have best: "best = best_of side (side_list e1 side)" using assms(6) em(1) by simp
  have pre: "slab_ok (orders_mut (ob e1) side)" "find_bbo (ob e1) side = Some (Some h)" using assms(4,5) em(1) by simp_all
  have "side_list e2 side = reduce_best side n (side_list e1 side) \<and> only_orders side e1 e2"
  proof (cases "leaf_quantity best - n = 0")
    case True
    with assms(8) remove_order_id_ok [OF _ pre(1), of "leaf_key best" e2] best show ?thesis
      by (simp add: reduce_best_def Let_def)
  next
    case False
    with assms(8) write_leaf_ok [OF _ pre, of "set_quantity best (leaf_quantity best - n)" e2] best show ?thesis
      by (simp add: reduce_best_def Let_def)
  qed
  then show ?thesis using em by (auto simp: took_def only_orders_eq)
qed

lemma took_fill:
  assumes "emit e v = Some (Inr e1)" "queue_ok (evq e)" "view_ok v" "slab_ok (orders_mut (ob e) side)"
    and "find_bbo (ob e) side = Some (Some h)" "best = best_of side (side_list e side)" "n \<le> leaf_quantity best"
    and "write_leaf e1 side h (set_quantity best (leaf_quantity best - n)) = Some (Inr e2)" "view_ok u"
    and "(if leaf_quantity best - n = 0 then dex_bind (emit e2 u) (\<lambda>e. remove_order_id e side (leaf_key best))
          else dex_ok e2) = Some (Inr e3)"
  shows "took side n (v # (if leaf_quantity best = n then [u] else [])) e e3 \<and> same_money e e3"
proof -
  note em = emit_ok [OF assms(1-3)]
  have best: "best = best_of side (side_list e1 side)" using assms(6) em(1) by simp
  have pre: "slab_ok (orders_mut (ob e1) side)" "find_bbo (ob e1) side = Some (Some h)" using assms(4,5) em(1) by simp_all
  note wr = write_leaf_ok [OF assms(8) pre] 
  have list2: "side_list e2 side = ord_insert (set_quantity best (leaf_quantity best - n)) (side_list e1 side)"
    and only2: "only_orders side e1 e2" using wr best by simp_all
  show ?thesis
  proof (cases "leaf_quantity best - n = 0")
    case True
    then obtain e' where e': "emit e2 u = Some (Inr e')" "remove_order_id e' side (leaf_key best) = Some (Inr e3)"
      using assms(10) by (auto simp: dex_result)
    have q2: "queue_ok (evq e2)" using only2 em(4) by (simp add: only_orders_eq)
    note em2 = emit_ok [OF e'(1) q2 assms(9)]
    have ok: "slab_ok (orders_mut (ob e') side)" using only2 em2(1) by (simp add: only_orders_eq)
    have sorted: "sorted_wrt key_less (side_list e1 side)" using pre(1) by (rule slab_orders_sorted)
    have "side_list e3 side = ord_delete (leaf_key best) (side_list e1 side)"
      using remove_order_id_ok(1) [OF e'(2) ok] em2(1) list2 delete_insert [OF sorted, of "set_quantity best (leaf_quantity best - n)"]
      by simp
    then have "side_list e3 side = reduce_best side n (side_list e side)"
      using True best em(1) by (simp add: reduce_best_def Let_def)
    then show ?thesis
      using remove_order_id_ok(3) [OF e'(2) ok] em em2 only2 True assms(7) by (auto simp: took_def only_orders_eq)
  next
    case False
    then have "e3 = e2" using assms(10) by (auto simp: dex_result)
    moreover have "side_list e2 side = reduce_best side n (side_list e side)"
      using list2 best em(1) False by (simp add: reduce_best_def Let_def)
    ultimately show ?thesis using False em only2 by (auto simp: took_def only_orders_eq)
  qed
qed

section \<open>The parts of a new ask\<close>

lemma ask_fill_ok:
  assumes "ask_fill p e h best price n unf = Some (Inr (x, e'))" "queue_ok (evq e)" "slab_ok (bids (ob e))"
    and "find_bbo (ob e) Bid = Some (Some h)" "best = best_of Bid (bid_list e)"
  obtains tier rebate worth where "leaf_tier best = Some tier" "worth = n * price * pc_lot_size (market_state (ob e))"
    "worth \<le> u64_max" "maker_rebate tier worth = Some rebate" "rebate \<le> worth" "n \<le> leaf_quantity best" "n \<le> unf"
    "x = Break \<lparr>lb_done = False, lb_crossed = True, lb_qty = unf - n, lb_price = n * price, lb_rebates = rebate\<rparr>"
    "took Bid n (maker_fill Bid best tier (worth - rebate) (n * coin_lot_size (market_state (ob e))) rebate #
      (if leaf_quantity best = n then [leaf_out Bid best 0 0] else [])) e e'" "same_money e e'"
proof -
  let ?ms = "market_state (ob e)"
  obtain tier rebate e1 e2 where r: "leaf_tier best = Some tier" "n * price * pc_lot_size ?ms \<le> u64_max"
      "maker_rebate tier (n * price * pc_lot_size ?ms) = Some rebate" "rebate \<le> n * price * pc_lot_size ?ms"
      "n \<le> leaf_quantity best" "n \<le> unf"
      "x = Break \<lparr>lb_done = False, lb_crossed = True, lb_qty = unf - n, lb_price = n * price, lb_rebates = rebate\<rparr>"
    and em: "emit e (maker_fill Bid best tier (n * price * pc_lot_size ?ms - rebate) (n * coin_lot_size ?ms) rebate) = Some (Inr e1)"
    and wr: "write_leaf e1 Bid h (set_quantity best (leaf_quantity best - n)) = Some (Inr e2)"
    and rm: "(if leaf_quantity best - n = 0 then
          dex_bind (emit e2 (leaf_out Bid best 0 0)) (\<lambda>e. remove_order_id e Bid (leaf_key best)) else dex_ok e2) = Some (Inr e')"
    using assms(1) unfolding ask_fill_def Let_def dex_result arith64 prod.inject by blast
  have "took Bid n (maker_fill Bid best tier (n * price * pc_lot_size ?ms - rebate) (n * coin_lot_size ?ms) rebate #
      (if leaf_quantity best = n then [leaf_out Bid best 0 0] else [])) e e' \<and> same_money e e'"
    using took_fill [OF em assms(2) _ _ assms(4) _ r(5) wr _ rm] assms(3,5) by (simp add: bid_list_def)
  with r show thesis using that by blast
qed

text \<open>The quantities that a self trade cancels on both sides.\<close>

definition self_trade_cancels :: "self_trade_behavior \<Rightarrow> nat \<Rightarrow> nat \<Rightarrow> nat \<Rightarrow> nat \<Rightarrow> bool" where
  "self_trade_cancels b n available give given_up \<longleftrightarrow>
     b = DecrementTake \<and> give = n \<and> given_up = n \<or> b = CancelProvide \<and> give = available \<and> given_up = 0"

lemma self_trade_qtys_ok: "self_trade_qtys b n available = Some (Inr (give, given_up)) \<longleftrightarrow> self_trade_cancels b n available give given_up"
  by (cases b) (auto simp: self_trade_qtys_def self_trade_cancels_def dex_result)

abbreviation ask_out :: "new_ask_params \<Rightarrow> nat \<Rightarrow> nat \<Rightarrow> event_view" where
  "ask_out p unlocked still_locked \<equiv>
     Out \<lparr>o_side = Ask, o_release_funds = False, o_native_qty_unlocked = unlocked,
       o_native_qty_still_locked = still_locked, o_order_id = na_order_id p, o_owner = na_owner p,
       o_owner_slot = na_owner_slot p, o_client_order_id = nonzero (na_client_order_id p)\<rparr>"

lemma release_coin_ok:
  "release_coin e n = Some (Inr e') \<longleftrightarrow> coin_unlocked (proceeds e) + n \<le> u64_max \<and>
     e' = e\<lparr>proceeds := (proceeds e)\<lparr>coin_unlocked := coin_unlocked (proceeds e) + n\<rparr>\<rparr>"
  by (auto simp: release_coin_def dex_result arith64)

lemma ask_self_trade_ok:
  assumes "ask_self_trade p e h best price n unf = Some (Inr (x, e'))" "queue_ok (evq e)" "slab_ok (bids (ob e))"
    and "find_bbo (ob e) Bid = Some (Some h)" "best = best_of Bid (bid_list e)"
  obtains give given_up e2 where "self_trade_cancels (na_self_trade_behavior p) n (leaf_quantity best) give given_up"
    "give \<le> leaf_quantity best" "given_up \<le> unf"
    "x = Return (map_option (\<lambda>n. \<lparr>coin_qty_remaining = n, native_pc_qty_remaining = None\<rparr>) (nonzero (unf - given_up)))"
    "took Bid give [leaf_out Bid best (give * price * pc_lot_size (market_state (ob e)))
        ((leaf_quantity best - give) * price * pc_lot_size (market_state (ob e)))] e e2"
    "emitted [ask_out p (given_up * coin_lot_size (market_state (ob e))) (unf - given_up)] e2 e'" "same_money e e2"
    "market_state (ob e') = market_state (ob e)"
    "proceeds e' = (proceeds e)\<lparr>coin_unlocked := coin_unlocked (proceeds e) + given_up\<rparr>"
proof -
  let ?ms = "market_state (ob e)"
  obtain give given_up e1 e2 e3 where r: "self_trade_cancels (na_self_trade_behavior p) n (leaf_quantity best) give given_up"
      "give \<le> leaf_quantity best" "given_up \<le> unf"
      "x = Return (map_option (\<lambda>n. \<lparr>coin_qty_remaining = n, native_pc_qty_remaining = None\<rparr>) (nonzero (unf - given_up)))"
    and em: "emit e (leaf_out Bid best (give * price * pc_lot_size ?ms) ((leaf_quantity best - give) * price * pc_lot_size ?ms)) = Some (Inr e1)"
    and wr: "(if leaf_quantity best - give = 0 then remove_order_id e1 Bid (leaf_key best)
          else write_leaf e1 Bid h (set_quantity best (leaf_quantity best - give))) = Some (Inr e2)"
    and em2: "emit e2 (ask_out p (given_up * coin_lot_size ?ms) (unf - given_up)) = Some (Inr e3)"
    and rl: "release_coin e3 given_up = Some (Inr e')"
    using assms(1) unfolding ask_self_trade_def Let_def dex_result arith64 prod.inject self_trade_qtys_ok split_paired_Ex prod.case
    by blast
  have took: "took Bid give [leaf_out Bid best (give * price * pc_lot_size ?ms) ((leaf_quantity best - give) * price * pc_lot_size ?ms)] e e2 \<and> same_money e e2"
    using took_self_trade [OF em assms(2) _ _ assms(4) _ r(2) wr] assms(3,5) by (simp add: bid_list_def)
  have out: "emitted [ask_out p (given_up * coin_lot_size ?ms) (unf - given_up)] e2 e3 \<and> same_money e2 e3"
    using took by (intro emitted_emit [OF em2]) (simp_all add: took_def)
  have "e' = e3\<lparr>proceeds := (proceeds e3)\<lparr>coin_unlocked := coin_unlocked (proceeds e3) + given_up\<rparr>\<rparr>"
    using rl by (simp add: release_coin_ok)
  with out have "emitted [ask_out p (given_up * coin_lot_size ?ms) (unf - given_up)] e2 e'" "market_state (ob e') = ?ms"
      "proceeds e' = (proceeds e)\<lparr>coin_unlocked := coin_unlocked (proceeds e) + given_up\<rparr>"
    using took by simp_all
  then show thesis using that [OF r _ _ _] took by blast
qed

lemma book_fees_ok:
  assumes "book_fees e fee rebates = Some (Inr e')"
  shows "rebates + referrer_rebate fee \<le> fee" "fee - rebates \<le> pc_deposits_total (market_state (ob e))"
    "e' = e\<lparr>ob := (ob e)\<lparr>market_state := (market_state (ob e))\<lparr>
       referrer_rebates_accrued := referrer_rebates_accrued (market_state (ob e)) + referrer_rebate fee,
       pc_fees_accrued := pc_fees_accrued (market_state (ob e)) + (fee - rebates - referrer_rebate fee),
       pc_deposits_total := pc_deposits_total (market_state (ob e)) - (fee - rebates)\<rparr>\<rparr>\<rparr>"
  using assms by (auto simp: book_fees_def dex_result arith64 Let_def)

lemma emitted_market [simp]: "emitted vs e (e'\<lparr>ob := (ob e')\<lparr>market_state := ms\<rparr>\<rparr>) = emitted vs e e'"
  by (simp add: emitted_def all_side)

lemma emitted_refl [simp]: "emitted [] e e = queue_ok (evq e)"
  by (simp add: emitted_def)

lemmas credit_defs = credit_native_pc_def credit_coin_def debit_coin_def debit_native_pc_def

abbreviation ask_taker_fill :: "new_ask_params \<Rightarrow> nat \<Rightarrow> nat \<Rightarrow> nat \<Rightarrow> event_view" where
  "ask_taker_fill p paid received fee \<equiv>
     Fill \<lparr>f_side = Ask, f_maker = False, f_native_qty_paid = paid, f_native_qty_received = received,
       f_native_fee_or_rebate = fee, f_order_id = na_order_id p, f_owner = na_owner p, f_owner_slot = na_owner_slot p,
       f_fee_tier = na_fee_tier p, f_client_order_id = nonzero (na_client_order_id p)\<rparr>"

lemma ask_settle_ok:
  assumes "ask_settle p e b = Some (Inr e')" "queue_ok (evq e)"
  obtains worth fee where "worth = lb_price b * pc_lot_size (market_state (ob e))" "worth \<le> u64_max"
    "taker_fee (na_fee_tier p) worth = Some fee" "fee \<le> worth" "lb_qty b \<le> na_max_qty p"
    "lb_rebates b + referrer_rebate fee \<le> fee" "fee - lb_rebates b \<le> pc_deposits_total (market_state (ob e))"
    "emitted (if 0 < worth then [ask_taker_fill p ((na_max_qty p - lb_qty b) * coin_lot_size (market_state (ob e))) (worth - fee) fee]
      else []) e e'"
    "market_state (ob e') = (market_state (ob e))\<lparr>
       referrer_rebates_accrued := referrer_rebates_accrued (market_state (ob e)) + referrer_rebate fee,
       pc_fees_accrued := pc_fees_accrued (market_state (ob e)) + (fee - lb_rebates b - referrer_rebate fee),
       pc_deposits_total := pc_deposits_total (market_state (ob e)) - (fee - lb_rebates b)\<rparr>"
    "proceeds e' = (proceeds e)\<lparr>native_pc_credit := native_pc_credit (proceeds e) + (worth - fee),
       coin_debit := coin_debit (proceeds e) + (na_max_qty p - lb_qty b)\<rparr>"
proof -
  let ?ms = "market_state (ob e)" and ?worth = "lb_price b * pc_lot_size (market_state (ob e))"
  let ?lots = "na_max_qty p - lb_qty b"
  obtain fee e1 e2 e3 where r: "?worth \<le> u64_max" "taker_fee (na_fee_tier p) ?worth = Some fee" "fee \<le> ?worth"
      "lb_qty b \<le> na_max_qty p"
    and e1: "credit_native_pc e (?worth - fee) = Some (Inr e1)" and e2: "debit_coin e1 ?lots = Some (Inr e2)"
    and e3: "(if 0 < ?worth then dex_bind (mul64 ?lots (coin_lot_size ?ms)) (\<lambda>paid. emit e2 (ask_taker_fill p paid (?worth - fee) fee))
        else dex_ok e2) = Some (Inr e3)"
    and fees: "book_fees e3 fee (lb_rebates b) = Some (Inr e')"
    using assms(1) unfolding ask_settle_def Let_def dex_result arith64 by blast
  have e2': "e2 = e\<lparr>proceeds := (proceeds e)\<lparr>native_pc_credit := native_pc_credit (proceeds e) + (?worth - fee),
      coin_debit := coin_debit (proceeds e) + ?lots\<rparr>\<rparr>"
    using e1 e2 by (auto simp: credit_defs dex_result arith64)
  have "emitted (if 0 < ?worth then [ask_taker_fill p (?lots * coin_lot_size ?ms) (?worth - fee) fee] else []) e2 e3 \<and> same_money e2 e3"
    using e3 assms(2) e2' emitted_emit [of e2 _ e3] by (cases "0 < ?worth") (auto simp: dex_result arith64)
  with book_fees_ok [OF fees] show thesis
    using that [OF refl r] e2' by simp
qed

text \<open>A new order is on the book, and when the book was full its least aggressive order has been booted out.\<close>

definition worst_of :: "side \<Rightarrow> leaf_node list \<Rightarrow> leaf_node" where
  "worst_of side xs = (case side of Bid \<Rightarrow> hd xs | Ask \<Rightarrow> last xs)"

definition posted :: "side \<Rightarrow> leaf_node \<Rightarrow> leaf_node list \<Rightarrow> engine \<Rightarrow> engine \<Rightarrow> bool" where
  "posted side new booted e e' \<longleftrightarrow>
     booted \<in> {[], [worst_of side (side_list e side)]} \<and> (booted \<noteq> [] \<longrightarrow> side_list e side \<noteq> []) \<and>
     side_list e' side = ord_insert new (foldr (\<lambda>x. ord_delete (leaf_key x)) booted (side_list e side)) \<and>
     slab_ok (orders_mut (ob e') side) \<and> (\<forall>s. s \<noteq> side \<longrightarrow> orders_mut (ob e') s = orders_mut (ob e) s) \<and>
     pending e' = pending e @ map (\<lambda>x. leaf_out side x (side_worth (market_state (ob e)) side x) 0) booted \<and>
     queue_ok (evq e') \<and> same_money e e'"

lemma insert_unwrap_ok: "insert_unwrap s x = Some (Inr s') \<longleftrightarrow> (\<exists>r. insert_leaf s x = Some (Inr r, s'))"
proof (cases "insert_leaf s x")
  case (Some r)
  then show ?thesis by (cases r; cases "fst r") (auto simp: insert_unwrap_def dex_result)
qed (simp add: insert_unwrap_def)

lemma insert_leaf_cases:
  assumes "insert_leaf s new = Some (res, s')" "slab_ok s" "ord_find (leaf_key new) (slab_orders s) = None"
  shows "slab_ok s' \<and> (case res of
      Inr _ \<Rightarrow> slab_orders s' = ord_insert new (slab_orders s) \<and> 2 * length (slab_orders s) + 1 \<le> capacity s
    | Inl _ \<Rightarrow> slab_orders s' = slab_orders s \<and> capacity s < 2 * length (slab_orders s) + 1)"
  using slab.ins_full [OF assms(2), of new] slab.ins_room [OF assms(2), of new] assms(1,3)
  by (cases "capacity s < 2 * length (slab_orders s) + 1") auto

lemma boot_ok:
  assumes "slab_ok s" "remove_extreme s b = Some (Some order, s1)" "ord_find (leaf_key new) (slab_orders s) = None"
    and "insert_leaf s1 new = Some (Inr r, s2)"
  shows "slab_orders s \<noteq> [] \<and> order = (if b then last (slab_orders s) else hd (slab_orders s)) \<and> slab_ok s2 \<and>
    slab_orders s2 = ord_insert new (ord_delete (leaf_key order) (slab_orders s))"
proof -
  have ne: "slab_orders s \<noteq> []"
    using assms(2) slab.best_none [OF assms(1)] by (auto simp: remove_extreme_def)
  define y where "y = (if b then last (slab_orders s) else hd (slab_orders s))"
  obtain s' where s': "remove_by_key s (leaf_key y) = Some (ord_find (leaf_key y) (slab_orders s), s')" "slab_ok s'"
      "slab_orders s' = ord_delete (leaf_key y) (slab_orders s)"
    using slab.rem [OF assms(1)] by blast
  have "ord_find (leaf_key y) (slab_orders s) = Some y" unfolding y_def by (rule slab.extreme_find [OF assms(1) ne])
  with s' assms(2) remove_extreme_correct [OF assms(1) ne, of b] have y: "order = y" "s1 = s'"
    by (simp_all add: y_def [symmetric])
  have "ord_find (leaf_key new) (slab_orders s1) = None"
    using assms(3) s'(3) y(2) by (auto simp: ord_find_None ord_delete_set)
  from insert_leaf_cases [OF assms(4) s'(2) [folded y(2)] this] ne y s'(3) show ?thesis by (simp add: y_def)
qed

lemma post_ask_ok:
  assumes "post_ask e new = Some (Inr e')" "queue_ok (evq e)" "slab_ok (asks (ob e))"
    and "ord_find (leaf_key new) (ask_list e) = None"
  obtains booted where "posted Ask new booted e e'"
proof -
  obtain res s where ins: "insert_leaf (asks (ob e)) new = Some (res, s)"
    using assms(1) by (auto simp: post_ask_def dex_result)
  note c = insert_leaf_cases [OF ins assms(3) assms(4) [unfolded ask_list_def]]
  show thesis
  proof (cases res)
    case (Inr r)
    then have "e' = set_orders e Ask s" using assms(1) ins by (simp add: post_ask_def dex_result)
    with c Inr assms(2) have "posted Ask new [] e e'" by (simp add: posted_def all_side)
    then show thesis by (rule that)
  next
    case (Inl l)
    then obtain order s1 e1 r2 s2 where rm: "remove_extreme s True = Some (Some order, s1)"
      and em: "emit e (leaf_out Ask order (leaf_quantity order * coin_lot_size (market_state (ob e))) 0) = Some (Inr e1)"
      and ins2: "insert_leaf s1 new = Some (Inr r2, s2)" and e': "e' = set_orders e1 Ask s2"
      using assms(1) ins
      by (cases l) (auto simp: post_ask_def dex_result arith64 insert_unwrap_ok remove_max_def)
    have "posted Ask new [order] e e'"
      using emit_ok [OF em assms(2)] boot_ok [OF _ rm _ ins2] c Inl e' assms(4)
      by (simp add: posted_def all_side worst_of_def side_worth_def side_unit_def ask_list_def)
    then show thesis by (rule that)
  qed
qed

lemma post_bid_ok:
  assumes "post_bid e new = Some (Inr e')" "queue_ok (evq e)" "slab_ok (bids (ob e))"
    and "ord_find (leaf_key new) (bid_list e) = None"
  obtains booted where "posted Bid new booted e e'"
proof -
  obtain res s where ins: "insert_leaf (bids (ob e)) new = Some (res, s)"
    using assms(1) by (auto simp: post_bid_def dex_result)
  note c = insert_leaf_cases [OF ins assms(3) assms(4) [unfolded bid_list_def]]
  show thesis
  proof (cases res)
    case (Inr r)
    then have "e' = set_orders e Bid s" using assms(1) ins by (simp add: post_bid_def dex_result)
    with c Inr assms(2) have "posted Bid new [] e e'" by (simp add: posted_def all_side)
    then show thesis by (rule that)
  next
    case (Inl l)
    then obtain order s1 e1 r2 s2 where rm: "remove_extreme s False = Some (Some order, s1)"
      and em: "emit e (leaf_out Bid order (leaf_quantity order * price_of order * pc_lot_size (market_state (ob e))) 0) = Some (Inr e1)"
      and ins2: "insert_leaf s1 new = Some (Inr r2, s2)" and e': "e' = set_orders e1 Bid s2"
      using assms(1) ins
      by (cases l) (auto simp: post_bid_def dex_result arith64 insert_unwrap_ok remove_min_def leaf_price_ok)
    have "posted Bid new [order] e e'"
      using emit_ok [OF em assms(2)] boot_ok [OF _ rm _ ins2] c Inl e' assms(4)
      by (simp add: posted_def all_side worst_of_def side_worth_def side_unit_def mult.assoc bid_list_def)
    then show thesis by (rule that)
  qed
qed

text \<open>The end of a new ask.\<close>

lemma ask_place_ok:
  assumes "ask_place p e b = Some (Inr (r, e'))" "queue_ok (evq e)" "slab_ok (asks (ob e))"
    and "ord_find (na_order_id p) (ask_list e) = None"
  obtains (more) "\<not> lb_done b" "0 < lb_qty b" "r = Some \<lparr>coin_qty_remaining = lb_qty b, native_pc_qty_remaining = None\<rparr>" "e' = e"
  | (post) booted where "\<not> lb_crossed b" "0 < lb_qty b" "r = None" "posted Ask (leaf_new (na_owner_slot p) (na_order_id p)
      (na_owner p) (lb_qty b) (na_fee_tier p) (na_client_order_id p)) booted e e'"
  | (release) "lb_done b \<or> lb_qty b = 0" "r = None"
      "emitted [ask_out p (lb_qty b * coin_lot_size (market_state (ob e))) 0] e e'"
      "market_state (ob e') = market_state (ob e)" "proceeds e' = (proceeds e)\<lparr>coin_unlocked := coin_unlocked (proceeds e) + lb_qty b\<rparr>"
proof -
  let ?new = "leaf_new (na_owner_slot p) (na_order_id p) (na_owner p) (lb_qty b) (na_fee_tier p) (na_client_order_id p)"
  have key: "ord_find (leaf_key ?new) (ask_list e) = None" using assms(4) by (simp add: leaf_new_def)
  consider "\<not> lb_done b" "lb_qty b \<noteq> 0" | "lb_done b \<or> lb_qty b = 0" "na_post_allowed p \<and> \<not> lb_crossed b \<and> 0 < lb_qty b"
    | "lb_done b \<or> lb_qty b = 0" "\<not> (na_post_allowed p \<and> \<not> lb_crossed b \<and> 0 < lb_qty b)" by blast
  then show thesis
  proof cases
    case 1
    then show thesis using assms(1) more by (simp add: ask_place_def dex_result)
  next
    case 2
    then have "post_ask e ?new = Some (Inr e')" "r = None" using assms(1) by (auto simp: ask_place_def dex_result)
    with post_ask_ok [OF _ assms(2,3) key] 2 show thesis using post by metis
  next
    case 3
    then obtain e1 where e1: "release_coin e (lb_qty b) = Some (Inr e1)" "r = None"
        "emit e1 (ask_out p (lb_qty b * coin_lot_size (market_state (ob e1))) 0) = Some (Inr e')"
      using assms(1) by (auto simp: ask_place_def dex_result arith64 Let_def)
    then have "e1 = e\<lparr>proceeds := (proceeds e)\<lparr>coin_unlocked := coin_unlocked (proceeds e) + lb_qty b\<rparr>\<rparr>"
      by (simp add: release_coin_ok)
    with emitted_emit [OF e1(3)] assms(2) e1(2) 3 show thesis using release by simp
  qed
qed

section \<open>The parts of a new bid\<close>

abbreviation bid_out :: "new_bid_params \<Rightarrow> nat \<Rightarrow> nat \<Rightarrow> event_view" where
  "bid_out p unlocked still_locked \<equiv>
     Out \<lparr>o_side = Bid, o_release_funds = False, o_native_qty_unlocked = unlocked,
       o_native_qty_still_locked = still_locked, o_order_id = nb_order_id p, o_owner = nb_owner p,
       o_owner_slot = nb_owner_slot p, o_client_order_id = nonzero (nb_client_order_id p)\<rparr>"

abbreviation bid_taker_fill :: "new_bid_params \<Rightarrow> nat \<Rightarrow> nat \<Rightarrow> nat \<Rightarrow> event_view" where
  "bid_taker_fill p paid received fee \<equiv>
     Fill \<lparr>f_side = Bid, f_maker = False, f_native_qty_paid = paid, f_native_qty_received = received,
       f_native_fee_or_rebate = fee, f_order_id = nb_order_id p, f_owner = nb_owner p, f_owner_slot = nb_owner_slot p,
       f_fee_tier = nb_fee_tier p, f_client_order_id = nonzero (nb_client_order_id p)\<rparr>"

lemma release_native_pc_ok:
  "release_native_pc e n = Some (Inr e') \<longleftrightarrow> native_pc_unlocked (proceeds e) + n \<le> u64_max \<and>
     e' = e\<lparr>proceeds := (proceeds e)\<lparr>native_pc_unlocked := native_pc_unlocked (proceeds e) + n\<rparr>\<rparr>"
  by (auto simp: release_native_pc_def dex_result arith64)

lemma bid_fill_ok:
  assumes "bid_fill p e h best price n pcq = Some (Inr (x, e'))" "queue_ok (evq e)" "slab_ok (asks (ob e))"
    and "find_bbo (ob e) Ask = Some (Some h)" "best = best_of Ask (ask_list e)"
  obtains tier rebate worth where "leaf_tier best = Some tier" "worth = n * price * pc_lot_size (market_state (ob e))"
    "worth \<le> u64_max" "maker_rebate tier worth = Some rebate" "n \<le> leaf_quantity best" "n \<le> nb_max_coin_qty p" "n * price \<le> pcq"
    "x = Break \<lparr>lb_done = False, lb_crossed = True, lb_qty = nb_max_coin_qty p - n, lb_price = pcq - n * price, lb_rebates = rebate\<rparr>"
    "took Ask n (maker_fill Ask best tier (n * coin_lot_size (market_state (ob e))) (worth + rebate) rebate #
      (if leaf_quantity best = n then [leaf_out Ask best 0 0] else [])) e e'" "same_money e e'"
proof -
  let ?ms = "market_state (ob e)"
  obtain tier rebate e1 e2 where r: "leaf_tier best = Some tier" "n * price * pc_lot_size ?ms \<le> u64_max"
      "maker_rebate tier (n * price * pc_lot_size ?ms) = Some rebate"
      "n \<le> leaf_quantity best" "n \<le> nb_max_coin_qty p" "n * price \<le> pcq"
      "x = Break \<lparr>lb_done = False, lb_crossed = True, lb_qty = nb_max_coin_qty p - n, lb_price = pcq - n * price, lb_rebates = rebate\<rparr>"
    and em: "emit e (maker_fill Ask best tier (n * coin_lot_size ?ms) (n * price * pc_lot_size ?ms + rebate) rebate) = Some (Inr e1)"
    and wr: "write_leaf e1 Ask h (set_quantity best (leaf_quantity best - n)) = Some (Inr e2)"
    and rm: "(if leaf_quantity best - n = 0 then
          dex_bind (emit e2 (leaf_out Ask best 0 0)) (\<lambda>e. remove_order_id e Ask (leaf_key best)) else dex_ok e2) = Some (Inr e')"
    using assms(1) unfolding bid_fill_def Let_def dex_result arith64 prod.inject by blast
  have "took Ask n (maker_fill Ask best tier (n * coin_lot_size ?ms) (n * price * pc_lot_size ?ms + rebate) rebate #
      (if leaf_quantity best = n then [leaf_out Ask best 0 0] else [])) e e' \<and> same_money e e'"
    using took_fill [OF em assms(2) _ _ assms(4) _ r(4) wr _ rm] assms(3,5) by (simp add: ask_list_def)
  with r show thesis using that by blast
qed

lemma bid_self_trade_ok:
  assumes "bid_self_trade p e h best price n = Some (Inr (x, e'))" "queue_ok (evq e)" "slab_ok (asks (ob e))"
    and "find_bbo (ob e) Ask = Some (Some h)" "best = best_of Ask (ask_list e)"
  obtains give given_up unlocked still e2 where
    "self_trade_cancels (nb_self_trade_behavior p) n (leaf_quantity best) give given_up"
    "give \<le> leaf_quantity best" "given_up \<le> nb_max_coin_qty p" "unlocked + still = nb_native_pc_qty_locked p"
    "still = 0 \<longrightarrow> x = Return None" "0 < still \<longrightarrow> given_up < nb_max_coin_qty p \<and>
       x = Return (Some \<lparr>coin_qty_remaining = nb_max_coin_qty p - given_up, native_pc_qty_remaining = Some still\<rparr>)"
    "took Ask give [leaf_out Ask best (give * coin_lot_size (market_state (ob e)))
        ((leaf_quantity best - give) * coin_lot_size (market_state (ob e)))] e e2"
    "emitted [bid_out p unlocked still] e2 e'" "same_money e e2"
    "market_state (ob e') = market_state (ob e)"
    "proceeds e' = (proceeds e)\<lparr>native_pc_unlocked := native_pc_unlocked (proceeds e) + unlocked\<rparr>"
proof -
  let ?ms = "market_state (ob e)" and ?locked = "nb_native_pc_qty_locked p"
  obtain give given_up e1 e2 e3 unlocked still where
    r: "self_trade_cancels (nb_self_trade_behavior p) n (leaf_quantity best) give given_up"
      "give \<le> leaf_quantity best" "given_up \<le> nb_max_coin_qty p" "unlocked + still = ?locked"
      "still = 0 \<longrightarrow> x = Return None" "0 < still \<longrightarrow> given_up < nb_max_coin_qty p \<and>
         x = Return (Some \<lparr>coin_qty_remaining = nb_max_coin_qty p - given_up, native_pc_qty_remaining = Some still\<rparr>)"
    and em: "emit e (leaf_out Ask best (give * coin_lot_size ?ms) ((leaf_quantity best - give) * coin_lot_size ?ms)) = Some (Inr e1)"
    and wr: "(if leaf_quantity best - give = 0 then remove_order_id e1 Ask (leaf_key best)
          else write_leaf e1 Ask h (set_quantity best (leaf_quantity best - give))) = Some (Inr e2)"
    and rl: "release_native_pc e2 unlocked = Some (Inr e3)"
    and em2: "emit e3 (bid_out p unlocked still) = Some (Inr e')"
  proof -
    obtain give given_up e1 e2 where
      r: "self_trade_cancels (nb_self_trade_behavior p) n (leaf_quantity best) give given_up"
        "give \<le> leaf_quantity best" "given_up \<le> nb_max_coin_qty p" "given_up * price * pc_lot_size ?ms \<le> ?locked"
      and em: "emit e (leaf_out Ask best (give * coin_lot_size ?ms) ((leaf_quantity best - give) * coin_lot_size ?ms)) = Some (Inr e1)"
      and wr: "(if leaf_quantity best - give = 0 then remove_order_id e1 Ask (leaf_key best)
            else write_leaf e1 Ask h (set_quantity best (leaf_quantity best - give))) = Some (Inr e2)"
      and rest: "(case (case (if nb_max_coin_qty p - given_up = 0 \<or> ?locked - given_up * price * pc_lot_size ?ms = 0 then None
            else Some \<lparr>coin_qty_remaining = nb_max_coin_qty p - given_up,
              native_pc_qty_remaining = Some (?locked - given_up * price * pc_lot_size ?ms)\<rparr>) of
            None \<Rightarrow> (?locked, 0) | Some _ \<Rightarrow> (given_up * price * pc_lot_size ?ms, ?locked - given_up * price * pc_lot_size ?ms)) of
          (u, s) \<Rightarrow> dex_bind (release_native_pc e2 u) (\<lambda>e. dex_bind (emit e (bid_out p u s)) (\<lambda>e.
            dex_ok (Return (if nb_max_coin_qty p - given_up = 0 \<or> ?locked - given_up * price * pc_lot_size ?ms = 0 then None
            else Some \<lparr>coin_qty_remaining = nb_max_coin_qty p - given_up,
              native_pc_qty_remaining = Some (?locked - given_up * price * pc_lot_size ?ms)\<rparr>), e)))) = Some (Inr (x, e'))"
      using assms(1)
      unfolding bid_self_trade_def Let_def dex_result arith64 self_trade_qtys_ok split_paired_Ex prod.case by blast
    show thesis
    proof (cases "nb_max_coin_qty p - given_up = 0 \<or> ?locked - given_up * price * pc_lot_size ?ms = 0")
      case True
      then show thesis using that [OF r(1-3) _ _ _ em wr, of ?locked 0] rest by (auto simp: dex_result)
    next
      case False
      then show thesis
        using that [OF r(1-3) _ _ _ em wr, of "given_up * price * pc_lot_size ?ms" "?locked - given_up * price * pc_lot_size ?ms"]
          rest r(4) by (auto simp: dex_result)
    qed
  qed
  have took: "took Ask give [leaf_out Ask best (give * coin_lot_size ?ms) ((leaf_quantity best - give) * coin_lot_size ?ms)] e e2 \<and> same_money e e2"
    using took_self_trade [OF em assms(2) _ _ assms(4) _ r(2) wr] assms(3,5) by (simp add: ask_list_def)
  have e3: "e3 = e2\<lparr>proceeds := (proceeds e2)\<lparr>native_pc_unlocked := native_pc_unlocked (proceeds e2) + unlocked\<rparr>\<rparr>"
    using rl by (simp add: release_native_pc_ok)
  have out: "emitted [bid_out p unlocked still] e3 e' \<and> same_money e3 e'"
    using took e3 by (intro emitted_emit [OF em2]) (simp_all add: took_def)
  then have "emitted [bid_out p unlocked still] e2 e'" "market_state (ob e') = ?ms"
      "proceeds e' = (proceeds e)\<lparr>native_pc_unlocked := native_pc_unlocked (proceeds e) + unlocked\<rparr>"
    using took e3 by simp_all
  then show thesis using that [OF r] took by blast
qed

lemma bid_settle_ok:
  assumes "bid_settle p max_pc e b = Some (Inr (pc_left, e'))" "queue_ok (evq e)"
  obtains worth fee where "worth = (max_pc - lb_price b) * pc_lot_size (market_state (ob e))" "worth \<le> u64_max"
    "taker_fee (nb_fee_tier p) worth = Some fee" "pc_left + worth + fee = nb_native_pc_qty_locked p"
    "lb_qty b \<le> nb_max_coin_qty p" "lb_price b \<le> max_pc"
    "lb_rebates b + referrer_rebate fee \<le> fee" "fee - lb_rebates b \<le> pc_deposits_total (market_state (ob e))"
    "emitted (if 0 < worth then [bid_taker_fill p (worth + fee) ((nb_max_coin_qty p - lb_qty b) * coin_lot_size (market_state (ob e))) fee]
      else []) e e'"
    "market_state (ob e') = (market_state (ob e))\<lparr>
       referrer_rebates_accrued := referrer_rebates_accrued (market_state (ob e)) + referrer_rebate fee,
       pc_fees_accrued := pc_fees_accrued (market_state (ob e)) + (fee - lb_rebates b - referrer_rebate fee),
       pc_deposits_total := pc_deposits_total (market_state (ob e)) - (fee - lb_rebates b)\<rparr>"
    "proceeds e' = (proceeds e)\<lparr>coin_credit := coin_credit (proceeds e) + (nb_max_coin_qty p - lb_qty b),
       native_pc_debit := native_pc_debit (proceeds e) + (worth + fee)\<rparr>"
proof -
  let ?ms = "market_state (ob e)" and ?worth = "(max_pc - lb_price b) * pc_lot_size (market_state (ob e))"
  let ?lots = "nb_max_coin_qty p - lb_qty b" and ?locked = "nb_native_pc_qty_locked p"
  obtain fee e1 e2 e3 where r: "?worth \<le> u64_max" "taker_fee (nb_fee_tier p) ?worth = Some fee"
      "lb_qty b \<le> nb_max_coin_qty p" "lb_price b \<le> max_pc"
    and left: "?worth \<le> ?locked" "fee \<le> ?locked - ?worth" "pc_left = ?locked - ?worth - fee"
    and e1: "credit_coin e ?lots = Some (Inr e1)" and e2: "debit_native_pc e1 (?worth + fee) = Some (Inr e2)"
    and e3: "(if 0 < ?worth then dex_bind (mul64 ?lots (coin_lot_size ?ms)) (\<lambda>received. emit e2 (bid_taker_fill p (?worth + fee) received fee))
        else dex_ok e2) = Some (Inr e3)"
    and fees: "book_fees e3 fee (lb_rebates b) = Some (Inr e')"
    using assms(1) unfolding bid_settle_def Let_def dex_result arith64 prod.inject by blast
  have pc_left: "pc_left + ?worth + fee = ?locked" using left by linarith
  have e2': "e2 = e\<lparr>proceeds := (proceeds e)\<lparr>coin_credit := coin_credit (proceeds e) + ?lots,
      native_pc_debit := native_pc_debit (proceeds e) + (?worth + fee)\<rparr>\<rparr>"
    using e1 e2 by (auto simp: credit_defs dex_result arith64)
  have "emitted (if 0 < ?worth then [bid_taker_fill p (?worth + fee) (?lots * coin_lot_size ?ms) fee] else []) e2 e3 \<and> same_money e2 e3"
    using e3 assms(2) e2' emitted_emit [of e2 _ e3] by (cases "0 < ?worth") (auto simp: dex_result arith64)
  with book_fees_ok [OF fees] show thesis
    using that [OF refl r(1,2) pc_left r(3,4)] e2' by simp
qed

text \<open>The end of a new bid: a part of the order is posted, backed by \<open>still\<close> of the price currency, and the rest is
  released.\<close>

lemma bid_post_ok:
  assumes "bid_post p e b pc_left = Some (Inr (r, e'))" "queue_ok (evq e)" "slab_ok (bids (ob e))"
    and "ord_find (nb_order_id p) (bid_list e) = None" "lots_ok (market_state (ob e))"
  obtains still n e1 where "r = None" "still \<le> pc_left" "n \<le> lb_qty b"
    "emitted [bid_out p (pc_left - still) still] e e1" "market_state (ob e1) = market_state (ob e)"
    "proceeds e1 = (proceeds e)\<lparr>native_pc_unlocked := native_pc_unlocked (proceeds e) + (pc_left - still)\<rparr>"
    "still = 0 \<longrightarrow> e' = e1"
    "0 < still \<longrightarrow> \<not> lb_crossed b \<and> (\<exists>price booted. nb_limit_price p = Some price \<and>
       still = n * price * pc_lot_size (market_state (ob e)) \<and>
       posted Bid (leaf_new (nb_owner_slot p) (nb_order_id p) (nb_owner p) n (nb_fee_tier p) (nb_client_order_id p)) booted e1 e')"
proof -
  let ?lot = "pc_lot_size (market_state (ob e))"
  obtain n pcq e1 e2 where amount: "(case nb_limit_price p of
          Some price \<Rightarrow>
            if nb_post_allowed p \<and> \<not> lb_crossed b then
              dex_bind (div64 pc_left ?lot) (\<lambda>lots. dex_bind (div64 lots price) (\<lambda>affordable.
              dex_bind (mul64 (min (lb_qty b) affordable) price) (\<lambda>pc_qty. dex_ok (min (lb_qty b) affordable, pc_qty))))
            else dex_ok (0, 0)
        | None \<Rightarrow> dex_ok (0, 0)) = Some (Inr (n, pcq))"
    and still: "pcq * ?lot \<le> pc_left" and e1: "release_native_pc e (pc_left - pcq * ?lot) = Some (Inr e1)"
    and e2: "emit e1 (bid_out p (pc_left - pcq * ?lot) (pcq * ?lot)) = Some (Inr e2)"
    and e': "(if 0 < pcq then post_bid e2 (leaf_new (nb_owner_slot p) (nb_order_id p) (nb_owner p) n (nb_fee_tier p)
        (nb_client_order_id p)) else dex_ok e2) = Some (Inr e')" "r = None"
    using assms(1) unfolding bid_post_def Let_def dex_result arith64 prod.inject split_paired_Ex prod.case by blast
  let ?new = "leaf_new (nb_owner_slot p) (nb_order_id p) (nb_owner p) n (nb_fee_tier p) (nb_client_order_id p)"
  have n: "n \<le> lb_qty b" and pcq: "0 < pcq \<Longrightarrow> \<not> lb_crossed b \<and> (\<exists>price. nb_limit_price p = Some price \<and> pcq = n * price)"
    using amount by (auto simp: dex_result arith64 split: option.splits if_splits)
  have e1': "e1 = e\<lparr>proceeds := (proceeds e)\<lparr>native_pc_unlocked := native_pc_unlocked (proceeds e) + (pc_left - pcq * ?lot)\<rparr>\<rparr>"
    using e1 by (simp add: release_native_pc_ok)
  then have out: "emitted [bid_out p (pc_left - pcq * ?lot) (pcq * ?lot)] e e2" "same_money e1 e2"
    using emitted_emit [OF e2] assms(2) by simp_all
  have pre: "queue_ok (evq e2)" "slab_ok (bids (ob e2))" "ord_find (leaf_key ?new) (bid_list e2) = None"
    using out(1) assms(3,4) by (simp_all add: emitted_def all_side bid_list_def leaf_new_def)
  show thesis
  proof (rule that [OF e'(2) still n out(1)])
    show "market_state (ob e2) = market_state (ob e)"
      "proceeds e2 = (proceeds e)\<lparr>native_pc_unlocked := native_pc_unlocked (proceeds e) + (pc_left - pcq * ?lot)\<rparr>"
      using out(2) e1' by simp_all
    show "pcq * ?lot = 0 \<longrightarrow> e' = e2" using e'(1) assms(5) by (auto simp: lots_ok_def dex_result)
    show "0 < pcq * ?lot \<longrightarrow> \<not> lb_crossed b \<and> (\<exists>price booted. nb_limit_price p = Some price \<and>
        pcq * ?lot = n * price * ?lot \<and> posted Bid ?new booted e2 e')"
    proof
      assume "0 < pcq * ?lot"
      then have pos: "0 < pcq" by simp
      then have "post_bid e2 ?new = Some (Inr e')" using e'(1) by simp
      then obtain booted where "posted Bid ?new booted e2 e'" using post_bid_ok [OF _ pre] by blast
      with pcq [OF pos] show "\<not> lb_crossed b \<and> (\<exists>price booted. nb_limit_price p = Some price \<and>
        pcq * ?lot = n * price * ?lot \<and> posted Bid ?new booted e2 e')" by auto
    qed
  qed
qed

end
