(* ===== verification/Dex_Refs.thy ===== *)
theory Dex_Refs
  imports Dex_Trades
begin

text \<open>
  The two invariants that the steps of the engine keep: the well-formedness of the book, which is never crossed, and
  the agreement of the orders on the book and of the pending events with the order slots of the traders' accounts.
\<close>

section \<open>Prices\<close>

lemma price_mono: "leaf_key x \<le> leaf_key y \<Longrightarrow> price_of x \<le> price_of y"
  unfolding price_of_def word_le_nat_alt unat_drop_bit_eq by (simp only: drop_bit_eq_div div_le_mono)

lemma best_price:
  assumes "sorted_wrt key_less xs" "x \<in> set xs"
  shows "price_of x \<le> price_of (best_of Bid xs)" "price_of (best_of Ask xs) \<le> price_of x"
proof -
  obtain ys y where ys: "xs = ys @ [y]" using assms(2) by (metis list.set_cases rev_exhaust empty_iff list.set(1))
  have "leaf_key x \<le> leaf_key (last xs)" using assms ys by (auto simp: sorted_wrt_append)
  moreover have "leaf_key (hd xs) \<le> leaf_key x" using assms by (cases xs) auto
  ultimately show "price_of x \<le> price_of (best_of Bid xs)" "price_of (best_of Ask xs) \<le> price_of x"
    by (auto simp: best_of_def intro: price_mono)
qed

section \<open>Steps keep the book well formed\<close>

lemma engine_ok_alt:
  "engine_ok e \<longleftrightarrow> (\<forall>s. slab_ok (orders_mut (ob e) s) \<and> (\<forall>x \<in> set (side_list e s). leaf_ok x)) \<and> queue_ok (evq e) \<and>
     lots_ok (market_state (ob e)) \<and> (\<forall>b \<in> set (side_list e Bid). \<forall>a \<in> set (side_list e Ask). price_of b < price_of a)"
  by (auto simp: engine_ok_def uncrossed_def bid_list_def ask_list_def all_side)

lemma engine_ok_emitted: "engine_ok e \<Longrightarrow> emitted vs e e' \<Longrightarrow> lots_ok (market_state (ob e')) \<Longrightarrow> engine_ok e'"
  by (simp add: engine_ok_alt emitted_def all_side)

lemma reduce_best_keys:
  assumes "x \<in> set (reduce_best side n xs)" "xs \<noteq> []"
  obtains y where "y \<in> set xs" "leaf_key x = leaf_key y" "leaf_owner x = leaf_owner y" "leaf_owner_slot x = leaf_owner_slot y"
    "leaf_ok y \<Longrightarrow> leaf_ok x" "price_of x = price_of y" "leaf_client_order_id x = leaf_client_order_id y"
  using set_reduce_best [OF assms] by (auto simp: leaf_ok_def price_of_def)

lemma engine_ok_took:
  assumes "engine_ok e" "took side n vs e e'" "side_list e side \<noteq> []" "lots_ok (market_state (ob e'))"
  shows "engine_ok e'"
proof -
  have sub: "\<exists>y \<in> set (side_list e s). leaf_key x = leaf_key y \<and> (leaf_ok y \<longrightarrow> leaf_ok x) \<and> price_of x = price_of y"
    if "x \<in> set (side_list e' s)" for x s
  proof (cases "s = side")
    case True
    then have "x \<in> set (reduce_best side n (side_list e side))" using that assms(2) by (simp add: took_def)
    then show ?thesis using True assms(3) by (auto elim!: reduce_best_keys)
  next
    case False
    then show ?thesis using that assms(2) by (auto simp: took_def)
  qed
  have "slab_ok (orders_mut (ob e') s)" for s
    using assms(1,2) by (cases "s = side") (simp_all add: took_def engine_ok_alt)
  moreover have "queue_ok (evq e')" using assms(2) by (simp add: took_def)
  ultimately show ?thesis
    using assms(1,4) sub unfolding engine_ok_alt by metis
qed

lemma posted_in:
  assumes "posted side new booted e e'" "x \<in> set (side_list e' s)"
  shows "x = new \<and> s = side \<or> x \<in> set (side_list e s) \<and> (s = side \<longrightarrow> leaf_key x \<noteq> leaf_key new \<and> x \<notin> set booted)"
proof (cases "s = side")
  case True
  have "x \<notin> set booted" if "x \<in> set (foldr (\<lambda>x. ord_delete (leaf_key x)) booted (side_list e side))"
    using assms(1) that by (auto simp: posted_def ord_delete_set)
  moreover have "set (foldr (\<lambda>x. ord_delete (leaf_key x)) booted (side_list e side)) \<subseteq> set (side_list e side)"
    using assms(1) by (auto simp: posted_def ord_delete_set)
  ultimately show ?thesis using assms True by (auto simp: posted_def ord_insert_set)
qed (use assms in \<open>auto simp: posted_def\<close>)

lemma engine_ok_posted:
  assumes "engine_ok e" "posted side new booted e e'" "leaf_ok new"
    and "side = Ask \<Longrightarrow> \<forall>b \<in> set (side_list e Bid). price_of b < price_of new"
    and "side = Bid \<Longrightarrow> \<forall>a \<in> set (side_list e Ask). price_of new < price_of a"
  shows "engine_ok e'"
proof -
  have "slab_ok (orders_mut (ob e') s)" for s
    using assms(1,2) by (cases "s = side") (simp_all add: posted_def engine_ok_alt)
  moreover have "leaf_ok x" if "x \<in> set (side_list e' s)" for x s
    using posted_in [OF assms(2) that] assms(1,3) by (auto simp: engine_ok_alt)
  moreover have "price_of b < price_of a" if "b \<in> set (side_list e' Bid)" "a \<in> set (side_list e' Ask)" for a b
    using posted_in [OF assms(2) that(1)] posted_in [OF assms(2) that(2)] assms(1,4,5) by (auto simp: engine_ok_alt)
  ultimately show ?thesis using assms(1,2) by (auto simp: engine_ok_alt posted_def)
qed

section \<open>References to order slots\<close>

text \<open>A slot of an account, the order that the table of slots has there (its side, its identifier and the number
  that the client gave it), and the last event of an order.\<close>

type_synonym slot_ref = "pubkey \<times> nat"
type_synonym slot_entry = "side \<times> u128 \<times> nat option"
type_synonym slot_table = "slot_ref \<Rightarrow> slot_entry option"

definition leaf_ref :: "leaf_node \<Rightarrow> slot_ref" where
  "leaf_ref x = (leaf_owner x, leaf_owner_slot x)"

definition leaf_entry :: "side \<Rightarrow> leaf_node \<Rightarrow> slot_entry" where
  "leaf_entry side x = (side, leaf_key x, nonzero (leaf_client_order_id x))"

definition view_ref :: "event_view \<Rightarrow> slot_ref" where
  "view_ref v = (case v of Fill f \<Rightarrow> (f_owner f, f_owner_slot f) | Out u \<Rightarrow> (o_owner u, o_owner_slot u))"

definition view_order :: "event_view \<Rightarrow> slot_entry" where
  "view_order v =
     (case v of Fill f \<Rightarrow> (f_side f, f_order_id f, f_client_order_id f) | Out u \<Rightarrow> (o_side u, o_order_id u, o_client_order_id u))"

definition view_last :: "event_view \<Rightarrow> bool" where
  "view_last v = (case v of Fill _ \<Rightarrow> False | Out u \<Rightarrow> o_native_qty_still_locked u = 0)"

text \<open>Orders and events name the slot of their order, and nothing follows the last event of an order.\<close>

definition refs_ok :: "slot_table \<Rightarrow> engine \<Rightarrow> bool" where
  "refs_ok T e \<longleftrightarrow>
     (\<forall>v \<in> set (pending e). T (view_ref v) = Some (view_order v)) \<and>
     (\<forall>s. \<forall>x \<in> set (side_list e s). T (leaf_ref x) = Some (leaf_entry s x)) \<and>
     (\<forall>s. \<forall>x \<in> set (side_list e s). \<forall>v \<in> set (pending e). view_last v \<longrightarrow> view_ref v \<noteq> leaf_ref x) \<and>
     sorted_wrt (\<lambda>a b. view_last a \<longrightarrow> view_ref a \<noteq> view_ref b) (pending e)"

text \<open>A slot whose order is on the book or has its last event pending, and one whose order is being matched.\<close>

definition placed :: "engine \<Rightarrow> slot_ref \<Rightarrow> bool" where
  "placed e r \<longleftrightarrow> (\<exists>s. \<exists>x \<in> set (side_list e s). leaf_ref x = r) \<or> (\<exists>v \<in> set (pending e). view_last v \<and> view_ref v = r)"

text \<open>The events of the best order that a step takes lots from: all of that order, and the last one exactly when the
  order leaves the book.\<close>

definition maker_events :: "side \<Rightarrow> leaf_node \<Rightarrow> nat \<Rightarrow> event_view list \<Rightarrow> bool" where
  "maker_events side best n vs \<longleftrightarrow>
     (\<forall>v \<in> set vs. view_ref v = leaf_ref best \<and> view_order v = leaf_entry side best) \<and>
     (if leaf_quantity best \<le> n then vs \<noteq> [] \<and> view_last (last vs) \<and> (\<forall>v \<in> set (butlast vs). \<not> view_last v)
      else \<forall>v \<in> set vs. \<not> view_last v)"

lemma sorted_wrt_none_last: "\<forall>v \<in> set vs. \<not> view_last v \<Longrightarrow> sorted_wrt (\<lambda>a b. view_last a \<longrightarrow> view_ref a \<noteq> view_ref b) vs"
  by (induction vs) simp_all

lemma maker_events_sorted:
  assumes "maker_events side best n vs"
  shows "sorted_wrt (\<lambda>a b. view_last a \<longrightarrow> view_ref a \<noteq> view_ref b) vs"
proof (cases "leaf_quantity best \<le> n")
  case True
  with assms have vs: "vs \<noteq> []" "\<forall>v \<in> set (butlast vs). \<not> view_last v" by (auto simp: maker_events_def)
  then have "sorted_wrt (\<lambda>a b. view_last a \<longrightarrow> view_ref a \<noteq> view_ref b) (butlast vs @ [last vs])"
    unfolding sorted_wrt_append using sorted_wrt_none_last [OF vs(2)] by simp
  then show ?thesis using vs(1) by simp
next
  case False
  with assms show ?thesis by (intro sorted_wrt_none_last) (simp add: maker_events_def)
qed

lemma refs_leaf_inj:
  assumes "refs_ok T e" "x \<in> set (side_list e s)" "y \<in> set (side_list e s')" "leaf_ref x = leaf_ref y"
  shows "s = s' \<and> leaf_key x = leaf_key y"
proof -
  have "T (leaf_ref x) = Some (leaf_entry s x)" "T (leaf_ref y) = Some (leaf_entry s' y)"
    using assms(1-3) unfolding refs_ok_def by blast+
  with assms(4) show ?thesis by (simp add: leaf_entry_def)
qed

lemma reduce_best_gone:
  assumes "x \<in> set (reduce_best side n xs)" "leaf_quantity (best_of side xs) \<le> n"
  shows "x \<in> set xs \<and> leaf_key x \<noteq> leaf_key (best_of side xs)"
  using assms by (simp add: reduce_best_def Let_def ord_delete_set)

lemma refs_ok_took:
  assumes "refs_ok T e" "took side n vs e e'" "side_list e side \<noteq> []" "maker_events side (best_of side (side_list e side)) n vs"
  shows "refs_ok T e'"
proof -
  let ?best = "best_of side (side_list e side)"
  have best: "?best \<in> set (side_list e side)" using assms(3) by (rule best_in)
  have old: "\<exists>y \<in> set (side_list e s). leaf_ref x = leaf_ref y \<and> leaf_entry s x = leaf_entry s y" if "x \<in> set (side_list e' s)" for x s
  proof (cases "s = side")
    case True
    then have "x \<in> set (reduce_best side n (side_list e side))" using that assms(2) by (simp add: took_def)
    then show ?thesis using True assms(3) by (auto elim!: reduce_best_keys simp: leaf_ref_def leaf_entry_def)
  next
    case False
    then show ?thesis using that assms(2) by (auto simp: took_def)
  qed
  have pend: "pending e' = pending e @ vs" using assms(2) by (simp add: took_def)
  have "view_ref v \<noteq> leaf_ref x" if xv: "x \<in> set (side_list e' s)" "v \<in> set vs" "view_last v" for x s v
  proof
    assume eq: "view_ref v = leaf_ref x"
    obtain y where y: "y \<in> set (side_list e s)" "leaf_ref x = leaf_ref y" "leaf_key x = leaf_key y"
      using old [OF xv(1)] by (auto simp: leaf_entry_def)
    have "leaf_ref y = leaf_ref ?best" using assms(4) xv(2) eq y(2) by (simp add: maker_events_def)
    from refs_leaf_inj [OF assms(1) y(1) best this] have same: "s = side" "leaf_key x = leaf_key ?best" using y(3) by simp_all
    have "leaf_quantity ?best \<le> n" using assms(4) xv(2,3) by (auto simp: maker_events_def split: if_splits)
    moreover have "x \<in> set (reduce_best side n (side_list e side))" using xv(1) same(1) assms(2) by (simp add: took_def)
    ultimately show False using reduce_best_gone same(2) by blast
  qed
  moreover have "view_ref v \<noteq> leaf_ref x" if "x \<in> set (side_list e' s)" "v \<in> set (pending e)" "view_last v" for x s v
    using old [OF that(1)] assms(1) that(2,3) unfolding refs_ok_def by metis
  moreover have "T (leaf_ref x) = Some (leaf_entry s x)" if "x \<in> set (side_list e' s)" for x s
    using old [OF that] assms(1) unfolding refs_ok_def by metis
  moreover have "T (view_ref v) = Some (view_order v)" if "v \<in> set vs" for v
    using assms(1,4) best that by (simp add: refs_ok_def maker_events_def)
  moreover have "sorted_wrt (\<lambda>a b. view_last a \<longrightarrow> view_ref a \<noteq> view_ref b) (pending e')"
    using assms(1,4) best maker_events_sorted [OF assms(4)] unfolding pend
    by (auto simp: refs_ok_def sorted_wrt_append maker_events_def)
  ultimately show ?thesis using assms(1) unfolding refs_ok_def pend by (auto simp: refs_ok_def)
qed

lemma placed_took:
  assumes "placed e r" "took side n vs e e'" "side_list e side \<noteq> []" "maker_events side (best_of side (side_list e side)) n vs"
    and "slab_ok (orders_mut (ob e) side)"
  shows "placed e' r"
proof -
  let ?best = "best_of side (side_list e side)"
  have pend: "pending e' = pending e @ vs" using assms(2) by (simp add: took_def)
  have list: "side_list e' side = reduce_best side n (side_list e side)" "\<And>s. s \<noteq> side \<Longrightarrow> side_list e' s = side_list e s"
    using assms(2) by (simp_all add: took_def)
  show ?thesis
  proof (cases "\<exists>v \<in> set (pending e). view_last v \<and> view_ref v = r")
    case False
    then obtain s x where x: "x \<in> set (side_list e s)" "leaf_ref x = r" using assms(1) by (auto simp: placed_def)
    show ?thesis
    proof (cases "s = side \<and> leaf_key x = leaf_key ?best")
      case True
      then have "x = ?best"
        using sorted_by_key_inj [OF slab_orders_sorted [OF assms(5)]] x(1) best_in [OF assms(3)] by metis
      then have "leaf_ref ?best = r" using x(2) by simp
      show ?thesis
      proof (cases "leaf_quantity ?best \<le> n")
        case True
        then have "last vs \<in> set vs" "view_last (last vs)" using assms(4) by (auto simp: maker_events_def)
        then show ?thesis using assms(4) \<open>leaf_ref ?best = r\<close> by (auto simp: placed_def pend maker_events_def)
      next
        case False
        then have "set_quantity ?best (leaf_quantity ?best - n) \<in> set (side_list e' side)"
          by (simp add: list reduce_best_def Let_def ord_insert_set)
        moreover have "leaf_ref (set_quantity ?best (leaf_quantity ?best - n)) = r"
          using \<open>leaf_ref ?best = r\<close> by (simp add: leaf_ref_def)
        ultimately show ?thesis unfolding placed_def by blast
      qed
    next
      case False
      then have "x \<in> set (side_list e' s)"
        using x(1) by (cases "s = side") (auto simp: list reduce_best_def Let_def ord_insert_set ord_delete_set)
      then show ?thesis using x(2) by (auto simp: placed_def)
    qed
  qed (auto simp: placed_def pend)
qed

lemma placed_took_back:
  assumes "placed e' r" "took side n vs e e'" "side_list e side \<noteq> []" "maker_events side (best_of side (side_list e side)) n vs"
  shows "placed e r"
proof -
  let ?best = "best_of side (side_list e side)"
  have best: "placed e (leaf_ref ?best)" using best_in [OF assms(3)] unfolding placed_def by blast
  have pend: "pending e' = pending e @ vs" using assms(2) by (simp add: took_def)
  consider s x where "x \<in> set (side_list e' s)" "leaf_ref x = r"
    | v where "v \<in> set (pending e)" "view_last v" "view_ref v = r" | v where "v \<in> set vs" "view_ref v = r"
    using assms(1) unfolding placed_def pend by auto
  then show ?thesis
  proof cases
    case (1 s x)
    show ?thesis
    proof (cases "s = side")
      case True
      then have "x \<in> set (reduce_best side n (side_list e side))" using 1 assms(2) by (simp add: took_def)
      then obtain y where "y \<in> set (side_list e side)" "leaf_ref x = leaf_ref y"
        using assms(3) by (auto elim!: reduce_best_keys simp: leaf_ref_def)
      then show ?thesis using 1(2) unfolding placed_def by auto
    next
      case False
      then show ?thesis using 1 assms(2) unfolding placed_def by (auto simp: took_def)
    qed
  next
    case 2
    then show ?thesis unfolding placed_def by blast
  next
    case 3
    then have "r = leaf_ref ?best" using assms(4) by (simp add: maker_events_def)
    with best show ?thesis by simp
  qed
qed

text \<open>The events of a new order, and a new order on the book.\<close>

lemma refs_ok_taker:
  assumes "refs_ok T e" "emitted vs e e'" "\<not> placed e t" "T t = Some order"
    and "\<forall>v \<in> set vs. view_ref v = t \<and> view_order v = order" "\<forall>v \<in> set (butlast vs). \<not> view_last v"
  shows "refs_ok T e'" "placed e' r \<longleftrightarrow> placed e r \<or> r = t \<and> vs \<noteq> [] \<and> view_last (last vs)"
proof -
  have pend: "pending e' = pending e @ vs" and same: "\<And>s. side_list e' s = side_list e s"
    using assms(2) by (simp_all add: emitted_def)
  have sorted: "sorted_wrt (\<lambda>a b. view_last a \<longrightarrow> view_ref a \<noteq> view_ref b) vs"
  proof (cases "vs = []")
    case False
    have "sorted_wrt (\<lambda>a b. view_last a \<longrightarrow> view_ref a \<noteq> view_ref b) (butlast vs @ [last vs])"
      unfolding sorted_wrt_append using sorted_wrt_none_last [OF assms(6)] assms(6) by simp
    then show ?thesis using False by simp
  qed simp
  have last: "(\<exists>v \<in> set vs. view_last v) \<longleftrightarrow> vs \<noteq> [] \<and> view_last (last vs)"
  proof (cases "vs = []")
    case False
    then have "set vs = insert (last vs) (set (butlast vs))" by (metis append_butlast_last_id list.simps(15) rotate1.simps(2) set_rotate1)
    then show ?thesis using False assms(6) by auto
  qed simp
  have "view_ref v \<noteq> t" if "v \<in> set (pending e)" "view_last v" for v
    using assms(3) that by (auto simp: placed_def)
  moreover have "leaf_ref x \<noteq> t" if "x \<in> set (side_list e s)" for x s
    using assms(3) that by (auto simp: placed_def)
  ultimately show "refs_ok T e'"
    using assms(1,4,5) sorted unfolding refs_ok_def pend same sorted_wrt_append set_append by (auto simp: Ball_def)
  show "placed e' r \<longleftrightarrow> placed e r \<or> r = t \<and> vs \<noteq> [] \<and> view_last (last vs)"
    using last assms(5) unfolding placed_def pend same by auto
qed

text \<open>A new order on the book, which may boot another order out: the events of the booted orders, and which orders
  are on the book afterwards.\<close>

abbreviation boot_views :: "side \<Rightarrow> engine \<Rightarrow> leaf_node list \<Rightarrow> event_view list" where
  "boot_views side e \<equiv> map (\<lambda>x. leaf_out side x (side_worth (market_state (ob e)) side x) 0)"

lemma boot_view_refs:
  "view_ref (leaf_out side x n m) = leaf_ref x" "view_order (leaf_out side x n m) = leaf_entry side x"
  "view_last (leaf_out side x n 0)"
  by (simp_all add: view_ref_def view_order_def view_last_def leaf_ref_def leaf_entry_def)

lemma posted_booted:
  assumes "posted side new booted e e'"
  shows "x \<in> set booted \<Longrightarrow> x \<in> set (side_list e side)" "length booted \<le> 1" "pending e' = pending e @ boot_views side e booted"
  using assms by (auto simp: posted_def worst_of_def split: side.splits)

lemma posted_kept:
  assumes "posted side new booted e e'" "slab_ok (orders_mut (ob e) side)" "ord_find (leaf_key new) (side_list e side) = None"
    and "x \<in> set (side_list e s)" "s = side \<longrightarrow> x \<notin> set booted"
  shows "x \<in> set (side_list e' s)"
proof (cases "s = side")
  case True
  have "leaf_key x \<noteq> leaf_key new" using assms(3,4) True by (metis image_eqI ord_find_None)
  moreover have "leaf_key x \<noteq> leaf_key y" if "y \<in> set booted" for y
    using sorted_by_key_inj [OF slab_orders_sorted [OF assms(2)] _ posted_booted(1) [OF assms(1) that], of x] assms(4,5) True that
    by auto
  ultimately show ?thesis
    using assms(1,4) True by (auto simp: posted_def ord_insert_set ord_delete_set)
qed (use assms in \<open>simp add: posted_def\<close>)

lemma posted_booted_gone:
  assumes "refs_ok T e" "posted side new booted e e'" "\<not> placed e (leaf_ref new)" "slab_ok (orders_mut (ob e) side)"
    and "x \<in> set booted" "y \<in> set (side_list e' s)"
  shows "leaf_ref x \<noteq> leaf_ref y"
proof
  assume eq: "leaf_ref x = leaf_ref y"
  note x = posted_booted(1) [OF assms(2,5)]
  have "leaf_ref x \<noteq> leaf_ref new" using assms(3) x by (auto simp: placed_def)
  with eq have y: "y \<in> set (side_list e s)" "s = side \<longrightarrow> y \<notin> set booted" using posted_in [OF assms(2,6)] by auto
  from refs_leaf_inj [OF assms(1) x y(1) eq] have "side = s" "leaf_key x = leaf_key y" by simp_all
  then have "x = y" using sorted_by_key_inj [OF slab_orders_sorted [OF assms(4)] x, of y] y(1) by simp
  with y(2) assms(5) \<open>side = s\<close> show False by simp
qed

lemma refs_ok_posted:
  assumes "refs_ok T e" "posted side new booted e e'" "\<not> placed e (leaf_ref new)" "T (leaf_ref new) = Some (leaf_entry side new)"
    and "slab_ok (orders_mut (ob e) side)"
  shows "refs_ok T e'"
proof -
  define vs where "vs = boot_views side e booted"
  have pend: "pending e' = pending e @ vs" using posted_booted(3) [OF assms(2)] by (simp add: vs_def)
  have refs: "\<exists>x \<in> set booted. view_ref v = leaf_ref x \<and> view_order v = leaf_entry side x" if "v \<in> set vs" for v
    using that by (auto simp: vs_def boot_view_refs)
  note old = posted_in [OF assms(2)] and booted = posted_booted(1) [OF assms(2)] and gone = posted_booted_gone [OF assms(1-3,5)]
  have new: "view_ref v \<noteq> leaf_ref new" if "v \<in> set (pending e)" "view_last v" for v
    using assms(3) that by (auto simp: placed_def)
  have "T (view_ref v) = Some (view_order v)" if "v \<in> set (pending e')" for v
    using that assms(1) refs booted unfolding pend refs_ok_def by fastforce
  moreover have "T (leaf_ref x) = Some (leaf_entry s x)" if "x \<in> set (side_list e' s)" for x s
    using old [OF that] assms(1,4) unfolding refs_ok_def by blast
  moreover have "view_ref v \<noteq> leaf_ref x" if "x \<in> set (side_list e' s)" "v \<in> set (pending e')" "view_last v" for x s v
    using old [OF that(1)] that(2,3) assms(1) new refs gone [OF _ that(1)] unfolding pend refs_ok_def by fastforce
  moreover have "sorted_wrt (\<lambda>a b. view_last a \<longrightarrow> view_ref a \<noteq> view_ref b) (pending e')"
  proof -
    have "sorted_wrt (\<lambda>a b. view_last a \<longrightarrow> view_ref a \<noteq> view_ref b) vs"
      using posted_booted(2) [OF assms(2)] by (cases booted) (simp_all add: vs_def)
    moreover have "view_ref u \<noteq> view_ref v" if "u \<in> set (pending e)" "view_last u" "v \<in> set vs" for u v
      using refs [OF that(3)] booted that(1,2) assms(1) unfolding refs_ok_def by metis
    ultimately show ?thesis using assms(1) unfolding pend sorted_wrt_append refs_ok_def by blast
  qed
  ultimately show ?thesis unfolding refs_ok_def by blast
qed

lemma placed_posted:
  assumes "posted side new booted e e'" "slab_ok (orders_mut (ob e) side)" "ord_find (leaf_key new) (side_list e side) = None"
  shows "placed e' r \<longleftrightarrow> placed e r \<or> r = leaf_ref new"
proof
  note booted = posted_booted [OF assms(1)]
  assume "placed e' r"
  then consider s x where "x \<in> set (side_list e' s)" "leaf_ref x = r"
    | v where "v \<in> set (pending e)" "view_last v" "view_ref v = r" | v where "v \<in> set (boot_views side e booted)" "view_ref v = r"
    unfolding placed_def booted(3) set_append by blast
  then show "placed e r \<or> r = leaf_ref new"
  proof cases
    case 1
    then show ?thesis using posted_in [OF assms(1) 1(1)] unfolding placed_def by blast
  next
    case 2
    then show ?thesis unfolding placed_def by blast
  next
    case 3
    then obtain x where "x \<in> set booted" "leaf_ref x = r" by (auto simp: boot_view_refs)
    then show ?thesis using booted(1) unfolding placed_def by blast
  qed
next
  note booted = posted_booted [OF assms(1)]
  assume "placed e r \<or> r = leaf_ref new"
  then consider "r = leaf_ref new" | v where "v \<in> set (pending e)" "view_last v" "view_ref v = r"
    | s x where "x \<in> set (side_list e s)" "leaf_ref x = r" "s = side \<longrightarrow> x \<notin> set booted"
    | x where "x \<in> set booted" "leaf_ref x = r"
    unfolding placed_def by blast
  then show "placed e' r"
  proof cases
    case 1
    have "new \<in> set (side_list e' side)" using assms(1) by (simp add: posted_def ord_insert_set)
    then show ?thesis using 1 unfolding placed_def by blast
  next
    case 2
    then show ?thesis unfolding placed_def booted(3) by auto
  next
    case 3
    then show ?thesis using posted_kept [OF assms 3(1,3)] unfolding placed_def by blast
  next
    case (4 x)
    then have "\<exists>v \<in> set (pending e'). view_last v \<and> view_ref v = r"
      unfolding booted(3) by (intro bexI [of _ "leaf_out side x (side_worth (market_state (ob e)) side x) 0"]) (simp_all add: boot_view_refs)
    then show ?thesis unfolding placed_def by blast
  qed
qed

end
