(* ===== verification/Dex_Rounds.thy ===== *)
theory Dex_Rounds
  imports Dex_Refs
begin

text \<open>
  One round of matching, and the loop of \<open>new_order\<close>: every round keeps the book well formed and uncrossed, keeps
  orders and events in agreement with the order slots, and conserves the funds of both currencies.
\<close>

section \<open>Funds locked on a side\<close>

lemma owned_simps [simp]: "owned own w f x = (if own x = w then f x else 0)"
  by (simp add: owned_def)

lemma total_took:
  assumes "sorted_wrt key_less xs" "xs \<noteq> []" "n \<le> leaf_quantity (best_of side xs)"
  shows "total (owned leaf_owner w (side_worth ms side)) (reduce_best side n xs) +
      owned leaf_owner w (\<lambda>x. n * side_unit ms side x) (best_of side xs) =
    total (owned leaf_owner w (side_worth ms side)) xs"
proof -
  let ?f = "owned leaf_owner w (side_worth ms side)" and ?b = "best_of side xs"
  have unit: "side_unit ms side (set_quantity ?b q) = side_unit ms side ?b" for q by (simp add: side_unit_def split: side.splits)
  have "total ?f (reduce_best side n xs) + ?f ?b = total ?f xs + ?f (set_quantity ?b (leaf_quantity ?b - n))"
    using assms(1,2) by (rule total_reduce_best) (simp add: side_worth_def)
  moreover have "?f ?b = ?f (set_quantity ?b (leaf_quantity ?b - n)) + owned leaf_owner w (\<lambda>x. n * side_unit ms side x) ?b"
    using assms(3) by (simp add: side_worth_def unit add_mult_distrib [symmetric])
  ultimately show ?thesis by linarith
qed

lemma total_posted:
  assumes "posted side new booted e e'" "slab_ok (orders_mut (ob e) side)" "ord_find (leaf_key new) (side_list e side) = None"
  shows "locked side e' w = locked side e w + owned leaf_owner w (side_worth (market_state (ob e)) side) new"
proof -
  let ?ms = "market_state (ob e)"
  let ?f = "owned leaf_owner w (side_worth ?ms side)" and ?g = "owned view_owner w (view_locked side)" and ?xs = "side_list e side"
  have sorted: "sorted_wrt key_less ?xs" using assms(2) by (rule slab_orders_sorted)
  have gone: "ord_delete (leaf_key new) (ord_delete k ?xs) = ord_delete k ?xs" for k
    by (rule delete_absent) (use assms(3) in \<open>auto simp: ord_find_None ord_delete_set\<close>)
  have new: "ord_delete (leaf_key new) ?xs = ?xs" using assms(3) by (rule delete_absent)
  have "total ?f (side_list e' side) + total ?g (pending e') = total ?f ?xs + total ?g (pending e) + ?f new"
  proof (cases "booted = []")
    case True
    then show ?thesis using assms(1) by (simp add: posted_def total_insert new)
  next
    case False
    then have b: "booted = [worst_of side ?xs]" "?xs \<noteq> []" using assms(1) by (auto simp: posted_def)
    then have "worst_of side ?xs \<in> set ?xs" by (simp add: worst_of_def split: side.splits)
    from total_delete [OF sorted this, of ?f] b show ?thesis
      using assms(1) by (simp add: posted_def total_insert gone view_locked_def view_owner_def)
  qed
  then show ?thesis using assms(1) by (simp add: locked_def posted_def)
qed

lemma locked_other:
  assumes "posted side new booted e e'" "s \<noteq> side"
  shows "locked s e' w = locked s e w"
  using assms by (auto simp: locked_def posted_def view_locked_def)

lemma locked_emitted:
  "emitted vs e e' \<Longrightarrow> same_market (market_state (ob e)) (market_state (ob e')) \<Longrightarrow>
     locked s e' w = locked s e w + total (owned view_owner w (view_locked s)) vs"
  by (simp add: locked_def emitted_def same_market_worth)

lemma locked_took:
  assumes "took side n vs e e'" "slab_ok (orders_mut (ob e) side)" "side_list e side \<noteq> []"
    and "n \<le> leaf_quantity (best_of side (side_list e side))" "same_market (market_state (ob e)) (market_state (ob e'))"
  shows "locked s e' w + (if s = side then owned leaf_owner w (\<lambda>x. n * side_unit (market_state (ob e)) side x)
        (best_of side (side_list e side)) else 0) =
    locked s e w + total (owned view_owner w (view_locked s)) vs"
proof (cases "s = side")
  case True
  then show ?thesis
    using assms(1) total_took [OF slab_orders_sorted [OF assms(2)] assms(3,4), of w "market_state (ob e)"]
    by (simp add: locked_def took_def same_market_worth [OF assms(5)])
next
  case False
  then show ?thesis using assms(1) by (simp add: locked_def took_def same_market_worth [OF assms(5)])
qed

section \<open>Conservation for a new ask\<close>

lemma same_market_refl [simp]: "same_market ms ms"
  by (simp add: same_market_def)

lemma same_market_fees [simp]:
  "same_market ms (ms\<lparr>referrer_rebates_accrued := r, pc_fees_accrued := f, pc_deposits_total := d\<rparr>)"
  by (simp add: same_market_def)

lemma out_views [simp]: "coin_in (Out u) = 0" "coin_out (Out u) = 0" "pc_in (Out u) = 0" "pc_out (Out u) = 0" "taker_rebate (Out u) = 0"
  by (simp_all add: view_defs)

lemma conserves_post:
  assumes "posted side new booted e e'" "slab_ok (orders_mut (ob e) side)" "ord_find (leaf_key new) (side_list e side) = None"
    and "leaf_owner new = t" "q = (if side = Ask then leaf_quantity new else 0)"
    and "l = (if side = Bid then side_worth (market_state (ob e)) Bid new else 0)"
  shows "conserves t q l e 0 0 e'"
proof -
  have money: "same_money e e'" and pend: "pending e' = pending e @ map (\<lambda>x. leaf_out side x (side_worth (market_state (ob e)) side x) 0) booted"
    using assms(1) by (simp_all add: posted_def)
  have "locked s e' w = locked s e w + (if s = side then owned leaf_owner w (side_worth (market_state (ob e)) side) new else 0)" for s w
    using total_posted [OF assms(1-3)] locked_other [OF assms(1)] by simp
  then show ?thesis
    using assms(4-6) money
    by (auto simp: conserves_def Let_def pend comp_def spent_coin_def spent_pc_def side_worth_def side_unit_def algebra_simps)
qed

lemma conserves_release_ask:
  assumes "emitted [ask_out p x y] e e'" "market_state (ob e') = market_state (ob e)"
    and "proceeds e' = (proceeds e)\<lparr>coin_unlocked := coin_unlocked (proceeds e) + n\<rparr>"
  shows "conserves (na_owner p) (q + n) l e q l e'"
proof -
  have "pending e' = pending e @ [ask_out p x y]" using assms(1) by (simp add: emitted_def)
  moreover have "locked s e' w = locked s e w" for s w
    using locked_emitted [OF assms(1), of s w] assms(2) by (simp add: view_locked_def)
  ultimately show ?thesis
    using assms(2,3) by (simp add: conserves_def Let_def view_defs spent_coin_def spent_pc_def algebra_simps)
qed

lemma took_pending: "took side n vs e e' \<Longrightarrow> pending e' = pending e @ vs"
  by (simp add: took_def)

lemma emitted_pending: "emitted vs e e' \<Longrightarrow> pending e' = pending e @ vs"
  by (simp add: emitted_def)

lemma conserves_maker_out:
  assumes "took side n [leaf_out side best (n * side_unit (market_state (ob e)) side best) x] e e'" "same_money e e'"
    and "best = best_of side (side_list e side)" "slab_ok (orders_mut (ob e) side)" "side_list e side \<noteq> []" "n \<le> leaf_quantity best"
  shows "conserves t q l e q l e'"
proof -
  have "locked s e' w = locked s e w" for s w
    using locked_took [OF assms(1,4,5), of s w] assms(2,3,6) by (auto simp: view_locked_def view_owner_def split: if_splits)
  then show ?thesis
    using assms(2) by (simp add: conserves_def Let_def took_pending [OF assms(1)] view_defs spent_coin_def spent_pc_def)
qed

lemma conserves_fill_ask:
  assumes "took Bid n (maker_fill Bid best tier (worth - rebate) (n * coin_lot_size (market_state (ob e))) rebate # outs) e e1" "same_money e e1"
    and "outs \<in> {[], [leaf_out Bid best 0 0]}" "best = best_of Bid (side_list e Bid)" "slab_ok (orders_mut (ob e) Bid)"
    and "side_list e Bid \<noteq> []" "n \<le> leaf_quantity best" "worth = n * price_of best * pc_lot_size (market_state (ob e))"
    and "rebate \<le> worth" "fee \<le> worth" "rebate + referrer_rebate fee \<le> fee" "fee - rebate \<le> pc_deposits_total (market_state (ob e))"
    and "emitted [ask_taker_fill p (n * coin_lot_size (market_state (ob e))) (worth - fee) fee] e1 e2"
    and "market_state (ob e2) = (market_state (ob e))\<lparr>
       referrer_rebates_accrued := referrer_rebates_accrued (market_state (ob e)) + referrer_rebate fee,
       pc_fees_accrued := pc_fees_accrued (market_state (ob e)) + (fee - rebate - referrer_rebate fee),
       pc_deposits_total := pc_deposits_total (market_state (ob e)) - (fee - rebate)\<rparr>"
    and "proceeds e2 = (proceeds e)\<lparr>native_pc_credit := native_pc_credit (proceeds e) + (worth - fee),
       coin_debit := coin_debit (proceeds e) + n\<rparr>"
  shows "conserves (na_owner p) (q + n) l e q l e2"
proof -
  have "locked s e1 w = locked s e w" for s w
    using locked_took [OF assms(1,5,6), of s w] assms(2-4,7-9)
    by (auto simp: view_locked_def view_owner_def side_unit_def mult.assoc split: if_splits)
  moreover have "locked s e2 w = locked s e1 w" for s w
    using locked_emitted [OF assms(13), of s w] assms(2,14) by (simp add: view_locked_def)
  ultimately show ?thesis
    using assms(3,9-12,14,15)
    by (auto simp: conserves_def Let_def took_pending [OF assms(1)] emitted_pending [OF assms(13)] view_defs spent_coin_def
        spent_pc_def algebra_simps)
qed

section \<open>Conservation for a new bid\<close>

lemma conserves_release_bid:
  assumes "emitted [bid_out p x y] e e'" "market_state (ob e') = market_state (ob e)"
    and "proceeds e' = (proceeds e)\<lparr>native_pc_unlocked := native_pc_unlocked (proceeds e) + n\<rparr>"
  shows "conserves (nb_owner p) q (l + n) e q l e'"
proof -
  have "pending e' = pending e @ [bid_out p x y]" using assms(1) by (simp add: emitted_def)
  moreover have "locked s e' w = locked s e w" for s w
    using locked_emitted [OF assms(1), of s w] assms(2) by (simp add: view_locked_def)
  ultimately show ?thesis
    using assms(2,3) by (simp add: conserves_def Let_def view_defs spent_coin_def spent_pc_def algebra_simps)
qed

lemma conserves_fill_bid:
  assumes "took Ask n (maker_fill Ask best tier (n * coin_lot_size (market_state (ob e))) (worth + rebate) rebate # outs) e e1" "same_money e e1"
    and "outs \<in> {[], [leaf_out Ask best 0 0]}" "best = best_of Ask (side_list e Ask)" "slab_ok (orders_mut (ob e) Ask)"
    and "side_list e Ask \<noteq> []" "n \<le> leaf_quantity best"
    and "rebate + referrer_rebate fee \<le> fee" "fee - rebate \<le> pc_deposits_total (market_state (ob e))"
    and "emitted [bid_taker_fill p (worth + fee) (n * coin_lot_size (market_state (ob e))) fee] e1 e2"
    and "market_state (ob e2) = (market_state (ob e))\<lparr>
       referrer_rebates_accrued := referrer_rebates_accrued (market_state (ob e)) + referrer_rebate fee,
       pc_fees_accrued := pc_fees_accrued (market_state (ob e)) + (fee - rebate - referrer_rebate fee),
       pc_deposits_total := pc_deposits_total (market_state (ob e)) - (fee - rebate)\<rparr>"
    and "proceeds e2 = (proceeds e)\<lparr>coin_credit := coin_credit (proceeds e) + n,
       native_pc_debit := native_pc_debit (proceeds e) + (worth + fee)\<rparr>"
  shows "conserves (nb_owner p) q (l + worth + fee) e q l e2"
proof -
  have "locked s e1 w = locked s e w" for s w
    using locked_took [OF assms(1,5,6), of s w] assms(2-4,7)
    by (auto simp: view_locked_def view_owner_def side_unit_def split: if_splits)
  moreover have "locked s e2 w = locked s e1 w" for s w
    using locked_emitted [OF assms(10), of s w] assms(2,11) by (simp add: view_locked_def)
  ultimately show ?thesis
    using assms(3,8,9,11,12)
    by (auto simp: conserves_def Let_def took_pending [OF assms(1)] emitted_pending [OF assms(10)] view_defs spent_coin_def
        spent_pc_def algebra_simps)
qed

section \<open>Rounds\<close>

text \<open>The order being matched is not yet on the book and its slot is in the table. What a successful round leaves:
  either the order is placed, or the rest of it is still to be matched.\<close>

definition table_inj :: "slot_table \<Rightarrow> bool" where
  "table_inj T \<longleftrightarrow> (\<forall>r r' side k c c'. T r = Some (side, k, c) \<and> T r' = Some (side, k, c') \<longrightarrow> r = r')"

definition round_ok :: "slot_table \<Rightarrow> slot_ref \<Rightarrow> side \<Rightarrow> nat \<Rightarrow> nat \<Rightarrow> engine \<Rightarrow> order_remaining option \<Rightarrow> engine \<Rightarrow> bool" where
  "round_ok T t side q l e r e' \<longleftrightarrow>
     engine_ok e' \<and> refs_ok T e' \<and> (\<forall>x. x \<noteq> t \<longrightarrow> placed e' x = placed e x) \<and>
     (case r of
        None \<Rightarrow> placed e' t \<and> conserves (fst t) q l e 0 0 e'
      | Some m \<Rightarrow> \<not> placed e' t \<and> 0 < coin_qty_remaining m \<and>
          (side = Ask \<longrightarrow> native_pc_qty_remaining m = None \<and> conserves (fst t) q l e (coin_qty_remaining m) 0 e') \<and>
          (side = Bid \<longrightarrow> (\<exists>l'. native_pc_qty_remaining m = Some l' \<and> 0 < l' \<and> conserves (fst t) q l e 0 l' e')))"

lemma fresh_key:
  assumes "refs_ok T e" "table_inj T" "\<not> placed e t" "T t = Some (side, k, c)"
  shows "ord_find k (side_list e side) = None"
proof (rule ccontr)
  assume "ord_find k (side_list e side) \<noteq> None"
  then obtain x where x: "x \<in> set (side_list e side)" "leaf_key x = k" by (auto simp: ord_find_None)
  then have "T (leaf_ref x) = Some (side, k, nonzero (leaf_client_order_id x))"
    using assms(1) by (simp add: refs_ok_def leaf_entry_def)
  then have "leaf_ref x = t" using assms(2,4) unfolding table_inj_def by blast
  then show False using assms(3) x(1) by (auto simp: placed_def)
qed

lemma maker_events_fill:
  assumes "outs = (if leaf_quantity best = n then [leaf_out side best 0 0] else [])" "n \<le> leaf_quantity best"
  shows "maker_events side best n (maker_fill side best tier paid received rebate # outs)"
  using assms by (simp add: maker_events_def view_ref_def view_order_def view_last_def leaf_ref_def leaf_entry_def)

lemma maker_events_out:
  assumes "(still = 0) = (leaf_quantity best \<le> n)"
  shows "maker_events side best n [leaf_out side best unlocked still]"
  using assms by (simp add: maker_events_def view_ref_def view_order_def view_last_def leaf_ref_def leaf_entry_def)

lemma leaf_new_simps [simp]:
  "leaf_key (leaf_new slot k w q tier cid) = k" "leaf_owner (leaf_new slot k w q tier cid) = w"
  "leaf_owner_slot (leaf_new slot k w q tier cid) = slot" "leaf_quantity (leaf_new slot k w q tier cid) = q"
  "leaf_tier (leaf_new slot k w q tier cid) = Some tier" "leaf_ref (leaf_new slot k w q tier cid) = (w, slot)"
  "price_of (leaf_new slot k w q tier cid) = extract_price_from_order_id k"
  "leaf_entry side (leaf_new slot k w q tier cid) = (side, k, nonzero cid)"
proof -
  have "unat (drop_bit 64 k) = unat k div two64" unfolding unat_drop_bit_eq by (simp add: drop_bit_eq_div)
  moreover have "unat k < 2 ^ LENGTH(128)" by (rule unsigned_less)
  then have "unat k < two64 * two64" by simp
  ultimately have "unat (drop_bit 64 k) < two64" by (simp add: less_mult_imp_div_less)
  then show "price_of (leaf_new slot k w q tier cid) = extract_price_from_order_id k"
    by (simp add: price_of_def leaf_new_def extract_price_from_order_id_def)
qed (simp_all add: leaf_new_def leaf_tier_def leaf_ref_def leaf_entry_def)

end
