(* ===== verification/Dex_New_Order.thy ===== *)
theory Dex_New_Order
  imports Dex_Rounds
begin

text \<open>The slot of the new order is in the table, under its side, its identifier and the client's number.\<close>

definition order_ready :: "slot_table \<Rightarrow> slot_ref \<Rightarrow> slot_entry \<Rightarrow> engine \<Rightarrow> bool" where
  "order_ready T t order e \<longleftrightarrow> engine_ok e \<and> refs_ok T e \<and> table_inj T \<and> T t = Some order \<and> \<not> placed e t"

lemma order_ready_step:
  assumes "order_ready T t order e" "engine_ok e'" "refs_ok T e'" "\<not> placed e' t"
  shows "order_ready T t order e'"
  using assms by (simp add: order_ready_def)

lemma ready_took:
  assumes "order_ready T t order e" "took side n vs e e'" "same_money e e'" "side_list e side \<noteq> []"
    and "maker_events side best n vs" "best = best_of side (side_list e side)"
  shows "order_ready T t order e'" "placed e' x \<longleftrightarrow> placed e x"
proof -
  have ok: "engine_ok e" "refs_ok T e" "\<not> placed e t" using assms(1) by (simp_all add: order_ready_def)
  then have "slab_ok (orders_mut (ob e) side)" by (simp add: engine_ok_alt)
  then show same: "placed e' x \<longleftrightarrow> placed e x" for x
    using placed_took [OF _ assms(2,4) assms(5) [unfolded assms(6)]] placed_took_back [OF _ assms(2,4) assms(5) [unfolded assms(6)]] by blast
  have "lots_ok (market_state (ob e'))" using ok(1) assms(3) by (simp add: engine_ok_alt)
  then show "order_ready T t order e'"
    using engine_ok_took [OF ok(1) assms(2,4)] refs_ok_took [OF ok(2) assms(2,4) assms(5) [unfolded assms(6)]] same ok(3)
    by (intro order_ready_step [OF assms(1)]) simp_all
qed

lemma ready_emitted:
  assumes "order_ready T t order e" "emitted vs e e'" "lots_ok (market_state (ob e'))"
    and "\<forall>v \<in> set vs. view_ref v = t \<and> view_order v = order" "\<forall>v \<in> set (butlast vs). \<not> view_last v"
  shows "engine_ok e'" "refs_ok T e'" "placed e' x \<longleftrightarrow> placed e x \<or> x = t \<and> vs \<noteq> [] \<and> view_last (last vs)"
proof -
  have ok: "engine_ok e" "refs_ok T e" "\<not> placed e t" "T t = Some order" using assms(1) by (simp_all add: order_ready_def)
  show "engine_ok e'" using ok(1) assms(2,3) by (rule engine_ok_emitted)
  show "refs_ok T e'" "placed e' x \<longleftrightarrow> placed e x \<or> x = t \<and> vs \<noteq> [] \<and> view_last (last vs)"
    using refs_ok_taker [OF ok(2) assms(2) ok(3,4) assms(4,5)] by simp_all
qed

section \<open>A round of a new ask\<close>

abbreviation ask_slot :: "new_ask_params \<Rightarrow> slot_ref" where
  "ask_slot p \<equiv> (na_owner p, na_owner_slot p)"

abbreviation ask_ready :: "slot_table \<Rightarrow> new_ask_params \<Rightarrow> engine \<Rightarrow> bool" where
  "ask_ready T p e \<equiv> order_ready T (ask_slot p) (Ask, na_order_id p, nonzero (na_client_order_id p)) e"

lemma find_best:
  assumes "engine_ok e" "find_bbo (ob e) side = Some (Some h)" "leaf_at (orders_mut (ob e) side) h = Some (Inr best)"
  shows "best = best_of side (side_list e side)" "side_list e side \<noteq> []" "best \<in> set (side_list e side)"
proof -
  have ok: "slab_ok (orders_mut (ob e) side)" using assms(1) by (simp add: engine_ok_alt)
  show "best = best_of side (side_list e side)"
    using find_bbo_ok(2) [OF assms(2) ok, of h] assms(3) by (simp add: leaf_at_def dex_result as_leaf_def)
  moreover show "side_list e side \<noteq> []" using find_bbo_ok(1) [OF assms(2) ok] by auto
  ultimately show "best \<in> set (side_list e side)" by (simp add: best_in)
qed

lemma ask_match_cases:
  assumes "ask_match p e = Some (Inr (x, e'))" "engine_ok e" "0 < na_max_qty p"
  obtains (stop) crossed where "e' = e" "\<not> crossed \<longrightarrow> (\<forall>b \<in> set (bid_list e). price_of b < na_limit_price p)"
    "x = Break \<lparr>lb_done = True, lb_crossed = crossed, lb_qty = na_max_qty p, lb_price = 0, lb_rebates = 0\<rparr>"
  | (trade) h best n where "find_bbo (ob e) Bid = Some (Some h)" "best = best_of Bid (bid_list e)" "bid_list e \<noteq> []"
    "n = min (leaf_quantity best) (na_max_qty p)" "0 < n" "0 < price_of best" "\<not> na_post_only p"
    "(if na_owner p = leaf_owner best then ask_self_trade else ask_fill) p e h best (price_of best) n (na_max_qty p) = Some (Inr (x, e'))"
proof -
  have sorted: "sorted_wrt key_less (bid_list e)"
    using assms(2) by (simp add: engine_ok_def bid_list_def slab_orders_sorted)
  obtain hb where hb: "find_bbo (ob e) Bid = Some hb" using assms(1) by (auto simp: ask_match_def dex_result)
  show thesis
  proof (cases hb)
    case None
    then have "bid_list e = []" using find_bbo_ok(1) [OF hb] assms(2) by (simp add: engine_ok_def bid_list_def)
    then show thesis using stop [of False] assms(1) hb None by (simp add: ask_match_def dex_result)
  next
    case (Some h)
    then obtain best where best: "leaf_at (orders_mut (ob e) Bid) h = Some (Inr best)"
      using assms(1) hb by (auto simp: ask_match_def dex_result)
    note b = find_best [OF assms(2) hb [unfolded Some] best, unfolded orders_mut_simps bid_list_def [symmetric]]
    have "leaf_ok best" using b(3) assms(2) by (simp add: engine_ok_def)
    then have pos: "0 < price_of best" "0 < leaf_quantity best" by (simp_all add: leaf_ok_def)
    then have price: "leaf_price best = Some (price_of best)" by (simp add: leaf_price_ok)
    show thesis
    proof (cases "\<not> na_limit_price p \<le> price_of best \<or> na_post_only p")
      case True
      have "price_of x < na_limit_price p" if "x \<in> set (bid_list e)" "\<not> na_limit_price p \<le> price_of best" for x
        using best_price(1) [OF sorted that(1)] that(2) b(1) by simp
      then show thesis
        using stop [of "na_limit_price p \<le> price_of best"] True assms(1) hb Some best price by (simp add: ask_match_def dex_result)
    next
      case False
      have "min (leaf_quantity best) (na_max_qty p) \<noteq> 0" using pos(2) assms(3) by simp
      with False show thesis
        using trade [OF hb [unfolded Some] b(1,2) refl] pos assms(1,3) hb Some best price
        by (cases "na_owner p = leaf_owner best") (simp_all add: ask_match_def dex_result Let_def del: neq0_conv)
    qed
  qed
qed

lemma conserves_same: "emitted [] e e' \<Longrightarrow> same_money e e' \<Longrightarrow> conserves t q l e q l e'"
  using locked_emitted [of "[]" e e'] by (auto simp: conserves_def emitted_def spent_coin_def spent_pc_def)

lemma ask_place_round:
  assumes "ask_place p e b = Some (Inr (r, e'))" "ask_ready T p e" "0 < na_limit_price p"
    and "na_limit_price p = extract_price_from_order_id (na_order_id p)"
    and "\<not> lb_crossed b \<longrightarrow> (\<forall>x \<in> set (bid_list e). price_of x < na_limit_price p)"
  shows "round_ok T (ask_slot p) Ask (lb_qty b) 0 e r e'"
proof -
  let ?new = "leaf_new (na_owner_slot p) (na_order_id p) (na_owner p) (lb_qty b) (na_fee_tier p) (na_client_order_id p)"
  have ok: "engine_ok e" "refs_ok T e" "table_inj T" "T (ask_slot p) = Some (Ask, na_order_id p, nonzero (na_client_order_id p))" "\<not> placed e (ask_slot p)"
    using assms(2) by (simp_all add: order_ready_def)
  have key: "ord_find (na_order_id p) (ask_list e) = None"
    using fresh_key [OF ok(2,3,5,4)] by (simp add: ask_list_def)
  have eok: "queue_ok (evq e)" "slab_ok (asks (ob e))" using ok(1) by (simp_all add: engine_ok_def)
  from assms(1) eok key show ?thesis
  proof (cases rule: ask_place_ok)
    case more
    then show ?thesis using ok by (simp add: round_ok_def conserves_refl)
  next
    case (post booted)
    have fresh: "ord_find (leaf_key ?new) (side_list e Ask) = None" "slab_ok (orders_mut (ob e) Ask)"
      using key eok(2) by (simp_all add: ask_list_def)
    have "leaf_ok ?new" using post(2) assms(3,4) by (simp add: leaf_ok_def)
    moreover have "\<forall>b \<in> set (side_list e Bid). price_of b < price_of ?new" using assms(4,5) post(1) by (simp add: bid_list_def)
    ultimately have "engine_ok e'" using engine_ok_posted [OF ok(1) post(4)] by simp
    moreover have "conserves (na_owner p) (lb_qty b) 0 e 0 0 e'"
      using conserves_post [OF post(4) fresh(2,1)] by simp
    ultimately show ?thesis
      using refs_ok_posted [OF ok(2) post(4) _ _ fresh(2)] placed_posted [OF post(4) fresh(2,1)] ok(4,5) post(3)
      by (simp add: round_ok_def)
  next
    case release
    note em = ready_emitted [OF assms(2) release(3)]
    show ?thesis
      using em ok(1) release(2,4) conserves_release_ask [OF release(3-5), of 0 0]
      by (simp add: round_ok_def view_ref_def view_order_def view_last_def engine_ok_def)
  qed
qed

lemma round_ok_after:
  assumes "round_ok T t side q1 l1 e1 r e'" "conserves (fst t) q l e q1 l1 e1" "\<And>x. placed e1 x \<longleftrightarrow> placed e x"
  shows "round_ok T t side q l e r e'"
  using assms conserves_trans [OF assms(2)] by (auto simp: round_ok_def split: option.splits)

lemma ask_self_trade_round:
  assumes "ask_self_trade p e h best (price_of best) n (na_max_qty p) = Some (Inr (x, e'))" "ask_ready T p e"
    and "find_bbo (ob e) Bid = Some (Some h)" "best = best_of Bid (bid_list e)" "bid_list e \<noteq> []" "0 < price_of best"
  obtains r where "x = Return r" "round_ok T (ask_slot p) Ask (na_max_qty p) 0 e r e'"
proof -
  let ?ms = "market_state (ob e)"
  have ok: "engine_ok e" using assms(2) by (simp add: order_ready_def)
  then have eok: "queue_ok (evq e)" "slab_ok (bids (ob e))" "lots_ok ?ms" by (simp_all add: engine_ok_def)
  from assms(1) eok(1,2) assms(3,4) show thesis
  proof (rule ask_self_trade_ok)
    fix give given_up e2
    let ?r = "map_option (\<lambda>n. \<lparr>coin_qty_remaining = n, native_pc_qty_remaining = None\<rparr>) (nonzero (na_max_qty p - given_up))"
    assume give: "give \<le> leaf_quantity best" "given_up \<le> na_max_qty p" and x: "x = Return ?r"
      and took: "took Bid give [leaf_out Bid best (give * price_of best * pc_lot_size ?ms)
          ((leaf_quantity best - give) * price_of best * pc_lot_size ?ms)] e e2"
      and em: "emitted [ask_out p (given_up * coin_lot_size ?ms) (na_max_qty p - given_up)] e2 e'" and same: "same_money e e2"
      and rest: "market_state (ob e') = ?ms" "proceeds e' = (proceeds e)\<lparr>coin_unlocked := coin_unlocked (proceeds e) + given_up\<rparr>"
    have b: "best = best_of Bid (side_list e Bid)" "side_list e Bid \<noteq> []" "slab_ok (orders_mut (ob e) Bid)"
      using assms(4,5) eok(2) by (simp_all add: bid_list_def)
    have "maker_events Bid best give [leaf_out Bid best (give * price_of best * pc_lot_size ?ms)
          ((leaf_quantity best - give) * price_of best * pc_lot_size ?ms)]"
      by (rule maker_events_out) (use assms(6) eok(3) in \<open>auto simp: lots_ok_def\<close>)
    note e2 = ready_took [OF assms(2) took same b(2) this b(1)]
    note e' = ready_emitted [OF e2(1) em]
    have "conserves (na_owner p) (na_max_qty p) 0 e (na_max_qty p) 0 e2"
      using conserves_maker_out [OF _ same b(1,3,2) give(1)] took by (simp add: side_unit_def mult.assoc)
    moreover have "conserves (na_owner p) (na_max_qty p) 0 e2 (na_max_qty p - given_up) 0 e'"
      using conserves_release_ask [OF em, of given_up "na_max_qty p - given_up" 0] rest same give(2) by simp
    ultimately have "conserves (na_owner p) (na_max_qty p) 0 e (na_max_qty p - given_up) 0 e'" by (rule conserves_trans)
    then have "round_ok T (ask_slot p) Ask (na_max_qty p) 0 e ?r e'"
      using e' e2(2) eok(3) assms(2) rest(1) give(2)
      by (cases "given_up = na_max_qty p") (simp_all add: round_ok_def view_ref_def view_order_def view_last_def nonzero_def order_ready_def)
    with x show thesis by (rule that)
  qed
qed

lemma ask_fill_round:
  assumes "ask_fill p e h best (price_of best) n (na_max_qty p) = Some (Inr (x, e1))" "ask_ready T p e"
    and "find_bbo (ob e) Bid = Some (Some h)" "best = best_of Bid (bid_list e)" "bid_list e \<noteq> []" "0 < price_of best" "0 < n"
    and "x = Break b" "ask_settle p e1 b = Some (Inr e')"
  shows "ask_ready T p e'" "conserves (na_owner p) (na_max_qty p) 0 e (lb_qty b) 0 e'" "placed e' y \<longleftrightarrow> placed e y" "lb_crossed b"
proof -
  let ?ms = "market_state (ob e)"
  have ok: "engine_ok e" using assms(2) by (simp add: order_ready_def)
  then have eok: "queue_ok (evq e)" "slab_ok (bids (ob e))" "lots_ok ?ms" by (simp_all add: engine_ok_def)
  obtain tier rebate worth where worth: "worth = n * price_of best * pc_lot_size ?ms" "rebate \<le> worth"
      "n \<le> leaf_quantity best" "n \<le> na_max_qty p"
    and b: "b = \<lparr>lb_done = False, lb_crossed = True, lb_qty = na_max_qty p - n, lb_price = n * price_of best, lb_rebates = rebate\<rparr>"
    and took: "took Bid n (maker_fill Bid best tier (worth - rebate) (n * coin_lot_size ?ms) rebate #
      (if leaf_quantity best = n then [leaf_out Bid best 0 0] else [])) e e1" and same: "same_money e e1"
    by (rule ask_fill_ok [OF assms(1) eok(1,2) assms(3,4)]) (use assms(8) in auto)
  have bb: "best = best_of Bid (side_list e Bid)" "side_list e Bid \<noteq> []" "slab_ok (orders_mut (ob e) Bid)"
    using assms(4,5) eok(2) by (simp_all add: bid_list_def)
  note e1 = ready_took [OF assms(2) took same bb(2) maker_events_fill [OF refl worth(3)] bb(1)]
  then have q1: "queue_ok (evq e1)" by (simp add: order_ready_def engine_ok_def)
  have pos: "0 < worth" using assms(6,7) eok(3) worth(1) by (simp add: lots_ok_def)
  have eqs: "lb_price b * pc_lot_size ?ms = worth" "na_max_qty p - lb_qty b = n" "lb_rebates b = rebate"
    using b worth(1,4) by simp_all
  obtain fee where fee: "fee \<le> worth" "rebate + referrer_rebate fee \<le> fee" "fee - rebate \<le> pc_deposits_total ?ms"
    and em: "emitted [ask_taker_fill p (n * coin_lot_size ?ms) (worth - fee) fee] e1 e'"
    and ms: "market_state (ob e') = ?ms\<lparr>
       referrer_rebates_accrued := referrer_rebates_accrued ?ms + referrer_rebate fee,
       pc_fees_accrued := pc_fees_accrued ?ms + (fee - rebate - referrer_rebate fee),
       pc_deposits_total := pc_deposits_total ?ms - (fee - rebate)\<rparr>"
    and pr: "proceeds e' = (proceeds e)\<lparr>native_pc_credit := native_pc_credit (proceeds e) + (worth - fee),
       coin_debit := coin_debit (proceeds e) + n\<rparr>"
  proof (rule ask_settle_ok [OF assms(9) q1, unfolded conjunct1 [OF same] conjunct2 [OF same] eqs], goal_cases)
    case (1 w fee)
    then show thesis using pos by (intro that [of fee]) (simp_all only: if_True)
  qed
  note e' = ready_emitted [OF e1(1) em]
  have lots: "lots_ok (market_state (ob e'))" using ms eok(3) by (simp add: lots_ok_def)
  show "placed e' y \<longleftrightarrow> placed e y" for y
    using e'(3) lots e1(2) by (simp add: view_ref_def view_order_def view_last_def)
  with e'(1,2) lots assms(2) show "ask_ready T p e'" by (simp add: order_ready_def view_ref_def view_order_def)
  show "conserves (na_owner p) (na_max_qty p) 0 e (lb_qty b) 0 e'"
    using conserves_fill_ask [OF took same _ bb(1,3,2) worth(3,1,2) fee em ms pr, of "na_max_qty p - n" 0] worth(4) b by simp
  show "lb_crossed b" using b by simp
qed

lemma ask_place_done:
  assumes "ask_place p e b = Some (Inr (r, e'))" "lb_done b"
  shows "r = None"
proof (cases "na_post_allowed p \<and> \<not> lb_crossed b \<and> 0 < lb_qty b")
  case True
  then show ?thesis using assms unfolding ask_place_def Let_def by (auto simp: dex_result)
next
  case False
  with assms show ?thesis
    by (simp only: ask_place_def Let_def if_False simp_thms dex_result prod.inject) blast
qed

lemma fill_breaks:
  "ask_fill p e h best price n unf = Some (Inr (x, e')) \<Longrightarrow> \<exists>b. x = Break b"
  "bid_fill q e h best price n pcq = Some (Inr (x, e')) \<Longrightarrow> \<exists>b. x = Break b"
  unfolding ask_fill_def bid_fill_def Let_def dex_result prod.inject by blast+

lemma ask_stop_settle:
  assumes "ask_settle p e b = Some (Inr e')" "ask_ready T p e" "lb_price b = 0" "lb_qty b = na_max_qty p"
  shows "emitted [] e e'" "same_money e e'"
proof -
  have "queue_ok (evq e)" using assms(2) by (simp add: order_ready_def engine_ok_def)
  from ask_settle_ok [OF assms(1) this] assms(3,4) show "emitted [] e e'" "same_money e e'" by auto
qed

lemma new_ask_round:
  assumes "new_ask p e = Some (Inr (r, e'))" "ask_ready T p e" "0 < na_max_qty p" "0 < na_limit_price p"
    and "na_limit_price p = extract_price_from_order_id (na_order_id p)"
  shows "round_ok T (ask_slot p) Ask (na_max_qty p) 0 e r e' \<and> (na_post_only p \<longrightarrow> r = None)"
proof -
  have ok: "engine_ok e" using assms(2) by (simp add: order_ready_def)
  obtain x e1 where m: "ask_match p e = Some (Inr (x, e1))"
    and rest: "(case x of Return r \<Rightarrow> dex_ok (r, e1) | Break b \<Rightarrow> dex_bind (ask_settle p e1 b) (\<lambda>e. ask_place p e b)) = Some (Inr (r, e'))"
    using assms(1) by (auto simp: new_ask_def dex_result)
  from m ok assms(3) show ?thesis
  proof (cases rule: ask_match_cases)
    case (stop crossed)
    define b where "b = \<lparr>lb_done = True, lb_crossed = crossed, lb_qty = na_max_qty p, lb_price = 0, lb_rebates = 0\<rparr>"
    then have b: "x = Break b" "lb_price b = 0" "lb_qty b = na_max_qty p" "lb_crossed b = crossed" "lb_done b"
      using stop(3) by simp_all
    then obtain e2 where st: "ask_settle p e b = Some (Inr e2)" "ask_place p e2 b = Some (Inr (r, e'))"
      using rest stop(1) by (auto simp: dex_result)
    note same = ask_stop_settle [OF st(1) assms(2) b(2,3)]
    have e2: "ask_ready T p e2" "\<And>x. placed e2 x \<longleftrightarrow> placed e x"
      using ready_emitted [OF assms(2) same(1)] same(2) assms(2) by (simp_all add: order_ready_def engine_ok_def)
    have "bid_list e2 = bid_list e" using same(1) by (simp add: emitted_def bid_list_def all_side)
    then have "round_ok T (ask_slot p) Ask (na_max_qty p) 0 e2 r e'"
      using ask_place_round [OF st(2) e2(1) assms(4,5)] stop(2) b(3,4) by simp
    then have "round_ok T (ask_slot p) Ask (na_max_qty p) 0 e r e'" using conserves_same [OF same] e2(2) by (rule round_ok_after)
    moreover have "r = None" using st(2) b(5) by (rule ask_place_done)
    ultimately show ?thesis by simp
  next
    case (trade h best n)
    show ?thesis
    proof (cases "na_owner p = leaf_owner best")
      case True
      then have "ask_self_trade p e h best (price_of best) n (na_max_qty p) = Some (Inr (x, e1))" using trade(8) by simp
      from this assms(2) trade(1-3,6) obtain r' where "x = Return r'" "round_ok T (ask_slot p) Ask (na_max_qty p) 0 e r' e1"
        by (rule ask_self_trade_round)
      then show ?thesis using rest trade(7) by (simp add: dex_result)
    next
      case False
      then have fill: "ask_fill p e h best (price_of best) n (na_max_qty p) = Some (Inr (x, e1))" using trade(8) by simp
      then obtain b e2 where b: "x = Break b" and st: "ask_settle p e1 b = Some (Inr e2)" "ask_place p e2 b = Some (Inr (r, e'))"
        using rest fill_breaks(1) [OF fill] by (auto simp: dex_result)
      note f = ask_fill_round [OF fill assms(2) trade(1-3,6,5) b st(1)]
      have "round_ok T (ask_slot p) Ask (lb_qty b) 0 e2 r e'"
        using ask_place_round [OF st(2) f(1) assms(4,5)] f(4) by simp
      then have "round_ok T (ask_slot p) Ask (na_max_qty p) 0 e r e'" by (rule round_ok_after) (use f(2,3) in simp_all)
      then show ?thesis using trade(7) by simp
    qed
  qed
qed

section \<open>A round of a new bid\<close>

abbreviation bid_slot :: "new_bid_params \<Rightarrow> slot_ref" where
  "bid_slot p \<equiv> (nb_owner p, nb_owner_slot p)"

abbreviation bid_ready :: "slot_table \<Rightarrow> new_bid_params \<Rightarrow> engine \<Rightarrow> bool" where
  "bid_ready T p e \<equiv> order_ready T (bid_slot p) (Bid, nb_order_id p, nonzero (nb_client_order_id p)) e"

lemma bid_match_cases:
  assumes "bid_match p max_pc e = Some (Inr (x, e'))" "engine_ok e"
  obtains (stop) crossed where "e' = e"
    "\<not> crossed \<longrightarrow> (\<forall>lim. nb_limit_price p = Some lim \<longrightarrow> (\<forall>a \<in> set (ask_list e). lim < price_of a))"
    "x = Break \<lparr>lb_done = True, lb_crossed = crossed, lb_qty = nb_max_coin_qty p, lb_price = max_pc, lb_rebates = 0\<rparr>"
  | (trade) h best n where "find_bbo (ob e) Ask = Some (Some h)" "best = best_of Ask (ask_list e)" "ask_list e \<noteq> []"
    "0 < n" "0 < price_of best" "\<not> nb_post_only p" "nb_owner p = leaf_owner best"
    "bid_self_trade p e h best (price_of best) n = Some (Inr (x, e'))"
  | (fill) h best n where "find_bbo (ob e) Ask = Some (Some h)" "best = best_of Ask (ask_list e)" "ask_list e \<noteq> []"
    "0 < n" "0 < price_of best" "\<not> nb_post_only p" "nb_owner p \<noteq> leaf_owner best"
    "bid_fill p e h best (price_of best) n max_pc = Some (Inr (x, e'))"
proof -
  have sorted: "sorted_wrt key_less (ask_list e)"
    using assms(2) by (simp add: engine_ok_def ask_list_def slab_orders_sorted)
  obtain hb where hb: "find_bbo (ob e) Ask = Some hb" using assms(1) by (auto simp: bid_match_def dex_result)
  show thesis
  proof (cases hb)
    case None
    then have "ask_list e = []" using find_bbo_ok(1) [OF hb] assms(2) by (simp add: engine_ok_def ask_list_def)
    then show thesis using stop [of False] assms(1) hb None by (simp add: bid_match_def dex_result)
  next
    case (Some h)
    then obtain best where best: "leaf_at (orders_mut (ob e) Ask) h = Some (Inr best)"
      using assms(1) hb by (auto simp: bid_match_def dex_result)
    note b = find_best [OF assms(2) hb [unfolded Some] best, unfolded orders_mut_simps ask_list_def [symmetric]]
    have "leaf_ok best" using b(3) assms(2) by (simp add: engine_ok_def)
    then have pos: "0 < price_of best" by (simp add: leaf_ok_def)
    define crossed where "crossed = (case nb_limit_price p of None \<Rightarrow> True | Some lim \<Rightarrow> price_of best \<le> lim)"
    define n where "n = min (min (leaf_quantity best) (nb_max_coin_qty p)) (max_pc div price_of best)"
    have "bid_match p max_pc e = (if \<not> crossed \<or> nb_post_only p \<or> n = 0
        then dex_ok (Break \<lparr>lb_done = True, lb_crossed = crossed, lb_qty = nb_max_coin_qty p, lb_price = max_pc, lb_rebates = 0\<rparr>, e)
        else if nb_owner p = leaf_owner best then bid_self_trade p e h best (price_of best) n
        else bid_fill p e h best (price_of best) n max_pc)"
      using hb Some best pos leaf_price_ok [of best "price_of best"]
      by (simp add: bid_match_def Let_def crossed_def [symmetric] n_def [symmetric])
    note run = assms(1) [unfolded this]
    have far: "lim < price_of a" if "a \<in> set (ask_list e)" "\<not> crossed" "nb_limit_price p = Some lim" for a lim
      using best_price(2) [OF sorted that(1)] that(2,3) b(1) by (simp add: crossed_def)
    show thesis
    proof (cases "\<not> crossed \<or> nb_post_only p \<or> n = 0")
      case True
      then show thesis using stop [of crossed] far run by (simp add: dex_result)
    next
      case False
      then show thesis
        using run pos trade [OF hb [unfolded Some] b(1,2), of n] fill [OF hb [unfolded Some] b(1,2), of n]
        by (cases "nb_owner p = leaf_owner best") simp_all
    qed
  qed
qed

lemma bid_post_round:
  assumes "bid_post p e b pc_left = Some (Inr (r, e'))" "bid_ready T p e"
    and "nb_limit_price p = nonzero (extract_price_from_order_id (nb_order_id p))"
    and "\<not> lb_crossed b \<longrightarrow> (\<forall>lim. nb_limit_price p = Some lim \<longrightarrow> (\<forall>a \<in> set (ask_list e). lim < price_of a))"
  shows "round_ok T (bid_slot p) Bid 0 pc_left e r e'" "r = None"
proof -
  let ?lot = "pc_lot_size (market_state (ob e))"
  have ok: "engine_ok e" "refs_ok T e" "table_inj T" "T (bid_slot p) = Some (Bid, nb_order_id p, nonzero (nb_client_order_id p))" "\<not> placed e (bid_slot p)"
    using assms(2) by (simp_all add: order_ready_def)
  have key: "ord_find (nb_order_id p) (bid_list e) = None"
    using fresh_key [OF ok(2,3,5,4)] by (simp add: bid_list_def)
  have eok: "queue_ok (evq e)" "slab_ok (bids (ob e))" "lots_ok (market_state (ob e))" using ok(1) by (simp_all add: engine_ok_def)
  obtain still n e1 where r: "r = None" "still \<le> pc_left"
    and em: "emitted [bid_out p (pc_left - still) still] e e1" and ms: "market_state (ob e1) = market_state (ob e)"
    and pr: "proceeds e1 = (proceeds e)\<lparr>native_pc_unlocked := native_pc_unlocked (proceeds e) + (pc_left - still)\<rparr>"
    and none: "still = 0 \<longrightarrow> e' = e1"
    and some: "0 < still \<longrightarrow> \<not> lb_crossed b \<and> (\<exists>price booted. nb_limit_price p = Some price \<and> still = n * price * ?lot \<and>
       posted Bid (leaf_new (nb_owner_slot p) (nb_order_id p) (nb_owner p) n (nb_fee_tier p) (nb_client_order_id p)) booted e1 e')"
    by (rule bid_post_ok [OF assms(1) eok(1,2) key eok(3)])
  then show "r = None" by simp
  let ?new = "leaf_new (nb_owner_slot p) (nb_order_id p) (nb_owner p) n (nb_fee_tier p) (nb_client_order_id p)"
  have rel: "conserves (nb_owner p) 0 pc_left e 0 still e1"
    using conserves_release_bid [OF em ms pr, of 0 still] r(2) by simp
  have e1: "engine_ok e1" "refs_ok T e1" "\<And>x. placed e1 x \<longleftrightarrow> placed e x \<or> x = bid_slot p \<and> still = 0"
    using ready_emitted [OF assms(2) em] ms eok(3) by (simp_all add: view_ref_def view_order_def view_last_def)
  show "round_ok T (bid_slot p) Bid 0 pc_left e r e'"
  proof (cases "still = 0")
    case True
    then show ?thesis using none e1 rel r(1) by (simp add: round_ok_def)
  next
    case False
    then obtain price booted where post: "nb_limit_price p = Some price" "still = n * price * ?lot" "posted Bid ?new booted e1 e'"
        "\<not> lb_crossed b" using some by auto
    have price: "extract_price_from_order_id (nb_order_id p) = price" "0 < price" "0 < n"
      using assms(3) post(1,2) False by (auto simp: nonzero_def split: if_splits)
    have e1': "bid_ready T p e1" using e1 False ok by (simp add: order_ready_def)
    have same: "side_list e1 s = side_list e s" for s using em by (simp add: emitted_def)
    have fresh: "slab_ok (orders_mut (ob e1) Bid)" "ord_find (leaf_key ?new) (side_list e1 Bid) = None"
      using e1(1) key same [of Bid] by (simp_all add: engine_ok_def bid_list_def)
    have "leaf_ok ?new" using price by (simp add: leaf_ok_def)
    moreover have "\<forall>a \<in> set (side_list e1 Ask). price_of ?new < price_of a"
      using assms(4) post(1,4) price(1) same [of Ask] by (simp add: ask_list_def)
    ultimately have "engine_ok e'" using engine_ok_posted [OF e1(1) post(3)] by simp
    moreover have "conserves (nb_owner p) 0 still e1 0 0 e'"
      using conserves_post [OF post(3) fresh] post(2) price(1) ms by (simp add: side_worth_def side_unit_def mult.assoc)
    ultimately show ?thesis
      using refs_ok_posted [OF e1(2) post(3) _ _ fresh(1)] placed_posted [OF post(3) fresh] e1(3) False ok(4,5) r(1)
        conserves_trans [OF rel] by (simp add: round_ok_def)
  qed
qed

lemma bid_place_round:
  assumes "bid_place p e b pc_left = Some (Inr (r, e'))" "bid_ready T p e"
    and "nb_limit_price p = nonzero (extract_price_from_order_id (nb_order_id p))"
    and "\<not> lb_crossed b \<longrightarrow> (\<forall>lim. nb_limit_price p = Some lim \<longrightarrow> (\<forall>a \<in> set (ask_list e). lim < price_of a))"
  shows "round_ok T (bid_slot p) Bid 0 pc_left e r e'" "lb_done b \<longrightarrow> r = None"
proof -
  show "lb_done b \<longrightarrow> r = None" using assms(1) bid_post_round(2) [OF _ assms(2-4)] by (auto simp: bid_place_def)
  show "round_ok T (bid_slot p) Bid 0 pc_left e r e'"
  proof (cases "\<not> lb_done b \<and> lb_qty b \<noteq> 0 \<and> pc_left \<noteq> 0")
    case True
    then show ?thesis using assms(1,2) by (auto simp: bid_place_def dex_result round_ok_def order_ready_def conserves_refl)
  next
    case False
    then show ?thesis using assms(1) bid_post_round(1) [OF _ assms(2-4)] unfolding bid_place_def by presburger
  qed
qed

lemma bid_self_trade_round:
  assumes "bid_self_trade p e h best (price_of best) n = Some (Inr (x, e'))" "bid_ready T p e"
    and "find_bbo (ob e) Ask = Some (Some h)" "best = best_of Ask (ask_list e)" "ask_list e \<noteq> []"
  obtains r where "x = Return r" "round_ok T (bid_slot p) Bid 0 (nb_native_pc_qty_locked p) e r e'"
proof -
  let ?ms = "market_state (ob e)"
  have ok: "engine_ok e" using assms(2) by (simp add: order_ready_def)
  then have eok: "queue_ok (evq e)" "slab_ok (asks (ob e))" "lots_ok ?ms" by (simp_all add: engine_ok_def)
  obtain give given_up unlocked still e2 where give: "give \<le> leaf_quantity best" "unlocked + still = nb_native_pc_qty_locked p"
    and x: "still = 0 \<longrightarrow> x = Return None" "0 < still \<longrightarrow> given_up < nb_max_coin_qty p \<and>
       x = Return (Some \<lparr>coin_qty_remaining = nb_max_coin_qty p - given_up, native_pc_qty_remaining = Some still\<rparr>)"
    and took: "took Ask give [leaf_out Ask best (give * coin_lot_size ?ms) ((leaf_quantity best - give) * coin_lot_size ?ms)] e e2"
    and em: "emitted [bid_out p unlocked still] e2 e'" and same: "same_money e e2"
    and rest: "market_state (ob e') = ?ms" "proceeds e' = (proceeds e)\<lparr>native_pc_unlocked := native_pc_unlocked (proceeds e) + unlocked\<rparr>"
    by (rule bid_self_trade_ok [OF assms(1) eok(1,2) assms(3,4)]) (use that in blast)
  have b: "best = best_of Ask (side_list e Ask)" "side_list e Ask \<noteq> []" "slab_ok (orders_mut (ob e) Ask)"
    using assms(4,5) eok(2) by (simp_all add: ask_list_def)
  have "maker_events Ask best give [leaf_out Ask best (give * coin_lot_size ?ms) ((leaf_quantity best - give) * coin_lot_size ?ms)]"
    by (rule maker_events_out) (use eok(3) in \<open>auto simp: lots_ok_def\<close>)
  note e2 = ready_took [OF assms(2) took same b(2) this b(1)]
  have e': "engine_ok e'" "refs_ok T e'" "\<And>x. placed e' x \<longleftrightarrow> placed e x \<or> x = bid_slot p \<and> still = 0"
    using ready_emitted [OF e2(1) em] rest(1) eok(3) e2(2) by (simp_all add: view_ref_def view_order_def view_last_def)
  have "conserves (nb_owner p) 0 (nb_native_pc_qty_locked p) e 0 (nb_native_pc_qty_locked p) e2"
    using conserves_maker_out [OF _ same b(1,3,2) give(1)] took by (simp add: side_unit_def)
  moreover have "conserves (nb_owner p) 0 (nb_native_pc_qty_locked p) e2 0 still e'"
    using conserves_release_bid [OF em, of unlocked 0 still] rest same give(2) by (simp add: add.commute)
  ultimately have con: "conserves (nb_owner p) 0 (nb_native_pc_qty_locked p) e 0 still e'" by (rule conserves_trans)
  have fresh: "\<not> placed e (bid_slot p)" using assms(2) by (simp add: order_ready_def)
  show thesis
  proof (cases "still = 0")
    case True
    with x con e' show thesis using that [of None] by (simp add: round_ok_def)
  next
    case False
    with x con e' fresh show thesis by (intro that) (auto simp: round_ok_def)
  qed
qed

lemma bid_fill_round:
  assumes "bid_fill p e h best (price_of best) n max_pc = Some (Inr (x, e1))" "bid_ready T p e"
    and "find_bbo (ob e) Ask = Some (Some h)" "best = best_of Ask (ask_list e)" "ask_list e \<noteq> []" "0 < price_of best" "0 < n"
    and "x = Break b" "bid_settle p max_pc e1 b = Some (Inr (pc_left, e'))"
  shows "bid_ready T p e'" "conserves (nb_owner p) 0 (nb_native_pc_qty_locked p) e 0 pc_left e'"
    and "placed e' y \<longleftrightarrow> placed e y" "lb_crossed b"
proof -
  let ?ms = "market_state (ob e)"
  have ok: "engine_ok e" using assms(2) by (simp add: order_ready_def)
  then have eok: "queue_ok (evq e)" "slab_ok (asks (ob e))" "lots_ok ?ms" by (simp_all add: engine_ok_def)
  obtain tier rebate worth where worth: "worth = n * price_of best * pc_lot_size ?ms" "n \<le> leaf_quantity best"
      "n \<le> nb_max_coin_qty p" "n * price_of best \<le> max_pc"
    and b: "b = \<lparr>lb_done = False, lb_crossed = True, lb_qty = nb_max_coin_qty p - n, lb_price = max_pc - n * price_of best, lb_rebates = rebate\<rparr>"
    and took: "took Ask n (maker_fill Ask best tier (n * coin_lot_size ?ms) (worth + rebate) rebate #
      (if leaf_quantity best = n then [leaf_out Ask best 0 0] else [])) e e1" and same: "same_money e e1"
    by (rule bid_fill_ok [OF assms(1) eok(1,2) assms(3,4)]) (use assms(8) in auto)
  have bb: "best = best_of Ask (side_list e Ask)" "side_list e Ask \<noteq> []" "slab_ok (orders_mut (ob e) Ask)"
    using assms(4,5) eok(2) by (simp_all add: ask_list_def)
  note e1 = ready_took [OF assms(2) took same bb(2) maker_events_fill [OF refl worth(2)] bb(1)]
  then have q1: "queue_ok (evq e1)" by (simp add: order_ready_def engine_ok_def)
  have pos: "0 < worth" using assms(6,7) eok(3) worth(1) by (simp add: lots_ok_def)
  have eqs: "(max_pc - lb_price b) * pc_lot_size ?ms = worth" "nb_max_coin_qty p - lb_qty b = n" "lb_rebates b = rebate"
    using b worth(1,3,4) by simp_all
  obtain fee where fee: "rebate + referrer_rebate fee \<le> fee" "fee - rebate \<le> pc_deposits_total ?ms"
      "pc_left + worth + fee = nb_native_pc_qty_locked p"
    and em: "emitted [bid_taker_fill p (worth + fee) (n * coin_lot_size ?ms) fee] e1 e'"
    and ms: "market_state (ob e') = ?ms\<lparr>
       referrer_rebates_accrued := referrer_rebates_accrued ?ms + referrer_rebate fee,
       pc_fees_accrued := pc_fees_accrued ?ms + (fee - rebate - referrer_rebate fee),
       pc_deposits_total := pc_deposits_total ?ms - (fee - rebate)\<rparr>"
    and pr: "proceeds e' = (proceeds e)\<lparr>coin_credit := coin_credit (proceeds e) + n,
       native_pc_debit := native_pc_debit (proceeds e) + (worth + fee)\<rparr>"
  proof (rule bid_settle_ok [OF assms(9) q1, unfolded conjunct1 [OF same] conjunct2 [OF same] eqs], goal_cases)
    case (1 w fee)
    then show thesis using pos by (intro that [of fee]) (simp_all only: if_True)
  qed
  note e' = ready_emitted [OF e1(1) em]
  have lots: "lots_ok (market_state (ob e'))" using ms eok(3) by (simp add: lots_ok_def)
  show "placed e' y \<longleftrightarrow> placed e y" for y
    using e'(3) lots e1(2) by (simp add: view_ref_def view_order_def view_last_def)
  with e'(1,2) lots assms(2) show "bid_ready T p e'" by (simp add: order_ready_def view_ref_def view_order_def)
  show "conserves (nb_owner p) 0 (nb_native_pc_qty_locked p) e 0 pc_left e'"
    using conserves_fill_bid [OF took same _ bb(1,3,2) worth(2) fee(1,2) em ms pr, of 0 pc_left] fee(3) by simp
  show "lb_crossed b" using b by simp
qed

lemma bid_stop_settle:
  assumes "bid_settle p max_pc e b = Some (Inr (pc_left, e'))" "bid_ready T p e" "lb_price b = max_pc" "lb_qty b = nb_max_coin_qty p"
  shows "emitted [] e e'" "same_money e e'" "pc_left = nb_native_pc_qty_locked p"
proof -
  have "queue_ok (evq e)" using assms(2) by (simp add: order_ready_def engine_ok_def)
  moreover have "taker_fee tier 0 = Some 0" for tier using taker_fee_eq [of 0 tier] by (simp add: fee_of_def)
  ultimately show "emitted [] e e'" "same_money e e'" "pc_left = nb_native_pc_qty_locked p"
    using bid_settle_ok [OF assms(1)] assms(3,4) by auto
qed

lemma new_bid_round:
  assumes "new_bid p e = Some (Inr (r, e'))" "bid_ready T p e"
    and "nb_limit_price p = nonzero (extract_price_from_order_id (nb_order_id p))"
  shows "round_ok T (bid_slot p) Bid 0 (nb_native_pc_qty_locked p) e r e' \<and> (nb_post_only p \<longrightarrow> r = None)"
proof -
  have ok: "engine_ok e" using assms(2) by (simp add: order_ready_def)
  obtain max_pc x e1 where m: "bid_match p max_pc e = Some (Inr (x, e1))"
    and rest: "(case x of Return r \<Rightarrow> dex_ok (r, e1)
        | Break b \<Rightarrow> dex_bind (bid_settle p max_pc e1 b) (\<lambda>(pc_left, e). bid_place p e b pc_left)) = Some (Inr (r, e'))"
    using assms(1) by (auto simp: new_bid_def dex_result)
  from m ok show ?thesis
  proof (cases rule: bid_match_cases)
    case (stop crossed)
    define b where "b = \<lparr>lb_done = True, lb_crossed = crossed, lb_qty = nb_max_coin_qty p, lb_price = max_pc, lb_rebates = 0\<rparr>"
    then have b: "x = Break b" "lb_price b = max_pc" "lb_qty b = nb_max_coin_qty p" "lb_crossed b = crossed" "lb_done b"
      using stop(3) by simp_all
    then obtain e2 pc_left where st: "bid_settle p max_pc e b = Some (Inr (pc_left, e2))" "bid_place p e2 b pc_left = Some (Inr (r, e'))"
      using rest stop(1) by (auto simp: dex_result)
    note same = bid_stop_settle [OF st(1) assms(2) b(2,3)]
    have e2: "bid_ready T p e2" "\<And>x. placed e2 x \<longleftrightarrow> placed e x"
      using ready_emitted [OF assms(2) same(1)] same(2) assms(2) by (simp_all add: order_ready_def engine_ok_def)
    have "ask_list e2 = ask_list e" using same(1) by (simp add: emitted_def ask_list_def all_side)
    then have "round_ok T (bid_slot p) Bid 0 pc_left e2 r e' \<and> r = None"
      using bid_place_round [OF st(2) e2(1) assms(3)] stop(2) b(4,5) by simp
    then show ?thesis using round_ok_after [OF _ _ e2(2)] conserves_same [OF same(1,2)] same(3) by blast
  next
    case (trade h best n)
    from trade(8) assms(2) trade(1-3) obtain r' where "x = Return r'" "round_ok T (bid_slot p) Bid 0 (nb_native_pc_qty_locked p) e r' e1"
      by (rule bid_self_trade_round)
    then show ?thesis using rest trade(6) by (simp add: dex_result)
  next
    case (fill h best n)
    then obtain b e2 pc_left where b: "x = Break b"
      and st: "bid_settle p max_pc e1 b = Some (Inr (pc_left, e2))" "bid_place p e2 b pc_left = Some (Inr (r, e'))"
      using rest fill_breaks(2) [OF fill(8)] by (auto simp: dex_result)
    note f = bid_fill_round [OF fill(8) assms(2) fill(1-3,5,4) b st(1)]
    have "round_ok T (bid_slot p) Bid 0 pc_left e2 r e'"
      using bid_place_round [OF st(2) f(1) assms(3)] f(4) by simp
    then have "round_ok T (bid_slot p) Bid 0 (nb_native_pc_qty_locked p) e r e'" by (rule round_ok_after) (use f(2,3) in simp_all)
    then show ?thesis using fill(6) by simp
  qed
qed

section \<open>The loop of \<open>new_order\<close>\<close>

abbreviation order_slot :: "new_order_params \<Rightarrow> slot_ref" where
  "order_slot p \<equiv> (np_owner p, np_owner_slot p)"

abbreviation new_ready :: "slot_table \<Rightarrow> new_order_params \<Rightarrow> engine \<Rightarrow> bool" where
  "new_ready T p e \<equiv> order_ready T (order_slot p) (np_side p, np_order_id p, nonzero (np_client_order_id p)) e"

text \<open>The coins and the units of the price currency that an order brings to a round.\<close>

definition held_coin :: "side \<Rightarrow> nat \<Rightarrow> nat" where
  "held_coin side coin_qty = (if side = Ask then coin_qty else 0)"

definition held_pc :: "side \<Rightarrow> nat option \<Rightarrow> nat" where
  "held_pc side pc_qty = (if side = Bid then get_or_zero pc_qty else 0)"

lemma order_round_ok:
  assumes "order_round p post_only post_allowed coin_qty pc_qty e = Some (Inr (r, e'))" "new_ready T p e" "0 < coin_qty"
  shows "round_ok T (order_slot p) (np_side p) (held_coin (np_side p) coin_qty) (held_pc (np_side p) pc_qty) e r e' \<and>
    (post_only \<longrightarrow> r = None)"
proof (cases "np_side p")
  case Bid
  then obtain locked where "pc_qty = Some locked" using assms(1) by (auto simp: order_round_def dex_result)
  with assms(1) Bid have "new_bid \<lparr>nb_max_coin_qty = coin_qty, nb_native_pc_qty_locked = locked,
      nb_limit_price = nonzero (extract_price_from_order_id (np_order_id p)),
      nb_order_id = np_order_id p, nb_owner = np_owner p, nb_owner_slot = np_owner_slot p,
      nb_fee_tier = np_fee_tier p, nb_post_only = post_only, nb_post_allowed = post_allowed,
      nb_client_order_id = np_client_order_id p, nb_self_trade_behavior = np_self_trade_behavior p\<rparr> e = Some (Inr (r, e'))"
    by (simp add: order_round_def Let_def)
  from new_bid_round [OF this, of T] show ?thesis
    using assms(2) Bid \<open>pc_qty = Some locked\<close> by (simp add: held_coin_def held_pc_def get_or_zero_def)
next
  case Ask
  define lim where "lim = extract_price_from_order_id (np_order_id p)"
  have lim: "0 < lim" "nonzero lim = Some lim" "pc_qty = None"
    using assms(1) Ask by (auto simp: order_round_def dex_result Let_def lim_def nonzero_def split: if_splits)
  with assms(1) Ask have "new_ask \<lparr>na_max_qty = coin_qty, na_limit_price = lim, na_order_id = np_order_id p,
      na_owner = np_owner p, na_owner_slot = np_owner_slot p, na_fee_tier = np_fee_tier p,
      na_post_only = post_only, na_post_allowed = post_allowed, na_client_order_id = np_client_order_id p,
      na_self_trade_behavior = np_self_trade_behavior p\<rparr> e = Some (Inr (r, e'))"
    by (simp add: order_round_def Let_def lim_def)
  from new_ask_round [OF this, of T] show ?thesis
    using assms(2,3) Ask lim by (simp add: held_coin_def held_pc_def lim_def)
qed

lemma new_order_loop_ok:
  assumes "new_order_loop p post_only post_allowed limit coin_qty pc_qty e = Some (Inr (r, left, e'))" "new_ready T p e" "0 < coin_qty"
  shows "r = None \<and> round_ok T (order_slot p) (np_side p) (held_coin (np_side p) coin_qty) (held_pc (np_side p) pc_qty) e None e'"
  using assms
proof (induction p post_only post_allowed limit coin_qty pc_qty e rule: new_order_loop.induct)
  case (1 p post_only post_allowed coin_qty pc_qty e)
  then have "order_round p True True coin_qty pc_qty e = Some (Inr (r, e'))" by (auto simp: dex_result)
  from order_round_ok [OF this 1(2,3)] show ?case by auto
next
  case (2 p post_only post_allowed limit coin_qty pc_qty e)
  then obtain r1 e1 where round: "order_round p post_only post_allowed coin_qty pc_qty e = Some (Inr (r1, e1))"
    and rest: "(case r1 of None \<Rightarrow> dex_ok (None, limit, e1)
      | Some r \<Rightarrow> new_order_loop p post_only post_allowed limit (coin_qty_remaining r) (native_pc_qty_remaining r) e1) = Some (Inr (r, left, e'))"
    by (auto simp: dex_result)
  note ok = conjunct1 [OF order_round_ok [OF round 2(3,4)]]
  show ?case
  proof (cases r1)
    case None
    then show ?thesis using ok rest by (simp add: dex_result)
  next
    case (Some m)
    note ok' = ok [unfolded Some round_ok_def option.case]
    have e1: "new_ready T p e1" "0 < coin_qty_remaining m" using ok' 2(3) by (simp_all add: order_ready_def)
    have pl: "placed e1 x \<longleftrightarrow> placed e x" for x
      using ok' 2(3) by (cases "x = order_slot p") (simp_all add: order_ready_def del: split_paired_All)
    have con: "conserves (np_owner p) (held_coin (np_side p) coin_qty) (held_pc (np_side p) pc_qty) e
        (held_coin (np_side p) (coin_qty_remaining m)) (held_pc (np_side p) (native_pc_qty_remaining m)) e1"
      using ok' by (cases "np_side p") (auto simp: held_coin_def held_pc_def get_or_zero_def)
    have "r = None \<and> round_ok T (order_slot p) (np_side p) (held_coin (np_side p) (coin_qty_remaining m))
        (held_pc (np_side p) (native_pc_qty_remaining m)) e1 None e'"
      using 2(1) [OF round refl Some _ e1] rest Some by simp
    then show ?thesis using round_ok_after [where t = "order_slot p", OF _ _ pl] con by auto
  qed
qed

lemma new_order_ok:
  assumes "new_order p limit e = Some (Inr (r, left, e'))" "new_ready T p e" "0 < np_max_coin_qty p"
  shows "r = None" "engine_ok e'" "refs_ok T e'" "placed e' x \<longleftrightarrow> placed e x \<or> x = order_slot p"
    and "conserves (np_owner p) (held_coin (np_side p) (np_max_coin_qty p)) (held_pc (np_side p) (np_native_pc_qty_locked p)) e 0 0 e'"
proof -
  obtain post_only post_allowed where loop: "new_order_loop p post_only post_allowed limit (np_max_coin_qty p)
      (np_native_pc_qty_locked p) e = Some (Inr (r, left, e'))"
    using assms(1) by (auto simp: new_order_def split: order_type.splits)
  note ok = new_order_loop_ok [OF loop assms(2,3), unfolded round_ok_def option.case fst_conv]
  show "r = None" "engine_ok e'" "refs_ok T e'"
    "conserves (np_owner p) (held_coin (np_side p) (np_max_coin_qty p)) (held_pc (np_side p) (np_native_pc_qty_locked p)) e 0 0 e'"
    using ok by blast+
  show "placed e' x \<longleftrightarrow> placed e x \<or> x = order_slot p"
    using ok by (cases "x = order_slot p") (simp_all del: split_paired_All)
qed

end
