(* ===== verification/Dex_Exchange.thy ===== *)
theory Dex_Exchange
  imports Dex_Process Dex_New_Order "HOL-Library.AList"
begin

text \<open>
  A market with all its accounts as one state, and the invariant that ties them together: the accounts of the
  traders, the book, the pending events, the totals of the market and the balances of the vaults.
\<close>

section \<open>State\<close>

type_synonym order_accounts = "(pubkey \<times> open_orders) list"

record exchange =
  x_ob :: order_book_state
  x_evq :: event_queue
  x_reqq :: request_queue
  x_orders :: order_accounts
  x_amounts :: amounts

definition engine_of :: "exchange \<Rightarrow> engine" where
  "engine_of x = \<lparr>ob = x_ob x, evq = x_evq x, proceeds = proceeds_zero\<rparr>"

definition slots_of :: "order_accounts \<Rightarrow> slot_table" where
  "slots_of orders = (\<lambda>(w, i). Option.bind (map_of orders w) (\<lambda>oo. map_option (\<lambda>(s, k, c). (s, k, nonzero c)) (oo_slots oo i)))"

abbreviation accounts_total :: "(open_orders \<Rightarrow> nat) \<Rightarrow> order_accounts \<Rightarrow> nat" where
  "accounts_total f orders \<equiv> total (\<lambda>a. f (snd a)) orders"

lemma accounts_total_update:
  "distinct (map fst xs) \<Longrightarrow> map_of xs w = Some oo \<Longrightarrow>
     accounts_total f (AList.update w oo' xs) + f oo = accounts_total f xs + f oo'"
  by (induction xs) (auto split: if_splits)

lemma slots_of_update:
  "slots_of (AList.update w oo orders) (v, i) =
     (if v = w then map_option (\<lambda>(s, k, c). (s, k, nonzero c)) (oo_slots oo i) else slots_of orders (v, i))"
  by (simp add: slots_of_def update_conv')

section \<open>The invariant\<close>

text \<open>The number of an order in its identifier.\<close>

definition id_seq :: "side \<Rightarrow> u128 \<Rightarrow> nat" where
  "id_seq side k = (let low = unat k mod two64 in case side of Bid \<Rightarrow> u64_max - low | Ask \<Rightarrow> low)"

lemma id_seq_word:
  assumes "price \<le> u64_max" "n \<le> u64_max"
  shows "id_seq side (id_word price (case side of Bid \<Rightarrow> u64_max - n | Ask \<Rightarrow> n)) = n"
proof -
  have low: "(price * two64 + m) mod two64 = m" if "m \<le> u64_max" for m
    unfolding mod_mult_self3 using that by (intro mod_less) simp
  have sub: "u64_max - n \<le> u64_max" "u64_max - (u64_max - n) = n" using assms(2) by linarith+
  show ?thesis
    unfolding id_seq_def Let_def
    by (cases side) (simp_all only: side.case unat_id_word [OF assms(1) sub(1)] unat_id_word [OF assms] low [OF sub(1)] low [OF assms(2)] sub(2))
qed

text \<open>The slots of the accounts hold exactly the orders that are on the book or whose last event is pending, and no
  order has a number that is still to be given out.\<close>

definition slots_ok :: "slot_table \<Rightarrow> nat \<Rightarrow> engine \<Rightarrow> bool" where
  "slots_ok T seq e \<longleftrightarrow>
     refs_ok T e \<and> table_inj T \<and> (\<forall>r. T r \<noteq> None \<longrightarrow> placed e r) \<and> (\<forall>r s k c. T r = Some (s, k, c) \<longrightarrow> id_seq s k < seq)"

text \<open>The books balance: what is locked in an account is what its orders and pending events lock, and the deposits of
  the market are the totals of the accounts after the pending events.\<close>

definition ledger_ok :: "order_accounts \<Rightarrow> engine \<Rightarrow> bool" where
  "ledger_ok orders e \<longleftrightarrow>
     (let ms = market_state (ob e) in
      (\<forall>w oo. map_of orders w = Some oo \<longrightarrow>
         native_coin_total oo = native_coin_free oo + locked Ask e w \<and> native_pc_total oo = native_pc_free oo + locked Bid e w) \<and>
      coin_deposits_total ms + total coin_out (pending e) = accounts_total native_coin_total orders + total coin_in (pending e) \<and>
      pc_deposits_total ms + total pc_out (pending e) = accounts_total native_pc_total orders + total pc_in (pending e) \<and>
      accounts_total oo_referrer_rebates_accrued orders + total taker_rebate (pending e) \<le> referrer_rebates_accrued ms)"

text \<open>The vaults cover the deposits, the fees and the rebates.\<close>

definition vaults_ok :: "market_state \<Rightarrow> amounts \<Rightarrow> bool" where
  "vaults_ok ms bal \<longleftrightarrow>
     coin_vault ms \<noteq> pc_vault ms \<and> coin_deposits_total ms \<le> bal (coin_vault ms) \<and>
     pc_deposits_total ms + pc_fees_accrued ms + referrer_rebates_accrued ms \<le> bal (pc_vault ms)"

definition accounts_ok :: "order_accounts \<Rightarrow> bool" where
  "accounts_ok orders \<longleftrightarrow> distinct (map fst orders) \<and> (\<forall>(w, oo) \<in> set orders. oo_ok oo)"

definition exchange_ok :: "exchange \<Rightarrow> bool" where
  "exchange_ok x \<longleftrightarrow>
     engine_ok (engine_of x) \<and> accounts_ok (x_orders x) \<and>
     slots_ok (slots_of (x_orders x)) (next_seq_num (header (x_reqq x))) (engine_of x) \<and>
     ledger_ok (x_orders x) (engine_of x) \<and> vaults_ok (market_state (x_ob x)) (x_amounts x)"

lemma in_update: "a \<in> set (AList.update w oo xs) \<Longrightarrow> a = (w, oo) \<or> a \<in> set xs"
  by (induction xs) (auto split: if_splits)

lemma accounts_ok_update: "accounts_ok orders \<Longrightarrow> oo_ok oo \<Longrightarrow> accounts_ok (AList.update w oo orders)"
  unfolding accounts_ok_def by (auto simp: distinct_update dest!: in_update)

lemma accounts_ok_get: "accounts_ok orders \<Longrightarrow> map_of orders w = Some oo \<Longrightarrow> oo_ok oo"
  by (auto simp: accounts_ok_def dest: map_of_SomeD)

section \<open>The consumption of an event\<close>

abbreviation view_slot :: "event_view \<Rightarrow> nat" where
  "view_slot v \<equiv> snd (view_ref v)"

text \<open>What the consumption of an event does to the account of its owner.\<close>

definition consumed :: "event_view \<Rightarrow> open_orders \<Rightarrow> open_orders \<Rightarrow> bool" where
  "consumed v oo oo' \<longleftrightarrow>
     oo_ok oo' \<and> oo_account_flags oo' = oo_account_flags oo \<and> oo_market oo' = oo_market oo \<and> oo_owner oo' = oo_owner oo \<and>
     native_coin_total oo' + coin_out v = native_coin_total oo + coin_in v \<and>
     native_coin_free oo' + coin_out v = native_coin_free oo + coin_in v + view_locked Ask v \<and>
     native_pc_total oo' + pc_out v = native_pc_total oo + pc_in v \<and>
     native_pc_free oo' + pc_out v = native_pc_free oo + pc_in v + view_locked Bid v \<and>
     oo_referrer_rebates_accrued oo' = oo_referrer_rebates_accrued oo + taker_rebate v \<and>
     oo_slots oo' = (if view_last v then (oo_slots oo)(view_slot v := None) else oo_slots oo)"

lemma check_client_id_ok:
  assumes "oo_ok oo" "slot < 128" "nonzero (client_order_ids oo ! slot) = c"
  shows "check_client_id oo slot c = dex_ok ()"
  using assms by (auto simp: check_client_id_def at_slot_def oo_ok_def nonzero_def split: option.splits if_splits)

lemma oo_ok_funds:
  assumes "oo_ok oo" "cf \<le> ct" "ct \<le> u64_max" "pf \<le> pt" "pt \<le> u64_max" "r \<le> u64_max"
  shows "oo_ok (oo\<lparr>native_coin_total := ct, native_coin_free := cf, native_pc_total := pt, native_pc_free := pf,
    oo_referrer_rebates_accrued := r\<rparr>)"
  using assms by (simp add: oo_ok_def)

lemma oo_slots_funds [simp]:
  "oo_slots (oo\<lparr>native_coin_total := n\<rparr>) = oo_slots oo" "oo_slots (oo\<lparr>native_coin_free := n\<rparr>) = oo_slots oo"
  "oo_slots (oo\<lparr>native_pc_total := n\<rparr>) = oo_slots oo" "oo_slots (oo\<lparr>native_pc_free := n\<rparr>) = oo_slots oo"
  "oo_slots (oo\<lparr>oo_referrer_rebates_accrued := n\<rparr>) = oo_slots oo"
  by (simp_all add: oo_slots_def fun_eq_iff)

lemma consume_fill_ok:
  assumes "oo_ok oo" "slot = f_owner_slot f" "slot < 128" "nonzero (client_order_ids oo ! slot) = f_client_order_id f"
    and "view_locked Ask (Fill f) \<le> native_coin_total oo - native_coin_free oo"
    and "view_locked Bid (Fill f) \<le> native_pc_total oo - native_pc_free oo"
    and "native_coin_total oo + coin_in (Fill f) \<le> u64_max" "native_pc_total oo + pc_in (Fill f) \<le> u64_max"
    and "oo_referrer_rebates_accrued oo + taker_rebate (Fill f) \<le> u64_max"
  shows "\<exists>oo'. consume_fill f oo = Some (Inr oo') \<and> consumed (Fill f) oo oo'"
proof -
  have free: "native_coin_free oo \<le> native_coin_total oo" "native_coin_total oo \<le> u64_max"
    "native_pc_free oo \<le> native_pc_total oo" "native_pc_total oo \<le> u64_max" using assms(1) by (simp_all add: oo_ok_def)
  have client: "check_client_id oo' slot (f_client_order_id f) = dex_ok ()"
    if "oo_ok oo'" "client_order_ids oo' = client_order_ids oo" for oo'
    using check_client_id_ok [OF that(1) assms(3)] assms(4) that(2) by simp
  show ?thesis
  proof (cases "f_maker f")
    case False
    then show ?thesis
      using assms(2,9) free assms(1) client [of "oo\<lparr>oo_referrer_rebates_accrued := oo_referrer_rebates_accrued oo + taker_rebate (Fill f)\<rparr>"]
      by (auto simp: consume_fill_def consumed_def view_defs view_last_def arith64 dex_result oo_ok_def)
  next
    case True
    show ?thesis
    proof (cases "f_side f")
      case Bid
      define oo' where "oo' = oo\<lparr>native_pc_total := native_pc_total oo - f_native_qty_paid f,
        native_coin_total := native_coin_total oo + f_native_qty_received f, native_coin_free := native_coin_free oo + f_native_qty_received f,
        native_pc_free := native_pc_free oo + f_native_fee_or_rebate f\<rparr>"
      have b: "f_native_qty_paid f \<le> native_pc_total oo" "native_coin_total oo + f_native_qty_received f \<le> u64_max"
          "native_coin_free oo + f_native_qty_received f \<le> u64_max" "native_pc_free oo + f_native_fee_or_rebate f \<le> u64_max"
          "native_pc_free oo + f_native_fee_or_rebate f \<le> native_pc_total oo - f_native_qty_paid f"
        using assms(5-8) free True Bid by (simp_all add: view_defs)
      have "oo_ok oo'" using assms(1) b free by (simp add: oo'_def oo_ok_def)
      then have "consume_fill f oo = Some (Inr oo') \<and> consumed (Fill f) oo oo'"
        using client [of oo'] b True Bid assms(2)
        by (simp add: consume_fill_def dex_result arith64 consumed_def view_defs view_last_def oo'_def)
      then show ?thesis by blast
    next
      case Ask
      define oo' where "oo' = oo\<lparr>native_coin_total := native_coin_total oo - f_native_qty_paid f,
        native_pc_total := native_pc_total oo + f_native_qty_received f, native_pc_free := native_pc_free oo + f_native_qty_received f\<rparr>"
      have b: "f_native_qty_paid f \<le> native_coin_total oo" "native_pc_total oo + f_native_qty_received f \<le> u64_max"
          "native_pc_free oo + f_native_qty_received f \<le> u64_max" "native_coin_free oo \<le> native_coin_total oo - f_native_qty_paid f"
        using assms(5-8) free True Ask by (simp_all add: view_defs)
      have "oo_ok oo'" using assms(1) b free by (simp add: oo'_def oo_ok_def)
      then have "consume_fill f oo = Some (Inr oo') \<and> consumed (Fill f) oo oo'"
        using client [of oo'] b True Ask assms(2)
        by (simp add: consume_fill_def dex_result arith64 consumed_def view_defs view_last_def oo'_def)
      then show ?thesis by blast
    qed
  qed
qed

lemma consume_out_ok:
  assumes "oo_ok oo" "slot = o_owner_slot u" "slot < 128" "nonzero (client_order_ids oo ! slot) = o_client_order_id u"
    and "oo_slots oo slot \<noteq> None"
    and "view_locked Ask (Out u) \<le> native_coin_total oo - native_coin_free oo"
    and "view_locked Bid (Out u) \<le> native_pc_total oo - native_pc_free oo"
  shows "\<exists>oo'. consume_out u oo = Some (Inr oo') \<and> consumed (Out u) oo oo'"
proof -
  have free: "native_coin_free oo \<le> native_coin_total oo" "native_coin_total oo \<le> u64_max"
    "native_pc_free oo \<le> native_pc_total oo" "native_pc_total oo \<le> u64_max" using assms(1) by (simp_all add: oo_ok_def)
  have fits: "native_coin_free oo + view_locked Ask (Out u) \<le> native_coin_total oo"
    "native_pc_free oo + view_locked Bid (Out u) \<le> native_pc_total oo" using assms(6,7) free by linarith+
  define oo1 where "oo1 = (case o_side u of Bid \<Rightarrow> oo\<lparr>native_pc_free := native_pc_free oo + view_locked Bid (Out u)\<rparr>
    | Ask \<Rightarrow> oo\<lparr>native_coin_free := native_coin_free oo + view_locked Ask (Out u)\<rparr>)"
  have ok: "oo_ok oo1" using assms(1,6,7) free by (cases "o_side u") (simp_all add: oo1_def oo_ok_def)
  have "client_order_ids oo1 = client_order_ids oo" by (simp add: oo1_def split: side.splits)
  then have client: "check_client_id oo1 slot (o_client_order_id u) = dex_ok ()"
    using check_client_id_ok [OF ok assms(3)] assms(4) by simp
  have slots: "oo_slots oo1 = oo_slots oo" by (simp add: oo1_def split: side.splits)
  have run: "consume_out u oo = (if o_native_qty_still_locked u = 0 then remove_order oo1 slot else dex_ok oo1)"
    using assms(2) fits free client
    by (cases "o_side u"; cases "o_release_funds u") (simp_all add: consume_out_def oo1_def view_defs add64_def dex_ok_def)
  have out: "consumed (Out u) oo oo'"
    if "oo_ok oo'" "oo' = oo1\<lparr>oo_orders := a, client_order_ids := b, free_slot_bits := c, is_bid_bits := d\<rparr>"
      "oo_slots oo' = (if o_native_qty_still_locked u = 0 then (oo_slots oo)(slot := None) else oo_slots oo)" for oo' a b c d
    using that assms(2) by (cases "o_side u") (simp_all add: consumed_def view_defs view_last_def view_ref_def oo1_def)
  show ?thesis
  proof (cases "o_native_qty_still_locked u = 0")
    case True
    note r = remove_order_eq [OF assms(3), of oo1]
    then show ?thesis using run True assms(5) slots ok out by auto
  next
    case False
    then show ?thesis
      using run out [where oo' = oo1 and a = "oo_orders oo1" and b = "client_order_ids oo1" and c = "free_slot_bits oo1"
        and d = "is_bid_bits oo1"] ok slots
      by (simp add: dex_ok_def)
  qed
qed

text \<open>An event that fits the slot of its owner's account is consumed.\<close>

lemma consume_event_ok:
  assumes "oo_ok oo" "view_ok v" "map_option (\<lambda>(s, k, c). (s, k, nonzero c)) (oo_slots oo (view_slot v)) = Some (view_order v)"
    and "view_locked Ask v \<le> native_coin_total oo - native_coin_free oo" "view_locked Bid v \<le> native_pc_total oo - native_pc_free oo"
    and "native_coin_total oo + coin_in v \<le> u64_max" "native_pc_total oo + pc_in v \<le> u64_max"
    and "oo_referrer_rebates_accrued oo + taker_rebate v \<le> u64_max"
  obtains oo' where "consume_event (event_new v) oo = Some (Inr oo')" "consumed v oo oo'"
proof -
  obtain s k c where slot: "oo_slots oo (view_slot v) = Some (s, k, c)" "view_order v = (s, k, nonzero c)"
    using assms(3) by auto
  then have lt: "view_slot v < 128" and at: "oo_orders oo ! view_slot v = k" "client_order_ids oo ! view_slot v = c"
    by (auto simp: oo_slots_def split: if_splits)
  have len: "length (oo_orders oo) = 128" using assms(1) by (simp add: oo_ok_def)
  have view: "event_as_view (event_new v) = Some (Inr v)" using assms(2) by (intro event_as_view_new) (simp add: view_ok_def)
  have ev: "ev_owner_slot (event_new v) = view_slot v" "ev_order_id (event_new v) = k" "view_side v = s"
    using slot(2) by (cases v; simp add: event_new_def view_ref_def view_order_def view_side_def)+
  have run: "consume_event (event_new v) oo = (case v of Fill f \<Rightarrow> consume_fill f oo | Out u \<Rightarrow> consume_out u oo)"
    using lt len by (simp add: consume_event_def view ev slot_side_eq slot(1) at_slot_def at(1))
  show thesis
  proof (cases v)
    case (Fill f)
    have "\<exists>oo'. consume_fill f oo = Some (Inr oo') \<and> consumed (Fill f) oo oo'"
      using consume_fill_ok [OF assms(1) refl, of f] lt slot(2) at(2) assms(4-8) Fill by (simp add: view_ref_def view_order_def)
    then show thesis using that run Fill by auto
  next
    case (Out u)
    have "\<exists>oo'. consume_out u oo = Some (Inr oo') \<and> consumed (Out u) oo oo'"
      using consume_out_ok [OF assms(1) refl, of u] lt slot at(2) assms(4-8) Out by (simp add: view_ref_def view_order_def)
    then show thesis using that run Out by auto
  qed
qed

text \<open>The front event leaves the queue.\<close>

definition popped :: "event_view \<Rightarrow> engine \<Rightarrow> engine \<Rightarrow> bool" where
  "popped v e e' \<longleftrightarrow>
     pending e = v # pending e' \<and> queue_ok (evq e') \<and> (\<forall>s. orders_mut (ob e') s = orders_mut (ob e) s) \<and>
     market_state (ob e') = market_state (ob e)"

lemma view_owner_ref: "view_owner v = fst (view_ref v)"
  by (cases v) (simp_all add: view_owner_def view_ref_def)

lemma locked_popped:
  "popped v e e' \<Longrightarrow> locked s e w = locked s e' w + (if view_owner v = w then view_locked s v else 0)"
  by (simp add: locked_def popped_def)

lemma engine_ok_popped: "engine_ok e \<Longrightarrow> popped v e e' \<Longrightarrow> engine_ok e'"
  by (simp add: engine_ok_alt popped_def all_side)

lemma slots_ok_popped:
  assumes "slots_ok T seq e" "popped v e e'" "\<And>r. T' r = (if view_last v \<and> r = view_ref v then None else T r)"
  shows "slots_ok T' seq e'"
proof -
  have pend: "pending e = v # pending e'" and same: "\<And>s. side_list e' s = side_list e s"
    using assms(2) by (simp_all add: popped_def)
  have refs: "refs_ok T e" "table_inj T" "\<And>r. T r \<noteq> None \<Longrightarrow> placed e r" "\<And>r s k c. T r = Some (s, k, c) \<Longrightarrow> id_seq s k < seq"
    using assms(1) unfolding slots_ok_def by blast+
  have "refs_ok T' e'"
    using refs(1) unfolding refs_ok_def pend same assms(3) by auto metis
  moreover have "table_inj T'" using refs(2) unfolding table_inj_def assms(3) by (auto split: if_splits)
  moreover have "placed e' r" if "T' r \<noteq> None" for r
    using that refs(3) [of r] unfolding assms(3) placed_def pend same by (auto split: if_splits)
  ultimately show ?thesis using refs(4) by (auto simp: slots_ok_def assms(3) split: if_splits)
qed

lemma ledger_ok_popped:
  assumes "ledger_ok orders e" "popped v e e'" "consumed v oo oo'" "map_of orders (view_owner v) = Some oo" "distinct (map fst orders)"
  shows "ledger_ok (AList.update (view_owner v) oo' orders) e'"
proof -
  let ?orders = "AList.update (view_owner v) oo' orders"
  have pend: "pending e = v # pending e'" and ms: "market_state (ob e') = market_state (ob e)" using assms(2) by (simp_all add: popped_def)
  note tot = accounts_total_update [OF assms(5,4), of _ oo']
  have "native_coin_total x = native_coin_free x + locked Ask e' w \<and> native_pc_total x = native_pc_free x + locked Bid e' w"
    if "map_of ?orders w = Some x" for w x
  proof (cases "w = view_owner v")
    case True
    then have "x = oo'" using that by (simp add: update_conv')
    moreover have "native_coin_total oo = native_coin_free oo + locked Ask e w \<and> native_pc_total oo = native_pc_free oo + locked Bid e w"
      using assms(1,4) True by (simp add: ledger_ok_def Let_def)
    ultimately show ?thesis
      using assms(3) True locked_popped [OF assms(2), of Ask w] locked_popped [OF assms(2), of Bid w] by (simp add: consumed_def)
  next
    case False
    then show ?thesis
      using that assms(1) locked_popped [OF assms(2), of _ w] by (auto simp: ledger_ok_def Let_def update_conv')
  qed
  then show ?thesis
    using assms(1,3) tot [of native_coin_total] tot [of native_pc_total] tot [of oo_referrer_rebates_accrued]
    by (simp add: ledger_ok_def Let_def pend ms consumed_def)
qed

lemma ledger_front:
  assumes "ledger_ok orders e" "pending e = v # vs" "map_of orders (view_owner v) = Some oo" "distinct (map fst orders)"
  shows "view_locked Ask v \<le> native_coin_total oo - native_coin_free oo" "view_locked Bid v \<le> native_pc_total oo - native_pc_free oo"
    and "native_coin_total oo + coin_in v \<le> coin_deposits_total (market_state (ob e)) + total coin_out (pending e)"
    and "native_pc_total oo + pc_in v \<le> pc_deposits_total (market_state (ob e)) + total pc_out (pending e)"
    and "oo_referrer_rebates_accrued oo + taker_rebate v \<le> referrer_rebates_accrued (market_state (ob e))"
proof -
  have mem: "f oo \<le> accounts_total f orders" for f
    using map_of_SomeD [OF assms(3)] by (force intro: member_le_sum_list)
  have "native_coin_total oo = native_coin_free oo + locked Ask e (view_owner v)"
    "native_pc_total oo = native_pc_free oo + locked Bid e (view_owner v)"
    using assms(1,3) by (simp_all add: ledger_ok_def Let_def)
  then show "view_locked Ask v \<le> native_coin_total oo - native_coin_free oo" "view_locked Bid v \<le> native_pc_total oo - native_pc_free oo"
    using assms(2) by (simp_all add: locked_def)
  show "native_coin_total oo + coin_in v \<le> coin_deposits_total (market_state (ob e)) + total coin_out (pending e)"
    "native_pc_total oo + pc_in v \<le> pc_deposits_total (market_state (ob e)) + total pc_out (pending e)"
    "oo_referrer_rebates_accrued oo + taker_rebate v \<le> referrer_rebates_accrued (market_state (ob e))"
    using assms(1,2) mem [of native_coin_total] mem [of native_pc_total] mem [of oo_referrer_rebates_accrued]
    by (simp_all add: ledger_ok_def Let_def)
qed

section \<open>The crank\<close>

lemma binary_search_from_hit:
  "binary_search_from ks k left right = Some i \<Longrightarrow> i < length ks \<and> ks ! i = k"
proof (induction ks k left right rule: binary_search_from.induct)
  case (1 ks k left right)
  define mid where "mid = left + (right - left) div 2"
  have run: "binary_search_from ks k left right = (if left < right \<and> right \<le> length ks then
      if ks ! mid < k then binary_search_from ks k (mid + 1) right
      else if k < ks ! mid then binary_search_from ks k left mid else Some mid else None)"
    unfolding mid_def by (subst binary_search_from.simps) (simp add: Let_def)
  have lt: "left < right \<and> right \<le> length ks" using "1.prems" run by (auto split: if_splits)
  consider "ks ! mid < k" | "\<not> ks ! mid < k" "k < ks ! mid" | "ks ! mid = k" by fastforce
  then show ?case
  proof cases
    case 1
    then show ?thesis using "1.IH"(1) [OF lt mid_def 1] "1.prems" run lt by simp
  next
    case 2
    then show ?thesis using "1.IH"(2) [OF lt mid_def 2] "1.prems" run lt by simp
  next
    case 3
    have "mid < length ks" using lt unfolding mid_def by linarith
    then show ?thesis using 3 "1.prems" run lt by simp
  qed
qed

lemma binary_search_from_finds:
  "sorted ks \<Longrightarrow> left \<le> j \<Longrightarrow> j < right \<Longrightarrow> right \<le> length ks \<Longrightarrow> ks ! j = k \<Longrightarrow> binary_search_from ks k left right \<noteq> None"
proof (induction ks k left right rule: binary_search_from.induct)
  case (1 ks k left right)
  define mid where "mid = left + (right - left) div 2"
  have lt: "left < right" "right \<le> length ks" "mid < right" using "1.prems" by (auto simp: mid_def)
  have mono: "a \<le> b \<Longrightarrow> b < length ks \<Longrightarrow> ks ! a \<le> ks ! b" for a b using "1.prems"(1) by (rule sorted_nth_mono)
  consider "ks ! mid < k" | "k < ks ! mid" | "ks ! mid = k" by fastforce
  then show ?case
  proof cases
    case 1
    then have "mid + 1 \<le> j" using mono [of j mid] lt "1.prems"(5) by (metis Suc_eq_plus1 leD not_less_eq_eq order_less_le_trans)
    then have "binary_search_from ks k (mid + 1) right \<noteq> None"
      using "1.IH"(1) [OF _ mid_def] lt 1 "1.prems" by simp
    then show ?thesis using lt 1 by (subst binary_search_from.simps) (simp add: Let_def mid_def [symmetric])
  next
    case 2
    then have "\<not> ks ! mid < k" by simp
    have "j < mid" using 2 mono [of mid j] lt "1.prems"(3-5) by (metis leD leI order_less_le_trans)
    then have "binary_search_from ks k left mid \<noteq> None"
      using "1.IH"(2) [OF _ mid_def] lt 2 "1.prems" by simp
    then show ?thesis using lt 2 \<open>\<not> ks ! mid < k\<close> by (subst binary_search_from.simps) (simp add: Let_def mid_def [symmetric])
  next
    case 3
    then show ?thesis using lt by (subst binary_search_from.simps) (simp add: Let_def mid_def [symmetric])
  qed
qed

lemma binary_search_hit: "binary_search ks k = Some i \<Longrightarrow> i < length ks \<and> ks ! i = k"
  unfolding binary_search_def by (rule binary_search_from_hit)

lemma binary_search_finds: "sorted ks \<Longrightarrow> k \<in> set ks \<Longrightarrow> \<exists>i. binary_search ks k = Some i \<and> i < length ks \<and> ks ! i = k"
proof -
  assume "sorted ks" "k \<in> set ks"
  then obtain j where "j < length ks" "ks ! j = k" by (auto simp: in_set_conv_nth)
  then have "binary_search ks k \<noteq> None" unfolding binary_search_def using binary_search_from_finds [OF \<open>sorted ks\<close>, of 0 j] by simp
  then show ?thesis using binary_search_hit by blast
qed

text \<open>The accounts of the market as the state that the loop loads from and stores into.\<close>

definition load_account :: "pubkey \<Rightarrow> order_accounts \<Rightarrow> open_orders dex" where
  "load_account w orders = (case map_of orders w of None \<Rightarrow> dex_fail WrongOrdersAccount | Some oo \<Rightarrow> dex_ok oo)"

lemma load_account_ok: "load_account w orders = Some (Inr oo) \<longleftrightarrow> map_of orders w = Some oo"
  by (auto simp: load_account_def dex_result split: option.splits)

definition crank :: "pubkey list \<Rightarrow> nat \<Rightarrow> exchange \<Rightarrow> exchange dex" where
  "crank accounts limit x =
     dex_bind (consume_events_loop load_account AList.update accounts limit (x_orders x) (x_evq x)) (\<lambda>(orders, q).
     dex_ok (x\<lparr>x_orders := orders, x_evq := q\<rparr>))"

text \<open>The part of the invariant that the events are about.\<close>

definition books_ok :: "order_accounts \<Rightarrow> nat \<Rightarrow> engine \<Rightarrow> bool" where
  "books_ok orders seq e \<longleftrightarrow> engine_ok e \<and> accounts_ok orders \<and> slots_ok (slots_of orders) seq e \<and> ledger_ok orders e"

lemma front_account:
  assumes "books_ok orders seq e" "pending e = v # vs"
  obtains oo where "map_of orders (view_owner v) = Some oo" "oo_ok oo"
    "map_option (\<lambda>(s, k, c). (s, k, nonzero c)) (oo_slots oo (view_slot v)) = Some (view_order v)"
proof -
  have "slots_of orders (view_ref v) = Some (view_order v)"
    using assms by (simp add: books_ok_def slots_ok_def refs_ok_def)
  then obtain oo where oo: "map_of orders (view_owner v) = Some oo"
      "map_option (\<lambda>(s, k, c). (s, k, nonzero c)) (oo_slots oo (view_slot v)) = Some (view_order v)"
    by (cases "view_ref v") (auto simp: slots_of_def view_owner_ref split: Option.bind_splits)
  moreover have "oo_ok oo" using assms(1) oo(1) accounts_ok_get by (auto simp: books_ok_def)
  ultimately show thesis using that by blast
qed

lemma consume_event_bounds:
  assumes "consume_event (event_new v) oo = Some (Inr oo')" "view_ok v" "oo_ok oo"
  shows "native_coin_total oo + coin_in v \<le> u64_max"
    and "native_pc_total oo + pc_in v \<le> u64_max"
    and "oo_referrer_rebates_accrued oo + taker_rebate v \<le> u64_max"
proof -
  have view: "event_as_view (event_new v) = Some (Inr v)" using assms(2) by (intro event_as_view_new) (simp add: view_ok_def)
  have run: "(case v of Fill f \<Rightarrow> consume_fill f oo | Out u \<Rightarrow> consume_out u oo) = Some (Inr oo')"
    using assms(1) by (auto simp: consume_event_def view dex_result)
  have "native_coin_total oo + coin_in v \<le> u64_max \<and>
      native_pc_total oo + pc_in v \<le> u64_max \<and>
      oo_referrer_rebates_accrued oo + taker_rebate v \<le> u64_max"
  proof (cases v)
    case (Fill f)
    then have "consume_fill f oo = Some (Inr oo')" using run by simp
    then show ?thesis unfolding consume_fill_def dex_result
      using assms(3) by (cases "f_maker f"; cases "f_side f") (auto simp: Fill view_defs arith64 dex_result oo_ok_def)
  qed (use assms(3) in \<open>simp add: view_defs oo_ok_def\<close>)
  then show "native_coin_total oo + coin_in v \<le> u64_max"
    "native_pc_total oo + pc_in v \<le> u64_max"
    "oo_referrer_rebates_accrued oo + taker_rebate v \<le> u64_max" by simp_all
qed

lemma queue_front:
  assumes "queue_ok (evq e)" "pending e = v # vs"
  obtains q where "peek_front event_header (evq e) = Some (Some (event_new v))" "view_ok v"
    "pop_front event_header (evq e) = Some (Some (event_new v), q)" "popped v e (e\<lparr>evq := q\<rparr>)"
proof -
  have ok: "q_ok event_header (evq e)" and items: "\<forall>ev \<in> set (q_items event_header (evq e)). \<exists>v. view_ok v \<and> ev = event_new v"
    using assms(1) by (simp_all add: queue_ok_def)
  have "q_items event_header (evq e) \<noteq> []" using assms(2) by (auto simp: pending_of_def)
  then obtain x xs q where q: "q_items event_header (evq e) = x # xs" "pop_front event_header (evq e) = Some (Some x, q)"
      "q_ok event_header q" "q_items event_header q = xs"
    using eq.pop [OF ok] by metis
  obtain v' where v': "view_ok v'" "x = event_new v'" using items q(1) by auto
  with assms(2) q(1) have "v' = v" "views_of xs = vs" by (simp_all add: pending_of_def)
  moreover have "queue_ok q" using items q(1,3,4) by (simp add: queue_ok_def)
  ultimately show thesis
    using that [of q] q v' eq.peek [OF ok] assms(2) by (simp add: popped_def pending_of_def)
qed

lemma crank_one:
  assumes "books_ok orders seq e" "pending e = v # vs" "popped v e e'" "map_of orders (view_owner v) = Some oo"
    and "consume_event (event_new v) oo = Some (Inr oo')" "view_ok v"
  shows "books_ok (AList.update (view_owner v) oo' orders) seq e'"
proof -
  have ok: "engine_ok e" "accounts_ok orders" "distinct (map fst orders)" "slots_ok (slots_of orders) seq e" "ledger_ok orders e"
    using assms(1) by (simp_all add: books_ok_def accounts_ok_def)
  obtain oo1 where oo1: "map_of orders (view_owner v) = Some oo1" "oo_ok oo1"
    "map_option (\<lambda>(s, k, c). (s, k, nonzero c)) (oo_slots oo1 (view_slot v)) = Some (view_order v)"
    using assms(1,2) by (rule front_account)
  with assms(4) have [simp]: "oo1 = oo" by simp
  note front = ledger_front [OF ok(5) assms(2,4) ok(3)] and bounds = consume_event_bounds [OF assms(5,6) oo1(2) [simplified]]
  have con: "consumed v oo oo'"
    using consume_event_ok [OF oo1(2) assms(6) oo1(3)] front(1,2) bounds assms(5) by auto
  then have slots: "oo_slots oo' = (if view_last v then (oo_slots oo)(view_slot v := None) else oo_slots oo)" by (simp add: consumed_def)
  have "slots_of (AList.update (view_owner v) oo' orders) r = (if view_last v \<and> r = view_ref v then None else slots_of orders r)" for r
    using slots assms(4) by (cases r; cases "view_ref v") (auto simp: update_conv' slots_of_def view_owner_ref)
  then have "slots_ok (slots_of (AList.update (view_owner v) oo' orders)) seq e'" by (rule slots_ok_popped [OF ok(4) assms(3)])
  moreover have "accounts_ok (AList.update (view_owner v) oo' orders)" using ok(2) con by (simp add: accounts_ok_update consumed_def)
  ultimately show ?thesis
    using engine_ok_popped [OF ok(1) assms(3)] ledger_ok_popped [OF ok(5) assms(3) con assms(4) ok(3)] by (simp add: books_ok_def)
qed

abbreviation with_queue :: "engine \<Rightarrow> event_queue \<Rightarrow> engine" where
  "with_queue e q \<equiv> e\<lparr>evq := q\<rparr>"

lemma event_owner [simp]: "ev_owner (event_new v) = view_owner v"
  by (cases v) (simp_all add: event_new_def view_owner_def)

lemma crank_loop_ok:
  assumes "consume_events_loop load_account AList.update accounts limit orders (evq e) = Some (Inr (orders', q))" "books_ok orders seq e"
  shows "books_ok orders' seq (with_queue e q)"
  using assms
proof (induction limit arbitrary: orders e)
  case (Suc limit)
  have qok: "queue_ok (evq e)" using Suc.prems(2) by (simp add: books_ok_def engine_ok_def)
  then have peek: "peek_front event_header (evq e) = Some (case q_items event_header (evq e) of [] \<Rightarrow> None | x # _ \<Rightarrow> Some x)"
    by (intro eq.peek) (simp add: queue_ok_def)
  show ?case
  proof (cases "pending e")
    case Nil
    then have "q_items event_header (evq e) = []" using qok by (cases "q_items event_header (evq e)") (auto simp: queue_ok_def pending_of_def)
    then show ?thesis using Suc.prems peek by (auto simp: dex_result)
  next
    case (Cons v vs)
    obtain q1 where q1: "peek_front event_header (evq e) = Some (Some (event_new v))" "view_ok v"
        "pop_front event_header (evq e) = Some (Some (event_new v), q1)" "popped v e (with_queue e q1)"
      using qok Cons by (rule queue_front)
    have view: "event_as_view (event_new v) = Some (Inr v)" using q1(2) by (intro event_as_view_new) (simp add: view_ok_def)
    show ?thesis
    proof (cases "binary_search accounts (view_owner v)")
      case None
      then show ?thesis using Suc.prems q1(1) view by (auto simp: dex_result)
    next
      case (Some i)
      with binary_search_hit [OF this] have w: "accounts ! i = view_owner v" by simp
      obtain oo oo' where oo: "map_of orders (view_owner v) = Some oo" "consume_event (event_new v) oo = Some (Inr oo')"
        and rest: "consume_events_loop load_account AList.update accounts limit (AList.update (view_owner v) oo' orders) q1 = Some (Inr (orders', q))"
        using Suc.prems(1) q1 view Some w by (auto simp: dex_result Let_def load_account_ok)
      from Suc.IH [of _ "with_queue e q1"] rest crank_one [OF Suc.prems(2) Cons q1(4) oo q1(2)]
      show ?thesis by simp
    qed
  qed
qed (auto simp: dex_result)

text \<open>The amounts that the pending events move fit into 64 bits.\<close>

definition amounts_fit :: "engine \<Rightarrow> bool" where
  "amounts_fit e \<longleftrightarrow>
     (let ms = market_state (ob e) in
      coin_deposits_total ms + total coin_out (pending e) \<le> u64_max \<and> pc_deposits_total ms + total pc_out (pending e) \<le> u64_max \<and>
      referrer_rebates_accrued ms \<le> u64_max)"

lemma crank_loop_progress:
  assumes "books_ok orders seq e" "amounts_fit e" "sorted accounts" "view_owner ` set (take limit (pending e)) \<subseteq> set accounts"
  shows "\<exists>orders' q. consume_events_loop load_account AList.update accounts limit orders (evq e) = Some (Inr (orders', q)) \<and>
    pending_of q = drop limit (pending e)"
  using assms(1,2,4)
proof (induction limit arbitrary: orders e)
  case (Suc limit)
  have qok: "queue_ok (evq e)" using Suc.prems(1) by (simp add: books_ok_def engine_ok_def)
  show ?case
  proof (cases "pending e")
    case Nil
    then have "q_items event_header (evq e) = []" using qok by (cases "q_items event_header (evq e)") (auto simp: queue_ok_def pending_of_def)
    then have "peek_front event_header (evq e) = Some None" using eq.peek [of "evq e"] qok by (simp add: queue_ok_def)
    then show ?thesis using Nil by (auto simp: dex_result dex_ok_def)
  next
    case (Cons v vs)
    obtain q1 where q1: "peek_front event_header (evq e) = Some (Some (event_new v))" "view_ok v"
        "pop_front event_header (evq e) = Some (Some (event_new v), q1)" "popped v e (with_queue e q1)"
      using qok Cons by (rule queue_front)
    have view: "event_as_view (event_new v) = Some (Inr v)" using q1(2) by (intro event_as_view_new) (simp add: view_ok_def)
    obtain i where i: "binary_search accounts (view_owner v) = Some i" "accounts ! i = view_owner v"
      using binary_search_finds [OF assms(3), of "view_owner v"] Suc.prems(3) Cons by auto
    obtain oo where oo: "map_of orders (view_owner v) = Some oo" "oo_ok oo"
        "map_option (\<lambda>(s, k, c). (s, k, nonzero c)) (oo_slots oo (view_slot v)) = Some (view_order v)"
      using Suc.prems(1) Cons by (rule front_account)
    have led: "ledger_ok orders e" "distinct (map fst orders)" using Suc.prems(1) by (simp_all add: books_ok_def accounts_ok_def)
    note front = ledger_front [OF led(1) Cons oo(1) led(2)]
    obtain oo' where oo': "consume_event (event_new v) oo = Some (Inr oo')"
      by (rule consume_event_ok [OF oo(2) q1(2) oo(3) front(1,2)])
        (use front(3-5) Suc.prems(2) in \<open>auto simp: amounts_fit_def Let_def\<close>)
    have "amounts_fit (with_queue e q1)" "pending_of q1 = vs"
      using Suc.prems(2) q1(4) Cons by (simp_all add: amounts_fit_def popped_def Let_def)
    with Suc.IH [of _ "with_queue e q1", OF crank_one [OF Suc.prems(1) Cons q1(4) oo(1) oo' q1(2)]] Suc.prems(3) Cons
    show ?thesis using q1 view i oo(1) oo' by (simp add: Let_def load_account_def dex_ok_def)
  qed
qed (simp add: dex_ok_def)

lemma exchange_ok_books:
  "exchange_ok x \<longleftrightarrow> books_ok (x_orders x) (next_seq_num (header (x_reqq x))) (engine_of x) \<and> vaults_ok (market_state (x_ob x)) (x_amounts x)"
  by (auto simp: exchange_ok_def books_ok_def)

lemma engine_of_simps [simp]:
  "ob (engine_of x) = x_ob x" "evq (engine_of x) = x_evq x" "proceeds (engine_of x) = proceeds_zero"
  "engine_of (x\<lparr>x_orders := orders\<rparr>) = engine_of x" "engine_of (x\<lparr>x_evq := q\<rparr>) = with_queue (engine_of x) q"
  "engine_of (x\<lparr>x_amounts := bal\<rparr>) = engine_of x" "engine_of (x\<lparr>x_reqq := rq\<rparr>) = engine_of x"
  by (simp_all add: engine_of_def)

lemma crank_ok:
  assumes "crank accounts limit x = Some (Inr x')" "exchange_ok x"
  shows "exchange_ok x'"
proof -
  obtain orders q where run: "consume_events_loop load_account AList.update accounts limit (x_orders x) (evq (engine_of x)) = Some (Inr (orders, q))"
    and x': "x' = x\<lparr>x_orders := orders, x_evq := q\<rparr>"
    using assms(1) by (auto simp: crank_def dex_result)
  with crank_loop_ok [OF run] assms(2) show ?thesis by (simp add: exchange_ok_books)
qed

lemma crank_progress:
  assumes "exchange_ok x" "amounts_fit (engine_of x)" "sorted accounts"
    and "view_owner ` set (take limit (pending_of (x_evq x))) \<subseteq> set accounts"
  obtains x' where "crank accounts limit x = Some (Inr x')" "pending_of (x_evq x') = drop limit (pending_of (x_evq x))" "exchange_ok x'"
proof -
  have "books_ok (x_orders x) (next_seq_num (header (x_reqq x))) (engine_of x)" using assms(1) by (simp add: exchange_ok_books)
  from crank_loop_progress [OF this assms(2,3), of limit] assms(4) obtain orders q where
    run: "consume_events_loop load_account AList.update accounts limit (x_orders x) (x_evq x) = Some (Inr (orders, q))"
      "pending_of q = drop limit (pending_of (x_evq x))" by auto
  then have "crank accounts limit x = Some (Inr (x\<lparr>x_orders := orders, x_evq := q\<rparr>))" by (simp add: crank_def dex_ok_def)
  with run(2) crank_ok [OF this assms(1)] show thesis using that by simp
qed

end
