(* ===== verification/Dex_Solvency.thy ===== *)
theory Dex_Solvency
  imports Dex_Exchange
begin

text \<open>
  Every instruction keeps the invariant of the exchange: new orders, cancellations, pruning, settlement and the sweep
  of fees. The books balance and the vaults cover what the exchange owes after any sequence of them.
\<close>

section \<open>New orders\<close>

text \<open>The ledger while an order of the account \<open>w\<close> is matched, whose funds are neither free nor on the book.\<close>

definition ledger_held :: "pubkey \<Rightarrow> nat \<Rightarrow> nat \<Rightarrow> order_accounts \<Rightarrow> engine \<Rightarrow> bool" where
  "ledger_held w coin pc orders e \<longleftrightarrow>
     (let ms = market_state (ob e) in
      (\<forall>v oo. map_of orders v = Some oo \<longrightarrow>
         native_coin_total oo = native_coin_free oo + locked Ask e v + (if v = w then coin else 0) \<and>
         native_pc_total oo = native_pc_free oo + locked Bid e v + (if v = w then pc else 0)) \<and>
      coin_deposits_total ms + total coin_out (pending e) = accounts_total native_coin_total orders + total coin_in (pending e) \<and>
      pc_deposits_total ms + total pc_out (pending e) = accounts_total native_pc_total orders + total pc_in (pending e) \<and>
      accounts_total oo_referrer_rebates_accrued orders + total taker_rebate (pending e) \<le> referrer_rebates_accrued ms)"

lemma ledger_held_none: "ledger_held w 0 0 orders e \<longleftrightarrow> ledger_ok orders e"
  by (simp add: ledger_held_def ledger_ok_def)

text \<open>The account \<open>w\<close> and the totals of the market change, the book and the events do not.\<close>

lemma ledger_held_update:
  assumes "ledger_held w coin pc orders e" "map_of orders w = Some oo" "distinct (map fst orders)"
    and "ob e' = (ob e)\<lparr>market_state := ms'\<rparr>" "evq e' = evq e"
    and "coin_lot_size ms' = coin_lot_size (market_state (ob e))" "pc_lot_size ms' = pc_lot_size (market_state (ob e))"
    and "native_coin_total oo' + native_coin_free oo + coin = native_coin_free oo' + native_coin_total oo + coin'"
    and "native_pc_total oo' + native_pc_free oo + pc = native_pc_free oo' + native_pc_total oo + pc'"
    and "native_coin_total oo' + coin_deposits_total (market_state (ob e)) = native_coin_total oo + coin_deposits_total ms'"
    and "native_pc_total oo' + pc_deposits_total (market_state (ob e)) = native_pc_total oo + pc_deposits_total ms'"
    and "oo_referrer_rebates_accrued oo' + referrer_rebates_accrued (market_state (ob e)) = oo_referrer_rebates_accrued oo + referrer_rebates_accrued ms'"
  shows "ledger_held w coin' pc' (AList.update w oo' orders) e'"
proof -
  note tot = accounts_total_update [OF assms(3,2), of _ oo']
  have "side_worth ms' s = side_worth (market_state (ob e)) s" for s
    using assms(6,7) by (intro ext) (cases s; simp add: side_worth_def side_unit_def)
  then have locked: "locked s e' v = locked s e v" for s v
    using assms(4,5) by (cases s) (simp_all add: locked_def)
  have "native_coin_total oo = native_coin_free oo + locked Ask e w + coin \<and> native_pc_total oo = native_pc_free oo + locked Bid e w + pc"
    using assms(1,2) by (simp add: ledger_held_def Let_def)
  then have "native_coin_total x = native_coin_free x + locked Ask e v + (if v = w then coin' else 0) \<and>
      native_pc_total x = native_pc_free x + locked Bid e v + (if v = w then pc' else 0)"
    if "map_of (AList.update w oo' orders) v = Some x" for v x
    using that assms(1,8,9) by (cases "v = w") (auto simp: update_conv' ledger_held_def Let_def)
  moreover have "coin_deposits_total ms' + total coin_out (pending e) =
      accounts_total native_coin_total (AList.update w oo' orders) + total coin_in (pending e)"
    "pc_deposits_total ms' + total pc_out (pending e) =
      accounts_total native_pc_total (AList.update w oo' orders) + total pc_in (pending e)"
    "accounts_total oo_referrer_rebates_accrued (AList.update w oo' orders) + total taker_rebate (pending e) \<le> referrer_rebates_accrued ms'"
    using assms(1,10-12) tot [of native_coin_total] tot [of native_pc_total] tot [of oo_referrer_rebates_accrued]
    unfolding ledger_held_def Let_def by linarith+
  ultimately show ?thesis using assms(4,5) by (simp add: ledger_held_def locked Let_def)
qed

named_theorems funds_ok \<open>movements of the funds of an account\<close>

lemma move_funds [funds_ok]:
  "credit_locked_coin oo n = Some oo' \<longleftrightarrow> native_coin_total oo + n \<le> u64_max \<and> oo' = oo\<lparr>native_coin_total := native_coin_total oo + n\<rparr>"
  "credit_locked_pc oo n = Some oo' \<longleftrightarrow> native_pc_total oo + n \<le> u64_max \<and> oo' = oo\<lparr>native_pc_total := native_pc_total oo + n\<rparr>"
  "lock_free_coin oo n = Some oo' \<longleftrightarrow> n \<le> native_coin_free oo \<and> oo' = oo\<lparr>native_coin_free := native_coin_free oo - n\<rparr>"
  "lock_free_pc oo n = Some oo' \<longleftrightarrow> n \<le> native_pc_free oo \<and> oo' = oo\<lparr>native_pc_free := native_pc_free oo - n\<rparr>"
  "unlock_coin oo n = Some oo' \<longleftrightarrow> native_coin_free oo + n \<le> u64_max \<and> native_coin_free oo + n \<le> native_coin_total oo \<and>
     oo' = oo\<lparr>native_coin_free := native_coin_free oo + n\<rparr>"
  "unlock_pc oo n = Some oo' \<longleftrightarrow> native_pc_free oo + n \<le> u64_max \<and> native_pc_free oo + n \<le> native_pc_total oo \<and>
     oo' = oo\<lparr>native_pc_free := native_pc_free oo + n\<rparr>"
  by (auto simp: credit_locked_coin_def credit_locked_pc_def lock_free_coin_def lock_free_pc_def unlock_coin_def unlock_pc_def
      checked_sub_def split: if_splits Option.bind_splits)

lemma dex_if_fail: "(if b then dex_fail c else r) = Some (Inr x) \<longleftrightarrow> \<not> b \<and> r = Some (Inr x)"
  by (simp add: dex_result)

lemma lock_bid_funds_ok:
  assumes "lock_bid_funds a bal = Some (Inr (d, a'))"
  obtains f where "f + d = ni_max_native_pc_qty_including_fees (v3_instruction a)" "f \<le> native_pc_free (v3_open_orders a)"
    "native_pc_total (v3_open_orders a) + d \<le> u64_max"
    "a' = a\<lparr>v3_open_orders := (v3_open_orders a)\<lparr>native_pc_free := native_pc_free (v3_open_orders a) - f,
        native_pc_total := native_pc_total (v3_open_orders a) + d\<rparr>,
      v3_order_book_state := (v3_order_book_state a)\<lparr>market_state := (market_state (v3_order_book_state a))\<lparr>
        pc_deposits_total := pc_deposits_total (market_state (v3_order_book_state a)) + d\<rparr>\<rparr>\<rparr>"
proof -
  define l where "l = ni_max_native_pc_qty_including_fees (v3_instruction a)"
  define f where "f = min l (native_pc_free (v3_open_orders a))"
  note run = assms [unfolded lock_bid_funds_def Let_def dex_if_fail dex_result funds_ok arith64 prod.inject, folded l_def, folded f_def]
  have "f \<le> l" "f \<le> native_pc_free (v3_open_orders a)" by (simp_all add: f_def)
  with run show thesis using that [of f] unfolding l_def [symmetric] by auto
qed

lemma lock_ask_funds_ok:
  assumes "lock_ask_funds a bal = Some (Inr (d, a'))"
  obtains f where "f + d = ni_max_coin_qty (v3_instruction a) * coin_lot_size (market_state (v3_order_book_state a))"
    "f \<le> native_coin_free (v3_open_orders a)" "native_coin_total (v3_open_orders a) + d \<le> u64_max"
    "a' = a\<lparr>v3_open_orders := (v3_open_orders a)\<lparr>native_coin_free := native_coin_free (v3_open_orders a) - f,
        native_coin_total := native_coin_total (v3_open_orders a) + d\<rparr>,
      v3_order_book_state := (v3_order_book_state a)\<lparr>market_state := (market_state (v3_order_book_state a))\<lparr>
        coin_deposits_total := coin_deposits_total (market_state (v3_order_book_state a)) + d\<rparr>\<rparr>\<rparr>"
proof -
  define l where "l = ni_max_coin_qty (v3_instruction a) * coin_lot_size (market_state (v3_order_book_state a))"
  define f where "f = min l (native_coin_free (v3_open_orders a))"
  have "u64_checked l = Some l"
    using assms by (cases "u64_checked l") (simp_all add: lock_ask_funds_def Let_def l_def dex_result)
  note run = assms [unfolded lock_ask_funds_def Let_def, folded l_def, unfolded this option.case dex_if_fail dex_result funds_ok arith64 prod.inject,
      folded f_def]
  have "f \<le> l" "f \<le> native_coin_free (v3_open_orders a)" by (simp_all add: f_def)
  with run show thesis using that [of f] unfolding l_def [symmetric] by auto
qed

text \<open>The slot of the new order.\<close>

lemma assign_slot_ok:
  assumes "assign_slot a = Some (Inr (k, slot, a'))" "oo_ok (v3_open_orders a)"
  obtains h oo where "gen_order_id (header (v3_req_q a)) (ni_limit_price (v3_instruction a)) (ni_side (v3_instruction a)) = Some (k, h)"
    "a' = a\<lparr>v3_req_q := (v3_req_q a)\<lparr>header := h\<rparr>, v3_open_orders := oo\<rparr>" "oo_ok oo" "oo_slots (v3_open_orders a) slot = None"
    "oo_slots oo = (oo_slots (v3_open_orders a))(slot \<mapsto> (ni_side (v3_instruction a), k, ni_client_order_id (v3_instruction a)))"
    "oo = (v3_open_orders a)\<lparr>free_slot_bits := free_slot_bits oo, is_bid_bits := is_bid_bits oo, oo_orders := oo_orders oo,
       client_order_ids := client_order_ids oo\<rparr>"
proof -
  let ?i = "v3_instruction a" and ?oo = "v3_open_orders a"
  obtain h oo1 where gen: "gen_order_id (header (v3_req_q a)) (ni_limit_price ?i) (ni_side ?i) = Some (k, h)"
    and add: "add_order ?oo k (ni_side ?i) = Some (Inr (slot, oo1))"
    and a': "a' = a\<lparr>v3_req_q := (v3_req_q a)\<lparr>header := h\<rparr>,
        v3_open_orders := oo1\<lparr>client_order_ids := (client_order_ids oo1)[slot := ni_client_order_id ?i]\<rparr>\<rparr>"
    using assms(1) unfolding assign_slot_def Let_def dex_result split_paired_Ex prod.case prod.inject by blast
  have "free_slot_bits ?oo \<noteq> 0" using add by (auto simp: add_order_def dex_result)
  then have room: "\<exists>i < 128. oo_slots ?oo i = None" using add_order_full [of ?oo] by auto
  from assms(2) room obtain slot' oo2 where c: "add_order ?oo k (ni_side ?i) = Some (Inr (slot', oo2))" "slot' < 128"
      "oo_slots ?oo slot' = None" "oo_ok oo2" "oo_slots oo2 = (oo_slots ?oo)(slot' \<mapsto> (ni_side ?i, k, 0))"
      "oo2 = ?oo\<lparr>free_slot_bits := free_slot_bits oo2, is_bid_bits := is_bid_bits oo2, oo_orders := oo_orders oo2\<rparr>"
    by (rule add_order_correct)
  with add have [simp]: "slot' = slot" "oo2 = oo1" by simp_all
  define oo where "oo = oo1\<lparr>client_order_ids := (client_order_ids oo1)[slot := ni_client_order_id ?i]\<rparr>"
  have filled: "\<not> bit (free_slot_bits oo1) slot" "(if bit (is_bid_bits oo1) slot then Bid else Ask) = ni_side ?i" "oo_orders oo1 ! slot = k"
    using fun_cong [OF c(5), of slot] c(2) by (auto simp: oo_slots_def split: if_splits)
  have len: "length (client_order_ids oo1) = 128" using c(4) by (simp add: oo_ok_def)
  have ok: "oo_ok oo" using c(2,4) filled(1) by (auto simp: oo_def oo_ok_def nth_list_update)
  have "oo_slots oo i = ((oo_slots ?oo)(slot \<mapsto> (ni_side ?i, k, ni_client_order_id ?i))) i" for i
  proof (cases "i = slot")
    case True
    then show ?thesis using c(2) filled len by (auto simp: oo_slots_def oo_def)
  next
    case False
    then have "oo_slots oo i = oo_slots oo1 i" by (simp add: oo_slots_def oo_def)
    then show ?thesis using False c(5) by simp
  qed
  then have slots: "oo_slots oo = (oo_slots ?oo)(slot \<mapsto> (ni_side ?i, k, ni_client_order_id ?i))" by (rule ext)
  have eq: "oo = ?oo\<lparr>free_slot_bits := free_slot_bits oo, is_bid_bits := is_bid_bits oo, oo_orders := oo_orders oo,
       client_order_ids := client_order_ids oo\<rparr>"
    using c(6) by (cases "?oo"; cases oo1) (simp add: oo_def)
  show thesis by (rule that [OF gen a' [folded oo_def] ok _ slots eq]) (use c(3) in simp)
qed

text \<open>The proceeds of the order reach the account.\<close>

definition proceeds_applied :: "nat \<Rightarrow> request_proceeds \<Rightarrow> open_orders \<Rightarrow> open_orders \<Rightarrow> bool" where
  "proceeds_applied lot pr oo oo' \<longleftrightarrow>
     native_coin_total oo' + coin_debit pr * lot = native_coin_total oo + coin_credit pr * lot \<and>
     native_coin_free oo' = native_coin_free oo + (coin_credit pr + coin_unlocked pr) * lot \<and>
     native_pc_total oo' + native_pc_debit pr = native_pc_total oo + native_pc_credit pr \<and>
     native_pc_free oo' = native_pc_free oo + native_pc_credit pr + native_pc_unlocked pr \<and>
     oo_referrer_rebates_accrued oo' = oo_referrer_rebates_accrued oo \<and> oo_slots oo' = oo_slots oo"

lemma apply_proceeds_ok:
  assumes "apply_proceeds lot pr oo = Some (Inr oo')" "oo_ok oo"
  shows "proceeds_applied lot pr oo oo'" "oo_ok oo'"
proof -
  obtain oo1 oo2 oo3 oo4 oo5 oo6 where
    "credit_locked_coin oo (coin_credit pr * lot) = Some oo1" "unlock_coin oo1 (coin_credit pr * lot) = Some oo2"
    "unlock_coin oo2 (coin_unlocked pr * lot) = Some oo3" "credit_locked_pc oo3 (native_pc_credit pr) = Some oo4"
    "unlock_pc oo4 (native_pc_credit pr) = Some oo5" "unlock_pc oo5 (native_pc_unlocked pr) = Some oo6"
    and debit: "coin_debit pr * lot \<le> native_coin_total oo6" "native_pc_debit pr \<le> native_pc_total oo6"
    and oo': "oo' = oo6\<lparr>native_coin_total := native_coin_total oo6 - coin_debit pr * lot,
        native_pc_total := native_pc_total oo6 - native_pc_debit pr\<rparr>"
    and le: "native_coin_free oo' \<le> native_coin_total oo'" "native_pc_free oo' \<le> native_pc_total oo'"
    using assms(1) unfolding apply_proceeds_def Let_def dex_result arith64 by blast
  then have oo6: "oo6 = oo\<lparr>native_coin_total := native_coin_total oo + coin_credit pr * lot,
      native_coin_free := native_coin_free oo + coin_credit pr * lot + coin_unlocked pr * lot,
      native_pc_total := native_pc_total oo + native_pc_credit pr,
      native_pc_free := native_pc_free oo + native_pc_credit pr + native_pc_unlocked pr\<rparr>"
    and b: "native_coin_total oo + coin_credit pr * lot \<le> u64_max" "native_pc_total oo + native_pc_credit pr \<le> u64_max"
    by (simp_all add: funds_ok)
  show "proceeds_applied lot pr oo oo'" using oo' oo6 debit by (simp add: proceeds_applied_def add_mult_distrib)
  have "native_coin_total oo' \<le> u64_max" "native_pc_total oo' \<le> u64_max"
    using oo' oo6 b by (auto intro: le_trans [OF diff_le_self])
  with le show "oo_ok oo'" using oo' oo6 assms(2) by (simp add: oo_ok_def)
qed

lemma same_market_keeps:
  assumes "same_market ms ms'"
  shows "coin_deposits_total ms' = coin_deposits_total ms" "coin_vault ms' = coin_vault ms" "pc_vault ms' = pc_vault ms"
  using arg_cong [OF assms [unfolded same_market_def], of coin_deposits_total]
    arg_cong [OF assms [unfolded same_market_def], of coin_vault] arg_cong [OF assms [unfolded same_market_def], of pc_vault]
  by simp_all

lemma ledger_applied:
  assumes "ledger_held w (q * lot) l orders e" "proceeds e = proceeds_zero" "conserves w q l e 0 0 e'"
    and "proceeds_applied lot (proceeds e') oo oo'" "map_of orders w = Some oo" "distinct (map fst orders)"
    and "lot = coin_lot_size (market_state (ob e))"
  shows "ledger_ok (AList.update w oo' orders) e'"
proof -
  let ?ms = "market_state (ob e)" and ?ms' = "market_state (ob e')" and ?pr = "proceeds e'"
  note tot = accounts_total_update [OF assms(6,5), of _ oo']
  have same: "same_market ?ms ?ms'" using assms(3) by (simp add: conserves_def Let_def)
  then have lots: "coin_lot_size ?ms' = lot" "coin_deposits_total ?ms' = coin_deposits_total ?ms"
    using same_market_lots(1) [OF same] same_market_keeps(1) [OF same] assms(7) by simp_all
  have spent: "spent_coin e q = q * lot" "spent_coin e' 0 = (coin_debit ?pr + coin_unlocked ?pr) * lot"
    "spent_pc e l = l" "spent_pc e' 0 = native_pc_debit ?pr + native_pc_unlocked ?pr"
    using assms(2,7) lots(1) by (simp_all add: spent_coin_def spent_pc_def proceeds_zero_def)
  have lk: "locked Ask e' v + (if v = w then (coin_debit ?pr + coin_unlocked ?pr) * lot else 0) = locked Ask e v + (if v = w then q * lot else 0)"
    "locked Bid e' v + (if v = w then native_pc_debit ?pr + native_pc_unlocked ?pr else 0) = locked Bid e v + (if v = w then l else 0)" for v
    using assms(3) unfolding conserves_def Let_def spent by blast+
  have con: "total coin_in (pending e') = total coin_in (pending e) + coin_debit ?pr * lot"
    "total coin_out (pending e') = total coin_out (pending e) + coin_credit ?pr * lot"
    "pc_deposits_total ?ms' + total pc_out (pending e') + total pc_in (pending e) + native_pc_debit ?pr =
      pc_deposits_total ?ms + total pc_out (pending e) + total pc_in (pending e') + native_pc_credit ?pr"
    "referrer_rebates_accrued ?ms' + total taker_rebate (pending e) = referrer_rebates_accrued ?ms + total taker_rebate (pending e')"
    using assms(2,3,7) by (simp_all add: conserves_def Let_def proceeds_zero_def)
  have led: "coin_deposits_total ?ms + total coin_out (pending e) = accounts_total native_coin_total orders + total coin_in (pending e)"
    "pc_deposits_total ?ms + total pc_out (pending e) = accounts_total native_pc_total orders + total pc_in (pending e)"
    "accounts_total oo_referrer_rebates_accrued orders + total taker_rebate (pending e) \<le> referrer_rebates_accrued ?ms"
    using assms(1) by (simp_all add: ledger_held_def Let_def)
  have app: "native_coin_total oo' + coin_debit ?pr * lot = native_coin_total oo + coin_credit ?pr * lot"
    "native_pc_total oo' + native_pc_debit ?pr = native_pc_total oo + native_pc_credit ?pr"
    "oo_referrer_rebates_accrued oo' = oo_referrer_rebates_accrued oo"
    using assms(4) by (simp_all add: proceeds_applied_def)
  have acc: "native_coin_total oo = native_coin_free oo + locked Ask e w + q * lot" "native_pc_total oo = native_pc_free oo + locked Bid e w + l"
    using assms(1,5) by (simp_all add: ledger_held_def Let_def)
  have "native_coin_total x = native_coin_free x + locked Ask e' v \<and> native_pc_total x = native_pc_free x + locked Bid e' v"
    if "map_of (AList.update w oo' orders) v = Some x" for v x
  proof (cases "v = w")
    case True
    then show ?thesis using that acc lk [of w] assms(4) by (auto simp: update_conv' proceeds_applied_def algebra_simps)
  next
    case False
    then show ?thesis using that assms(1) lk [of v] by (auto simp: update_conv' ledger_held_def Let_def)
  qed
  moreover have "coin_deposits_total ?ms' + total coin_out (pending e') = accounts_total native_coin_total (AList.update w oo' orders) + total coin_in (pending e')"
    "pc_deposits_total ?ms' + total pc_out (pending e') = accounts_total native_pc_total (AList.update w oo' orders) + total pc_in (pending e')"
    "accounts_total oo_referrer_rebates_accrued (AList.update w oo' orders) + total taker_rebate (pending e') \<le> referrer_rebates_accrued ?ms'"
    using led con app lots(2) tot [of native_coin_total] tot [of native_pc_total] tot [of oo_referrer_rebates_accrued] by linarith+
  ultimately show ?thesis by (simp add: ledger_ok_def Let_def)
qed

text \<open>The new order has an entry of its own in the table of slots.\<close>

lemma refs_ok_extend:
  assumes "refs_ok T e" "T t = None"
  shows "refs_ok (T(t \<mapsto> order)) e" "\<not> placed e t"
proof -
  have "view_ref v \<noteq> t" if "v \<in> set (pending e)" for v using assms that by (auto simp: refs_ok_def)
  moreover have "leaf_ref x \<noteq> t" if "x \<in> set (side_list e s)" for x s
  proof -
    have "T (leaf_ref x) = Some (leaf_entry s x)" using assms(1) that unfolding refs_ok_def by blast
    then show ?thesis using assms(2) by auto
  qed
  ultimately show "refs_ok (T(t \<mapsto> order)) e" "\<not> placed e t"
    using assms(1) unfolding refs_ok_def placed_def by auto
qed

lemma slots_ready:
  assumes "slots_ok T seq e" "engine_ok e" "T t = None" "id_seq side k = seq"
  shows "order_ready (T(t \<mapsto> (side, k, c))) t (side, k, c) e"
proof -
  have ok: "\<And>r s k c. T r = Some (s, k, c) \<Longrightarrow> id_seq s k < seq" "refs_ok T e" "table_inj T"
    using assms(1) unfolding slots_ok_def by blast+
  have new: "T r \<noteq> Some (side, k, d)" for r d using ok(1) [of r side k d] assms(4) by auto
  have "table_inj (T(t \<mapsto> (side, k, c)))"
    unfolding table_inj_def
  proof (intro allI impI, elim conjE)
    fix r r' s j d d'
    assume "(T(t \<mapsto> (side, k, c))) r = Some (s, j, d)" "(T(t \<mapsto> (side, k, c))) r' = Some (s, j, d')"
    then consider "r = t" "r' = t" | "T r = Some (s, j, d)" "T r' = Some (s, j, d')"
      using new by (auto split: if_splits)
    then show "r = r'" using ok(3) unfolding table_inj_def by cases blast+
  qed
  then show ?thesis using refs_ok_extend [OF ok(2) assms(3)] assms(2) by (simp add: order_ready_def)
qed

lemma slots_ok_extend:
  assumes "slots_ok T seq e" "T' = T(t \<mapsto> (side, k, c))" "id_seq side k = seq" "table_inj T'" "refs_ok T' e'"
    and "\<And>r. placed e' r \<longleftrightarrow> placed e r \<or> r = t"
  shows "slots_ok T' (seq + 1) e'"
proof -
  have old: "\<And>r s k c. T r = Some (s, k, c) \<Longrightarrow> id_seq s k < seq" "\<And>r. T r \<noteq> None \<Longrightarrow> placed e r"
    using assms(1) unfolding slots_ok_def by blast+
  have "id_seq s j < seq + 1" if "T' r = Some (s, j, d)" for r s j d
    using that old(1) [of r s j d] assms(2,3) by (auto split: if_splits)
  moreover have "placed e' r" if "T' r \<noteq> None" for r
    using that old(2) [of r] assms(2,6) by (auto split: if_splits)
  ultimately show ?thesis using assms(4,5) unfolding slots_ok_def by blast
qed

section \<open>The token program\<close>

text \<open>A transfer moves the amount between the two accounts; \<open>can_transfer\<close> says that both accounts are initialised,
  are not frozen and have the same mint, and that the authority may spend from the source.\<close>

locale token_program =
  fixes spl :: spl_token and can_transfer :: "pubkey \<Rightarrow> pubkey \<Rightarrow> pubkey \<Rightarrow> bool"
  assumes transfer_moves: "spl_transfer spl src dst authority n bal = Inr bal' \<Longrightarrow>
      n \<le> bal src \<and> bal' = (if src = dst then bal else bal(src := bal src - n, dst := bal dst + n))"
    and transfer_pays: "can_transfer src dst authority \<Longrightarrow> n \<le> bal src \<Longrightarrow> src = dst \<or> bal dst + n \<le> u64_max \<Longrightarrow>
      \<exists>bal'. spl_transfer spl src dst authority n bal = Inr bal'"
begin

lemma send_ok:
  assumes "send_from_vault spl n recipient vault signer bal = Some (Inr bal')"
  shows "n \<le> bal vault" "bal vault - n \<le> bal' vault" "v \<noteq> vault \<Longrightarrow> bal v \<le> bal' v"
proof -
  have "spl_transfer spl vault recipient signer n bal = Inr bal'"
    using assms by (auto simp: send_from_vault_def dex_result split: sum.splits)
  from transfer_moves [OF this] show "n \<le> bal vault" "bal vault - n \<le> bal' vault" "v \<noteq> vault \<Longrightarrow> bal v \<le> bal' v"
    by (auto split: if_splits)
qed

lemma deposit_ok:
  assumes "deposit spl payer vault owner n bal = Some (Inr bal')"
  shows "bal' vault = bal vault + n" "v \<noteq> payer \<Longrightarrow> bal v \<le> bal' v"
proof -
  have "bal' vault = bal vault + n \<and> (v \<noteq> payer \<longrightarrow> bal v \<le> bal' v)" for v
  proof (cases "n = 0")
    case True
    then show ?thesis using assms by (simp add: deposit_def dex_result)
  next
    case False
    then have tr: "spl_transfer spl payer vault owner n bal = Inr bal'" and "Some n = checked_sub (bal' vault) (bal vault)"
      using assms by (auto simp: deposit_def dex_result split: sum.splits)
    then show ?thesis using transfer_moves [OF tr] by (auto simp: checked_sub_def split: if_splits)
  qed
  then show "bal' vault = bal vault + n" "v \<noteq> payer \<Longrightarrow> bal v \<le> bal' v" by blast+
qed

end

text \<open>A new order of the account \<open>w\<close>, paid from a wallet.\<close>

definition place_order ::
  "spl_token \<Rightarrow> new_order_instruction_v3 \<Rightarrow> pubkey \<Rightarrow> pubkey \<Rightarrow> pubkey \<Rightarrow> fee_tier \<Rightarrow> exchange \<Rightarrow> exchange dex" where
  "place_order spl i w owner payer fee_tier x =
     dex_bind (load_account w (x_orders x)) (\<lambda>oo.
     dex_bind (process_new_order_v3 spl \<lparr>v3_instruction = i, v3_open_orders = oo, v3_open_orders_address = w, v3_owner = owner,
         v3_req_q = x_reqq x, v3_event_q = x_evq x, v3_order_book_state = x_ob x, v3_payer = payer,
         v3_coin_vault = coin_vault (market_state (x_ob x)), v3_pc_vault = pc_vault (market_state (x_ob x)),
         v3_fee_tier = fee_tier\<rparr> (x_amounts x)) (\<lambda>(a, bal).
     dex_ok (x\<lparr>x_ob := v3_order_book_state a, x_evq := v3_event_q a, x_reqq := v3_req_q a,
       x_orders := AList.update w (v3_open_orders a) (x_orders x), x_amounts := bal\<rparr>)))"

text \<open>The funds of the order are taken from the account or from the deposit.\<close>

lemma lock_funds_ok:
  assumes "(case ni_side (v3_instruction a) of Bid \<Rightarrow> lock_bid_funds a bal | Ask \<Rightarrow> lock_ask_funds a bal) = Some (Inr (d, a'))"
    and "oo_ok (v3_open_orders a)"
  obtains oo ms where "a' = a\<lparr>v3_open_orders := oo, v3_order_book_state := (v3_order_book_state a)\<lparr>market_state := ms\<rparr>\<rparr>" "oo_ok oo"
    "oo_slots oo = oo_slots (v3_open_orders a)"
    "ms = (market_state (v3_order_book_state a))\<lparr>
       coin_deposits_total := coin_deposits_total (market_state (v3_order_book_state a)) + (if ni_side (v3_instruction a) = Ask then d else 0),
       pc_deposits_total := pc_deposits_total (market_state (v3_order_book_state a)) + (if ni_side (v3_instruction a) = Bid then d else 0)\<rparr>"
    "oo_referrer_rebates_accrued oo = oo_referrer_rebates_accrued (v3_open_orders a)"
    "native_coin_total oo = native_coin_total (v3_open_orders a) + (if ni_side (v3_instruction a) = Ask then d else 0)"
    "native_pc_total oo = native_pc_total (v3_open_orders a) + (if ni_side (v3_instruction a) = Bid then d else 0)"
    "native_coin_total oo + native_coin_free (v3_open_orders a) = native_coin_free oo + native_coin_total (v3_open_orders a) +
       held_coin (ni_side (v3_instruction a)) (ni_max_coin_qty (v3_instruction a)) * coin_lot_size ms"
    "native_pc_total oo + native_pc_free (v3_open_orders a) = native_pc_free oo + native_pc_total (v3_open_orders a) +
       held_pc (ni_side (v3_instruction a)) (Some (ni_max_native_pc_qty_including_fees (v3_instruction a)))"
proof (cases "ni_side (v3_instruction a)")
  case Bid
  then have "lock_bid_funds a bal = Some (Inr (d, a'))" using assms(1) by simp
  then show thesis
  proof (rule lock_bid_funds_ok)
    fix f
    assume f: "f + d = ni_max_native_pc_qty_including_fees (v3_instruction a)" "f \<le> native_pc_free (v3_open_orders a)"
      "native_pc_total (v3_open_orders a) + d \<le> u64_max"
      "a' = a\<lparr>v3_open_orders := (v3_open_orders a)\<lparr>native_pc_free := native_pc_free (v3_open_orders a) - f,
        native_pc_total := native_pc_total (v3_open_orders a) + d\<rparr>,
      v3_order_book_state := (v3_order_book_state a)\<lparr>market_state := (market_state (v3_order_book_state a))\<lparr>
        pc_deposits_total := pc_deposits_total (market_state (v3_order_book_state a)) + d\<rparr>\<rparr>\<rparr>"
    have "native_pc_free (v3_open_orders a) - f \<le> native_pc_total (v3_open_orders a) + d" using assms(2) by (auto simp: oo_ok_def)
    then show thesis
      by (intro that [OF f(4)]) (use f(1-3) assms(2) Bid in \<open>simp_all add: oo_ok_def held_coin_def held_pc_def get_or_zero_def\<close>)
  qed
next
  case Ask
  then have "lock_ask_funds a bal = Some (Inr (d, a'))" using assms(1) by simp
  then show thesis
  proof (rule lock_ask_funds_ok)
    fix f
    assume f: "f + d = ni_max_coin_qty (v3_instruction a) * coin_lot_size (market_state (v3_order_book_state a))"
      "f \<le> native_coin_free (v3_open_orders a)" "native_coin_total (v3_open_orders a) + d \<le> u64_max"
      "a' = a\<lparr>v3_open_orders := (v3_open_orders a)\<lparr>native_coin_free := native_coin_free (v3_open_orders a) - f,
        native_coin_total := native_coin_total (v3_open_orders a) + d\<rparr>,
      v3_order_book_state := (v3_order_book_state a)\<lparr>market_state := (market_state (v3_order_book_state a))\<lparr>
        coin_deposits_total := coin_deposits_total (market_state (v3_order_book_state a)) + d\<rparr>\<rparr>\<rparr>"
    have "native_coin_free (v3_open_orders a) - f \<le> native_coin_total (v3_open_orders a) + d" using assms(2) by (auto simp: oo_ok_def)
    then show thesis
      by (intro that [OF f(4)]) (use f(1-3) assms(2) Ask in \<open>simp_all add: oo_ok_def held_coin_def held_pc_def get_or_zero_def\<close>)
  qed
qed

text \<open>The invariants look at the book and at the events only.\<close>

lemma invariants_cong:
  assumes "ob e' = (ob e)\<lparr>market_state := ms\<rparr>" "evq e' = evq e"
  shows "slots_ok T seq e' = slots_ok T seq e" "placed e' r = placed e r"
    and "lots_ok ms \<Longrightarrow> engine_ok e \<Longrightarrow> engine_ok e'"
proof -
  have lists: "orders_mut (ob e') s = orders_mut (ob e) s" for s using assms(1) by (cases s) simp_all
  show "placed e' r = placed e r" for r by (simp add: placed_def lists assms(2))
  then show "slots_ok T seq e' = slots_ok T seq e" by (simp add: slots_ok_def refs_ok_def lists assms(2))
  show "engine_ok e'" if "lots_ok ms" "engine_ok e" using that by (simp add: engine_ok_alt lists assms all_side)
qed

lemma books_ok_proceeds [simp]: "books_ok orders seq (e\<lparr>proceeds := pr\<rparr>) = books_ok orders seq e"
  by (simp add: books_ok_def engine_ok_def slots_ok_def refs_ok_def placed_def ledger_ok_def locked_def bid_list_def ask_list_def
      uncrossed_def)

lemma gen_order_id_seq:
  assumes "gen_order_id h price side = Some (k, h')" "price \<le> u64_max"
  shows "id_seq side k = next_seq_num h" "next_seq_num h' = next_seq_num h + 1" "extract_price_from_order_id k = price"
proof -
  let ?low = "case side of Bid \<Rightarrow> u64_max - next_seq_num h | Ask \<Rightarrow> next_seq_num h"
  have g: "next_seq_num h + 1 \<le> u64_max" "h' = h\<lparr>next_seq_num := next_seq_num h + 1\<rparr>" "k = id_word price ?low"
    using assms(1) unfolding gen_order_id_eq by simp_all
  then show "id_seq side k = next_seq_num h" "next_seq_num h' = next_seq_num h + 1"
    using id_seq_word [OF assms(2), of "next_seq_num h" side] by simp_all
  have "?low \<le> u64_max" using g(1) by (cases side) simp_all
  then show "extract_price_from_order_id k = price" unfolding g(3) by (rule id_word_price(2) [OF assms(2)])
qed

lemma process_orderbook_new_order:
  assumes "process_orderbook_request (NewOrder r) limit e = Some (Inr (left, limit', e'))"
  obtains rest where "new_order \<lparr>np_side = no_side r, np_order_type = no_order_type r, np_order_id = no_order_id r,
      np_owner = no_owner r, np_owner_slot = no_owner_slot r, np_fee_tier = no_fee_tier r, np_max_coin_qty = no_max_coin_qty r,
      np_native_pc_qty_locked = no_native_pc_qty_locked r, np_client_order_id = get_or_zero (no_client_order_id r),
      np_self_trade_behavior = no_self_trade_behavior r\<rparr> limit e = Some (Inr (rest, limit', e'))"
    "left = None \<longleftrightarrow> rest = None"
  using assms by (auto simp: process_orderbook_request_def dex_result)

lemma nonzero_get [simp]: "nonzero (get_or_zero (nonzero n)) = nonzero n"
  by (simp add: nonzero_def get_or_zero_def)

lemma new_order_books:
  assumes "books_ok orders seq e0" "map_of orders w = Some oo0" "evq e = evq e0" "ob e = (ob e0)\<lparr>market_state := ms\<rparr>" "lots_ok ms"
    and "proceeds e = proceeds_zero" "oo_ok oo" "oo_slots oo = (oo_slots oo0)(slot \<mapsto> (side, k, cid))" "oo_slots oo0 slot = None"
    and "ledger_held w (held_coin side qty * coin_lot_size ms) (held_pc side pc) (AList.update w oo orders) e"
    and "id_seq side k = seq" "0 < qty"
    and "new_order p limit e = Some (Inr (rest, limit', e'))"
    and "p = \<lparr>np_side = side, np_order_type = otype, np_order_id = k, np_owner = w, np_owner_slot = slot, np_fee_tier = tier,
      np_max_coin_qty = qty, np_native_pc_qty_locked = pc, np_client_order_id = get_or_zero (nonzero cid), np_self_trade_behavior = stb\<rparr>"
    and "apply_proceeds (coin_lot_size (market_state (ob e'))) (proceeds e') oo = Some (Inr oo')"
  shows "rest = None" "books_ok (AList.update w oo' orders) (seq + 1) e'"
    and "conserves w (held_coin side qty) (held_pc side pc) e 0 0 e'"
proof -
  let ?T = "slots_of orders" and ?orders = "AList.update w oo orders"
  have ok: "engine_ok e0" "accounts_ok orders" "distinct (map fst orders)" "slots_ok ?T seq e0"
    using assms(1) by (simp_all add: books_ok_def accounts_ok_def)
  note cong = invariants_cong [OF assms(4,3)]
  have T: "slots_of ?orders = ?T((w, slot) \<mapsto> (side, k, nonzero cid))"
  proof
    show "slots_of ?orders r = (?T((w, slot) \<mapsto> (side, k, nonzero cid))) r" for r
      using assms(2,8) by (cases r) (auto simp: slots_of_def update_conv')
  qed
  have "?T (w, slot) = None" using assms(2,9) by (simp add: slots_of_def)
  moreover have "slots_ok ?T seq e" "engine_ok e" using cong(1,3) ok(1,4) assms(5) by simp_all
  ultimately have ready: "new_ready (slots_of ?orders) p e" using slots_ready [of ?T seq e] assms(11) by (simp add: T assms(14))
  note new = new_order_ok [OF assms(13) ready]
  show "rest = None" using new(1) assms(12,14) by simp
  show con: "conserves w (held_coin side qty) (held_pc side pc) e 0 0 e'" using new(5) assms(12,14) by simp
  then have lot: "coin_lot_size (market_state (ob e')) = coin_lot_size ms" using same_market_lots(1) assms(4) by (auto simp: conserves_def Let_def)
  note app = apply_proceeds_ok [OF assms(15,7), unfolded lot]
  have "ledger_ok (AList.update w oo' ?orders) e'"
    by (rule ledger_applied [OF assms(10,6) con app(1)]) (use ok(3) assms(4) in \<open>simp_all add: update_conv' distinct_update\<close>)
  moreover have "slots_of (AList.update w oo' orders) = slots_of ?orders"
    using app(1) by (auto simp: fun_eq_iff slots_of_def update_conv' proceeds_applied_def)
  moreover have "slots_ok (slots_of ?orders) (seq + 1) e'"
    by (rule slots_ok_extend [OF ok(4) T assms(11)]) (use new ready assms(12,14) cong(2) in \<open>auto simp: order_ready_def\<close>)
  ultimately show "books_ok (AList.update w oo' orders) (seq + 1) e'"
    using new(2) assms(12,14) accounts_ok_update [OF ok(2) app(2)] by (simp add: books_ok_def update_last)
qed

lemma vaults_ok_new_order:
  assumes "vaults_ok ms bal" "same_market ms1 ms2"
    and "pc_deposits_total ms2 + pc_fees_accrued ms2 + referrer_rebates_accrued ms2 = pc_deposits_total ms1 + pc_fees_accrued ms1 + referrer_rebates_accrued ms1"
    and "ms1 = ms\<lparr>coin_deposits_total := coin_deposits_total ms + cd, pc_deposits_total := pc_deposits_total ms + pd\<rparr>"
    and "bal (coin_vault ms) + cd \<le> bal' (coin_vault ms)" "bal (pc_vault ms) + pd \<le> bal' (pc_vault ms)"
  shows "vaults_ok ms2 bal'"
  using assms same_market_keeps [OF assms(2)] by (simp add: vaults_ok_def)

abbreviation order_request :: "new_order_instruction_v3 \<Rightarrow> u128 \<Rightarrow> nat \<Rightarrow> new_order_v3_args \<Rightarrow> request_view" where
  "order_request i k slot a \<equiv>
     NewOrder \<lparr>no_side = ni_side i, no_order_type = ni_order_type i, no_owner_slot = slot, no_fee_tier = v3_fee_tier a,
       no_order_id = k, no_max_coin_qty = ni_max_coin_qty i,
       no_native_pc_qty_locked = (case ni_side i of Bid \<Rightarrow> Some (ni_max_native_pc_qty_including_fees i) | Ask \<Rightarrow> None),
       no_owner = v3_open_orders_address a, no_client_order_id = nonzero (ni_client_order_id i),
       no_self_trade_behavior = ni_self_trade_behavior i\<rparr>"

lemma process_new_order_v3_ok:
  assumes "process_new_order_v3 spl a bal = Some (Inr (a', bal'))"
  obtains d a1 k slot a2 unf lim e' oo' where
      "(case ni_side (v3_instruction a) of Bid \<Rightarrow> lock_bid_funds a bal | Ask \<Rightarrow> lock_ask_funds a bal) = Some (Inr (d, a1))"
      "assign_slot a1 = Some (Inr (k, slot, a2))"
      "process_orderbook_request (order_request (v3_instruction a) k slot a2) (ni_limit (v3_instruction a))
        \<lparr>ob = v3_order_book_state a2, evq = v3_event_q a2, proceeds = proceeds_zero\<rparr> = Some (Inr (unf, lim, e'))"
      "apply_proceeds (coin_lot_size (market_state (ob e'))) (proceeds e') (v3_open_orders a2) = Some (Inr oo')"
      "deposit spl (v3_payer a2) (case ni_side (v3_instruction a) of Bid \<Rightarrow> v3_pc_vault a2 | Ask \<Rightarrow> v3_coin_vault a2) (v3_owner a2) d bal = Some (Inr bal')"
      "a' = a2\<lparr>v3_open_orders := oo', v3_event_q := evq e', v3_order_book_state := ob e'\<rparr>"
  using assms unfolding process_new_order_v3_def Let_def dex_result split_paired_Ex prod.case prod.inject by blast

text \<open>The arguments of the matching engine: the funds are locked and the order has its slot.\<close>

definition order_prepared :: "new_order_v3_args \<Rightarrow> nat \<Rightarrow> u128 \<Rightarrow> nat \<Rightarrow> request_queue_header \<Rightarrow> open_orders \<Rightarrow> market_state \<Rightarrow> bool" where
  "order_prepared a d k slot h oo ms \<longleftrightarrow>
     (let i = v3_instruction a; side = ni_side i; oo0 = v3_open_orders a; ms0 = market_state (v3_order_book_state a) in
      gen_order_id (header (v3_req_q a)) (ni_limit_price i) side = Some (k, h) \<and> oo_ok oo \<and> oo_slots oo0 slot = None \<and>
      oo_slots oo = (oo_slots oo0)(slot \<mapsto> (side, k, ni_client_order_id i)) \<and>
      ms = ms0\<lparr>coin_deposits_total := coin_deposits_total ms0 + (if side = Ask then d else 0),
        pc_deposits_total := pc_deposits_total ms0 + (if side = Bid then d else 0)\<rparr> \<and>
      oo_referrer_rebates_accrued oo = oo_referrer_rebates_accrued oo0 \<and>
      native_coin_total oo = native_coin_total oo0 + (if side = Ask then d else 0) \<and>
      native_pc_total oo = native_pc_total oo0 + (if side = Bid then d else 0) \<and>
      native_coin_total oo + native_coin_free oo0 =
        native_coin_free oo + native_coin_total oo0 + held_coin side (ni_max_coin_qty i) * coin_lot_size ms \<and>
      native_pc_total oo + native_pc_free oo0 =
        native_pc_free oo + native_pc_total oo0 + held_pc side (Some (ni_max_native_pc_qty_including_fees i)))"

lemma prepare_order:
  assumes "(case ni_side (v3_instruction a) of Bid \<Rightarrow> lock_bid_funds a bal | Ask \<Rightarrow> lock_ask_funds a bal) = Some (Inr (d, a1))"
    and "assign_slot a1 = Some (Inr (k, slot, a2))" "oo_ok (v3_open_orders a)"
  obtains h oo ms where "order_prepared a d k slot h oo ms"
    "a2 = a\<lparr>v3_open_orders := oo, v3_req_q := (v3_req_q a)\<lparr>header := h\<rparr>,
       v3_order_book_state := (v3_order_book_state a)\<lparr>market_state := ms\<rparr>\<rparr>"
  using assms(1,3)
proof (rule lock_funds_ok)
  fix oo1 ms
  assume a1: "a1 = a\<lparr>v3_open_orders := oo1, v3_order_book_state := (v3_order_book_state a)\<lparr>market_state := ms\<rparr>\<rparr>" "oo_ok oo1"
      "oo_slots oo1 = oo_slots (v3_open_orders a)"
    and funds: "ms = (market_state (v3_order_book_state a))\<lparr>
       coin_deposits_total := coin_deposits_total (market_state (v3_order_book_state a)) + (if ni_side (v3_instruction a) = Ask then d else 0),
       pc_deposits_total := pc_deposits_total (market_state (v3_order_book_state a)) + (if ni_side (v3_instruction a) = Bid then d else 0)\<rparr>"
    "oo_referrer_rebates_accrued oo1 = oo_referrer_rebates_accrued (v3_open_orders a)"
    "native_coin_total oo1 = native_coin_total (v3_open_orders a) + (if ni_side (v3_instruction a) = Ask then d else 0)"
    "native_pc_total oo1 = native_pc_total (v3_open_orders a) + (if ni_side (v3_instruction a) = Bid then d else 0)"
    "native_coin_total oo1 + native_coin_free (v3_open_orders a) = native_coin_free oo1 + native_coin_total (v3_open_orders a) +
       held_coin (ni_side (v3_instruction a)) (ni_max_coin_qty (v3_instruction a)) * coin_lot_size ms"
    "native_pc_total oo1 + native_pc_free (v3_open_orders a) = native_pc_free oo1 + native_pc_total (v3_open_orders a) +
       held_pc (ni_side (v3_instruction a)) (Some (ni_max_native_pc_qty_including_fees (v3_instruction a)))"
  obtain h oo where gen: "gen_order_id (header (v3_req_q a)) (ni_limit_price (v3_instruction a)) (ni_side (v3_instruction a)) = Some (k, h)"
    and a2: "a2 = a1\<lparr>v3_req_q := (v3_req_q a)\<lparr>header := h\<rparr>, v3_open_orders := oo\<rparr>" "oo_ok oo" "oo_slots (v3_open_orders a) slot = None"
      "oo_slots oo = (oo_slots (v3_open_orders a))(slot \<mapsto> (ni_side (v3_instruction a), k, ni_client_order_id (v3_instruction a)))"
    and funds2: "oo = oo1\<lparr>free_slot_bits := free_slot_bits oo, is_bid_bits := is_bid_bits oo, oo_orders := oo_orders oo,
       client_order_ids := client_order_ids oo\<rparr>"
    by (rule assign_slot_ok [OF assms(2)]) (use a1 in simp_all)
  have same: "native_coin_total oo = native_coin_total oo1" "native_pc_total oo = native_pc_total oo1"
    "native_coin_free oo = native_coin_free oo1" "native_pc_free oo = native_pc_free oo1"
    "oo_referrer_rebates_accrued oo = oo_referrer_rebates_accrued oo1"
    by (subst funds2, simp)+
  have "order_prepared a d k slot h oo ms"
    unfolding order_prepared_def Let_def same using gen a2(2-4) funds by blast
  moreover have "a2 = a\<lparr>v3_open_orders := oo, v3_req_q := (v3_req_q a)\<lparr>header := h\<rparr>,
       v3_order_book_state := (v3_order_book_state a)\<lparr>market_state := ms\<rparr>\<rparr>"
    unfolding a2(1) a1(1) by simp
  ultimately show thesis by (rule that)
qed

context token_program
begin

lemma place_order_ok:
  assumes "place_order spl i w owner payer tier x = Some (Inr x')" "exchange_ok x" "0 < ni_max_coin_qty i" "ni_limit_price i \<le> u64_max"
    and "payer \<noteq> coin_vault (market_state (x_ob x))" "payer \<noteq> pc_vault (market_state (x_ob x))"
  shows "exchange_ok x'"
proof -
  let ?ms = "market_state (x_ob x)" and ?seq = "next_seq_num (header (x_reqq x))" and ?side = "ni_side i"
  let ?pc = "case ?side of Bid \<Rightarrow> Some (ni_max_native_pc_qty_including_fees i) | Ask \<Rightarrow> None"
  have ok: "books_ok (x_orders x) ?seq (engine_of x)" "vaults_ok ?ms (x_amounts x)" using assms(2) by (simp_all add: exchange_ok_books)
  define a0 where "a0 oo = \<lparr>v3_instruction = i, v3_open_orders = oo, v3_open_orders_address = w, v3_owner = owner,
         v3_req_q = x_reqq x, v3_event_q = x_evq x, v3_order_book_state = x_ob x, v3_payer = payer,
         v3_coin_vault = coin_vault ?ms, v3_pc_vault = pc_vault ?ms, v3_fee_tier = tier\<rparr>" for oo
  obtain oo0 a bal where oo0: "map_of (x_orders x) w = Some oo0" and run: "process_new_order_v3 spl (a0 oo0) (x_amounts x) = Some (Inr (a, bal))"
    and x': "x' = x\<lparr>x_ob := v3_order_book_state a, x_evq := v3_event_q a, x_reqq := v3_req_q a,
       x_orders := AList.update w (v3_open_orders a) (x_orders x), x_amounts := bal\<rparr>"
    using assms(1) unfolding place_order_def dex_result load_account_ok split_paired_Ex prod.case a0_def by blast
  have i: "v3_instruction (a0 oo0) = i" and oo: "oo_ok oo0" using ok(1) oo0 accounts_ok_get by (auto simp: books_ok_def a0_def)
  obtain d a1 k slot a2 unf lim e' oo' where
      lock: "(case ?side of Bid \<Rightarrow> lock_bid_funds (a0 oo0) (x_amounts x) | Ask \<Rightarrow> lock_ask_funds (a0 oo0) (x_amounts x)) = Some (Inr (d, a1))"
    and slot: "assign_slot a1 = Some (Inr (k, slot, a2))"
    and req: "process_orderbook_request (order_request i k slot a2) (ni_limit i)
        \<lparr>ob = v3_order_book_state a2, evq = v3_event_q a2, proceeds = proceeds_zero\<rparr> = Some (Inr (unf, lim, e'))"
    and app: "apply_proceeds (coin_lot_size (market_state (ob e'))) (proceeds e') (v3_open_orders a2) = Some (Inr oo')"
    and dep: "deposit spl (v3_payer a2) (case ?side of Bid \<Rightarrow> v3_pc_vault a2 | Ask \<Rightarrow> v3_coin_vault a2) (v3_owner a2) d (x_amounts x) = Some (Inr bal)"
    and a: "a = a2\<lparr>v3_open_orders := oo', v3_event_q := evq e', v3_order_book_state := ob e'\<rparr>"
    by (rule process_new_order_v3_ok [OF run, unfolded i])
  obtain h oo2 ms1 where prep: "order_prepared (a0 oo0) d k slot h oo2 ms1"
    and a2: "a2 = (a0 oo0)\<lparr>v3_open_orders := oo2, v3_req_q := (x_reqq x)\<lparr>header := h\<rparr>, v3_order_book_state := (x_ob x)\<lparr>market_state := ms1\<rparr>\<rparr>"
    by (rule prepare_order [of "a0 oo0" "x_amounts x" d a1, OF _ slot]) (use lock oo in \<open>simp_all add: a0_def\<close>)
  note prep = prep [unfolded order_prepared_def Let_def a0_def, simplified]
  define e where "e = \<lparr>ob = v3_order_book_state a2, evq = v3_event_q a2, proceeds = proceeds_zero\<rparr>"
  have e: "evq e = evq (engine_of x)" "ob e = (ob (engine_of x))\<lparr>market_state := ms1\<rparr>" "proceeds e = proceeds_zero"
    by (simp_all add: e_def a2 a0_def)
  have gen: "gen_order_id (header (x_reqq x)) (ni_limit_price i) ?side = Some (k, h)" using prep by simp
  note seq = gen_order_id_seq [OF gen assms(4)]
  have lots: "lots_ok ms1" using ok(1) prep by (simp add: books_ok_def engine_ok_def lots_ok_def)
  have pc: "held_pc ?side ?pc = held_pc ?side (Some (ni_max_native_pc_qty_including_fees i))" by (cases ?side) (simp_all add: held_pc_def)
  have led: "ledger_held w 0 0 (x_orders x) (engine_of x)" and dist: "distinct (map fst (x_orders x))"
    using ok(1) by (simp_all add: ledger_held_none books_ok_def accounts_ok_def)
  have held: "ledger_held w (held_coin ?side (ni_max_coin_qty i) * coin_lot_size ms1) (held_pc ?side ?pc) (AList.update w oo2 (x_orders x)) e"
    unfolding pc
  proof (rule ledger_held_update [OF led oo0 dist e(2,1)], unfold add_0_right)
    show "native_coin_total oo2 + native_coin_free oo0 = native_coin_free oo2 + native_coin_total oo0 + held_coin ?side (ni_max_coin_qty i) * coin_lot_size ms1"
      "native_pc_total oo2 + native_pc_free oo0 = native_pc_free oo2 + native_pc_total oo0 + held_pc ?side (Some (ni_max_native_pc_qty_including_fees i))"
      using prep by blast+
  qed (use prep in simp_all)
  obtain rest where new: "new_order \<lparr>np_side = ?side, np_order_type = ni_order_type i, np_order_id = k, np_owner = w, np_owner_slot = slot,
      np_fee_tier = tier, np_max_coin_qty = ni_max_coin_qty i, np_native_pc_qty_locked = ?pc,
      np_client_order_id = get_or_zero (nonzero (ni_client_order_id i)), np_self_trade_behavior = ni_self_trade_behavior i\<rparr>
      (ni_limit i) e = Some (Inr (rest, lim, e'))"
    using process_orderbook_new_order [OF req] by (auto simp: e_def a2 a0_def)
  have app2: "apply_proceeds (coin_lot_size (market_state (ob e'))) (proceeds e') oo2 = Some (Inr oo')" using app by (simp add: a2)
  note nb = new_order_books [OF ok(1) oo0 e(1,2) lots e(3) _ _ _ held seq(1) assms(3) new refl app2]
  have books: "books_ok (AList.update w oo' (x_orders x)) (?seq + 1) e'" and con: "conserves w (held_coin ?side (ni_max_coin_qty i)) (held_pc ?side ?pc) e 0 0 e'"
    by (rule nb; use prep in simp)+
  have "vaults_ok (market_state (ob e')) bal"
  proof (rule vaults_ok_new_order [OF ok(2)])
    show "same_market ms1 (market_state (ob e'))" using con e(2) by (simp add: conserves_def Let_def)
    show "ms1 = ?ms\<lparr>coin_deposits_total := coin_deposits_total ?ms + (if ?side = Ask then d else 0),
        pc_deposits_total := pc_deposits_total ?ms + (if ?side = Bid then d else 0)\<rparr>" using prep by simp
    show "pc_deposits_total (market_state (ob e')) + pc_fees_accrued (market_state (ob e')) + referrer_rebates_accrued (market_state (ob e')) =
      pc_deposits_total ms1 + pc_fees_accrued ms1 + referrer_rebates_accrued ms1" using con e(2) by (simp add: conserves_def Let_def)
    show "x_amounts x (coin_vault ?ms) + (if ?side = Ask then d else 0) \<le> bal (coin_vault ?ms)"
      "x_amounts x (pc_vault ?ms) + (if ?side = Bid then d else 0) \<le> bal (pc_vault ?ms)"
      using deposit_ok [OF dep] assms(5,6) by (cases ?side; simp add: a2 a0_def)+
  qed
  moreover have "engine_of x' = e'\<lparr>proceeds := proceeds_zero\<rparr>" by (simp add: x' engine_of_def a)
  moreover have "x_ob x' = ob e'" "x_orders x' = AList.update w oo' (x_orders x)" "x_amounts x' = bal" "header (x_reqq x') = h"
    by (simp_all add: x' a a2)
  ultimately show ?thesis using books seq(2) by (simp add: exchange_ok_books)
qed

end

end
