(* ===== verification/Dex_Settlement.thy ===== *)
theory Dex_Settlement
  imports Dex_Solvency
begin

text \<open>
  Settlement, the sweep of fees, cancellations and pruning keep the invariant of the exchange, and a settlement can
  always be paid.
\<close>

section \<open>Settlement\<close>

definition settle :: "spl_token \<Rightarrow> pubkey \<Rightarrow> pubkey \<Rightarrow> pubkey \<Rightarrow> pubkey \<Rightarrow> pubkey option \<Rightarrow> exchange \<Rightarrow> exchange dex" where
  "settle spl w coin_wallet pc_wallet signer referrer x =
     dex_bind (load_account w (x_orders x)) (\<lambda>oo.
     dex_bind (process_settle_funds spl \<lparr>sf_market = market_state (x_ob x), sf_open_orders = oo,
         sf_coin_vault = coin_vault (market_state (x_ob x)), sf_pc_vault = pc_vault (market_state (x_ob x)),
         sf_coin_wallet = coin_wallet, sf_pc_wallet = pc_wallet, sf_vault_signer = signer, sf_referrer = referrer\<rparr>
         (x_amounts x)) (\<lambda>(a, bal).
     dex_ok (x\<lparr>x_ob := (x_ob x)\<lparr>market_state := sf_market a\<rparr>, x_orders := AList.update w (sf_open_orders a) (x_orders x),
       x_amounts := bal\<rparr>)))"

text \<open>The account \<open>w\<close> and the totals of the market change.\<close>

lemma books_ok_account:
  assumes "books_ok orders seq e" "map_of orders w = Some oo" "ob e' = (ob e)\<lparr>market_state := ms'\<rparr>" "evq e' = evq e"
    and "coin_lot_size ms' = coin_lot_size (market_state (ob e))" "pc_lot_size ms' = pc_lot_size (market_state (ob e))"
    and "oo_ok oo'" "oo_slots oo' = oo_slots oo"
    and "native_coin_total oo' + native_coin_free oo = native_coin_free oo' + native_coin_total oo"
    and "native_pc_total oo' + native_pc_free oo = native_pc_free oo' + native_pc_total oo"
    and "native_coin_total oo' + coin_deposits_total (market_state (ob e)) = native_coin_total oo + coin_deposits_total ms'"
    and "native_pc_total oo' + pc_deposits_total (market_state (ob e)) = native_pc_total oo + pc_deposits_total ms'"
    and "oo_referrer_rebates_accrued oo' + referrer_rebates_accrued (market_state (ob e)) = oo_referrer_rebates_accrued oo + referrer_rebates_accrued ms'"
  shows "books_ok (AList.update w oo' orders) seq e'"
proof -
  note ok = assms(1) [unfolded books_ok_def accounts_ok_def]
  have "ledger_held w 0 0 orders e" using ok by (simp add: ledger_held_none)
  then have "ledger_held w 0 0 (AList.update w oo' orders) e'"
    by (rule ledger_held_update [OF _ assms(2) _ assms(3-6)]) (use ok assms(9-13) in simp_all)
  moreover have "slots_of (AList.update w oo' orders) = slots_of orders"
    using assms(2,8) by (auto simp: fun_eq_iff slots_of_def update_conv')
  moreover have "lots_ok ms'" using ok assms(5,6) by (simp add: engine_ok_def lots_ok_def)
  ultimately show ?thesis
    using assms(1,7) invariants_cong [OF assms(3,4)] accounts_ok_update by (simp add: books_ok_def ledger_held_none)
qed

text \<open>The free funds of all accounts are deposited: what pending fills still take away is locked in the accounts.\<close>

lemma pending_account:
  assumes "slots_ok (slots_of orders) seq e" "v \<in> set (pending e)"
  shows "view_owner v \<in> fst ` set orders"
proof -
  have "slots_of orders (view_ref v) \<noteq> None" using assms by (simp add: slots_ok_def refs_ok_def)
  then show ?thesis
    by (cases "view_ref v") (auto simp: slots_of_def view_owner_ref split: Option.bind_splits dest!: map_of_SomeD intro: rev_image_eqI)
qed

lemma total_by_owner:
  assumes "distinct ws" "\<forall>x \<in> set xs. own x \<in> set ws"
  shows "(\<Sum>w\<leftarrow>ws. total (owned own w f) xs) = total f xs"
  using assms(2)
proof (induction xs)
  case (Cons x xs)
  have "(\<Sum>w\<leftarrow>ws. owned own w f x) = f x"
    using assms(1) Cons.prems by (simp add: owned_def sum_list_distinct_conv_sum_set)
  then show ?case using Cons by (simp add: sum_list_addf)
qed simp

lemma free_deposited:
  assumes "books_ok orders seq e"
  shows "accounts_total native_coin_free orders \<le> coin_deposits_total (market_state (ob e))"
    "accounts_total native_pc_free orders \<le> pc_deposits_total (market_state (ob e))"
    "accounts_total oo_referrer_rebates_accrued orders \<le> referrer_rebates_accrued (market_state (ob e))"
proof -
  have ws: "distinct (map fst orders)" "\<forall>v \<in> set (pending e). view_owner v \<in> set (map fst orders)"
    using assms by (auto simp: books_ok_def accounts_ok_def intro: pending_account)
  have split: "accounts_total tot orders = accounts_total free orders + (\<Sum>w\<leftarrow>map fst orders. locked side e w)"
    if "\<forall>w oo. map_of orders w = Some oo \<longrightarrow> tot oo = free oo + locked side e w" for tot free :: "open_orders \<Rightarrow> nat" and side
  proof -
    have "accounts_total tot orders = (\<Sum>a\<leftarrow>orders. free (snd a) + locked side e (fst a))"
      using that ws(1) by (intro arg_cong [of _ _ sum_list] map_cong) auto
    then show ?thesis by (simp add: sum_list_addf o_def)
  qed
  have "total (view_locked side) (pending e) \<le> (\<Sum>w\<leftarrow>map fst orders. locked side e w)" for side
    using total_by_owner [OF ws, of "view_locked side"] by (simp add: locked_def sum_list_addf del: map_map)
  moreover have "total coin_out vs \<le> total (view_locked Ask) vs" "total pc_out vs \<le> total (view_locked Bid) vs" for vs
    by (rule sum_list_mono; simp add: view_defs split: event_view.splits)+
  ultimately have out: "total coin_out (pending e) \<le> (\<Sum>w\<leftarrow>map fst orders. locked Ask e w)"
    "total pc_out (pending e) \<le> (\<Sum>w\<leftarrow>map fst orders. locked Bid e w)"
    using order_trans by blast+
  have "accounts_total native_coin_total orders = accounts_total native_coin_free orders + (\<Sum>w\<leftarrow>map fst orders. locked Ask e w)"
    "accounts_total native_pc_total orders = accounts_total native_pc_free orders + (\<Sum>w\<leftarrow>map fst orders. locked Bid e w)"
    by (rule split; use assms in \<open>simp add: books_ok_def ledger_ok_def Let_def\<close>)+
  then show "accounts_total native_coin_free orders \<le> coin_deposits_total (market_state (ob e))"
    "accounts_total native_pc_free orders \<le> pc_deposits_total (market_state (ob e))"
    "accounts_total oo_referrer_rebates_accrued orders \<le> referrer_rebates_accrued (market_state (ob e))"
    using assms out by (simp_all add: books_ok_def ledger_ok_def Let_def)
qed

definition settled :: "open_orders \<Rightarrow> open_orders" where
  "settled oo = oo\<lparr>native_coin_free := 0, native_pc_free := 0, native_coin_total := native_coin_total oo - native_coin_free oo,
     native_pc_total := native_pc_total oo - native_pc_free oo, oo_referrer_rebates_accrued := 0\<rparr>"

lemma settled_simps:
  "oo_ok oo \<Longrightarrow> oo_ok (settled oo)" "oo_slots (settled oo) = oo_slots oo" "native_coin_free (settled oo) = 0"
  "native_pc_free (settled oo) = 0" "native_coin_total (settled oo) = native_coin_total oo - native_coin_free oo"
  "native_pc_total (settled oo) = native_pc_total oo - native_pc_free oo" "oo_referrer_rebates_accrued (settled oo) = 0"
  by (auto simp: settled_def oo_ok_def oo_slots_def fun_eq_iff)

context token_program
begin

lemma settled_rebates:
  assumes "(if r \<noteq> None \<and> 0 < n then dex_bind (send_from_vault spl n (the r) vault signer bal) (\<lambda>bal. dex_ok (fees, bal))
     else dex_bind (add64 fees n) (\<lambda>fees. dex_ok (fees, bal))) = Some (Inr (fees', bal'))"
  shows "bal vault + fees' \<le> bal' vault + fees + n" "v \<noteq> vault \<Longrightarrow> bal v \<le> bal' v"
proof -
  consider "fees' = fees" "send_from_vault spl n (the r) vault signer bal = Some (Inr bal')" | "fees' = fees + n" "bal' = bal"
    using assms unfolding dex_result arith64 by (auto split: if_splits simp: dex_result arith64)
  then have "bal vault + fees' \<le> bal' vault + fees + n \<and> (v \<noteq> vault \<longrightarrow> bal v \<le> bal' v)" for v
    by cases (use send_ok in fastforce)+
  then show "bal vault + fees' \<le> bal' vault + fees + n" "v \<noteq> vault \<Longrightarrow> bal v \<le> bal' v" by blast+
qed

lemma settle_ok:
  assumes "settle spl w coin_wallet pc_wallet signer referrer x = Some (Inr x')" "exchange_ok x"
  shows "exchange_ok x'"
proof -
  let ?ms = "market_state (x_ob x)" and ?bal = "x_amounts x"
  have ok: "books_ok (x_orders x) (next_seq_num (header (x_reqq x))) (engine_of x)" "vaults_ok ?ms ?bal"
    using assms(2) by (simp_all add: exchange_ok_books)
  obtain oo bal1 bal2 bal fees where oo: "map_of (x_orders x) w = Some oo"
    and le: "native_coin_free oo \<le> coin_deposits_total ?ms" "native_pc_free oo \<le> pc_deposits_total ?ms"
      "native_coin_free oo \<le> native_coin_total oo" "native_pc_free oo \<le> native_pc_total oo"
      "oo_referrer_rebates_accrued oo \<le> referrer_rebates_accrued ?ms"
    and s1: "send_from_vault spl (native_coin_free oo) coin_wallet (coin_vault ?ms) signer ?bal = Some (Inr bal1)"
    and s2: "send_from_vault spl (native_pc_free oo) pc_wallet (pc_vault ?ms) signer bal1 = Some (Inr bal2)"
    and s3: "(if referrer \<noteq> None \<and> 0 < oo_referrer_rebates_accrued oo then
          dex_bind (send_from_vault spl (oo_referrer_rebates_accrued oo) (the referrer) (pc_vault ?ms) signer bal2) (\<lambda>bal.
          dex_ok (pc_fees_accrued ?ms, bal))
        else dex_bind (add64 (pc_fees_accrued ?ms) (oo_referrer_rebates_accrued oo)) (\<lambda>fees. dex_ok (fees, bal2))) = Some (Inr (fees, bal))"
    and x': "x' = x\<lparr>x_ob := (x_ob x)\<lparr>market_state := ?ms\<lparr>coin_deposits_total := coin_deposits_total ?ms - native_coin_free oo,
          pc_deposits_total := pc_deposits_total ?ms - native_pc_free oo, pc_fees_accrued := fees,
          referrer_rebates_accrued := referrer_rebates_accrued ?ms - oo_referrer_rebates_accrued oo\<rparr>\<rparr>,
        x_orders := AList.update w (settled oo) (x_orders x), x_amounts := bal\<rparr>"
    using assms(1)
    unfolding settle_def process_settle_funds_def Let_def dex_result arith64 load_account_ok split_paired_Ex prod.case prod.inject
      settle_funds_args.simps settled_def by auto
  let ?seq = "next_seq_num (header (x_reqq x))"
  have "oo_ok oo" using ok(1) oo accounts_ok_get by (auto simp: books_ok_def)
  then have "books_ok (AList.update w (settled oo) (x_orders x)) ?seq (engine_of x')"
    by (intro books_ok_account [OF ok(1) oo, where ms' = "market_state (x_ob x')"]) (use le in \<open>simp_all add: x' engine_of_def settled_simps\<close>)
  then have books: "books_ok (x_orders x') (next_seq_num (header (x_reqq x'))) (engine_of x')" by (simp add: x')
  have "vaults_ok (market_state (x_ob x')) bal"
    using ok(2) le send_ok(2) [OF s1] send_ok(2) [OF s2] settled_rebates(1) [OF s3] send_ok(3) [OF s1, of "pc_vault ?ms"]
      send_ok(3) [OF s2, of "coin_vault ?ms"] settled_rebates(2) [OF s3, of "coin_vault ?ms"]
    by (auto simp: x' vaults_ok_def)
  then show ?thesis using books unfolding exchange_ok_books by (simp add: x')
qed

text \<open>A transfer out of a vault that holds the amount, to another account with room for it, is made.\<close>

lemma send_pays:
  assumes "can_transfer vault recipient signer" "n \<le> bal vault" "recipient \<noteq> vault" "bal recipient + n \<le> u64_max"
  shows "send_from_vault spl n recipient vault signer bal =
    dex_ok (bal(vault := bal vault - n, recipient := bal recipient + n))"
proof -
  obtain bal' where "spl_transfer spl vault recipient signer n bal = Inr bal'"
    using transfer_pays assms by blast
  with transfer_moves [OF this] assms(3) show ?thesis by (auto simp: send_from_vault_def)
qed

lemma settle_pays:
  assumes "exchange_ok x" "map_of (x_orders x) w = Some oo" "ms = market_state (x_ob x)" "bal = x_amounts x"
    and "distinct [coin_vault ms, pc_vault ms, coin_wallet, pc_wallet, referrer]"
    and "can_transfer (coin_vault ms) coin_wallet signer" "can_transfer (pc_vault ms) pc_wallet signer"
    and "can_transfer (pc_vault ms) referrer signer"
    and "bal coin_wallet + native_coin_free oo \<le> u64_max" "bal pc_wallet + native_pc_free oo \<le> u64_max"
    and "bal referrer + oo_referrer_rebates_accrued oo \<le> u64_max" "bal (pc_vault ms) \<le> u64_max"
  obtains x' where "settle spl w coin_wallet pc_wallet signer (Some referrer) x = Some (Inr x')"
    "x_amounts x' coin_wallet = bal coin_wallet + native_coin_free oo" "x_amounts x' pc_wallet = bal pc_wallet + native_pc_free oo"
    "x_amounts x' referrer = bal referrer + oo_referrer_rebates_accrued oo"
    "map_of (x_orders x') w = Some (settled oo)"
proof -
  have books: "books_ok (x_orders x) (next_seq_num (header (x_reqq x))) (engine_of x)" and "vaults_ok ms bal"
    using assms(1,3,4) by (simp_all add: exchange_ok_books)
  have mem: "f oo \<le> accounts_total f (x_orders x)" for f
    using map_of_SomeD [OF assms(2)] by (force intro: member_le_sum_list)
  have free: "native_coin_free oo \<le> coin_deposits_total ms" "native_pc_free oo \<le> pc_deposits_total ms"
    "oo_referrer_rebates_accrued oo \<le> referrer_rebates_accrued ms"
    using free_deposited [OF books] mem assms(3) by (auto intro: order_trans simp: engine_of_def)
  moreover have "native_coin_free oo \<le> native_coin_total oo" "native_pc_free oo \<le> native_pc_total oo"
    using books assms(2) accounts_ok_get by (auto simp: books_ok_def oo_ok_def)
  moreover have "native_coin_free oo \<le> bal (coin_vault ms)" "native_pc_free oo + oo_referrer_rebates_accrued oo \<le> bal (pc_vault ms)"
    "pc_fees_accrued ms + oo_referrer_rebates_accrued oo \<le> u64_max"
    using free assms(12) \<open>vaults_ok ms bal\<close> by (auto simp: vaults_ok_def)
  ultimately have "\<exists>x'. settle spl w coin_wallet pc_wallet signer (Some referrer) x = Some (Inr x') \<and>
      x_amounts x' coin_wallet = bal coin_wallet + native_coin_free oo \<and> x_amounts x' pc_wallet = bal pc_wallet + native_pc_free oo \<and>
      x_amounts x' referrer = bal referrer + oo_referrer_rebates_accrued oo \<and> map_of (x_orders x') w = Some (settled oo)"
    using assms(2,5-11)
    by (auto simp: settle_def process_settle_funds_def load_account_def send_pays dex_ok_def dex_bind_def add64_def sub64_def
        assms(3,4) Let_def settled_def update_conv')
  then show thesis using that by blast
qed

end

end
