(* ===== verification/Dex_Cancel.thy ===== *)
theory Dex_Cancel
  imports Dex_Settlement
begin

text \<open>
  Cancellations: an order leaves the book, its funds become free in the account of its owner, and its last event
  frees the slot. One order is cancelled by its identifier or by the client's number, and all orders of an account are
  pruned.
\<close>

section \<open>An order leaves the book\<close>

definition withdrawn :: "side \<Rightarrow> leaf_node \<Rightarrow> event_view \<Rightarrow> engine \<Rightarrow> engine \<Rightarrow> bool" where
  "withdrawn side x v e e' \<longleftrightarrow>
     x \<in> set (side_list e side) \<and> slab_ok (orders_mut (ob e') side) \<and>
     side_list e' side = ord_delete (leaf_key x) (side_list e side) \<and>
     (\<forall>s. s \<noteq> side \<longrightarrow> orders_mut (ob e') s = orders_mut (ob e) s) \<and>
     market_state (ob e') = market_state (ob e) \<and> pending e' = pending e @ [v] \<and> queue_ok (evq e') \<and>
     view_ref v = leaf_ref x \<and> view_order v = leaf_entry side x \<and> view_last v \<and> (\<forall>s. view_locked s v = 0)"

lemma withdrawn_in:
  assumes "withdrawn side x v e e'"
  shows "y \<in> set (side_list e' s) \<longleftrightarrow> y \<in> set (side_list e s) \<and> (s = side \<longrightarrow> leaf_key y \<noteq> leaf_key x)"
  using assms by (cases "s = side") (auto simp: withdrawn_def ord_delete_set)

lemma engine_ok_withdrawn:
  assumes "engine_ok e" "withdrawn side x v e e'"
  shows "engine_ok e'"
proof -
  have "slab_ok (orders_mut (ob e') s)" for s
    using assms by (cases "s = side") (simp_all add: withdrawn_def engine_ok_alt)
  moreover have "y \<in> set (side_list e s)" if "y \<in> set (side_list e' s)" for y s
    using withdrawn_in [OF assms(2)] that by blast
  moreover have "queue_ok (evq e')" "market_state (ob e') = market_state (ob e)" using assms(2) by (simp_all add: withdrawn_def)
  ultimately show ?thesis using assms(1) unfolding engine_ok_alt by metis
qed

lemma refs_ok_withdrawn:
  assumes "refs_ok T e" "withdrawn side x v e e'" "slab_ok (orders_mut (ob e) side)"
  shows "refs_ok T e'" "placed e' r \<longleftrightarrow> placed e r"
proof -
  have x: "x \<in> set (side_list e side)" and pend: "pending e' = pending e @ [v]"
    and v: "view_ref v = leaf_ref x" "view_order v = leaf_entry side x" "view_last v"
    using assms(2) by (simp_all add: withdrawn_def)
  note mem = withdrawn_in [OF assms(2)]
  have gone: "leaf_ref y \<noteq> leaf_ref x" if "y \<in> set (side_list e s)" "s = side \<longrightarrow> leaf_key y \<noteq> leaf_key x" for y s
    using refs_leaf_inj [OF assms(1) that(1) x] that(2) by auto
  have last: "view_ref u \<noteq> leaf_ref x" if "u \<in> set (pending e)" "view_last u" for u
    using assms(1) x that by (auto simp: refs_ok_def)
  show "refs_ok T e'"
    using assms(1) x v gone last unfolding refs_ok_def pend sorted_wrt_append set_append Ball_def mem by (auto dest: sym)
  have same: "y = x" if "y \<in> set (side_list e side)" "leaf_key y = leaf_key x" for y
    using sorted_by_key_inj [OF slab_orders_sorted [OF assms(3)] that(1) x that(2)] .
  have v_in: "v \<in> set (pending e')" "set (pending e) \<subseteq> set (pending e')" by (auto simp: pend)
  show "placed e' r \<longleftrightarrow> placed e r"
  proof
    assume "placed e' r"
    then show "placed e r" using x v mem pend unfolding placed_def by (metis in_set_conv_decomp set_append Un_iff set_ConsD empty_iff empty_set)
  next
    assume "placed e r"
    then consider s y where "y \<in> set (side_list e s)" "leaf_ref y = r" | u where "u \<in> set (pending e)" "view_last u" "view_ref u = r"
      unfolding placed_def by blast
    then show "placed e' r"
    proof cases
      case (1 s y)
      then show ?thesis using same mem v v_in unfolding placed_def by metis
    next
      case (2 u)
      then show ?thesis using v_in unfolding placed_def by blast
    qed
  qed
qed

lemma locked_withdrawn:
  assumes "withdrawn side x v e e'" "slab_ok (orders_mut (ob e) side)"
  shows "locked s e w = locked s e' w + (if s = side \<and> leaf_owner x = w then side_worth (market_state (ob e)) side x else 0)"
proof -
  have x: "x \<in> set (side_list e side)" using assms(1) by (simp add: withdrawn_def)
  show ?thesis
    using assms(1) total_delete [OF slab_orders_sorted [OF assms(2)] x, of "owned leaf_owner w (side_worth (market_state (ob e)) side)"]
    by (cases "s = side") (auto simp: withdrawn_def locked_def owned_def)
qed

lemma view_moves_nothing:
  assumes "view_last v"
  shows "coin_in v = 0" "coin_out v = 0" "pc_in v = 0" "pc_out v = 0" "taker_rebate v = 0"
  using assms by (simp_all add: view_last_def view_defs split: event_view.splits)

section \<open>One cancellation\<close>

text \<open>The books after an order of the account \<open>w\<close> has left: its funds are free again.\<close>

lemma books_ok_withdrawn:
  assumes "books_ok orders seq e" "withdrawn side x v e e'" "leaf_owner x = w" "map_of orders w = Some oo"
    and "(case side of Bid \<Rightarrow> unlock_pc oo | Ask \<Rightarrow> unlock_coin oo) (side_worth (market_state (ob e)) side x) = Some oo'"
  shows "books_ok (AList.update w oo' orders) seq e'"
proof -
  let ?orders = "AList.update w oo' orders" and ?n = "side_worth (market_state (ob e)) side x"
  note ok = assms(1) [unfolded books_ok_def]
  have "distinct (map fst orders)" using ok by (simp add: accounts_ok_def)
  note tot = accounts_total_update [OF this assms(4), of _ oo']
  have slab: "slab_ok (orders_mut (ob e) side)" using ok by (simp add: engine_ok_alt)
  have pend: "pending e' = pending e @ [v]" "view_last v" and ms: "market_state (ob e') = market_state (ob e)"
    using assms(2) by (simp_all add: withdrawn_def)
  have oo': "oo_slots oo' = oo_slots oo" "oo_ok oo \<Longrightarrow> oo_ok oo'" "native_coin_total oo' = native_coin_total oo"
    "native_pc_total oo' = native_pc_total oo" "oo_referrer_rebates_accrued oo' = oo_referrer_rebates_accrued oo"
    "native_coin_free oo' = native_coin_free oo + (if side = Ask then ?n else 0)"
    "native_pc_free oo' = native_pc_free oo + (if side = Bid then ?n else 0)"
    using assms(5) by (cases side; auto simp: funds_ok oo_slots_def oo_ok_def fun_eq_iff)+
  have "slots_of ?orders = slots_of orders"
    using assms(4) oo'(1) by (auto simp: fun_eq_iff slots_of_def update_conv')
  moreover have "refs_ok (slots_of orders) e" using ok by (simp add: slots_ok_def)
  note refs_ok_withdrawn [OF this assms(2) slab]
  ultimately have "slots_ok (slots_of ?orders) seq e'" using ok by (simp add: slots_ok_def del: split_paired_All)
  moreover have "ledger_ok ?orders e'"
  proof -
    have "native_coin_total o' = native_coin_free o' + locked Ask e' u \<and> native_pc_total o' = native_pc_free o' + locked Bid e' u"
      if "map_of ?orders u = Some o'" for u o'
    proof -
      define old where "old = (if u = w then oo else o')"
      have "map_of orders u = Some old" using that assms(4) by (auto simp: old_def update_conv' split: if_splits)
      then have "native_coin_total old = native_coin_free old + locked Ask e u \<and> native_pc_total old = native_pc_free old + locked Bid e u"
        using ok by (simp add: ledger_ok_def Let_def)
      moreover have "u = w \<Longrightarrow> o' = oo'" using that by (simp add: update_conv')
      ultimately show ?thesis
        using oo'(3-) assms(3) locked_withdrawn [OF assms(2) slab, of Ask u] locked_withdrawn [OF assms(2) slab, of Bid u]
        by (cases "u = w"; cases side) (simp_all add: old_def)
    qed
    moreover have "accounts_total f ?orders = accounts_total f orders" if "f oo' = f oo" for f
      using tot [of f] that by simp
    ultimately show ?thesis using ok oo'(3-5) by (simp add: ledger_ok_def Let_def ms pend view_moves_nothing)
  qed
  moreover have "accounts_ok ?orders"
    using ok oo'(2) [OF accounts_ok_get [OF _ assms(4)]] by (intro accounts_ok_update) simp_all
  ultimately show ?thesis using engine_ok_withdrawn [OF _ assms(2)] ok by (simp add: books_ok_def)
qed

text \<open>The cancellation acts on the events only; the order has been taken off the book \<open>b\<close> before.\<close>

lemma leaf_native_qty_ok: "leaf_native_qty ms side x = Some (Inr n) \<Longrightarrow> n = side_worth ms side x"
  by (auto simp: leaf_native_qty_def side_worth_def side_unit_def dex_result arith64 leaf_price_ok mult.assoc split: side.splits)

lemma cancel_leaf_node_ok:
  assumes "cancel_leaf_node e x side oo w k = Some (Inr (oo', e'))" "k = leaf_key x" "queue_ok (evq e)"
  obtains v where "leaf_owner x = w" "ob e' = ob e" "proceeds e' = proceeds e" "queue_ok (evq e')" "pending e' = pending e @ [v]"
    "view_ref v = leaf_ref x" "view_order v = leaf_entry side x" "view_last v" "\<forall>s. view_locked s v = 0"
    "(case side of Bid \<Rightarrow> unlock_pc oo | Ask \<Rightarrow> unlock_coin oo) (side_worth (market_state (ob e)) side x) = Some oo'"
proof -
  obtain n v where owner: "leaf_owner x = w" and n: "leaf_native_qty (market_state (ob e)) side x = Some (Inr n)"
    and oo': "(case side of Bid \<Rightarrow> unlock_pc oo n | Ask \<Rightarrow> unlock_coin oo n) = Some oo'"
    and v: "v = Out \<lparr>o_side = side, o_release_funds = False, o_native_qty_unlocked = n,
          o_native_qty_still_locked = 0, o_order_id = k, o_owner = w, o_owner_slot = leaf_owner_slot x,
          o_client_order_id = nonzero (leaf_client_order_id x)\<rparr>"
    and e: "emit e v = Some (Inr e')"
    using assms(1) unfolding cancel_leaf_node_def Let_def dex_result dex_if_fail by auto
  have "view_ok v" by (simp add: v view_ok_def)
  note e = emit_ok [OF e assms(3) this]
  have "view_ref v = leaf_ref x" "view_order v = leaf_entry side x" "view_last v" "\<forall>s. view_locked s v = 0"
    using owner assms(2) by (simp_all add: v view_ref_def view_order_def view_last_def view_locked_def leaf_ref_def leaf_entry_def)
  with that [OF owner] e oo' leaf_native_qty_ok [OF n] show thesis by (cases side) auto
qed

text \<open>An order found in the book \<open>b\<close> of the engine, for an account that holds its slot.\<close>

lemma cancel_found:
  assumes "cancel_leaf_node e x side oo w k = Some (Inr (oo', e'))" "k = leaf_key x" "books_ok orders seq E"
    and "evq E = evq e" "market_state (ob E) = market_state (ob e)" "map_of orders w = Some oo"
    and "remove_by_key (orders_mut (ob E) side) k = Some (Some x, s)"
  shows "books_ok (AList.update w oo' orders) seq ((set_orders E side s)\<lparr>evq := evq e'\<rparr>)" "ob e' = ob e"
proof -
  have slab: "slab_ok (orders_mut (ob E) side)" and "queue_ok (evq e)"
    using assms(3,4) by (auto simp: books_ok_def engine_ok_alt)
  obtain v where v: "leaf_owner x = w" "ob e' = ob e" "proceeds e' = proceeds e" "queue_ok (evq e')"
      "pending e' = pending e @ [v]" "view_ref v = leaf_ref x" "view_order v = leaf_entry side x" "view_last v"
      "\<forall>s. view_locked s v = 0"
      "(case side of Bid \<Rightarrow> unlock_pc oo | Ask \<Rightarrow> unlock_coin oo) (side_worth (market_state (ob e)) side x) = Some oo'"
    by (rule cancel_leaf_node_ok [OF assms(1,2) \<open>queue_ok (evq e)\<close>])
  have s: "Some x = ord_find k (side_list E side)" "slab_ok s" "slab_orders s = ord_delete k (side_list E side)"
    using slab.rem [OF slab, of k] assms(7) by auto
  have x: "x \<in> set (side_list E side)"
    using s(1) [symmetric] ord_find_Some [OF slab_orders_sorted [OF slab]] by simp
  have "withdrawn side x v E ((set_orders E side s)\<lparr>evq := evq e'\<rparr>)"
    using x s(2,3) v assms(2,4) by (cases side) (auto simp: withdrawn_def orders_mut_def split: side.splits)
  from books_ok_withdrawn [OF assms(3) this v(1) assms(6)] v(10) assms(5)
  show "books_ok (AList.update w oo' orders) seq ((set_orders E side s)\<lparr>evq := evq e'\<rparr>)" "ob e' = ob e"
    using v(2) by simp_all
qed

text \<open>The whole of \<open>cancel_order_v2\<close>, and the exchange afterwards.\<close>

definition cancel :: "side \<Rightarrow> u128 \<Rightarrow> pubkey \<Rightarrow> exchange \<Rightarrow> exchange dex" where
  "cancel side order_id w x =
     dex_bind (load_account w (x_orders x)) (\<lambda>oo.
     dex_bind (process_cancel_order_v2 side order_id w oo (x_ob x) (x_evq x)) (\<lambda>(oo, b, q).
     dex_ok (x\<lparr>x_ob := b, x_evq := q, x_orders := AList.update w oo (x_orders x)\<rparr>)))"

definition cancel_by_client_id :: "nat \<Rightarrow> pubkey \<Rightarrow> exchange \<Rightarrow> exchange dex" where
  "cancel_by_client_id client_id w x =
     dex_bind (load_account w (x_orders x)) (\<lambda>oo.
     dex_bind (process_cancel_order_by_client_id_v2 client_id w oo (x_ob x) (x_evq x)) (\<lambda>(oo, b, q).
     dex_ok (x\<lparr>x_ob := b, x_evq := q, x_orders := AList.update w oo (x_orders x)\<rparr>)))"

definition prune :: "nat \<Rightarrow> pubkey \<Rightarrow> exchange \<Rightarrow> exchange dex" where
  "prune limit w x =
     dex_bind (load_account w (x_orders x)) (\<lambda>oo.
     dex_bind (process_prune limit w oo (x_ob x) (x_evq x)) (\<lambda>(oo, b, q).
     dex_ok (x\<lparr>x_ob := b, x_evq := q, x_orders := AList.update w oo (x_orders x)\<rparr>)))"

abbreviation engine_for :: "order_book_state \<Rightarrow> event_queue \<Rightarrow> engine" where
  "engine_for b q \<equiv> \<lparr>ob = b, evq = q, proceeds = proceeds_zero\<rparr>"

lemma process_cancel_ok:
  assumes "process_cancel_order_v2 side k w oo b q = Some (Inr (oo', b', q'))" "books_ok orders seq (engine_for b q)"
    and "map_of orders w = Some oo"
  shows "books_ok (AList.update w oo' orders) seq (engine_for b' q')" "market_state b' = market_state b"
proof -
  obtain x s e where r: "remove_by_key (orders_mut b side) k = Some (Some x, s)"
    and c: "cancel_leaf_node (set_orders (engine_for b q) side s) x side oo w k = Some (Inr (oo', e))" and e: "b' = ob e" "q' = evq e"
    using assms(1) unfolding process_cancel_order_v2_def cancel_order_v2_def dex_result
    by (auto simp: dex_result split: option.splits)
  have slab: "slab_ok (orders_mut b side)" using assms(2) by (simp add: books_ok_def engine_ok_alt)
  then have k: "k = leaf_key x"
    using slab.rem [OF slab, of k] r ord_find_Some [OF slab_orders_sorted [OF slab], of k x] by auto
  have r': "remove_by_key (orders_mut (ob (engine_for b q)) side) k = Some (Some x, s)" using r by simp
  have "evq (engine_for b q) = evq (set_orders (engine_for b q) side s)"
    "market_state (ob (engine_for b q)) = market_state (ob (set_orders (engine_for b q) side s))" by simp_all
  note found = cancel_found [OF c k assms(2) this assms(3) r']
  have "(set_orders (engine_for b q) side s)\<lparr>evq := evq e\<rparr> = engine_for b' q'"
    unfolding e found(2) by (cases side) (simp_all add: set_orders_def)
  with found show "books_ok (AList.update w oo' orders) seq (engine_for b' q')" "market_state b' = market_state b"
    by (simp_all add: e)
qed

section \<open>Pruning\<close>

lemma books_ok_lists:
  assumes "books_ok orders seq e" "\<And>s. side_list e' s = side_list e s" "\<And>s. slab_ok (orders_mut (ob e') s)" "evq e' = evq e"
    "market_state (ob e') = market_state (ob e)"
  shows "books_ok orders seq e'"
proof -
  have "engine_ok e'" using assms(1,3) unfolding books_ok_def engine_ok_alt assms(2,4,5) by blast
  moreover have "slots_ok (slots_of orders) seq e'"
    using assms(1) unfolding books_ok_def slots_ok_def refs_ok_def placed_def assms(2,4) by blast
  moreover have "ledger_ok orders e'"
    using assms(1) unfolding books_ok_def ledger_ok_def locked_def assms(2,4,5) by blast
  ultimately show ?thesis using assms(1) by (simp add: books_ok_def)
qed

lemma slab_ok_side: "books_ok orders seq e \<Longrightarrow> slab_ok (orders_mut (ob e) side)"
  by (simp add: books_ok_def engine_ok_alt)

lemma side_order_slot:
  assumes "books_ok orders seq e" "x \<in> set (side_list e side)" "map_of orders (leaf_owner x) = Some oo"
    and "at_slot (oo_orders oo) (leaf_owner_slot x) = Some k"
  shows "k = leaf_key x"
proof -
  have "slots_of orders (leaf_ref x) = Some (leaf_entry side x)"
    using assms(1,2) by (auto simp: books_ok_def slots_ok_def refs_ok_def)
  then show ?thesis
    using assms(3,4) by (auto simp: slots_of_def leaf_ref_def leaf_entry_def oo_slots_def at_slot_def split: if_splits)
qed

lemma set_orders_twice:
  "set_orders (set_orders E side s) side s' = set_orders E side s'"
  "(set_orders ((set_orders E side s)\<lparr>evq := q\<rparr>) side s')\<lparr>evq := q'\<rparr> = (set_orders E side s')\<lparr>evq := q'\<rparr>"
  by (cases side; simp add: set_orders_def)+

lemma cancel_leaves_ok:
  assumes "books_ok orders seq E" "evq E = evq e" "market_state (ob E) = market_state (ob e)" "map_of orders w = Some oo"
    and "remove_keys (orders_mut (ob E) side) ks = Some (xs, s')" "cancel_leaves side w xs oo e = Some (Inr (oo', e'))"
  shows "books_ok (AList.update w oo' orders) seq ((set_orders E side s')\<lparr>evq := evq e'\<rparr>) \<and> ob e' = ob e"
  using assms
proof (induction ks arbitrary: orders E e oo xs)
  case Nil
  then have "xs = []" "s' = orders_mut (ob E) side" "oo' = oo" "e' = e" by (auto simp: dex_result)
  moreover have "(set_orders E side (orders_mut (ob E) side))\<lparr>evq := evq e\<rparr> = E"
    using Nil(2) by (cases side) (simp_all add: set_orders_def)
  ultimately show ?case using Nil by (simp add: update_triv)
next
  case (Cons k ks)
  note slab = slab_ok_side [OF Cons.prems(1), of side]
  obtain s1 where s1: "remove_by_key (orders_mut (ob E) side) k = Some (ord_find k (side_list E side), s1)" "slab_ok s1"
      "slab_orders s1 = ord_delete k (side_list E side)"
    using slab.rem [OF slab] by blast
  show ?case
  proof (cases "ord_find k (side_list E side)")
    case None
    have "orders_mut (ob (set_orders E side s1)) s = (if s = side then s1 else orders_mut (ob E) s)" for s
      by (cases s; cases side) simp_all
    then have "books_ok orders seq (set_orders E side s1)"
      using s1(2,3) None slab_ok_side [OF Cons.prems(1)] by (intro books_ok_lists [OF Cons.prems(1)]) (simp_all add: delete_absent)
    moreover have "remove_keys (orders_mut (ob (set_orders E side s1)) side) ks = Some (xs, s')"
      using Cons.prems(5) s1(1) None by (auto simp: set_orders_only)
    ultimately show ?thesis
      using Cons.IH [of orders "set_orders E side s1" e oo xs] Cons.prems(2-4,6)
      by (simp add: set_orders_twice)
  next
    case (Some x)
    then have x: "x \<in> set (side_list E side)" "leaf_key x = k"
      using ord_find_Some [OF slab_orders_sorted [OF slab]] by auto
    obtain ys where xs: "xs = x # ys" "remove_keys s1 ks = Some (ys, s')"
      using Cons.prems(5) s1(1) Some by auto
    with Cons.prems(6) obtain k' oo1 e1 where k': "at_slot (oo_orders oo) (leaf_owner_slot x) = Some k'"
      and c: "cancel_leaf_node e x side oo w k' = Some (Inr (oo1, e1))" "cancel_leaves side w ys oo1 e1 = Some (Inr (oo', e'))"
      by (auto simp: dex_result)
    have "leaf_owner x = w" using c(1) by (auto simp: cancel_leaf_node_def dex_if_fail)
    then have k: "k' = leaf_key x" using side_order_slot [OF Cons.prems(1) x(1) _ k'] Cons.prems(4) by simp
    let ?E1 = "(set_orders E side s1)\<lparr>evq := evq e1\<rparr>"
    note found = cancel_found [OF c(1) k Cons.prems(1-4), of s1]
    have "remove_keys (orders_mut (ob ?E1) side) ks = Some (ys, s')" using xs(2) by (simp add: set_orders_only)
    moreover have "books_ok (AList.update w oo1 orders) seq ?E1" "ob e1 = ob e" using found s1(1) Some x(2) k by simp_all
    ultimately show ?thesis
      using Cons.IH [of "AList.update w oo1 orders" ?E1 e1 oo1 ys] Cons.prems(3) c(2)
      by (simp add: update_conv' update_last set_orders_twice)
  qed
qed

lemma process_prune_ok:
  assumes "process_prune limit w oo b q = Some (Inr (oo', b', q'))" "books_ok orders seq (engine_for b q)"
    and "map_of orders w = Some oo"
  shows "books_ok (AList.update w oo' orders) seq (engine_for b' q')" "market_state b' = market_state b"
proof -
  obtain bks aks bxs axs bs as oo1 e1 e2 where r: "remove_keys (bids b) bks = Some (bxs, bs)" "remove_keys (asks b) aks = Some (axs, as)"
    and c: "cancel_leaves Bid w bxs oo (engine_for (b\<lparr>bids := bs, asks := as\<rparr>) q) = Some (Inr (oo1, e1))"
      "cancel_leaves Ask w axs oo1 e1 = Some (Inr (oo', e2))" and e: "b' = ob e2" "q' = evq e2"
    using assms(1) unfolding process_prune_def remove_all_def dex_result Let_def
    by (auto simp: dex_result split: prod.splits)
  let ?E = "engine_for b q" and ?E1 = "(set_orders (engine_for b q) Bid bs)\<lparr>evq := evq e1\<rparr>"
  have 1: "books_ok (AList.update w oo1 orders) seq ?E1" "ob e1 = b\<lparr>bids := bs, asks := as\<rparr>"
    using cancel_leaves_ok [OF assms(2) _ _ assms(3) _ c(1)] r(1) by simp_all
  have 2: "books_ok (AList.update w oo' (AList.update w oo1 orders)) seq ((set_orders ?E1 Ask as)\<lparr>evq := evq e2\<rparr>)" "ob e2 = ob e1"
    using cancel_leaves_ok [OF 1(1) _ _ _ _ c(2), of aks as] r(2) 1(2) by (simp_all add: update_conv')
  then have "(set_orders ?E1 Ask as)\<lparr>evq := evq e2\<rparr> = engine_for b' q'" using 1(2) by (simp add: e set_orders_def)
  then show "books_ok (AList.update w oo' orders) seq (engine_for b' q')" using 2(1) by (simp only: update_last)
  show "market_state b' = market_state b" using 1(2) 2(2) by (simp add: e)
qed

text \<open>The three operations keep the invariant of the exchange.\<close>

lemma exchange_ok_cancelled:
  assumes "exchange_ok x" "map_of (x_orders x) w = Some oo"
    and "\<And>orders seq. books_ok orders seq (engine_for (x_ob x) (x_evq x)) \<Longrightarrow> map_of orders w = Some oo \<Longrightarrow>
      books_ok (AList.update w oo' orders) seq (engine_for b q) \<and> market_state b = market_state (x_ob x)"
  shows "exchange_ok (x\<lparr>x_ob := b, x_evq := q, x_orders := AList.update w oo' (x_orders x)\<rparr>)"
proof -
  have "books_ok (x_orders x) (next_seq_num (header (x_reqq x))) (engine_for (x_ob x) (x_evq x))"
    using assms(1) by (simp add: exchange_ok_books engine_of_def)
  from assms(3) [OF this assms(2)] show ?thesis using assms(1) by (simp add: exchange_ok_books engine_of_def)
qed

lemma cancel_ok:
  assumes "cancel side k w x = Some (Inr x')" "exchange_ok x"
  shows "exchange_ok x'"
proof -
  obtain oo oo' b q where oo: "map_of (x_orders x) w = Some oo"
    and c: "process_cancel_order_v2 side k w oo (x_ob x) (x_evq x) = Some (Inr (oo', b, q))"
    and x': "x' = x\<lparr>x_ob := b, x_evq := q, x_orders := AList.update w oo' (x_orders x)\<rparr>"
    using assms(1) unfolding cancel_def dex_result load_account_ok by (auto simp: dex_result)
  show ?thesis unfolding x' by (rule exchange_ok_cancelled [OF assms(2) oo]) (use process_cancel_ok [OF c] in blast)
qed

lemma cancel_by_client_id_ok:
  assumes "cancel_by_client_id c w x = Some (Inr x')" "exchange_ok x"
  shows "exchange_ok x'"
proof -
  obtain oo oo' b q side k where oo: "map_of (x_orders x) w = Some oo"
    and c: "process_cancel_order_v2 side k w oo (x_ob x) (x_evq x) = Some (Inr (oo', b, q))"
    and x': "x' = x\<lparr>x_ob := b, x_evq := q, x_orders := AList.update w oo' (x_orders x)\<rparr>"
    using assms(1) unfolding cancel_by_client_id_def process_cancel_order_by_client_id_v2_def dex_result load_account_ok
    by (auto simp: dex_result split: option.splits)
  show ?thesis unfolding x' by (rule exchange_ok_cancelled [OF assms(2) oo]) (use process_cancel_ok [OF c] in blast)
qed

lemma prune_ok:
  assumes "prune limit w x = Some (Inr x')" "exchange_ok x"
  shows "exchange_ok x'"
proof -
  obtain oo oo' b q where oo: "map_of (x_orders x) w = Some oo"
    and c: "process_prune limit w oo (x_ob x) (x_evq x) = Some (Inr (oo', b, q))"
    and x': "x' = x\<lparr>x_ob := b, x_evq := q, x_orders := AList.update w oo' (x_orders x)\<rparr>"
    using assms(1) unfolding prune_def dex_result load_account_ok by (auto simp: dex_result)
  show ?thesis unfolding x' by (rule exchange_ok_cancelled [OF assms(2) oo]) (use process_prune_ok [OF c] in blast)
qed

end
