(* ===== verification/Dex_Market.thy ===== *)
theory Dex_Market
  imports Dex_Process
begin

text \<open>
  Markets of the Serum exchange (\<open>serum_dex/state.rs\<close>): the two versions of a market, the checks of their flags and the
  instruction that opens a market on zeroed accounts.
\<close>

section \<open>Versions and flags\<close>

record market_state_v2 =
  inner :: market_state
  v2_open_orders_authority :: pubkey
  v2_prune_authority :: pubkey
  v2_consume_events_authority :: pubkey

datatype market = V1 market_state | V2 market_state_v2

definition market_deref :: "market \<Rightarrow> market_state" where
  "market_deref m = (case m of V1 ms \<Rightarrow> ms | V2 v2 \<Rightarrow> inner v2)"

definition market_deref_mut :: "market \<Rightarrow> market_state \<Rightarrow> market" where
  "market_deref_mut m ms = (case m of V1 _ \<Rightarrow> V1 ms | V2 v2 \<Rightarrow> V2 (v2\<lparr>inner := ms\<rparr>))"

definition ms_check_flags :: "market_state \<Rightarrow> unit dex" where
  "ms_check_flags ms =
     (case account_flags_from_bits (ms_account_flags ms) of
        None \<Rightarrow> dex_fail InvalidMarketFlags
      | Some flags \<Rightarrow> if flags \<noteq> (AccountFlag_Initialized OR AccountFlag_Market) then dex_fail InvalidMarketFlags else dex_ok ())"

definition ms2_check_flags :: "market_state_v2 \<Rightarrow> unit dex" where
  "ms2_check_flags v2 =
     (case account_flags_from_bits (ms_account_flags (inner v2)) of
        None \<Rightarrow> dex_fail InvalidMarketFlags
      | Some flags \<Rightarrow>
          if flags \<noteq> (AccountFlag_Initialized OR AccountFlag_Market OR AccountFlag_Permissioned) then dex_fail InvalidMarketFlags
          else dex_ok ())"

definition check_enabled :: "market_state \<Rightarrow> unit dex" where
  "check_enabled ms =
     dex_bind (unwrap (account_flags_from_bits (ms_account_flags ms))) (\<lambda>flags.
     if flags AND AccountFlag_Disabled \<noteq> 0 then dex_fail MarketIsDisabled else dex_ok ())"

definition open_orders_authority :: "market \<Rightarrow> pubkey option" where
  "open_orders_authority m = (case m of V1 _ \<Rightarrow> None | V2 v2 \<Rightarrow> Some (v2_open_orders_authority v2))"

definition prune_authority :: "market \<Rightarrow> pubkey option" where
  "prune_authority m = (case m of V1 _ \<Rightarrow> None | V2 v2 \<Rightarrow> Some (v2_prune_authority v2))"

definition consume_events_authority :: "market \<Rightarrow> pubkey option dex" where
  "consume_events_authority m =
     (case m of
        V1 _ \<Rightarrow> dex_ok None
      | V2 v2 \<Rightarrow>
          dex_bind (unwrap (account_flags_from_bits (ms_account_flags (inner v2)))) (\<lambda>flags.
          dex_ok (if flags AND AccountFlag_CrankAuthorityRequired \<noteq> 0 then Some (v2_consume_events_authority v2) else None)))"

section \<open>Opening a market\<close>

text \<open>The accounts of a new market are zeroed; only their lengths in bytes matter. \<open>init_account_padding\<close> leaves the
  words between the paddings.\<close>

definition padded_words :: "nat \<Rightarrow> nat dex" where
  "padded_words data_len =
     dex_bind (check_assert StateFile 325 (12 \<le> data_len)) (\<lambda>_.
     if (data_len - 12) mod 8 = 0 then dex_ok ((data_len - 12) div 8) else Some (Inl (assertion_error StateFile 329)))"

definition zero_request :: request where
  "zero_request = \<lparr>request_flags = 0, req_owner_slot = 0, req_fee_tier = 0, req_self_trade_behavior = 0, max_coin_qty_or_cancel_id = 0,
     req_native_pc_qty_locked = 0, req_order_id = 0, req_owner = [0, 0, 0, 0], req_client_order_id = 0\<rparr>"

definition zero_event :: event where
  "zero_event = \<lparr>event_flags = 0, ev_owner_slot = 0, ev_fee_tier = 0, native_qty_released = 0, ev_native_qty_paid = 0,
     ev_native_fee_or_rebate = 0, ev_order_id = 0, ev_owner = [0, 0, 0, 0], ev_client_order_id = 0\<rparr>"

text \<open>\<open>Slab::new\<close> on zeroes: a header of 32 bytes, then nodes of 72 bytes, none of which is in use.\<close>

definition zero_slab :: "nat \<Rightarrow> slab option" where
  "zero_slab len =
     (if len < 32 then None
      else Some \<lparr>bump_index = 0, free_list_len = 0, free_list_head = 0, root_node = 0, leaf_count = 0,
        nodes = replicate ((len - 32) div 72) OtherNode\<rparr>)"

definition assert_minimum_capacity :: "slab \<Rightarrow> nat \<Rightarrow> unit dex" where
  "assert_minimum_capacity s n = (if length (nodes s) \<le> n * 2 then dex_fail SlabTooSmall else dex_ok ())"

record initialize_market_instruction =
  im_coin_lot_size :: nat
  im_pc_lot_size :: nat
  im_fee_rate_bps :: nat
  im_vault_signer_nonce :: nat
  im_pc_dust_threshold :: nat

record initialize_market_args =
  ima_instruction :: initialize_market_instruction
  ima_market :: "pubkey \<times> nat"
  ima_req_q :: "pubkey \<times> nat"
  ima_event_q :: "pubkey \<times> nat"
  ima_bids :: "pubkey \<times> nat"
  ima_asks :: "pubkey \<times> nat"
  ima_coin_vault :: pubkey
  ima_coin_mint :: pubkey
  ima_pc_vault :: pubkey
  ima_pc_mint :: pubkey
  ima_market_authority :: "pubkey option"
  ima_prune_authority :: "pubkey option"
  ima_consume_events_authority :: "pubkey option"

record new_market =
  nm_market :: market
  nm_req_q :: request_queue
  nm_event_q :: event_queue
  nm_bids :: "u64 \<times> slab"
  nm_asks :: "u64 \<times> slab"

definition init_request_queue :: "nat \<Rightarrow> request_queue dex" where
  "init_request_queue data_len =
     dex_bind (padded_words data_len) (\<lambda>view_words.
     if view_words < 4 then None
     else let n = (view_words - 4) * 8 div 80 in
       if n = 0 then dex_fail RequestQueueEmpty
       else dex_ok \<lparr>header = \<lparr>rq_account_flags = AccountFlag_Initialized OR AccountFlag_RequestQueue, rq_head = 0, rq_count = 0,
         next_seq_num = 0\<rparr>, buf = replicate n zero_request\<rparr>)"

definition init_event_queue :: "nat \<Rightarrow> event_queue dex" where
  "init_event_queue data_len =
     dex_bind (padded_words data_len) (\<lambda>view_words.
     dex_bind (check_assert StateFile 3089 (4 < view_words)) (\<lambda>_.
     let n = (view_words - 4) * 8 div 88 in
     if n < 128 then dex_fail EventQueueTooSmall
     else dex_ok \<lparr>header = \<lparr>eq_account_flags = AccountFlag_Initialized OR AccountFlag_EventQueue, eq_head = 0, eq_count = 0,
       seq_num = 0\<rparr>, buf = replicate n zero_event\<rparr>))"

definition init_order_book :: "u64 \<Rightarrow> nat \<Rightarrow> (u64 \<times> slab) dex" where
  "init_order_book flag data_len =
     dex_bind (padded_words data_len) (\<lambda>view_words.
     dex_bind (check_assert StateFile 3107 (1 < view_words)) (\<lambda>_.
     dex_bind (unwrap (zero_slab ((view_words - 1) * 8))) (\<lambda>s.
     dex_bind (assert_minimum_capacity s 100) (\<lambda>_.
     dex_ok (AccountFlag_Initialized OR flag, s)))))"

definition init_market_state :: "initialize_market_args \<Rightarrow> market_state" where
  "init_market_state a =
     \<lparr>ms_account_flags = AccountFlag_Initialized OR AccountFlag_Market OR
        (if ima_market_authority a \<noteq> None then AccountFlag_Permissioned OR
           (if ima_consume_events_authority a \<noteq> None then AccountFlag_CrankAuthorityRequired else 0) else 0),
      own_address = fst (ima_market a), vault_signer_nonce = im_vault_signer_nonce (ima_instruction a),
      coin_mint = ima_coin_mint a, pc_mint = ima_pc_mint a, coin_vault = ima_coin_vault a, coin_deposits_total = 0,
      coin_fees_accrued = 0, pc_vault = ima_pc_vault a, pc_deposits_total = 0, pc_fees_accrued = 0,
      pc_dust_threshold = im_pc_dust_threshold (ima_instruction a), ms_req_q = fst (ima_req_q a),
      ms_event_q = fst (ima_event_q a), ms_bids = fst (ima_bids a), ms_asks = fst (ima_asks a),
      coin_lot_size = im_coin_lot_size (ima_instruction a), pc_lot_size = im_pc_lot_size (ima_instruction a),
      fee_rate_bps = im_fee_rate_bps (ima_instruction a), referrer_rebates_accrued = 0\<rparr>"

definition process_initialize_market :: "initialize_market_args \<Rightarrow> new_market dex" where
  "process_initialize_market a =
     dex_bind (init_request_queue (snd (ima_req_q a))) (\<lambda>req_q.
     dex_bind (init_event_queue (snd (ima_event_q a))) (\<lambda>event_q.
     dex_bind (init_order_book AccountFlag_Bids (snd (ima_bids a))) (\<lambda>bids.
     dex_bind (init_order_book AccountFlag_Asks (snd (ima_asks a))) (\<lambda>asks.
     dex_bind (padded_words (snd (ima_market a))) (\<lambda>view_words.
     dex_bind (case ima_market_authority a of
          None \<Rightarrow> if view_words * 8 \<noteq> 376 then Some (Inl (assertion_error StateFile 3156))
            else dex_ok (V1 (init_market_state a))
        | Some oo_auth \<Rightarrow> if view_words * 8 \<noteq> 1464 then Some (Inl (assertion_error StateFile 3161))
            else dex_ok (V2 \<lparr>inner = init_market_state a, v2_open_orders_authority = oo_auth,
              v2_prune_authority = (case ima_prune_authority a of None \<Rightarrow> [0, 0, 0, 0] | Some p \<Rightarrow> p),
              v2_consume_events_authority = (case ima_consume_events_authority a of None \<Rightarrow> [0, 0, 0, 0] | Some c \<Rightarrow> c)\<rparr>)) (\<lambda>m.
     dex_ok \<lparr>nm_market = m, nm_req_q = req_q, nm_event_q = event_q, nm_bids = bids, nm_asks = asks\<rparr>))))))"

section \<open>A disabled market\<close>

lemma process_disable_flag: "bit (ms_account_flags (process_disable_market ms)) 7"
  by (simp add: process_disable_market_def bit_simps AccountFlag_Disabled_def)

text \<open>Both versions refuse a market that has the flag: \<open>check_enabled\<close> is never reached on it.\<close>

lemma disabled_flags:
  assumes "bit (ms_account_flags ms) 7"
  shows "ms_check_flags ms = dex_fail InvalidMarketFlags" "ms2_check_flags (v2\<lparr>inner := ms\<rparr>) = dex_fail InvalidMarketFlags"
proof -
  have "\<not> bit (AccountFlag_Initialized OR AccountFlag_Market) 7"
    "\<not> bit (AccountFlag_Initialized OR AccountFlag_Market OR AccountFlag_Permissioned) 7"
    by (simp_all add: bit_simps account_flag_defs)
  with assms show "ms_check_flags ms = dex_fail InvalidMarketFlags" "ms2_check_flags (v2\<lparr>inner := ms\<rparr>) = dex_fail InvalidMarketFlags"
    by (auto simp: ms_check_flags_def ms2_check_flags_def split: option.splits if_splits simp: account_flags_from_bits_def)
qed

text \<open>C9. A market that has been disabled cannot be loaded by any instruction any more: the check of the flags of either
  version refuses it, before \<open>check_enabled\<close> could.\<close>

theorem disabled_market_refused:
  "ms_check_flags (process_disable_market ms) = dex_fail InvalidMarketFlags \<and>
   ms2_check_flags (v2\<lparr>inner := process_disable_market ms\<rparr>) = dex_fail InvalidMarketFlags"
  using disabled_flags [OF process_disable_flag] by blast

end
