(* ===== verification/Dex_Steps.thy ===== *)
theory Dex_Steps
  imports Dex_Cancel Dex_Market
begin

text \<open>
  The exchange as a state machine: every instruction that a program of the chain can send to a market is a step, and
  the invariant of the exchange holds in every reachable state. In particular the vaults always cover what the traders
  can withdraw, and the traders' funds can always be consumed, cancelled and settled.
\<close>

section \<open>Fees, switches and accounts\<close>

definition sweep_fees :: "spl_token \<Rightarrow> pubkey \<Rightarrow> pubkey \<Rightarrow> exchange \<Rightarrow> exchange dex" where
  "sweep_fees spl fee_receiver signer x =
     dex_bind (process_sweep_fees spl (pc_vault (market_state (x_ob x))) fee_receiver signer (market_state (x_ob x)) (x_amounts x)) (\<lambda>(ms, bal).
     dex_ok (x\<lparr>x_ob := (x_ob x)\<lparr>market_state := ms\<rparr>, x_amounts := bal\<rparr>))"

definition disable_market :: "exchange \<Rightarrow> exchange" where
  "disable_market x = x\<lparr>x_ob := (x_ob x)\<lparr>market_state := process_disable_market (market_state (x_ob x))\<rparr>\<rparr>"

text \<open>A new account of zeroes, and the account of a trader who has nothing left in it.\<close>

definition blank_orders :: open_orders where
  "blank_orders = \<lparr>oo_account_flags = 0, oo_market = [], oo_owner = [], native_coin_free = 0, native_coin_total = 0, native_pc_free = 0,
     native_pc_total = 0, free_slot_bits = 0, is_bid_bits = 0, oo_orders = replicate 128 0, client_order_ids = replicate 128 0,
     oo_referrer_rebates_accrued = 0\<rparr>"

definition open_account :: "pubkey \<Rightarrow> pubkey \<Rightarrow> exchange \<Rightarrow> exchange dex" where
  "open_account w owner x =
     (case map_of (x_orders x) w of
        None \<Rightarrow> dex_bind (oo_init blank_orders (own_address (market_state (x_ob x))) owner) (\<lambda>oo.
          dex_ok (x\<lparr>x_orders := (w, oo) # x_orders x\<rparr>))
      | Some _ \<Rightarrow> dex_ok x)"

definition close_account :: "pubkey \<Rightarrow> exchange \<Rightarrow> exchange dex" where
  "close_account w x =
     dex_bind (load_account w (x_orders x)) (\<lambda>oo.
     if free_slot_bits oo \<noteq> - 1 then dex_fail TooManyOpenOrders
     else if native_coin_total oo \<noteq> 0 then dex_fail TooManyOpenOrders
     else if native_pc_total oo \<noteq> 0 then dex_fail TooManyOpenOrders
     else dex_ok (x\<lparr>x_orders := AList.delete w (x_orders x)\<rparr>))"

lemma books_ok_market:
  assumes "books_ok orders seq e" "ob e' = (ob e)\<lparr>market_state := ms'\<rparr>" "evq e' = evq e"
    and "coin_lot_size ms' = coin_lot_size (market_state (ob e))" "pc_lot_size ms' = pc_lot_size (market_state (ob e))"
    and "coin_deposits_total ms' = coin_deposits_total (market_state (ob e))" "pc_deposits_total ms' = pc_deposits_total (market_state (ob e))"
    and "referrer_rebates_accrued ms' = referrer_rebates_accrued (market_state (ob e))"
  shows "books_ok orders seq e'"
proof -
  have lists: "orders_mut (ob e') s = orders_mut (ob e) s" for s using assms(2) by (cases s) simp_all
  have "side_worth ms' s = side_worth (market_state (ob e)) s" for s
    using assms(4,5) by (auto simp: fun_eq_iff side_worth_def side_unit_def split: side.splits)
  then have "ledger_ok orders e' = ledger_ok orders e"
    using assms(2,3,6-8) by (simp add: ledger_ok_def locked_def Let_def)
  moreover have "lots_ok ms'" using assms(1,4,5) by (simp add: books_ok_def engine_ok_def lots_ok_def)
  ultimately show ?thesis using assms(1) invariants_cong [OF assms(2,3)] by (simp add: books_ok_def)
qed

lemma disable_market_ok: "exchange_ok x \<Longrightarrow> exchange_ok (disable_market x)"
  unfolding exchange_ok_books
  by (auto simp: disable_market_def process_disable_market_def vaults_ok_def engine_of_def intro: books_ok_market)

text \<open>Nobody has an order or an event without an account.\<close>

lemma unknown_owner:
  assumes "slots_ok (slots_of orders) seq e" "map_of orders w = None"
  shows "locked side e w = 0"
proof -
  have "leaf_owner x \<noteq> w" if "x \<in> set (side_list e s)" for x s
  proof -
    have "slots_of orders (leaf_ref x) \<noteq> None" using assms(1) that by (auto simp: slots_ok_def refs_ok_def)
    then show ?thesis using assms(2) by (auto simp: slots_of_def leaf_ref_def)
  qed
  moreover have "view_owner v \<noteq> w" if "v \<in> set (pending e)" for v
    using pending_account [OF assms(1) that] assms(2) by (auto simp: map_of_eq_None_iff)
  ultimately show ?thesis by (simp add: locked_def owned_def)
qed

lemma open_account_ok:
  assumes "open_account w owner x = Some (Inr x')" "exchange_ok x"
  shows "exchange_ok x'"
proof (cases "map_of (x_orders x) w")
  case None
  let ?oo = "blank_orders\<lparr>oo_account_flags := AccountFlag_Initialized OR AccountFlag_OpenOrders,
    oo_market := own_address (market_state (x_ob x)), oo_owner := owner, free_slot_bits := - 1\<rparr>"
  have x': "x' = x\<lparr>x_orders := (w, ?oo) # x_orders x\<rparr>"
    using assms(1) None by (auto simp: open_account_def oo_init_def blank_orders_def dex_result)
  note ok = assms(2) [unfolded exchange_ok_def]
  have none: "oo_slots ?oo = (\<lambda>_. None)" "oo_ok ?oo" by (auto simp: oo_slots_def oo_ok_def blank_orders_def)
  have "slots_of (x_orders x') = slots_of (x_orders x)"
    using None none(1) by (auto simp: x' slots_of_def fun_eq_iff)
  moreover have "engine_of x' = engine_of x" by (simp add: x' engine_of_def)
  moreover have "ledger_ok (x_orders x') (engine_of x)"
    using ok unknown_owner [of "x_orders x" _ "engine_of x" w] None by (auto simp: x' ledger_ok_def Let_def blank_orders_def)
  moreover have "accounts_ok (x_orders x')" using ok None none(2) by (auto simp: x' accounts_ok_def map_of_eq_None_iff)
  ultimately show ?thesis using ok by (simp add: exchange_ok_def x')
next
  case (Some oo)
  then show ?thesis using assms by (simp add: open_account_def dex_result)
qed

lemma delete_eq_filter: "AList.delete w orders = filter (\<lambda>a. fst a \<noteq> w) orders"
  by (induction orders) auto

lemma accounts_total_delete:
  assumes "distinct (map fst orders)" "map_of orders w = Some oo"
  shows "accounts_total f orders = f oo + accounts_total f (AList.delete w orders)"
  using assms
proof (induction orders)
  case (Cons a orders)
  then show ?case
    by (cases "fst a = w") (auto simp: delete_idem image_iff)
qed simp

lemma close_account_ok:
  assumes "close_account w x = Some (Inr x')" "exchange_ok x"
  shows "exchange_ok x'"
proof -
  obtain oo where oo: "map_of (x_orders x) w = Some oo" "free_slot_bits oo = - 1" "native_coin_total oo = 0" "native_pc_total oo = 0"
    and x': "x' = x\<lparr>x_orders := AList.delete w (x_orders x)\<rparr>"
    using assms(1) unfolding close_account_def dex_result load_account_ok dex_if_fail by auto
  note ok = assms(2) [unfolded exchange_ok_def]
  have none: "oo_slots oo = (\<lambda>_. None)" using oo(2) by (simp add: oo_slots_def fun_eq_iff)
  have "slots_of (x_orders x') = slots_of (x_orders x)"
    using oo(1) none by (auto simp: x' slots_of_def fun_eq_iff delete_conv')
  moreover have "engine_of x' = engine_of x" by (simp add: x' engine_of_def)
  moreover have "ledger_ok (x_orders x') (engine_of x)"
    using ok oo accounts_total_delete [of "x_orders x" w oo]
    by (auto simp: x' ledger_ok_def Let_def accounts_ok_def delete_conv' split: if_splits)
  moreover have "accounts_ok (x_orders x')"
    using ok by (auto simp: x' accounts_ok_def distinct_map_filter delete_eq_filter)
  ultimately show ?thesis using ok by (simp add: exchange_ok_def x')
qed

section \<open>A new market\<close>

definition opened :: "new_market \<Rightarrow> amounts \<Rightarrow> exchange" where
  "opened n bal =
     \<lparr>x_ob = \<lparr>bids = snd (nm_bids n), asks = snd (nm_asks n), market_state = market_deref (nm_market n)\<rparr>,
      x_evq = nm_event_q n, x_reqq = nm_req_q n, x_orders = [], x_amounts = bal\<rparr>"

text \<open>An account has at most 10 MiB. The instruction itself does not refuse a lot size of zero, nor one vault for both
  currencies.\<close>

definition market_args_ok :: "initialize_market_args \<Rightarrow> bool" where
  "market_args_ok a \<longleftrightarrow>
     0 < im_coin_lot_size (ima_instruction a) \<and> 0 < im_pc_lot_size (ima_instruction a) \<and> ima_coin_vault a \<noteq> ima_pc_vault a \<and>
     snd (ima_event_q a) \<le> 10485760"

lemma init_event_queue_ok:
  assumes "init_event_queue n = Some (Inr q)" "n \<le> 10485760"
  shows "queue_ok q" "pending_of q = []"
proof -
  have "eq_count (header q) = 0" "eq_head (header q) = 0" "buf q \<noteq> []" "length (buf q) \<le> n"
    using assms(1) by (auto simp: init_event_queue_def padded_words_def dex_result Let_def split: if_splits)
  then show "queue_ok q" "pending_of q = []"
    using assms(2) by (auto simp: queue_ok_def q_ok_def q_items_def event_header_def pending_of_def)
qed

lemma init_order_book_ok:
  assumes "init_order_book f n = Some (Inr (g, s))"
  shows "slab_ok s" "slab_orders s = []"
proof -
  have s: "slab_clear s = s" "leaf_count s = 0"
    using assms by (auto simp: init_order_book_def dex_result zero_slab_def slab_clear_def split: if_splits)
  then have "slab_tree s None" using pool_clear [of s] by (simp add: slab_tree_def)
  then show "slab_ok s" "slab_orders s = []" by (auto simp: slab_ok_def slab_orders_tree)
qed

lemma opened_ok:
  assumes "process_initialize_market a = Some (Inr n)" "market_args_ok a"
  shows "exchange_ok (opened n bal)"
proof -
  obtain q bf bs af as where q: "init_event_queue (snd (ima_event_q a)) = Some (Inr q)" "nm_event_q n = q"
    and b: "init_order_book AccountFlag_Bids (snd (ima_bids a)) = Some (Inr (bf, bs))" "nm_bids n = (bf, bs)"
    and c: "init_order_book AccountFlag_Asks (snd (ima_asks a)) = Some (Inr (af, as))" "nm_asks n = (af, as)"
    and m: "market_deref (nm_market n) = init_market_state a"
    using assms(1) by (auto simp: process_initialize_market_def dex_result market_deref_def split: option.splits if_splits)
  have "snd (ima_event_q a) \<le> 10485760" using assms(2) by (simp add: market_args_ok_def)
  note q' = init_event_queue_ok [OF q(1) this] and b' = init_order_book_ok [OF b(1)] and c' = init_order_book_ok [OF c(1)]
  have "pending_of (nm_event_q n) = []" unfolding q(2) by (rule q'(2))
  then have lists: "pending (engine_of (opened n bal)) = []" "\<And>s. side_list (engine_of (opened n bal)) s = []"
    using b b' c c' by (simp_all add: opened_def engine_of_def orders_mut_def split: side.splits)
  have "engine_ok (engine_of (opened n bal))"
    using q q' b b' c c' assms(2) m
    by (simp add: engine_ok_def opened_def engine_of_def bid_list_def ask_list_def uncrossed_def market_args_ok_def lots_ok_def init_market_state_def)
  moreover have "slots_of [] = (\<lambda>_. None)" by (auto simp: slots_of_def fun_eq_iff)
  then have "slots_ok (slots_of []) seq (engine_of (opened n bal))" for seq
    using lists by (simp add: slots_ok_def refs_ok_def table_inj_def)
  moreover have "ledger_ok [] (engine_of (opened n bal))" "vaults_ok (market_state (x_ob (opened n bal))) bal"
    using lists assms(2) m by (simp_all add: ledger_ok_def vaults_ok_def opened_def engine_of_def init_market_state_def market_args_ok_def)
  ultimately show ?thesis by (simp add: exchange_ok_def accounts_ok_def opened_def)
qed

context token_program
begin

lemma sweep_fees_ok:
  assumes "sweep_fees spl fee_receiver signer x = Some (Inr x')" "exchange_ok x"
  shows "exchange_ok x'"
proof -
  let ?ms = "market_state (x_ob x)"
  obtain bal where s: "send_from_vault spl (pc_fees_accrued ?ms) fee_receiver (pc_vault ?ms) signer (x_amounts x) = Some (Inr bal)"
    and x': "x' = x\<lparr>x_ob := (x_ob x)\<lparr>market_state := ?ms\<lparr>pc_fees_accrued := 0\<rparr>\<rparr>, x_amounts := bal\<rparr>"
    using assms(1) by (auto simp: sweep_fees_def process_sweep_fees_def dex_result)
  have "books_ok (x_orders x) (next_seq_num (header (x_reqq x))) (engine_of x')"
    using assms(2) unfolding exchange_ok_books by (auto intro: books_ok_market simp: x' engine_of_def)
  moreover have "vaults_ok (market_state (x_ob x')) bal"
    using assms(2) send_ok(2) [OF s] send_ok(3) [OF s, of "coin_vault ?ms"] by (auto simp: exchange_ok_books vaults_ok_def x')
  ultimately show ?thesis by (simp add: exchange_ok_books x')
qed

end

section \<open>The state machine\<close>

text \<open>Orders are for a positive quantity at a 64 bit price and are paid from a wallet: a vault is owned by the program's
  signer, which signs for no order. What happens to other token accounts leaves the vaults as they are, or adds to them.\<close>

inductive exchange_step :: "spl_token \<Rightarrow> exchange \<Rightarrow> exchange \<Rightarrow> bool" for spl where
  step_order: "exchange_step spl x x'" if "place_order spl i w owner payer tier x = Some (Inr x')" "0 < ni_max_coin_qty i"
    "ni_limit_price i \<le> u64_max" "payer \<noteq> coin_vault (market_state (x_ob x))" "payer \<noteq> pc_vault (market_state (x_ob x))"
| step_crank: "exchange_step spl x x'" if "crank accounts limit x = Some (Inr x')"
| step_cancel: "exchange_step spl x x'" if "cancel side order_id w x = Some (Inr x')"
| step_cancel_by_client_id: "exchange_step spl x x'" if "cancel_by_client_id client_id w x = Some (Inr x')"
| step_prune: "exchange_step spl x x'" if "prune limit w x = Some (Inr x')"
| step_settle: "exchange_step spl x x'" if "settle spl w coin_wallet pc_wallet signer referrer x = Some (Inr x')"
| step_sweep: "exchange_step spl x x'" if "sweep_fees spl fee_receiver signer x = Some (Inr x')"
| step_disable: "exchange_step spl x (disable_market x)"
| step_open: "exchange_step spl x x'" if "open_account w owner x = Some (Inr x')"
| step_close: "exchange_step spl x x'" if "close_account w x = Some (Inr x')"
| step_tokens: "exchange_step spl x (x\<lparr>x_amounts := bal\<rparr>)"
    if "x_amounts x (coin_vault (market_state (x_ob x))) \<le> bal (coin_vault (market_state (x_ob x)))"
      "x_amounts x (pc_vault (market_state (x_ob x))) \<le> bal (pc_vault (market_state (x_ob x)))"

inductive exchange_reachable :: "spl_token \<Rightarrow> exchange \<Rightarrow> bool" for spl where
  reachable_opened: "exchange_reachable spl (opened n bal)" if "process_initialize_market a = Some (Inr n)" "market_args_ok a"
| reachable_step: "exchange_reachable spl x'" if "exchange_reachable spl x" "exchange_step spl x x'"

context token_program
begin

lemma step_ok: "exchange_step spl x x' \<Longrightarrow> exchange_ok x \<Longrightarrow> exchange_ok x'"
proof (induction rule: exchange_step.induct)
  case (step_order i w owner payer tier x x')
  then show ?case using place_order_ok by blast
next
  case (step_tokens x bal)
  then show ?case by (simp add: exchange_ok_books vaults_ok_def engine_of_def)
qed (blast intro: crank_ok cancel_ok cancel_by_client_id_ok prune_ok settle_ok sweep_fees_ok disable_market_ok open_account_ok
    close_account_ok)+

lemma reachable_ok: "exchange_reachable spl x \<Longrightarrow> exchange_ok x"
  by (induction rule: exchange_reachable.induct) (auto intro: opened_ok step_ok)

end

section \<open>A token program\<close>

definition reference_token :: spl_token where
  "reference_token =
     \<lparr>spl_transfer = (\<lambda>src dst authority n bal.
        if bal src < n then Inl (Custom 1)
        else if src = dst then Inr bal
        else if u64_max < bal dst + n then Inl (Custom 14)
        else Inr (bal(src := bal src - n, dst := bal dst + n))), insufficient_funds_code = 1\<rparr>"

interpretation rt: token_program reference_token "\<lambda>_ _ _. True"
  by unfold_locales (auto simp: reference_token_def split: if_splits)

end
