(* ===== verification/Dex_Sample.thy ===== *)
theory Dex_Sample
  imports Dex_Steps
begin

text \<open>
  A market with one trader, on which the guarantees of the exchange are applied: an ask of three lots rests on the book,
  the event that ends an ask of one lot is pending, and the account has free funds in both currencies and a rebate.
\<close>

definition sample_key :: "nat \<Rightarrow> pubkey" where
  "sample_key i = [0, 0, 0, i]"

definition sample_market :: market_state where
  "sample_market =
     \<lparr>ms_account_flags = 3, own_address = sample_key 1, vault_signer_nonce = 0, coin_mint = sample_key 7, pc_mint = sample_key 9,
      coin_vault = sample_key 6, coin_deposits_total = 45, coin_fees_accrued = 0, pc_vault = sample_key 8, pc_deposits_total = 7,
      pc_fees_accrued = 1, pc_dust_threshold = 0, ms_req_q = sample_key 2, ms_event_q = sample_key 3, ms_bids = sample_key 4,
      ms_asks = sample_key 5, coin_lot_size = 10, pc_lot_size = 1, fee_rate_bps = 0, referrer_rebates_accrued = 2\<rparr>"

definition sample_leaf :: leaf_node where
  "sample_leaf = leaf_new 0 92233720368547758080 (sample_key 20) 3 Base 77"

definition sample_out :: event_view where
  "sample_out = Out \<lparr>o_side = Ask, o_release_funds = True, o_native_qty_unlocked = 10, o_native_qty_still_locked = 0,
     o_order_id = 92233720368547758081, o_owner = sample_key 20, o_owner_slot = 1, o_client_order_id = None\<rparr>"

definition sample_account :: open_orders where
  "sample_account = blank_orders\<lparr>oo_account_flags := 5, oo_market := sample_key 1, oo_owner := sample_key 30, native_coin_free := 5,
     native_coin_total := 45, native_pc_free := 7, native_pc_total := 7, free_slot_bits := - 4,
     oo_orders := 92233720368547758080 # 92233720368547758081 # replicate 126 0, client_order_ids := 77 # replicate 127 0,
     oo_referrer_rebates_accrued := 2\<rparr>"

definition sample_exchange :: exchange where
  "sample_exchange =
     \<lparr>x_ob = \<lparr>bids = \<lparr>bump_index = 0, free_list_len = 0, free_list_head = 0, root_node = 0, leaf_count = 0, nodes = replicate 3 OtherNode\<rparr>,
        asks = \<lparr>bump_index = 1, free_list_len = 0, free_list_head = 0, root_node = 0, leaf_count = 1,
          nodes = [LeafNode sample_leaf, OtherNode, OtherNode]\<rparr>, market_state = sample_market\<rparr>,
      x_evq = \<lparr>header = \<lparr>eq_account_flags = 17, eq_head = 0, eq_count = 1, seq_num = 1\<rparr>, buf = [event_new sample_out, zero_event]\<rparr>,
      x_reqq = \<lparr>header = \<lparr>rq_account_flags = 9, rq_head = 0, rq_count = 0, next_seq_num = 2\<rparr>, buf = [zero_request]\<rparr>,
      x_orders = [(sample_key 20, sample_account)],
      x_amounts = (\<lambda>k. if k = sample_key 6 then 45 else if k = sample_key 8 then 10 else 0)\<rparr>"

lemma sample_slabs:
  "slab_ok (bids (x_ob sample_exchange))" "slab_orders (bids (x_ob sample_exchange)) = []"
  "slab_ok (asks (x_ob sample_exchange))" "slab_orders (asks (x_ob sample_exchange)) = [sample_leaf]"
proof -
  have "slab_tree (bids (x_ob sample_exchange)) None"
    by (auto simp: slab_tree_def sample_exchange_def pool_def intro: exI [of _ "[]"])
  then show "slab_ok (bids (x_ob sample_exchange))" "slab_orders (bids (x_ob sample_exchange)) = []"
    by (auto simp: slab_ok_def slab_orders_tree)
  have "slab_tree (asks (x_ob sample_exchange)) (Some (CLeaf 0 sample_leaf))"
    by (auto simp: slab_tree_def sample_exchange_def pool_def intro: exI [of _ "[]"])
  then show "slab_ok (asks (x_ob sample_exchange))" "slab_orders (asks (x_ob sample_exchange)) = [sample_leaf]"
    by (auto simp: slab_ok_def slab_orders_tree)
qed

lemma sample_events: "queue_ok (x_evq sample_exchange)" "pending_of (x_evq sample_exchange) = [sample_out]"
proof -
  have "view_ok sample_out" by (simp add: view_ok_def sample_out_def)
  then show "queue_ok (x_evq sample_exchange)" "pending_of (x_evq sample_exchange) = [sample_out]"
    by (auto simp: queue_ok_def pending_of_def sample_exchange_def q_ok_def q_items_def event_header_def)
qed

lemma sample_price: "price_of sample_leaf = 5" "leaf_key sample_leaf = 92233720368547758080" "leaf_owner sample_leaf = sample_key 20"
  "leaf_quantity sample_leaf = 3" "leaf_owner_slot sample_leaf = 0" "leaf_ok sample_leaf" "leaf_client_order_id sample_leaf = 77"
  by (simp_all add: sample_leaf_def leaf_new_def price_of_def leaf_ok_def leaf_tier_def fee_tier_into_def fee_tier_try_from_def)

lemma sample_slots:
  "oo_ok sample_account"
  "oo_slots sample_account i =
     (if i = 0 then Some (Ask, 92233720368547758080, 77) else if i = 1 then Some (Ask, 92233720368547758081, 0) else None)"
proof -
  have bits: "bit (- 4 :: u128) j \<longleftrightarrow> j < 128 \<and> j \<noteq> 0 \<and> j \<noteq> 1" for j
  proof -
    have "bit (3 :: u128) j \<longleftrightarrow> j = 0 \<or> j = 1" by (cases j; cases "j - 1") (auto simp: bit_simps numeral_3_eq_3 bit_Suc)
    moreover have "(- 4 :: u128) = NOT 3" by simp
    ultimately show ?thesis by (simp only: bit_not_iff) auto
  qed
  show "oo_ok sample_account"
    by (auto simp: oo_ok_def sample_account_def blank_orders_def bits nth_Cons split: nat.splits)
  show "oo_slots sample_account i =
     (if i = 0 then Some (Ask, 92233720368547758080, 77) else if i = 1 then Some (Ask, 92233720368547758081, 0) else None)"
    using bits [of i] by (auto simp: oo_slots_def sample_account_def blank_orders_def)
qed

lemma sample_table:
  "slots_of (x_orders sample_exchange) r =
     (if r = (sample_key 20, 0) then Some (Ask, 92233720368547758080, Some 77)
      else if r = (sample_key 20, 1) then Some (Ask, 92233720368547758081, None) else None)"
  by (cases r) (simp add: slots_of_def sample_exchange_def sample_slots nonzero_def)

lemma sample_lists: "side_list (engine_of sample_exchange) s = (if s = Ask then [sample_leaf] else [])"
  "pending (engine_of sample_exchange) = [sample_out]"
  using sample_slabs sample_events by (cases s; simp add: engine_of_def)+

lemma sample_books:
  "slots_ok (slots_of (x_orders sample_exchange)) 2 (engine_of sample_exchange)"
  "ledger_ok (x_orders sample_exchange) (engine_of sample_exchange)"
proof -
  show "slots_ok (slots_of (x_orders sample_exchange)) 2 (engine_of sample_exchange)"
    unfolding slots_ok_def refs_ok_def table_inj_def placed_def sample_lists sample_table
    by (auto simp: sample_price leaf_ref_def leaf_entry_def nonzero_def sample_out_def view_ref_def view_order_def view_last_def id_seq_def
        split: if_splits)
  show "ledger_ok (x_orders sample_exchange) (engine_of sample_exchange)"
    unfolding ledger_ok_def locked_def sample_lists
    by (auto simp: Let_def sample_exchange_def engine_of_def sample_market_def sample_account_def sample_out_def view_defs owned_def
        sample_price side_worth_def side_unit_def split: if_splits)
qed

lemma sample_exchange_ok: "exchange_ok sample_exchange"
proof -
  have "engine_ok (engine_of sample_exchange)"
    using sample_slabs sample_events sample_price(6)
    by (simp add: engine_ok_def engine_of_def bid_list_def ask_list_def uncrossed_def lots_ok_def sample_exchange_def sample_market_def)
  moreover have "vaults_ok (market_state (x_ob sample_exchange)) (x_amounts sample_exchange)"
    by (simp add: vaults_ok_def sample_exchange_def sample_market_def sample_key_def)
  moreover have "accounts_ok (x_orders sample_exchange)" by (simp add: accounts_ok_def sample_exchange_def sample_slots)
  moreover have "next_seq_num (header (x_reqq sample_exchange)) = 2" by (simp add: sample_exchange_def)
  ultimately show ?thesis using sample_books by (simp add: exchange_ok_def)
qed

end
