(* ===== verification/Spec2Isabelle.thy ===== *)
theory Spec2Isabelle
  imports Num_Reference Lfu_Reference Entity_Reference Eth_Chain Eth_Call Dex_Guarantees
begin

text \<open>
  \<^bold>\<open>Verification of the Massbit indexer.\<close>

  The program indexes blockchains. A chain client turns a range of blocks into \<^emph>\<open>triggers\<close> (logs, calls
  and blocks that some data source of an indexer handles), the triggers are decoded and given to the
  mappings of the indexer, and the mappings read and write entities through a cache whose changes are
  written to the store once per block. The theories follow these parts from the bottom up.

  \<^bold>\<open>Conventions.\<close> A Rust \<open>Result\<close> is a sum with the error on the left, \<open>Option\<close> is
  \<^typ>\<open>'a option\<close>. A panic (an \<open>unwrap\<close> of nothing, an overflow of a checked operation, an
  index out of range) is a value of its own, \<open>None\<close> or \<open>Panicked\<close>, so that a theorem can say that
  there is none. Operations that may also run forever have type \<open>io\<close> of the prelude: \<open>None\<close>
  is the run that does not return. Machine integers are words, or integers with the range check of the
  code written out (in the exchange unsigned integers are natural numbers, and every
  operation that may overflow is checked, as in a build with overflow checks and debug assertions; a run
  without a panic is also the run of a build without them). A hash map that the code iterates over is an association list. Code outside the
  repository (the numeric, priority queue and ABI crates, the database, the Ethereum node) is a
  record of functions passed as an argument; what the theorems need of it is a locale with the documented
  laws, interpreted on an executable reference.

  \<^bold>\<open>Theories.\<close>

  \<^item> \<open>Prelude\<close>: results, faults, association lists, collections of simplification rules.

  \<^item> \<open>Scalar\<close>, \<open>Num_Reference\<close> (\<open>massbit/src/data/store/scalar.rs\<close>): \<open>BigDecimal\<close>
    normalisation, \<open>BigInt\<close> and \<open>Bytes\<close> conversions, with round trips and bounds.

  \<^item> \<open>Store_Value\<close> (\<open>massbit/src/data/store/mod.rs\<close>, \<open>components/store.rs\<close>): values,
    entities, merging and keys.

  \<^item> \<open>Lfu_Cache\<close>, \<open>Lfu_Reference\<close> (\<open>massbit/src/util/lfu_cache.rs\<close>): the
    frequency cache over a priority queue refines a finite map, keeps its weight and evicts the least used
    entries.

  \<^item> \<open>Entity_Cache\<close>, \<open>Entity_Reference\<close> (\<open>massbit/src/components/store.rs\<close>): reads
    see the writes of the running handler over those of the block over the store, and
    \<open>as_modifications\<close> gives the changes that bring the store to what the cache shows.

  \<^item> \<open>Block_Stream\<close> (\<open>massbit/src/blockchain\<close>): block pointers, the polling and the
    firehose stream as step functions, with progress, order and the two ways a stream panics after an
    error.

  \<^item> \<open>Eth_Trigger\<close> (\<open>massbit/src/components/ethereum/types.rs\<close>, \<open>trigger.rs\<close>): calls from
    traces, triggers, their order and the sorted triggers of a block.

  \<^item> \<open>Retry\<close> (\<open>massbit/src/util/futures.rs\<close>): the retry helper as a partial function; with a
    limit it always returns, without one exactly when an attempt is accepted.

  \<^item> \<open>Eth_Data_Source\<close> (\<open>chain/ethereum/src/data_source.rs\<close>): matching a trigger against the
    handlers of a data source and decoding it, validation, dynamic data sources.

  \<^item> \<open>Eth_Filter\<close> (\<open>chain/ethereum/src/adapter.rs\<close>): what the log, call and block filters built
    from data sources ask for.

  \<^item> \<open>Eth_Adapter\<close>, \<open>Eth_Chain\<close> (\<open>chain/ethereum/src/ethereum_adapter.rs\<close>,
    \<open>chain.rs\<close>): the definitions of the log stream, the trace stream, block loading and
    \<open>blocks_with_triggers\<close>, and their correctness against a node that follows its documentation
    (locale \<open>eth_chain\<close>).

  \<^item> \<open>Eth_Call\<close>: the classification of failed calls and the retried contract call.

  The second part is the copy of the Serum exchange under \<open>user-example/solana/so/serum/src/serum_dex\<close>,
  the program whose instructions the Serum indexer decodes:

  \<^item> \<open>Dex_Fees\<close> (\<open>fees.rs\<close>): the fixed point rates; the taker's fee exceeds both rebates, and
    removing the fee from an amount leaves enough to pay it.

  \<^item> \<open>Dex_Critbit\<close> (\<open>critbit.rs\<close>): the definitions of the node pool and of the critical bit tree in
    it. \<open>Dex_Bits\<close>, \<open>Dex_Slab\<close>, \<open>Dex_Tree\<close>, \<open>Dex_Book\<close> and \<open>Dex_Orders\<close>
    show that the pool never hands out a node twice and that the tree refines a list of orders sorted by
    key, of bounded length (locale \<open>order_store\<close>).

  \<^item> \<open>Dex_Error\<close> (\<open>error.rs\<close>): error codes, assertion errors and the result type of the program.

  \<^item> \<open>Dex_Queue\<close>, \<open>Dex_Events\<close> (\<open>state.rs\<close>): the ring buffers refine lists (locale
    \<open>queue_header\<close>), order identifiers sort by price and time, packed requests and events
    survive their views.

  \<^item> \<open>Dex_Open_Orders\<close> (\<open>state.rs\<close>): the balances of a trader and the bit maps of their order
    slots, a partial map.

  \<^item> \<open>Dex_Matching\<close> (\<open>matching.rs\<close>): the matching engine. \<open>Dex_Engine\<close>,
    \<open>Dex_Ledger\<close>, \<open>Dex_Trades\<close>, \<open>Dex_Refs\<close>, \<open>Dex_Rounds\<close> and
    \<open>Dex_New_Order\<close> show what a new order does: it is filled, posted or cancelled without a rest, conserves
    the funds of every trader and of the market, keeps the book uncrossed and keeps orders and events in agreement with
    the order slots of the traders.

  \<^item> \<open>Dex_Process\<close>, \<open>Dex_Market\<close> (\<open>state.rs\<close>): the processors of the instructions on
    parsed arguments, the versions and flags of markets and the opening of a market. Transfers of tokens are a parameter.

  \<^item> \<open>Dex_Exchange\<close>, \<open>Dex_Solvency\<close>, \<open>Dex_Settlement\<close>,
    \<open>Dex_Cancel\<close> and \<open>Dex_Steps\<close>: one market with the accounts of its traders as a state machine
    (\<open>exchange_step\<close>). Its invariant \<open>exchange_ok\<close> says that the book and the queues are well
    formed, that orders and events name the slots of their owners, that what is locked in an account is what its orders and
    pending events lock, that the deposits of the market are the totals of the accounts after the pending events, and
    that the vaults cover deposits, fees and rebates. Every step keeps it (locale \<open>token_program\<close> for the
    laws of a transfer). \<open>Dex_Guarantees\<close> draws the conclusions for traders, on examples from
    \<open>Dex_Sample\<close>.

  This theory joins the chain of results: a trigger that a data source decodes is delivered by the scan
  with the filter of the data sources.

  \<^bold>\<open>Bounds and fuel.\<close> Loops that may not end are partial functions, and their theorems prove that
  they return. The scan of logs shrinks its step by ten and gives up at step zero, which bounds its turns by
  the length of the range and the size of the step. The reference node answers from a finite list of
  blocks. The amounts of the exchange are natural numbers whose operations check 64 bits and panic where the source
  does, overflow checks of debug builds included; order identifiers are 128 bit words. The loops of the matching engine
  end with the limit of the instruction.

  \<^bold>\<open>Not modelled.\<close> Logging, metrics, caching of calls in the database, serialisation derived by
  macros, the bytes of Solana accounts and instructions and the lists of accounts of instructions, the WebAssembly runtime, the Postgres store, the servers and command line tools, and the Solana
  chain client.
\<close>

section \<open>Triggers reach the data sources that handle them\<close>

lemma decoded_log_wanted:
  assumes "ds \<in> set dss" "matches_trigger_address ds (TLog log)" "fires L ds b (TLog log) m"
  shows "wanted (trigger_filter_from_data_sources L dss) to (TLog log)"
proof -
  from assms(3) obtain h where h: "h \<in> set (mp_event_handlers (ds_mapping ds))" "log_topics log \<noteq> []"
      "hd (log_topics log) = topic0 L h"
    by auto
  then have "h \<in> set (filter (\<lambda>h. hd (log_topics log) = topic0 L h) (mp_event_handlers (ds_mapping ds)))"
    by simp
  moreover have "handlers_for_log L ds log =
      Inr (filter (\<lambda>h. hd (log_topics log) = topic0 L h) (mp_event_handlers (ds_mapping ds)))"
    using h(2) by (cases "log_topics log") (simp_all add: handlers_for_log_def)
  ultimately have "\<exists>h hs. handlers_for_log L ds log = Inr (h # hs)"
    by (metis list.exhaust list.set(1) empty_iff)
  then show ?thesis
    unfolding wanted.simps log_filter_iff using assms(1,2) by blast
qed

lemma decoded_call_wanted:
  assumes "ds \<in> set dss" "matches_trigger_address ds (TCall call)" "fires L ds b (TCall call) m"
    and "4 \<le> length (call_input call)" "ds_validate ds = []" "src_start_block (ds_source ds) \<le> to"
  shows "wanted (trigger_filter_from_data_sources L dss) to (TCall call)"
proof -
  from assms(3) obtain h where h: "h \<in> set (mp_call_handlers (ds_mapping ds))"
      "take 4 (call_input call) = method_id L (ch_function h)"
    by auto
  have "mp_call_handlers (ds_mapping ds) \<noteq> []" using h(1) by auto
  then obtain a where "src_address (ds_source ds) = Some a"
    using assms(5) by (auto simp: ds_validate_iff)
  with assms(2) have addr: "src_address (ds_source ds) = Some (call_to call)"
    by (simp add: matches_trigger_address_def)
  have "\<exists>h. handler_for_call L ds call = Inr (Some h)"
    unfolding handler_for_call_exists [OF assms(4)] using h by (intro bexI [of _ h]) simp_all
  with addr assms(1) have "call_matches (tf_call (trigger_filter_from_data_sources L dss)) call = Some True"
    unfolding call_filter_iff [OF assms(4)] by auto
  moreover obtain s sels where "(call_to call, s, sels) \<in> set (tf_call (trigger_filter_from_data_sources L dss))"
      "s \<le> src_start_block (ds_source ds)"
    by (rule call_filter_start [OF assms(1) addr h(1)])
  ultimately show ?thesis using assms(6) by (auto intro: order_trans)
qed

lemma decoded_block_wanted:
  assumes "ds \<in> set dss" "fires L ds b (TBlock ptr Every) m" "ds_validate ds = []"
  shows "wanted (trigger_filter_from_data_sources L dss) to (TBlock ptr Every)"
proof -
  from assms(2) obtain h where h: "h \<in> set (mp_block_handlers (ds_mapping ds))" "bh_filter h = None" by auto
  then have "mp_block_handlers (ds_mapping ds) \<noteq> []" by auto
  with assms(3) have "src_address (ds_source ds) \<noteq> None" by (auto simp: ds_validate_iff)
  with h assms(1) show ?thesis by (auto simp: block_filter_every)
qed

text \<open>C4. No trigger is missed. Scan a range of the chain with the filter made of some validated data
  sources: if one of them decodes a log, a call or a block of the range into a trigger for one of
  its mappings, then that log, call or block is among the triggers of its block in the result. Call
  filtered block triggers are the exception, which the filter never asks for.\<close>

theorem decoded_triggers_delivered:
  assumes chain: "eth_chain node cfg hash_at block_at logs_at traces_at"
    and range: "0 \<le> from" "from \<le> to" "to \<le> 1073741822"
    and perm: "\<And>xss. mset (done_order xss) = mset xss"
    and ok: "blocks_with_triggers done_order node cfg from to (trigger_filter_from_data_sources L dss) = io_ok bts"
    and t: "n \<in> {from..to}" "chain_trigger hash_at logs_at traces_at n t" "\<And>ptr a. t \<noteq> TBlock ptr (WithCallTo a)"
    and ds: "ds \<in> set dss" "ds_validate ds = []" "match_and_decode L ds t (block_at n) = Inr (Some m)"
  shows "\<exists>bt \<in> set bts. ebt_block bt = block_at n \<and> t \<in> set (ebt_triggers bt)"
proof -
  have "light_block_number (block_at n) = Some n"
    using t(1) range by (intro eth_chain.block_at_number [OF chain]) auto
  with match_and_decode_sound [OF ds(3)] have fires: "matches_trigger_address ds t" "fires L ds (block_at n) t m"
      "src_start_block (ds_source ds) \<le> n"
    by auto
  have "wanted (trigger_filter_from_data_sources L dss) to t"
  proof (cases t)
    case (TLog log)
    from ds(1) fires(1,2) show ?thesis unfolding TLog by (rule decoded_log_wanted)
  next
    case (TCall call)
    from t(2) obtain tr where "try_from_trace tr = Some call" by (auto simp: TCall dest!: mem_map_filterD)
    then have "4 \<le> length (call_input call)"
      by (auto simp: try_from_trace_def
          split: trace_action.splits option.splits trace_result.splits Option.bind_splits if_splits)
    moreover have "src_start_block (ds_source ds) \<le> to" using fires(3) t(1) by auto
    ultimately show ?thesis
      using ds(1) fires(1,2) ds(2) unfolding TCall by (intro decoded_call_wanted)
  next
    case (TBlock ptr ty)
    with t(3) have ty: "ty = Every" by (cases ty) auto
    from ds(1) fires(2) ds(2) show ?thesis unfolding TBlock ty by (rule decoded_block_wanted)
  qed
  with eth_chain.blocks_with_triggers_complete(3) [OF chain range perm ok t(1,2)] show ?thesis .
qed

theorem decoded_triggers_delivered_witness:
  "\<exists>bts. blocks_with_triggers id sample_node default_config 3 7 (trigger_filter_from_data_sources sample_lib [sample_ds]) =
       io_ok bts \<and>
     (\<exists>bt \<in> set bts. ebt_block bt = ref_block 5 \<and> TLog (hd (sample_logs_at 5)) \<in> set (ebt_triggers bt))"
proof -
  have "case blocks_with_triggers id sample_node default_config 3 7 (trigger_filter_from_data_sources sample_lib [sample_ds]) of
      Some (Inr bts) \<Rightarrow> True | _ \<Rightarrow> False"
    by code_simp
  then obtain bts where ok: "blocks_with_triggers id sample_node default_config 3 7
      (trigger_filter_from_data_sources sample_lib [sample_ds]) = io_ok bts"
    by (auto simp: io_ok_def split: option.splits sum.splits)
  have "case match_and_decode sample_lib sample_ds (TLog (hd (sample_logs_at 5))) (ref_block 5) of
      Inr (Some m) \<Rightarrow> True | _ \<Rightarrow> False"
    by code_simp
  then obtain m where decoded: "match_and_decode sample_lib sample_ds (TLog (hd (sample_logs_at 5))) (ref_block 5) = Inr (Some m)"
    by (auto split: option.splits sum.splits)
  have "ds_validate sample_ds = []" by code_simp
  moreover have "chain_trigger ref_hash sample_logs_at (\<lambda>_. []) 5 (TLog (hd (sample_logs_at 5)))"
    by (simp add: sample_logs_at_def)
  ultimately show ?thesis
    using decoded_triggers_delivered [OF ref.eth_chain_axioms _ _ _ _ ok, of 5 "TLog (hd (sample_logs_at 5))" sample_ds m]
      decoded ok by auto
qed

end
